(* ===== verification/Prelude.thy ===== *)
theory Prelude
  imports Main "HOL-Library.Word" "HOL-Library.Signed_Division"
begin

text \<open>
  Shared vocabulary of the development: how a C program stops early (\<open>halt\<close>), results that
  carry it (\<open>res\<close>), C strings inside byte buffers, 32-bit signed conversion, the decimal and
  octal conversions of \<open>printf\<close>, and the generic list facts the components use.

  Bytes are HOL \<open>char\<close>s (exactly 256 values), so a C string is a HOL \<open>string\<close> without its
  terminating NUL. Undefined behaviour of the C code (an access outside an array, a signed
  overflow, a division by zero) is the value \<open>Fault\<close>; a call of \<open>exit\<close> is \<open>Exit\<close>; a loop
  that does not end is \<open>Diverges\<close>, which a fuelled definition returns when its fuel is spent.
\<close>

named_theorems res_simps
named_theorems halt_simps
named_theorems mem_simps

section \<open>Results\<close>

datatype halt = Exit nat | Fault | Diverges

type_synonym 'a res = "halt + 'a"

fun res_bind :: "'a res \<Rightarrow> ('a \<Rightarrow> 'b res) \<Rightarrow> 'b res" where
  "res_bind (Inl h) f = Inl h"
| "res_bind (Inr x) f = f x"

lemma res_bind_Inr_iff [res_simps]:
  "res_bind m f = Inr y \<longleftrightarrow> (\<exists>x. m = Inr x \<and> f x = Inr y)"
  by (cases m) auto

lemma res_bind_Inl_iff [halt_simps]:
  "res_bind m f = Inl h \<longleftrightarrow> m = Inl h \<or> (\<exists>x. m = Inr x \<and> f x = Inl h)"
  by (cases m) auto

lemma res_bind_assoc: "res_bind (res_bind m f) g = res_bind m (\<lambda>x. res_bind (f x) g)"
  by (cases m) auto

lemma res_bind_Inr_right [simp]: "res_bind m Inr = m"
  by (cases m) auto

lemma res_bind_cong [fundef_cong]:
  "m = m' \<Longrightarrow> (\<And>x. m' = Inr x \<Longrightarrow> f x = f' x) \<Longrightarrow> res_bind m f = res_bind m' f'"
  by (cases m') auto

text \<open>A C \<open>for\<close> loop over a list of indices, with early stop.\<close>

fun fold_res :: "('a \<Rightarrow> 's \<Rightarrow> 's res) \<Rightarrow> 'a list \<Rightarrow> 's \<Rightarrow> 's res" where
  "fold_res f [] s = Inr s"
| "fold_res f (x # xs) s = res_bind (f x s) (fold_res f xs)"

lemma fold_res_append:
  "fold_res f (xs @ ys) s = res_bind (fold_res f xs s) (fold_res f ys)"
proof (induction xs arbitrary: s)
  case (Cons x xs)
  then show ?case by (cases "f x s") simp_all
qed simp

lemma fold_res_cong [fundef_cong]:
  "xs = ys \<Longrightarrow> s = t \<Longrightarrow> (\<And>x s. x \<in> set ys \<Longrightarrow> f x s = g x s) \<Longrightarrow> fold_res f xs s = fold_res g ys t"
proof (induction xs arbitrary: s t ys)
  case (Cons x xs)
  then show ?case by (cases ys) (auto intro!: res_bind_cong)
qed auto

lemma fold_res_invariant:
  assumes "fold_res f xs s = Inr t" and "P s"
    and "\<And>x s t. x \<in> set xs \<Longrightarrow> P s \<Longrightarrow> f x s = Inr t \<Longrightarrow> P t"
  shows "P t"
  using assms
proof (induction xs arbitrary: s)
  case (Cons x xs)
  from Cons.prems(1) obtain u where u: "f x s = Inr u" "fold_res f xs u = Inr t"
    by (auto simp: res_simps)
  with Cons.prems have "P u" by auto
  with Cons.IH [OF u(2)] Cons.prems(3) show ?case by auto
qed auto

lemma fold_res_total:
  assumes "\<And>x s. x \<in> set xs \<Longrightarrow> P s \<Longrightarrow> \<exists>t. f x s = Inr t \<and> P t" and "P s"
  shows "\<exists>t. fold_res f xs s = Inr t \<and> P t"
  using assms
proof (induction xs arbitrary: s)
  case (Cons x xs)
  then obtain u where u: "f x s = Inr u" "P u" by (meson list.set_intros(1))
  then show ?case using Cons.IH [of u] Cons.prems(1) by auto
qed auto

lemma fold_res_only_faults:
  assumes "\<And>x s. f x s = Inl Fault \<or> (\<exists>t. f x s = Inr t)"
  shows "fold_res f xs s = Inl Fault \<or> (\<exists>t. fold_res f xs s = Inr t)"
proof (induction xs arbitrary: s)
  case (Cons x xs)
  then show ?case using assms [of x s] by (cases "f x s") simp_all
qed simp

lemma fold_res_fault:
  assumes "\<And>x s. x \<in> set xs \<Longrightarrow> P s \<Longrightarrow> f x s = Inl Fault \<or> (\<exists>t. f x s = Inr t \<and> P t)"
    and "x0 \<in> set xs" and "\<And>s. P s \<Longrightarrow> f x0 s = Inl Fault" and "P s"
  shows "fold_res f xs s = Inl Fault"
  using assms(1,2,4)
proof (induction xs arbitrary: s)
  case (Cons x xs)
  show ?case
  proof (cases "f x s")
    case (Inl h)
    then show ?thesis using Cons.prems(1) [of x s] Cons.prems(3) by auto
  next
    case (Inr t)
    then have "P t" and "x \<noteq> x0" using Cons.prems(1) [of x s] Cons.prems(3) assms(3) [of s] by auto
    then have "fold_res f xs t = Inl Fault" using Cons.prems by (intro Cons.IH) auto
    then show ?thesis using Inr by simp
  qed
qed simp

lemma fold_res_map: "fold_res f (map g xs) s = fold_res (\<lambda>x. f (g x)) xs s"
  by (induction xs arbitrary: s) (auto intro: res_bind_cong)

lemma fold_res_concat: "fold_res f (concat xss) s = fold_res (fold_res f) xss s"
proof (induction xss arbitrary: s)
  case (Cons xs xss)
  then show ?case by (cases "fold_res f xs s") (simp_all add: fold_res_append)
qed simp

text \<open>Concatenating the outputs of a loop body, in order.\<close>

fun concat_res :: "('a \<Rightarrow> 'b list res) \<Rightarrow> 'a list \<Rightarrow> 'b list res" where
  "concat_res f [] = Inr []"
| "concat_res f (x # xs) =
     res_bind (f x) (\<lambda>a. res_bind (concat_res f xs) (\<lambda>b. Inr (a @ b)))"

lemma concat_res_Inr:
  "(\<And>x. x \<in> set xs \<Longrightarrow> f x = Inr (g x)) \<Longrightarrow> concat_res f xs = Inr (concat (map g xs))"
  by (induction xs) auto

section \<open>C strings in memory\<close>

abbreviation NUL :: char where
  "NUL \<equiv> CHR 0x00"

definition cstr_at :: "char list \<Rightarrow> nat \<Rightarrow> string option" where
  "cstr_at m a =
     (if NUL \<in> set (drop a m) then Some (takeWhile (\<lambda>c. c \<noteq> NUL) (drop a m)) else None)"

text \<open>What \<open>strncpy (dst, p, n)\<close> reads from \<open>p\<close>: at most \<open>n\<close> bytes, stopping at a NUL.\<close>

definition cstrn_at :: "char list \<Rightarrow> nat \<Rightarrow> nat \<Rightarrow> string option" where
  "cstrn_at m a n =
     (let w = take n (drop a m) in
      if NUL \<in> set w \<or> length w = n then Some (takeWhile (\<lambda>c. c \<noteq> NUL) w) else None)"

lemma length_cstrn_at: "cstrn_at m a n = Some s \<Longrightarrow> length s \<le> n"
  using length_takeWhile_le [of "\<lambda>c. c \<noteq> NUL" "take n (drop a m)"]
  by (auto simp: cstrn_at_def Let_def split: if_splits intro: order_trans)

definition byte_at :: "char list \<Rightarrow> int \<Rightarrow> char option" where
  "byte_at m a = (if 0 \<le> a \<and> a < int (length m) then Some (m ! nat a) else None)"

text \<open>\<open>strncmp (p, lit, strlen lit) == 0\<close> on memory that starts at \<open>p\<close>: \<open>None\<close> when the
  comparison runs off the memory.\<close>

fun mem_prefix :: "string \<Rightarrow> char list \<Rightarrow> bool option" where
  "mem_prefix [] m = Some True"
| "mem_prefix (c # cs) [] = None"
| "mem_prefix (c # cs) (d # ds) = (if c = d then mem_prefix cs ds else Some False)"

lemma mem_prefix_append [mem_simps]: "mem_prefix cs (cs @ m) = Some True"
  by (induction cs) auto

lemma mem_prefix_hd: "m \<noteq> [] \<Longrightarrow> hd m \<noteq> c \<Longrightarrow> mem_prefix (c # cs) m = Some False"
  by (cases m) auto

lemma mem_prefix_long:
  "length cs \<le> length m \<Longrightarrow> mem_prefix cs m = Some (take (length cs) m = cs)"
  by (induction cs m rule: mem_prefix.induct) auto

definition opt_res :: "'a option \<Rightarrow> 'a res" where
  "opt_res x = (case x of None \<Rightarrow> Inl Fault | Some y \<Rightarrow> Inr y)"

lemma opt_res_simps [simp]: "opt_res None = Inl Fault" "opt_res (Some y) = Inr y"
  by (simp_all add: opt_res_def)

lemma opt_res_Inr_iff [res_simps]: "opt_res x = Inr y \<longleftrightarrow> x = Some y"
  by (cases x) auto

lemma opt_res_Inl_iff [halt_simps]: "opt_res x = Inl h \<longleftrightarrow> x = None \<and> h = Fault"
  by (cases x) auto

lemma cstr_at_append_NUL [mem_simps]:
  "NUL \<notin> set s \<Longrightarrow> cstr_at (pre @ s @ NUL # post) (length pre) = Some s"
  by (simp add: cstr_at_def takeWhile_append)

lemma cstr_at_no_NUL: "cstr_at m a = Some s \<Longrightarrow> NUL \<notin> set s"
  by (auto simp: cstr_at_def split: if_splits dest: set_takeWhileD)

lemma byte_at_append [mem_simps]: "byte_at (pre @ c # post) (int (length pre)) = Some c"
  by (simp add: byte_at_def)

lemma byte_at_last [mem_simps]:
  assumes "s \<noteq> []"
  shows "byte_at (pre @ s @ post) (int (length pre) + int (length s) - 1) = Some (last s)"
proof -
  obtain s' c where "s = s' @ [c]" using assms by (cases s rule: rev_cases) auto
  then show ?thesis by (simp add: byte_at_def nth_append nat_add_distrib)
qed

section \<open>Objects in memory\<close>

text \<open>An access to an element of an object; outside of it is undefined.\<close>

definition poke :: "'a list \<Rightarrow> nat \<Rightarrow> 'a \<Rightarrow> 'a list res" where
  "poke m a v = (if a < length m then Inr (m[a := v]) else Inl Fault)"

definition peek :: "'a list \<Rightarrow> nat \<Rightarrow> 'a res" where
  "peek m a = (if a < length m then Inr (m ! a) else Inl Fault)"

text \<open>Writing one value after another, from place \<open>n\<close> on.\<close>

definition over :: "'a list \<Rightarrow> nat \<Rightarrow> 'a list \<Rightarrow> 'a list" where
  "over m n vs = take n m @ vs @ drop (n + length vs) m"

lemma length_over [simp]: "n + length vs \<le> length m \<Longrightarrow> length (over m n vs) = length m"
  by (simp add: over_def)

lemma over_Nil [simp]: "over m n [] = m"
  by (simp add: over_def)

lemma over_snoc:
  assumes "n + length vs < length m"
  shows "(over m n vs)[n + length vs := v] = over m n (vs @ [v])"
proof -
  have "drop (n + length vs) m = m ! (n + length vs) # drop (Suc (n + length vs)) m" using assms by (simp add: Cons_nth_drop_Suc)
  then show ?thesis using assms by (simp add: over_def list_update_append min_def)
qed

lemma poke_over: "n + length vs < length m \<Longrightarrow> poke (over m n vs) (n + length vs) v = Inr (over m n (vs @ [v]))"
  by (simp add: poke_def over_snoc)

lemma update_below_over: "i < b \<Longrightarrow> b \<le> length m \<Longrightarrow> (over m b vs)[i := v] = over (m[i := v]) b vs"
  by (simp add: over_def list_update_append take_update_swap drop_update_cancel)

lemma poke_below_over:
  assumes "a + length us < b" and "b + length vs \<le> length m"
  shows "poke (over (over m a us) b vs) (a + length us) u = Inr (over (over m a (us @ [u])) b vs)"
  using assms over_snoc [of a us m u] by (simp add: poke_def update_below_over)

section \<open>Integers\<close>

text \<open>A signed result that does not fit 32 bits is undefined.\<close>

definition c_int :: "int \<Rightarrow> int res" where
  "c_int v = (if - (2 ^ 31) \<le> v \<and> v < 2 ^ 31 then Inr v else Inl Fault)"

text \<open>Division of C: towards zero, and undefined for a zero divisor.\<close>

definition c_div :: "int \<Rightarrow> int \<Rightarrow> int res" where
  "c_div a b = (if b = 0 then Inl Fault else c_int (a sdiv b))"


text \<open>Conversion of a wider value to a 32-bit \<open>int\<close>, as gcc defines it.\<close>

definition wrap32 :: "int \<Rightarrow> int" where
  "wrap32 x = (x + 2 ^ 31) mod 2 ^ 32 - 2 ^ 31"

lemma wrap32_range: "- (2 ^ 31) \<le> wrap32 x \<and> wrap32 x < 2 ^ 31"
proof -
  have "0 \<le> (x + 2 ^ 31) mod 2 ^ 32" "(x + 2 ^ 31) mod 2 ^ 32 < (2 ^ 32 :: int)"
    by simp_all
  then show ?thesis unfolding wrap32_def by simp
qed

lemma wrap32_id [simp]: "- (2 ^ 31) \<le> x \<Longrightarrow> x < 2 ^ 31 \<Longrightarrow> wrap32 x = x"
  by (simp add: wrap32_def)

lemma word_eq_of_nat: "unat w = n \<Longrightarrow> w = of_nat n" for w :: "'a::len word"
  by (drule sym) simp

text \<open>The digits \<open>printf\<close> prints for a nonnegative number, most significant first.\<close>

fun nat_digits :: "nat \<Rightarrow> nat \<Rightarrow> string" where
  "nat_digits b n =
     (if b < 2 \<or> n < b then [char_of (48 + n)] else nat_digits b (n div b) @ [char_of (48 + n mod b)])"

declare nat_digits.simps [simp del]

definition fmt_i :: "int \<Rightarrow> string" where
  "fmt_i x = (if x < 0 then CHR ''-'' # nat_digits 10 (nat (- x)) else nat_digits 10 (nat x))"

definition fmt_o :: "int \<Rightarrow> string" where
  "fmt_o x = nat_digits 8 (nat (x mod 2 ^ 32))"

lemma nat_digits_nonempty [simp]: "nat_digits b n \<noteq> []"
  by (subst nat_digits.simps) simp

section \<open>Lists\<close>

lemma filter_upt_append_last: "filter P [0..<Suc n] = filter P [0..<n] @ (if P n then [n] else [])"
  by simp

lemma list_all_append_single: "list_all P (xs @ [x]) \<longleftrightarrow> list_all P xs \<and> P x"
  by simp

text \<open>\<open>intercalate sep [a, b, c] = a @ sep @ b @ sep @ c\<close>.\<close>

fun intercalate :: "'a list \<Rightarrow> 'a list list \<Rightarrow> 'a list" where
  "intercalate sep [] = []"
| "intercalate sep [x] = x"
| "intercalate sep (x # y # ys) = x @ sep @ intercalate sep (y # ys)"

lemma intercalate_Cons:
  "ys \<noteq> [] \<Longrightarrow> intercalate sep (x # ys) = x @ sep @ intercalate sep ys"
  by (cases ys) auto

lemma intercalate_snoc:
  "xs \<noteq> [] \<Longrightarrow> intercalate sep (xs @ [y]) = intercalate sep xs @ sep @ y"
  by (induction sep xs rule: intercalate.induct) auto

end
