(* ===== verification/Tar_Header.thy ===== *)
theory Tar_Header
  imports Prelude
begin

text \<open>
  The tar header of \<open>tools/fs2xml.c\<close>: the layout of the packed \<open>struct posix_header\<close>, the
  reads \<open>MergeFile\<close> and \<open>Untar\<close> make through a pointer to it, and the C library's
  \<open>strtol (s, NULL, 8)\<close>. A header is an offset \<open>q\<close> into the decompressed buffer \<open>buf\<close>; its
  character arrays are not NUL-terminated when full, and the model keeps that: a string read
  starts at the field and runs to the next NUL of the buffer.
\<close>

section \<open>Layout\<close>

datatype posix_field =
    Ph_name | Ph_mode | Ph_uid | Ph_gid | Ph_size | Ph_mtime | Ph_chksum | Ph_typeflag
  | Ph_linkname | Ph_magic | Ph_version | Ph_uname | Ph_gname | Ph_devmajor | Ph_devminor
  | Ph_prefix

fun field_size :: "posix_field \<Rightarrow> nat" where
  "field_size Ph_name = 100"
| "field_size Ph_mode = 8"
| "field_size Ph_uid = 8"
| "field_size Ph_gid = 8"
| "field_size Ph_size = 12"
| "field_size Ph_mtime = 12"
| "field_size Ph_chksum = 8"
| "field_size Ph_typeflag = 1"
| "field_size Ph_linkname = 100"
| "field_size Ph_magic = 6"
| "field_size Ph_version = 2"
| "field_size Ph_uname = 32"
| "field_size Ph_gname = 32"
| "field_size Ph_devmajor = 8"
| "field_size Ph_devminor = 8"
| "field_size Ph_prefix = 155"

definition posix_header :: "posix_field list" where
  "posix_header =
     [Ph_name, Ph_mode, Ph_uid, Ph_gid, Ph_size, Ph_mtime, Ph_chksum, Ph_typeflag,
      Ph_linkname, Ph_magic, Ph_version, Ph_uname, Ph_gname, Ph_devmajor, Ph_devminor,
      Ph_prefix]"

text \<open>The struct is packed, so a field starts where the sizes before it end.\<close>

definition field_off :: "posix_field \<Rightarrow> nat" where
  "field_off f = sum_list (map field_size (takeWhile (\<lambda>g. g \<noteq> f) posix_header))"

lemma field_off_simps [simp]:
  "field_off Ph_name = 0" "field_off Ph_mode = 100" "field_off Ph_uid = 108"
  "field_off Ph_gid = 116" "field_off Ph_size = 124" "field_off Ph_mtime = 136"
  "field_off Ph_chksum = 148" "field_off Ph_typeflag = 156" "field_off Ph_linkname = 157"
  "field_off Ph_magic = 257" "field_off Ph_version = 263" "field_off Ph_uname = 265"
  "field_off Ph_gname = 297" "field_off Ph_devmajor = 329" "field_off Ph_devminor = 337"
  "field_off Ph_prefix = 345"
  by (simp_all add: field_off_def posix_header_def)

text \<open>
  The offsets written as comments beside the fields of \<open>struct posix_header\<close> are the
  offsets the packed layout gives, every field is one of the sixteen listed once, and the whole
  header takes 500 bytes.
\<close>

theorem posix_header_layout:
  "map field_off posix_header =
     [0, 100, 108, 116, 124, 136, 148, 156, 157, 257, 263, 265, 297, 329, 337, 345]
   \<and> sum_list (map field_size posix_header) = 500
   \<and> distinct posix_header \<and> (\<forall>f. f \<in> set posix_header)"
proof -
  have "f \<in> set posix_header" for f
    by (cases f) (simp_all add: posix_header_def)
  then show ?thesis by (simp add: posix_header_def)
qed

section \<open>Reading fields\<close>

definition ph_str :: "char list \<Rightarrow> nat \<Rightarrow> posix_field \<Rightarrow> string res" where
  "ph_str buf q f = opt_res (cstr_at buf (q + field_off f))"

definition ph_byte :: "char list \<Rightarrow> nat \<Rightarrow> posix_field \<Rightarrow> char res" where
  "ph_byte buf q f = opt_res (byte_at buf (int (q + field_off f)))"

text \<open>\<open>strncmp (ph->magic, "ustar", 5) == 0\<close>\<close>

definition is_ustar :: "char list \<Rightarrow> nat \<Rightarrow> bool res" where
  "is_ustar buf q = opt_res (mem_prefix ''ustar'' (drop (q + field_off Ph_magic) buf))"

section \<open>strtol with base 8\<close>

definition is_space :: "char \<Rightarrow> bool" where
  "is_space c \<longleftrightarrow> c = CHR '' '' \<or> 9 \<le> (of_char c :: nat) \<and> (of_char c :: nat) \<le> 13"

definition is_oct :: "char \<Rightarrow> bool" where
  "is_oct c \<longleftrightarrow> 48 \<le> (of_char c :: nat) \<and> (of_char c :: nat) \<le> 55"

fun oct_value :: "string \<Rightarrow> int \<Rightarrow> int" where
  "oct_value [] acc = acc"
| "oct_value (c # cs) acc =
     (if is_oct c then oct_value cs (acc * 8 + (int (of_char c) - 48)) else acc)"

text \<open>The result saturates at the range of a 64-bit \<open>long\<close>.\<close>

definition clamp_long :: "int \<Rightarrow> int" where
  "clamp_long x = max (- (2 ^ 63)) (min (2 ^ 63 - 1) x)"

definition strtol8 :: "string \<Rightarrow> int" where
  "strtol8 s =
     (case dropWhile is_space s of
        [] \<Rightarrow> 0
      | c # cs \<Rightarrow>
          if c = CHR ''-'' then clamp_long (- oct_value cs 0)
          else if c = CHR ''+'' then clamp_long (oct_value cs 0)
          else clamp_long (oct_value (c # cs) 0))"

text \<open>A field read as a number and stored in an \<open>int\<close>.\<close>

definition ph_num :: "char list \<Rightarrow> nat \<Rightarrow> posix_field \<Rightarrow> int res" where
  "ph_num buf q f = res_bind (ph_str buf q f) (\<lambda>s. Inr (wrap32 (strtol8 s)))"

text \<open>What \<open>strtol\<close> reads back is what an octal printer wrote.\<close>

definition oct_char :: "nat \<Rightarrow> char" where
  "oct_char d = char_of (48 + d)"

fun oct_string :: "nat \<Rightarrow> nat \<Rightarrow> string" where
  "oct_string 0 n = []"
| "oct_string (Suc k) n = oct_string k (n div 8) @ [oct_char (n mod 8)]"

lemma of_char_oct_char: "d < 8 \<Longrightarrow> (of_char (oct_char d) :: nat) = 48 + d"
  by (simp add: oct_char_def)

lemma is_oct_oct_char: "d < 8 \<Longrightarrow> is_oct (oct_char d)"
  by (simp add: is_oct_def of_char_oct_char)

lemma length_oct_string [simp]: "length (oct_string k n) = k"
  by (induction k arbitrary: n) auto

lemma oct_string_oct: "c \<in> set (oct_string k n) \<Longrightarrow> is_oct c"
  by (induction k arbitrary: n) (auto simp: is_oct_oct_char)

lemma oct_value_append:
  "(\<And>c. c \<in> set s \<Longrightarrow> is_oct c) \<Longrightarrow> oct_value (s @ t) acc = oct_value t (oct_value s acc)"
  by (induction s arbitrary: acc) auto

lemma oct_value_oct_string:
  "n < 8 ^ k \<Longrightarrow> oct_value (oct_string k n) acc = acc * 8 ^ k + int n"
proof (induction k arbitrary: n acc)
  case (Suc k)
  then have small: "n div 8 < 8 ^ k" by (simp add: less_mult_imp_div_less mult.commute)
  have digit: "int (of_char (oct_char (n mod 8))) = 48 + int (n mod 8)"
    using of_char_oct_char [of "n mod 8"] by simp
  have split: "int (n mod 8) + 8 * int (n div 8) = int n" by presburger
  have "oct_value (oct_string (Suc k) n) acc
      = oct_value (oct_string k (n div 8)) acc * 8 + int (n mod 8)"
    by (simp add: oct_value_append oct_string_oct is_oct_oct_char digit)
  also have "\<dots> = acc * 8 ^ Suc k + int n"
    by (simp add: Suc.IH [OF small] algebra_simps split)
  finally show ?case .
qed simp

lemma oct_not_sign: "is_oct c \<Longrightarrow> c \<noteq> CHR ''-'' \<and> c \<noteq> CHR ''+'' \<and> \<not> is_space c \<and> c \<noteq> NUL"
  by (auto simp: is_oct_def is_space_def)

lemma dropWhile_space_oct:
  "(\<And>c. c \<in> set s \<Longrightarrow> is_oct c) \<Longrightarrow> dropWhile is_space s = s"
  using oct_not_sign by (cases s) auto

lemma oct_string_value:
  assumes "n < 8 ^ k" and "n < 2 ^ 63"
  shows "strtol8 (oct_string k n) = int n"
proof -
  have val: "oct_value (oct_string k n) 0 = int n"
    using oct_value_oct_string [OF assms(1), of 0] by simp
  have clamp: "clamp_long (int n) = int n"
    using assms(2) by (simp add: clamp_long_def)
  have drop: "dropWhile is_space (oct_string k n) = oct_string k n"
    by (rule dropWhile_space_oct) (rule oct_string_oct)
  show ?thesis
  proof (cases "oct_string k n")
    case Nil
    then show ?thesis using val drop by (simp add: strtol8_def)
  next
    case (Cons c cs)
    then have "is_oct c" using oct_string_oct [of c k n] by simp
    then show ?thesis
      using val clamp drop Cons oct_not_sign [of c] by (simp add: strtol8_def)
  qed
qed

text \<open>
  Reading an octal number back: for every number that fits its field and a 64-bit
  \<open>long\<close>, \<open>strtol (s, NULL, 8)\<close> applied to the number's zero-padded octal digits gives the number.
\<close>

theorem strtol8_oct_string:
  assumes "n < 8 ^ k" and "n < 2 ^ 63"
  shows "strtol8 (oct_string k n) = int n"
  using assms by (rule oct_string_value)

theorem strtol8_oct_string_witness:
  "(420::nat) < 8 ^ 7 \<and> (420::nat) < 2 ^ 63 \<and> strtol8 (oct_string 7 420) = 420"
  using strtol8_oct_string [of 420 7] by simp

end
