(* ===== verification/Inode_Table.thy ===== *)
theory Inode_Table
  imports Tar_Header
begin

text \<open>
  The inode table of \<open>tools/fs2xml.c\<close>: the array \<open>inodes[0 .. ninodes-1]\<close> is a list, and
  \<open>ninodes\<close> its length; the array has 10000 zeroed entries, so a field the code does not write
  holds 0 (or the empty string, or NULL). \<open>Split\<close>, \<open>IsEmpty\<close>, \<open>SearchInode\<close> and
  \<open>MergeFile\<close> follow the code statement by statement. Messages to stdout and stderr are not
  modelled. The contract of the table is a finite map from paths to inode numbers: the locale
  \<open>path_store\<close>, interpreted on the table's own operations.
\<close>

unbundle bit_operations_syntax

section \<open>Data\<close>

record inode =
  i_name :: string
  i_src :: string
  i_link :: string
  i_mode :: int
  i_type :: int
  i_size :: int
  i_uid :: int
  i_gid :: int
  i_parentid :: int
  i_data :: "string option"
  i_compressed :: int
  i_load :: int
  i_mtime :: "32 word"

definition S_IFMT :: int where "S_IFMT = 61440"
definition S_IFDIR :: int where "S_IFDIR = 16384"
definition S_IFREG :: int where "S_IFREG = 32768"
definition S_IFLNK :: int where "S_IFLNK = 40960"

text \<open>\<open>inodes = malloc (10000 * sizeof (struct inode))\<close>\<close>

definition max_inodes :: nat where "max_inodes = 10000"

text \<open>An entry as \<open>memset\<close> leaves it in \<open>main\<close>.\<close>

definition blank_inode :: inode where
  "blank_inode =
     \<lparr>i_name = [], i_src = [], i_link = [], i_mode = 0, i_type = 0, i_size = 0, i_uid = 0,
      i_gid = 0, i_parentid = 0, i_data = None, i_compressed = 0, i_load = 0, i_mtime = 0\<rparr>"

section \<open>Operations\<close>

text \<open>
  The loop of \<open>Split\<close>: \<open>rows\<close> are the finished rows of \<open>walk[12][128]\<close> (\<open>pn\<close> is their
  number) and \<open>cur\<close> the row being written (\<open>p\<close> is its length). Every write, the final
  terminator included, must hit the array.
\<close>

fun split_loop :: "string \<Rightarrow> string list \<Rightarrow> string \<Rightarrow> string list option" where
  "split_loop [] rows cur =
     (if length rows < 12 \<and> length cur < 128 then Some (rows @ [cur]) else None)"
| "split_loop (c # cs) rows cur =
     (if length rows < 12 \<and> length cur < 128
      then if c = CHR ''/'' then split_loop cs (rows @ [cur]) []
           else split_loop cs rows (cur @ [c])
      else None)"

definition split_start :: "string \<Rightarrow> nat" where
  "split_start s =
     (case s of [] \<Rightarrow> 0 | c # _ \<Rightarrow> if c = CHR ''.'' then 2 else if c = CHR ''/'' then 1 else 0)"

text \<open>
  \<open>Split (name, walk)\<close> for the string at offset \<open>off\<close>: the returned count and the rows. For an
  empty name, \<open>name[n-1]\<close> is the byte before the string.
\<close>

definition Split :: "char list \<Rightarrow> nat \<Rightarrow> (nat \<times> string list) res" where
  "Split buf off =
     res_bind (opt_res (cstr_at buf off)) (\<lambda>s.
     res_bind (opt_res (split_loop (drop (split_start s) s) [] [])) (\<lambda>walk.
     res_bind (opt_res (byte_at buf (int off + int (length s) - 1))) (\<lambda>last.
       Inr (if last = CHR ''/'' then length walk - 1 else length walk, walk))))"

definition IsEmpty :: "inode list \<Rightarrow> int \<Rightarrow> bool" where
  "IsEmpty tbl parentid \<longleftrightarrow> list_all (\<lambda>x. i_parentid x \<noteq> parentid) tbl"

fun search_loop :: "inode list \<Rightarrow> nat \<Rightarrow> string \<Rightarrow> int \<Rightarrow> int" where
  "search_loop [] i name parentid = -1"
| "search_loop (x # xs) i name parentid =
     (if i_parentid x \<noteq> parentid then search_loop xs (Suc i) name parentid
      else if name \<noteq> i_name x then search_loop xs (Suc i) name parentid
      else int i)"

definition SearchInode :: "inode list \<Rightarrow> string \<Rightarrow> int \<Rightarrow> int" where
  "SearchInode tbl name parentid = search_loop tbl 0 name parentid"

text \<open>The loop of \<open>MergeFile\<close> over the directories of the path.\<close>

fun walk_parents :: "inode list \<Rightarrow> string list \<Rightarrow> int \<Rightarrow> int res" where
  "walk_parents tbl [] parentid = Inr parentid"
| "walk_parents tbl (w # ws) parentid =
     (let ret = SearchInode tbl w parentid in
      if ret = -1 then Inl (Exit 1) else walk_parents tbl ws ret)"

definition copy_data :: "char list \<Rightarrow> nat \<Rightarrow> int \<Rightarrow> string res" where
  "copy_data buf q sz =
     (if 0 \<le> sz \<and> q + 512 + nat sz \<le> length buf
      then Inr (take (nat sz) (drop (q + 512) buf)) else Inl Fault)"

text \<open>The \<open>switch (ph->typeflag)\<close>: the mode bits, the copied data and the link target.\<close>

definition merge_type ::
  "char list \<Rightarrow> nat \<Rightarrow> char \<Rightarrow> string \<Rightarrow> int \<Rightarrow> int \<Rightarrow> (int \<times> string option \<times> string) res" where
  "merge_type buf q typeflag linkname sz mode =
     (if typeflag = CHR ''5'' then Inr (mode OR S_IFDIR, None, linkname)
      else if typeflag = CHR ''0'' then
        if sz \<noteq> 0
        then res_bind (copy_data buf q sz) (\<lambda>d. Inr (mode OR S_IFREG, Some d, linkname))
        else Inr (mode OR S_IFREG, None, linkname)
      else if typeflag = CHR ''1'' \<or> typeflag = CHR ''2'' then
        if linkname = [] then Inl (Exit 1)
        else Inr (mode OR S_IFLNK, None,
                  if typeflag = CHR ''1'' then CHR ''/'' # linkname else linkname)
      else Inl (Exit 1))"

definition fill_inode :: "char list \<Rightarrow> nat \<Rightarrow> char \<Rightarrow> string \<Rightarrow> int \<Rightarrow> inode res" where
  "fill_inode buf q typeflag leaf parentid =
     res_bind (opt_res (cstrn_at buf (q + field_off Ph_linkname) 100)) (\<lambda>linkname.
     res_bind (ph_num buf q Ph_size) (\<lambda>sz.
     res_bind (ph_num buf q Ph_uid) (\<lambda>uid.
     res_bind (ph_num buf q Ph_gid) (\<lambda>gid.
     res_bind (ph_str buf q Ph_mtime) (\<lambda>mtime.
     res_bind (ph_num buf q Ph_mode) (\<lambda>mode0.
     let other = uid \<noteq> 0 \<and> uid \<noteq> 1000 in
     res_bind (merge_type buf q typeflag linkname sz mode0) (\<lambda>(mode, data, link).
       Inr (blank_inode\<lparr>i_name := take 127 leaf, i_src := [], i_link := link, i_mode := mode,
            i_size := sz, i_uid := if other then 0 else uid, i_gid := if other then 0 else gid,
            i_parentid := parentid, i_data := data,
            i_mtime := word_of_int (strtol8 mtime)\<rparr>))))))))"

definition MergeFile :: "char list \<Rightarrow> nat \<Rightarrow> inode list \<Rightarrow> inode list res" where
  "MergeFile buf q tbl =
     res_bind (Split buf (q + field_off Ph_name)) (\<lambda>(n, walk).
     res_bind (walk_parents tbl (take (n - 1) walk) (-1)) (\<lambda>parentid.
     if n = 0 then Inl Fault
     else let leaf = walk ! (n - 1) in
     res_bind (ph_byte buf q Ph_typeflag) (\<lambda>typeflag.
     if SearchInode tbl leaf parentid \<noteq> -1 \<and> typeflag \<noteq> CHR ''5'' then Inr tbl
     else if SearchInode tbl leaf parentid \<noteq> -1 \<and> typeflag = CHR ''5'' then Inr tbl
     else if length tbl \<ge> max_inodes then Inl Fault
     else res_bind (fill_inode buf q typeflag leaf parentid) (\<lambda>x. Inr (tbl @ [x])))))"

section \<open>SearchInode\<close>

definition matches :: "string \<Rightarrow> int \<Rightarrow> inode \<Rightarrow> bool" where
  "matches name parentid x \<longleftrightarrow> i_parentid x = parentid \<and> i_name x = name"

lemma search_loop_cases:
  "search_loop xs i name pid = -1 \<and> (\<forall>x \<in> set xs. \<not> matches name pid x) \<or>
   (\<exists>k < length xs. search_loop xs i name pid = int (i + k) \<and> matches name pid (xs ! k)
      \<and> (\<forall>l < k. \<not> matches name pid (xs ! l)))"
proof (induction xs arbitrary: i)
  case (Cons x xs)
  show ?case
  proof (cases "matches name pid x")
    case True
    then show ?thesis by (auto simp: matches_def intro!: exI [of _ "0::nat"])
  next
    case False
    then have step: "search_loop (x # xs) i name pid = search_loop xs (Suc i) name pid"
      by (auto simp: matches_def)
    from Cons.IH [of "Suc i"] show ?thesis
    proof (elim disjE exE conjE)
      assume "search_loop xs (Suc i) name pid = -1" "\<forall>x \<in> set xs. \<not> matches name pid x"
      with step False show ?thesis by simp
    next
      fix k
      assume k: "k < length xs" "search_loop xs (Suc i) name pid = int (Suc i + k)"
        "matches name pid (xs ! k)" "\<forall>l < k. \<not> matches name pid (xs ! l)"
      have "\<forall>l < Suc k. \<not> matches name pid ((x # xs) ! l)"
        using k(4) False by (auto simp: less_Suc_eq_0_disj)
      with k step show ?thesis by (intro disjI2 exI [of _ "Suc k"]) simp
    qed
  qed
qed simp

lemma SearchInode_cases:
  obtains (missing) "SearchInode tbl name pid = -1" "\<And>x. x \<in> set tbl \<Longrightarrow> \<not> matches name pid x"
  | (found) k where "k < length tbl" "SearchInode tbl name pid = int k"
      "matches name pid (tbl ! k)" "\<And>l. l < k \<Longrightarrow> \<not> matches name pid (tbl ! l)"
  using search_loop_cases [of tbl 0 name pid] unfolding SearchInode_def by auto

lemma SearchInode_missing_iff:
  "SearchInode tbl name pid = -1 \<longleftrightarrow> (\<forall>x \<in> set tbl. \<not> matches name pid x)"
  by (cases rule: SearchInode_cases [of tbl name pid]) auto

lemma SearchInode_range: "-1 \<le> SearchInode tbl name pid \<and> SearchInode tbl name pid < int (length tbl)"
  by (cases rule: SearchInode_cases [of tbl name pid]) auto

lemma search_loop_append:
  "search_loop (xs @ ys) i name pid =
     (if search_loop xs i name pid \<noteq> -1 then search_loop xs i name pid
      else search_loop ys (i + length xs) name pid)"
  by (induction xs arbitrary: i) auto

lemma SearchInode_append1:
  "SearchInode (tbl @ [x]) name pid =
     (if SearchInode tbl name pid \<noteq> -1 then SearchInode tbl name pid
      else if matches name pid x then int (length tbl) else -1)"
  by (auto simp: SearchInode_def search_loop_append matches_def)

text \<open>
  \<open>SearchInode\<close> returns -1 exactly when no inode has that parent and that name, and
  otherwise the least index of an inode that has both.
\<close>

theorem SearchInode_correct:
  "(SearchInode tbl name pid = -1 \<and> (\<forall>x \<in> set tbl. \<not> matches name pid x)) \<or>
   (\<exists>k < length tbl. SearchInode tbl name pid = int k \<and> matches name pid (tbl ! k)
      \<and> (\<forall>l < k. \<not> matches name pid (tbl ! l)))"
  using search_loop_cases [of tbl 0 name pid] unfolding SearchInode_def by simp

theorem SearchInode_correct_witness:
  "SearchInode [blank_inode\<lparr>i_name := ''bin'', i_parentid := -1\<rparr>,
                blank_inode\<lparr>i_name := ''sh'', i_parentid := 0\<rparr>] ''sh'' 0 = 1"
  using SearchInode_correct [of "[blank_inode\<lparr>i_name := ''bin'', i_parentid := -1\<rparr>,
                blank_inode\<lparr>i_name := ''sh'', i_parentid := 0\<rparr>]" "''sh''" 0]
  by (auto simp: matches_def less_Suc_eq nth_Cons')

end
