(* ===== verification/Inode_Store.thy ===== *)
theory Inode_Store
  imports Inode_Table
begin

text \<open>
  The invariant of the inode table and its contract. \<open>wf_inodes\<close> says that every entry's
  parent comes before it (or is the root -1), that every string fits its array, that a regular
  file has exactly its data, and that no two entries share parent and name; \<open>MergeFile\<close> keeps it.
  Under it the table is a finite map from paths to inode numbers: the locale \<open>path_store\<close> states
  the laws, its interpretation \<open>inodes\<close> proves them for \<open>SearchInode\<close> and appending.
\<close>

unbundle bit_operations_syntax

section \<open>The interface: a map from paths to numbers\<close>

locale path_store =
  fixes resolve :: "'t \<Rightarrow> string list \<Rightarrow> int option"
    and insert :: "'t \<Rightarrow> 'e \<Rightarrow> 't"
    and fresh :: "'t \<Rightarrow> int"
    and parent :: "'e \<Rightarrow> int"
    and label :: "'e \<Rightarrow> string"
    and invar :: "'t \<Rightarrow> bool"
    and insertable :: "'t \<Rightarrow> 'e \<Rightarrow> bool"
  assumes resolve_root: "resolve t [] = Some (-1)"
    and invar_insert: "invar t \<Longrightarrow> insertable t e \<Longrightarrow> invar (insert t e)"
    and resolve_insert:
      "invar t \<Longrightarrow> insertable t e \<Longrightarrow>
       resolve (insert t e) p =
         (if p \<noteq> [] \<and> last p = label e \<and> resolve t (butlast p) = Some (parent e)
          then Some (fresh t) else resolve t p)"
    and insertable_free:
      "invar t \<Longrightarrow> insertable t e \<Longrightarrow> resolve t p = Some (parent e) \<Longrightarrow> resolve t (p @ [label e]) = None"
    and resolve_inj: "invar t \<Longrightarrow> resolve t p = Some i \<Longrightarrow> resolve t q = Some i \<Longrightarrow> p = q"
begin

lemma insert_keeps:
  assumes "invar t" "insertable t e" "resolve t p = Some i"
  shows "resolve (insert t e) p = Some i"
proof -
  have "\<not> (p \<noteq> [] \<and> last p = label e \<and> resolve t (butlast p) = Some (parent e))"
    using insertable_free [OF assms(1,2), of "butlast p"] assms(3)
    by (metis append_butlast_last_id option.distinct(1))
  then show ?thesis using resolve_insert [OF assms(1,2), of p] assms(3) by auto
qed

lemma insert_at:
  assumes "invar t" "insertable t e" "resolve t p = Some (parent e)"
  shows "resolve (insert t e) = (resolve t)(p @ [label e] \<mapsto> fresh t)"
proof
  fix r
  show "resolve (insert t e) r = ((resolve t)(p @ [label e] \<mapsto> fresh t)) r"
  proof (cases "r = p @ [label e]")
    case True
    then show ?thesis using resolve_insert [OF assms(1,2), of r] assms(3) by simp
  next
    case False
    have "\<not> (r \<noteq> [] \<and> last r = label e \<and> resolve t (butlast r) = Some (parent e))"
      using False resolve_inj [OF assms(1) assms(3), of "butlast r"]
      by (metis append_butlast_last_id)
    then show ?thesis using resolve_insert [OF assms(1,2), of r] False by auto
  qed
qed

end

section \<open>The invariant\<close>

definition is_reg :: "inode \<Rightarrow> bool" where
  "is_reg x \<longleftrightarrow> i_mode x AND S_IFMT = S_IFREG"

definition inode_ok :: "nat \<Rightarrow> inode \<Rightarrow> bool" where
  "inode_ok i x \<longleftrightarrow>
     -1 \<le> i_parentid x \<and> i_parentid x < int i \<and>
     length (i_name x) < 128 \<and> length (i_src x) < 128 \<and> length (i_link x) < 128 \<and>
     CHR ''/'' \<notin> set (i_name x) \<and>
     (is_reg x \<longrightarrow> i_size x = 0 \<or> (\<exists>d. i_data x = Some d \<and> int (length d) = i_size x))"

definition same_place :: "inode \<Rightarrow> inode \<Rightarrow> bool" where
  "same_place x y \<longleftrightarrow> i_parentid x = i_parentid y \<and> i_name x = i_name y"

definition wf_inodes :: "inode list \<Rightarrow> bool" where
  "wf_inodes tbl \<longleftrightarrow>
     length tbl \<le> max_inodes \<and>
     (\<forall>i < length tbl. inode_ok i (tbl ! i)) \<and>
     (\<forall>j < length tbl. \<forall>i < j. \<not> same_place (tbl ! i) (tbl ! j))"

definition insertable :: "inode list \<Rightarrow> inode \<Rightarrow> bool" where
  "insertable tbl x \<longleftrightarrow>
     length tbl < max_inodes \<and> inode_ok (length tbl) x \<and>
     SearchInode tbl (i_name x) (i_parentid x) = -1"

definition add_inode :: "inode list \<Rightarrow> inode \<Rightarrow> inode list" where
  "add_inode tbl x = tbl @ [x]"

lemma wf_inodes_Nil [simp]: "wf_inodes []"
  by (simp add: wf_inodes_def)

lemma wf_inodesD:
  assumes "wf_inodes tbl" and "i < length tbl"
  shows "inode_ok i (tbl ! i)" and "-1 \<le> i_parentid (tbl ! i)" and "i_parentid (tbl ! i) < int i"
    and "length (i_name (tbl ! i)) < 128" and "CHR ''/'' \<notin> set (i_name (tbl ! i))"
  using assms by (auto simp: wf_inodes_def inode_ok_def)

lemma wf_inodes_distinct:
  assumes "wf_inodes tbl" "i < length tbl" "j < length tbl"
    and "i_parentid (tbl ! i) = i_parentid (tbl ! j)" "i_name (tbl ! i) = i_name (tbl ! j)"
  shows "i = j"
  using assms unfolding wf_inodes_def same_place_def by (metis linorder_neqE_nat)

lemma wf_add_inode:
  assumes "wf_inodes tbl" and "insertable tbl x"
  shows "wf_inodes (add_inode tbl x)"
proof -
  have free: "\<not> same_place (tbl ! i) x" if "i < length tbl" for i
    using assms(2) nth_mem [OF that]
    by (auto simp: insertable_def SearchInode_missing_iff matches_def same_place_def)
  have "inode_ok i ((tbl @ [x]) ! i)" if "i < Suc (length tbl)" for i
    using assms that by (auto simp: wf_inodes_def insertable_def nth_append less_Suc_eq)
  moreover have "\<not> same_place ((tbl @ [x]) ! i) ((tbl @ [x]) ! j)"
    if "j < Suc (length tbl)" "i < j" for i j
    using assms that free by (auto simp: wf_inodes_def nth_append less_Suc_eq)
  ultimately show ?thesis
    using assms(2) by (simp add: wf_inodes_def add_inode_def insertable_def)
qed

section \<open>Paths\<close>

fun resolve_from :: "inode list \<Rightarrow> int \<Rightarrow> string list \<Rightarrow> int option" where
  "resolve_from tbl pid [] = Some pid"
| "resolve_from tbl pid (c # cs) =
     (let r = SearchInode tbl c pid in if r = -1 then None else resolve_from tbl r cs)"

definition resolve :: "inode list \<Rightarrow> string list \<Rightarrow> int option" where
  "resolve tbl p = resolve_from tbl (-1) p"

lemma walk_parents_resolve:
  "walk_parents tbl ws pid =
     (case resolve_from tbl pid ws of None \<Rightarrow> Inl (Exit 1) | Some i \<Rightarrow> Inr i)"
  by (induction ws arbitrary: pid) (auto simp: Let_def)

lemma resolve_from_append:
  "resolve_from tbl pid (p @ q) =
     (case resolve_from tbl pid p of None \<Rightarrow> None | Some i \<Rightarrow> resolve_from tbl i q)"
  by (induction p arbitrary: pid) (auto simp: Let_def)

lemma resolve_from_range:
  "-1 \<le> pid \<Longrightarrow> pid < int (length tbl) \<Longrightarrow> resolve_from tbl pid p = Some i \<Longrightarrow>
   -1 \<le> i \<and> i < int (length tbl)"
  using SearchInode_range by (induction p arbitrary: pid) (auto simp: Let_def split: if_splits)

lemma resolve_snoc:
  "resolve_from tbl pid (p @ [c]) = Some i \<longleftrightarrow>
     (\<exists>j. resolve_from tbl pid p = Some j \<and> SearchInode tbl c j = i \<and> i \<noteq> -1)"
  by (auto simp: resolve_from_append Let_def split: option.splits if_splits)

lemma SearchInode_found:
  assumes "SearchInode tbl c pid = int k"
  shows "k < length tbl \<and> i_parentid (tbl ! k) = pid \<and> i_name (tbl ! k) = c"
  using assms by (cases rule: SearchInode_cases [of tbl c pid]) (auto simp: matches_def)

lemma resolve_inj_aux:
  assumes "wf_inodes tbl"
  shows "resolve_from tbl (-1) p = Some i \<Longrightarrow> resolve_from tbl (-1) q = Some i \<Longrightarrow> p = q"
proof (induction p arbitrary: q i rule: rev_induct)
  case Nil
  then show ?case by (cases q rule: rev_cases) (auto simp: resolve_snoc)
next
  case (snoc c p)
  from snoc.prems(1) obtain j where j: "resolve_from tbl (-1) p = Some j"
    "SearchInode tbl c j = i" "i \<noteq> -1" by (auto simp: resolve_snoc)
  then obtain d q' where q: "q = q' @ [d]"
    using snoc.prems by (cases q rule: rev_cases) auto
  with snoc.prems(2) obtain l where l: "resolve_from tbl (-1) q' = Some l"
    "SearchInode tbl d l = i" by (auto simp: resolve_snoc)
  obtain k where "i = int k" using j SearchInode_range [of tbl c j] nonneg_int_cases [of i] by auto
  with SearchInode_found j(2) l(2) have "j = l" "c = d" by metis+
  with snoc.IH j(1) l(1) q show ?case by simp
qed

lemma SearchInode_new_parent:
  assumes "wf_inodes tbl" and "i_parentid x < int (length tbl)"
  shows "SearchInode (tbl @ [x]) c (int (length tbl)) = -1"
proof -
  have "\<not> matches c (int (length tbl)) y" if "y \<in> set (tbl @ [x])" for y
  proof (cases "y = x")
    case True
    then show ?thesis using assms(2) by (simp add: matches_def)
  next
    case False
    with that obtain i where "i < length tbl" "y = tbl ! i" by (auto simp: in_set_conv_nth)
    with wf_inodesD(3) [OF assms(1)] show ?thesis by (fastforce simp: matches_def)
  qed
  then show ?thesis unfolding SearchInode_missing_iff by blast
qed

lemma resolve_from_append1:
  assumes "wf_inodes tbl" and "insertable tbl x"
  shows "resolve_from (tbl @ [x]) pid p =
     (if p \<noteq> [] \<and> last p = i_name x \<and> resolve_from tbl pid (butlast p) = Some (i_parentid x)
      then Some (int (length tbl)) else resolve_from tbl pid p)"
proof (induction p arbitrary: pid)
  case (Cons c cs)
  have free: "SearchInode tbl (i_name x) (i_parentid x) = -1"
    and px: "i_parentid x < int (length tbl)"
    using assms(2) by (auto simp: insertable_def inode_ok_def)
  show ?case
  proof (cases "SearchInode tbl c pid = -1")
    case False
    then show ?thesis
      using Cons.IH free by (cases cs) (auto simp: SearchInode_append1 Let_def)
  next
    case True
    have stuck: "resolve_from (tbl @ [x]) (int (length tbl)) cs =
        (if cs = [] then Some (int (length tbl)) else None)"
      using SearchInode_new_parent [OF assms(1) px] by (cases cs) (simp_all add: Let_def)
    show ?thesis
      using True stuck by (cases cs) (auto simp: SearchInode_append1 matches_def Let_def)
  qed
qed simp

interpretation inodes: path_store resolve add_inode "\<lambda>tbl. int (length tbl)" i_parentid i_name
    wf_inodes insertable
proof unfold_locales
  fix tbl :: "inode list" and x p
  show "resolve tbl [] = Some (-1)" by (simp add: resolve_def)
  assume wf: "wf_inodes tbl" and ins: "insertable tbl x"
  show "wf_inodes (add_inode tbl x)" by (rule wf_add_inode [OF wf ins])
  show "resolve (add_inode tbl x) p =
     (if p \<noteq> [] \<and> last p = i_name x \<and> resolve tbl (butlast p) = Some (i_parentid x)
      then Some (int (length tbl)) else resolve tbl p)"
    unfolding resolve_def add_inode_def by (rule resolve_from_append1 [OF wf ins])
  assume "resolve tbl p = Some (i_parentid x)"
  then show "resolve tbl (p @ [i_name x]) = None"
    using ins by (simp add: resolve_def resolve_from_append insertable_def Let_def)
next
  fix tbl :: "inode list" and p q i
  assume "wf_inodes tbl" "resolve tbl p = Some i" "resolve tbl q = Some i"
  then show "p = q" unfolding resolve_def by (rule resolve_inj_aux)
qed

end
