(* ===== verification/Fs_Paths.thy ===== *)
theory Fs_Paths
  imports Inode_Store
begin

text \<open>
  \<open>GetFullPath\<close> and \<open>GetFullPathNotHidden\<close> of \<open>tools/fs2xml.c\<close>: the path of an inode, built
  leaf first by following \<open>parentid\<close> into a static buffer of 1024 bytes. The loops run on fuel
  \<open>length tbl + 2\<close>; a chain of parents that is longer than the table repeats an entry, so a
  spent tank really is an endless loop, and on tables that satisfy the invariant it never happens.
  The locale \<open>parent_table\<close> is what the invariant gives every walk over the table.
\<close>

section \<open>Walking up and down a table of parents\<close>

locale parent_table =
  fixes parent :: "'t \<Rightarrow> nat \<Rightarrow> int"
    and count :: "'t \<Rightarrow> nat"
    and invar :: "'t \<Rightarrow> bool"
  assumes parent_before:
    "invar t \<Longrightarrow> i < count t \<Longrightarrow> -1 \<le> parent t i \<and> parent t i < int i"
begin

text \<open>Downwards, with one unit of fuel per level.\<close>

lemma walk_induct:
  assumes "invar t" and "-1 \<le> pid" and "pid < int (count t)" and "int (count t) - pid \<le> int f"
    and step: "\<And>f pid. -1 \<le> pid \<Longrightarrow> pid < int (count t) \<Longrightarrow>
      (\<And>i. i < count t \<Longrightarrow> parent t i = pid \<Longrightarrow> P f (int i)) \<Longrightarrow> P (Suc f) pid"
  shows "P f pid"
  using assms(2-4)
proof (induction f arbitrary: pid)
  case (Suc f)
  show ?case
  proof (rule step [OF Suc.prems(1,2)])
    fix i assume i: "i < count t" "parent t i = pid"
    with parent_before [OF assms(1)] have "pid < int i" by auto
    with i Suc.prems show "P f (int i)" by (intro Suc.IH) auto
  qed
qed simp

text \<open>Upwards.\<close>

lemma ascend_induct:
  assumes "invar t" and "-1 \<le> i" and "i < int (count t)"
    and root: "P (-1)"
    and up: "\<And>k. k < count t \<Longrightarrow> P (parent t k) \<Longrightarrow> P (int k)"
  shows "P i"
  using assms(2,3)
proof (induction "nat (i + 1)" arbitrary: i rule: less_induct)
  case less
  show ?case
  proof (cases "i = -1")
    case False
    with less.prems obtain k where k: "i = int k" "k < count t"
      using nonneg_int_cases [of i] by auto
    with parent_before [OF assms(1)] have "-1 \<le> parent t k" "parent t k < int k" by auto
    with k less.hyps [of "parent t k"] up show ?thesis by auto
  qed (use root in simp)
qed

end

interpretation ptable: parent_table "\<lambda>tbl i. i_parentid (tbl ! i)" length wf_inodes
  by unfold_locales (auto dest: wf_inodesD)

section \<open>The functions\<close>

text \<open>\<open>inodes[id]\<close>: entries past \<open>ninodes\<close> are still the zeroed ones of the allocation.\<close>

definition get_inode :: "inode list \<Rightarrow> int \<Rightarrow> inode res" where
  "get_inode tbl i =
     (if 0 \<le> i \<and> i < int (length tbl) then Inr (tbl ! nat i)
      else if 0 \<le> i \<and> i < int max_inodes then Inr blank_inode else Inl Fault)"

text \<open>A \<open>sprintf\<close> or \<open>strcpy\<close> into an array of \<open>n\<close> bytes.\<close>

definition store :: "nat \<Rightarrow> string \<Rightarrow> string res" where
  "store n s = (if length s < n then Inr s else Inl Fault)"

fun path_loop :: "nat \<Rightarrow> inode list \<Rightarrow> int \<Rightarrow> string \<Rightarrow> string res" where
  "path_loop 0 tbl i path = Inl Diverges"
| "path_loop (Suc fuel) tbl i path =
     (if i \<noteq> -1 then
        res_bind (get_inode tbl i) (\<lambda>x.
        res_bind (store 1024 (CHR ''/'' # i_name x @ path)) (\<lambda>path'.
          path_loop fuel tbl (i_parentid x) path'))
      else Inr path)"

definition GetFullPath :: "inode list \<Rightarrow> string \<Rightarrow> int \<Rightarrow> string res" where
  "GetFullPath tbl root i =
     res_bind (path_loop (length tbl + 2) tbl i []) (\<lambda>temp. store 1024 (root @ temp))"

text \<open>The name without the leading dot, double underscore or underscore that hides it, and
  whether one was there.\<close>

definition unhide :: "string \<Rightarrow> string \<times> bool" where
  "unhide name =
     (case name of
        [] \<Rightarrow> ([], False)
      | c # cs \<Rightarrow>
          if c = CHR ''.'' then (cs, True)
          else if c = CHR ''_'' \<and> cs \<noteq> [] \<and> hd cs = CHR ''_'' then (tl cs, True)
          else if c = CHR ''_'' then (cs, True)
          else (c # cs, False))"

fun path_loop_nh :: "nat \<Rightarrow> inode list \<Rightarrow> int \<Rightarrow> string \<Rightarrow> bool \<Rightarrow> (string \<times> bool) res" where
  "path_loop_nh 0 tbl i path hidden = Inl Diverges"
| "path_loop_nh (Suc fuel) tbl i path hidden =
     (if i \<noteq> -1 then
        res_bind (get_inode tbl i) (\<lambda>x.
        res_bind (store 1024 (CHR ''/'' # fst (unhide (i_name x)) @ path)) (\<lambda>path'.
          path_loop_nh fuel tbl (i_parentid x) path' (hidden \<or> snd (unhide (i_name x)))))
      else Inr (path, hidden))"

definition GetFullPathNotHidden :: "inode list \<Rightarrow> string \<Rightarrow> int \<Rightarrow> bool \<Rightarrow> (string \<times> bool) res" where
  "GetFullPathNotHidden tbl root i hidden =
     res_bind (path_loop_nh (length tbl + 2) tbl i [] hidden) (\<lambda>(temp, h).
     res_bind (store 1024 (root @ temp)) (\<lambda>path. Inr (path, h)))"

section \<open>Correctness\<close>

definition slashed :: "string list \<Rightarrow> string" where
  "slashed p = concat (map ((#) (CHR ''/'')) p)"

lemma slashed_simps [simp]: "slashed [] = []" "slashed (p @ [c]) = slashed p @ CHR ''/'' # c"
  by (simp_all add: slashed_def)

lemma resolve_exists:
  assumes "wf_inodes tbl" and "i < length tbl"
  shows "\<exists>p. resolve tbl p = Some (int i)"
proof -
  have "\<exists>p. resolve tbl p = Some (int i)"
  proof (rule ptable.ascend_induct [OF assms(1), where P = "\<lambda>i. \<exists>p. resolve tbl p = Some i"])
    show "\<exists>p. resolve tbl p = Some (-1)" using inodes.resolve_root by blast
  next
    fix k assume k: "k < length tbl" "\<exists>p. resolve tbl p = Some (i_parentid (tbl ! k))"
    then obtain p where p: "resolve tbl p = Some (i_parentid (tbl ! k))" by blast
    have "SearchInode tbl (i_name (tbl ! k)) (i_parentid (tbl ! k)) = int k"
    proof (cases rule: SearchInode_cases [of tbl "i_name (tbl ! k)" "i_parentid (tbl ! k)"])
      case missing
      then show ?thesis using k(1) nth_mem [of k tbl] by (fastforce simp: matches_def)
    next
      case (found j)
      then show ?thesis using wf_inodes_distinct [OF assms(1), of j k] k(1) by (auto simp: matches_def)
    qed
    with p have "resolve tbl (p @ [i_name (tbl ! k)]) = Some (int k)"
      by (simp add: resolve_def resolve_snoc)
    then show "\<exists>p. resolve tbl p = Some (int k)" by blast
  qed (use assms in auto)
  then show ?thesis .
qed

lemma resolve_step:
  assumes "resolve tbl (p @ [c]) = Some i"
  obtains k where "i = int k" "k < length tbl" "i_name (tbl ! k) = c"
    "resolve tbl p = Some (i_parentid (tbl ! k))"
proof -
  from assms obtain j where j: "resolve tbl p = Some j" "SearchInode tbl c j = i" "i \<noteq> -1"
    by (auto simp: resolve_def resolve_snoc)
  then obtain k where "i = int k" using SearchInode_range [of tbl c j] nonneg_int_cases [of i] by auto
  with SearchInode_found [of tbl c j k] j that show thesis by auto
qed

lemma resolve_depth:
  assumes "wf_inodes tbl"
  shows "resolve tbl p = Some i \<Longrightarrow> int (length p) \<le> i + 1"
proof (induction p arbitrary: i rule: rev_induct)
  case Nil
  then show ?case by (simp add: inodes.resolve_root)
next
  case (snoc c p)
  obtain k where k: "i = int k" "k < length tbl" "resolve tbl p = Some (i_parentid (tbl ! k))"
    by (rule resolve_step [OF snoc.prems]) auto
  with snoc.IH [OF k(3)] wf_inodesD(3) [OF assms k(2)] show ?case by simp
qed

lemma get_inode_int [simp]: "k < length tbl \<Longrightarrow> get_inode tbl (int k) = Inr (tbl ! k)"
  by (simp add: get_inode_def)

lemma path_loop_resolve:
  "resolve tbl p = Some i \<Longrightarrow> length p < fuel \<Longrightarrow> length (slashed p) + length acc < 1024 \<Longrightarrow>
   path_loop fuel tbl i acc = Inr (slashed p @ acc)"
proof (induction p arbitrary: i fuel acc rule: rev_induct)
  case Nil
  then show ?case by (cases fuel) (simp_all add: inodes.resolve_root)
next
  case (snoc c p)
  obtain k where k: "i = int k" "k < length tbl" "i_name (tbl ! k) = c"
    "resolve tbl p = Some (i_parentid (tbl ! k))"
    by (rule resolve_step [OF snoc.prems(1)]) auto
  with snoc.IH [OF k(4), of "fuel - 1" "CHR ''/'' # c @ acc"] snoc.prems show ?case
    by (cases fuel) (simp_all add: store_def)
qed

lemma path_loop_nh_resolve:
  "resolve tbl p = Some i \<Longrightarrow> length p < fuel \<Longrightarrow>
   length (slashed (map (fst \<circ> unhide) p)) + length acc < 1024 \<Longrightarrow>
   path_loop_nh fuel tbl i acc h
     = Inr (slashed (map (fst \<circ> unhide) p) @ acc, h \<or> list_ex (snd \<circ> unhide) p)"
proof (induction p arbitrary: i fuel acc h rule: rev_induct)
  case Nil
  then show ?case by (cases fuel) (simp_all add: inodes.resolve_root)
next
  case (snoc c p)
  obtain k where k: "i = int k" "k < length tbl" "i_name (tbl ! k) = c"
    "resolve tbl p = Some (i_parentid (tbl ! k))"
    by (rule resolve_step [OF snoc.prems(1)]) auto
  with snoc.IH [OF k(4), of "fuel - 1" "CHR ''/'' # fst (unhide c) @ acc"] snoc.prems show ?case
    by (cases fuel) (auto simp: store_def)
qed

text \<open>
  The path of an inode: on a table that satisfies the invariant every inode has exactly one
  path that resolves to it, and \<open>GetFullPath\<close> returns the root followed by that path's
  components, each after a slash, whenever the result fits its 1024-byte buffer.
\<close>

theorem GetFullPath_correct:
  assumes "wf_inodes tbl" and "i < length tbl"
  shows "(\<exists>!p. resolve tbl p = Some (int i)) \<and>
    (\<forall>p. resolve tbl p = Some (int i) \<and> length (root @ slashed p) < 1024 \<longrightarrow>
       GetFullPath tbl root (int i) = Inr (root @ slashed p))"
proof (intro conjI allI impI)
  show "\<exists>!p. resolve tbl p = Some (int i)"
    using resolve_exists [OF assms] inodes.resolve_inj [OF assms(1)] by blast
next
  fix p assume p: "resolve tbl p = Some (int i) \<and> length (root @ slashed p) < 1024"
  then have "length p < length tbl + 2"
    using resolve_depth [OF assms(1), of p "int i"] assms(2) by simp
  with path_loop_resolve [of tbl p "int i" "length tbl + 2" "[]"] p
  show "GetFullPath tbl root (int i) = Inr (root @ slashed p)"
    by (simp add: GetFullPath_def store_def)
qed

definition sample_tbl :: "inode list" where
  "sample_tbl = [blank_inode\<lparr>i_name := ''etc'', i_parentid := -1, i_mode := 16877\<rparr>,
                 blank_inode\<lparr>i_name := ''.rc'', i_parentid := 0, i_mode := 33188\<rparr>,
                 blank_inode\<lparr>i_name := ''_rc'', i_parentid := 0, i_mode := 33188\<rparr>]"

lemma sample_tbl_wf: "wf_inodes sample_tbl"
  by (simp add: wf_inodes_def sample_tbl_def inode_ok_def same_place_def blank_inode_def
      max_inodes_def All_less_Suc nth_Cons')

lemma sample_tbl_resolve:
  "resolve sample_tbl [''etc''] = Some 0" "resolve sample_tbl [''etc'', ''.rc''] = Some 1"
  "resolve sample_tbl [''etc'', ''_rc''] = Some 2"
  by (simp_all add: resolve_def SearchInode_def sample_tbl_def blank_inode_def Let_def)

theorem GetFullPath_correct_witness:
  "GetFullPath sample_tbl ''fs'' 1 = Inr ''fs/etc/.rc''"
  using GetFullPath_correct [of sample_tbl 1 "''fs''"] sample_tbl_wf sample_tbl_resolve
  by (auto simp: sample_tbl_def slashed_def)

lemma GetFullPathNotHidden_resolve:
  assumes "wf_inodes tbl" and "resolve tbl p = Some (int i)" and "i < length tbl"
    and "length (root @ slashed (map (fst \<circ> unhide) p)) < 1024"
  shows "GetFullPathNotHidden tbl root (int i) h
    = Inr (root @ slashed (map (fst \<circ> unhide) p), h \<or> list_ex (snd \<circ> unhide) p)"
proof -
  have "length p < length tbl + 2"
    using resolve_depth [OF assms(1,2)] assms(3) by simp
  with path_loop_nh_resolve [OF assms(2), of "length tbl + 2" "[]" h] assms(4)
  show ?thesis by (simp add: GetFullPathNotHidden_def store_def)
qed

text \<open>
  \<open>GetFullPathNotHidden\<close> strips one leading dot, or two or one leading underscores, from
  every component and reports whether it stripped anything on the way.
\<close>

theorem GetFullPathNotHidden_correct:
  assumes "wf_inodes tbl" and "resolve tbl p = Some (int i)" and "i < length tbl"
    and "length (root @ slashed (map (fst \<circ> unhide) p)) < 1024"
  shows "GetFullPathNotHidden tbl root (int i) h
    = Inr (root @ slashed (map (fst \<circ> unhide) p), h \<or> list_ex (snd \<circ> unhide) p)"
  using assms by (rule GetFullPathNotHidden_resolve)

theorem GetFullPathNotHidden_correct_witness:
  "GetFullPathNotHidden sample_tbl ''fs'' 1 False = Inr (''fs/etc/rc'', True)"
  using GetFullPathNotHidden_correct [of sample_tbl "[''etc'', ''.rc'']" 1 "''fs''" False]
    sample_tbl_wf sample_tbl_resolve
  by (simp add: sample_tbl_def slashed_def unhide_def)

text \<open>
  The host path of a file is not determined by its inode alone: there is a table that
  satisfies the invariant with two different regular files that \<open>GetFullPathNotHidden\<close> sends to the
  same host path, so \<open>WalkDir\<close> writes one over the other.
\<close>

theorem GetFullPathNotHidden_collision:
  "\<exists>tbl i j. wf_inodes tbl \<and> i < length tbl \<and> j < length tbl \<and> i \<noteq> j \<and>
     is_reg (tbl ! i) \<and> is_reg (tbl ! j) \<and>
     GetFullPathNotHidden tbl ''fs'' (int i) False = GetFullPathNotHidden tbl ''fs'' (int j) False"
proof (intro exI conjI)
  show "wf_inodes sample_tbl" by (rule sample_tbl_wf)
  show "(1::nat) < length sample_tbl" "(2::nat) < length sample_tbl" "(1::nat) \<noteq> 2"
    by (simp_all add: sample_tbl_def)
  show "is_reg (sample_tbl ! 1)" "is_reg (sample_tbl ! 2)"
    by (simp_all add: sample_tbl_def is_reg_def S_IFMT_def S_IFREG_def)
  show "GetFullPathNotHidden sample_tbl ''fs'' (int 1) False
      = GetFullPathNotHidden sample_tbl ''fs'' (int 2) False"
    by (simp add: GetFullPathNotHidden_def sample_tbl_def get_inode_def blank_inode_def store_def
        unhide_def eval_nat_numeral)
qed

end
