(* ===== verification/Fs_Render.thy ===== *)
theory Fs_Render
  imports Fs_Paths
begin

text \<open>
  \<open>PrintIdent\<close>, \<open>WalkXML\<close>, \<open>CreateXML\<close>, \<open>WalkJSON\<close> and \<open>CreateJSON\<close> of \<open>tools/fs2xml.c\<close>: the text
  each writes to its file. The recursion runs on one unit of fuel per level; \<open>length tbl + 1\<close>
  is enough on a table that satisfies the invariant. The reference is a tree: \<open>forest\<close> builds it
  from the table, \<open>tree_xml\<close> and \<open>tree_json\<close> print it.
\<close>

unbundle bit_operations_syntax

section \<open>The code\<close>

definition is_dir :: "inode \<Rightarrow> bool" where
  "is_dir x \<longleftrightarrow> i_mode x AND S_IFMT = S_IFDIR"

definition is_lnk :: "inode \<Rightarrow> bool" where
  "is_lnk x \<longleftrightarrow> i_mode x AND S_IFMT = S_IFLNK"

definition PrintIdent :: "nat \<Rightarrow> string" where
  "PrintIdent sub = replicate sub (CHR 0x09)"

definition xml_ids :: "inode \<Rightarrow> string" where
  "xml_ids x =
     (if i_uid x \<noteq> 0 then '' uid='' @ [CHR 0x27] @ fmt_i (i_uid x) @ [CHR 0x27] else []) @
     (if i_gid x \<noteq> 0 then '' gid='' @ [CHR 0x27] @ fmt_i (i_gid x) @ [CHR 0x27] else [])"

definition xml_dir_open :: "inode \<Rightarrow> string" where
  "xml_dir_open x =
     ''<Dir name='' @ [CHR 0x27] @ i_name x @ [CHR 0x27] @ '' mode='' @ [CHR 0x27] @
     fmt_o (i_mode x) @ [CHR 0x27] @ xml_ids x @ ''>''"

definition xml_file :: "inode \<Rightarrow> string" where
  "xml_file x =
     ''<File name='' @ [CHR 0x27] @ i_name x @ [CHR 0x27] @ '' mode='' @ [CHR 0x27] @
     fmt_o (i_mode x) @ [CHR 0x27] @ '' size='' @ [CHR 0x27] @ fmt_i (i_size x) @ [CHR 0x27] @
     xml_ids x @
     (if i_compressed x \<noteq> 0 then '' compressed='' @ [CHR 0x27] @ ''1'' @ [CHR 0x27] else []) @
     (if i_load x \<noteq> 0 then '' load='' @ [CHR 0x27] @ ''1'' @ [CHR 0x27] else []) @
     (if i_src x \<noteq> [] then '' src='' @ [CHR 0x27] @ i_src x @ [CHR 0x27] else []) @
     ''/>'' @ [CHR 0x0A]"

definition xml_link :: "inode \<Rightarrow> string" where
  "xml_link x =
     ''<Link name='' @ [CHR 0x27] @ i_name x @ [CHR 0x27] @ '' mode='' @ [CHR 0x27] @
     fmt_o (i_mode x) @ [CHR 0x27] @ '' path='' @ [CHR 0x27] @ i_link x @ [CHR 0x27] @
     '' />'' @ [CHR 0x0A]"

primrec WalkXML :: "nat \<Rightarrow> inode list \<Rightarrow> int \<Rightarrow> nat \<Rightarrow> string res" where
  "WalkXML 0 = (\<lambda>tbl parentid sub. Inl Diverges)"
| "WalkXML (Suc fuel) = (\<lambda>tbl parentid sub.
     concat_res (\<lambda>i.
       let x = tbl ! i in
       if i_parentid x \<noteq> parentid then Inr []
       else if is_dir x then
         res_bind (WalkXML fuel tbl (int i) (sub + 1)) (\<lambda>body.
           Inr (PrintIdent sub @ xml_dir_open x @
                (if \<not> IsEmpty tbl (int i) then [CHR 0x0A] else []) @ body @
                (if \<not> IsEmpty tbl (int i) then PrintIdent sub else []) @ ''</Dir>'' @ [CHR 0x0A]))
       else if is_reg x then Inr (PrintIdent sub @ xml_file x)
       else if is_lnk x then Inr (PrintIdent sub @ xml_link x)
       else Inr [])
     [0..<length tbl])"

text \<open>\<open>fopen_ok\<close> says whether the output file can be created.\<close>

definition CreateXML :: "bool \<Rightarrow> nat \<Rightarrow> inode list \<Rightarrow> string res" where
  "CreateXML fopen_ok fuel tbl =
     (if \<not> fopen_ok then Inl (Exit 1)
      else res_bind (WalkXML fuel tbl (-1) 1) (\<lambda>body.
        Inr (''<FS src='' @ [CHR 0x27] @ ''fs/'' @ [CHR 0x27] @ ''>'' @ [CHR 0x0A] @ body @
             ''</FS>'' @ [CHR 0x0A])))"

definition quoted :: "string \<Rightarrow> string" where
  "quoted s = [CHR 0x22] @ s @ [CHR 0x22]"

definition json_head :: "inode \<Rightarrow> string" where
  "json_head x =
     ''{ '' @ quoted ''name'' @ '':'' @ quoted (i_name x) @ '', '' @
     quoted ''mode'' @ '':'' @ quoted (fmt_o (i_mode x))"

definition json_ids :: "inode \<Rightarrow> string" where
  "json_ids x =
     (if i_uid x \<noteq> 0 then '', '' @ quoted ''uid'' @ '':'' @ fmt_i (i_uid x) else []) @
     (if i_gid x \<noteq> 0 then '', '' @ quoted ''gid'' @ '':'' @ fmt_i (i_gid x) else [])"

definition json_file :: "inode \<Rightarrow> string" where
  "json_file x =
     json_head x @ '', '' @ quoted ''size'' @ '':'' @ fmt_i (i_size x) @ json_ids x @
     (if i_compressed x \<noteq> 0 then '', '' @ quoted ''c'' @ '':1'' else []) @
     (if i_load x \<noteq> 0 then '', '' @ quoted ''load'' @ '':1'' else []) @
     (if i_src x \<noteq> [] then '', '' @ quoted ''src'' @ '':'' @ quoted (i_src x) else []) @ ''}''"

definition json_link :: "inode \<Rightarrow> string" where
  "json_link x = json_head x @ '', '' @ quoted ''path'' @ '':'' @ quoted (i_link x) @ ''}''"

text \<open>
  \<open>WalkJSON\<close> counts the children first and counts down as it prints them: the last one is
  followed by a newline, the others by a comma and a newline. The loop state is the counter
  \<open>n\<close> and the output so far.
\<close>

primrec WalkJSON :: "nat \<Rightarrow> inode list \<Rightarrow> int \<Rightarrow> nat \<Rightarrow> string res" where
  "WalkJSON 0 = (\<lambda>tbl parentid sub. Inl Diverges)"
| "WalkJSON (Suc fuel) = (\<lambda>tbl parentid sub.
     let n0 = length (filter (\<lambda>x. i_parentid x = parentid) tbl) in
     res_bind (fold_res (\<lambda>i (n, out).
       let x = tbl ! i in
       if i_parentid x \<noteq> parentid then Inr (n, out)
       else let n' = n - 1 in
         res_bind
           (if is_dir x then
              if IsEmpty tbl (int i)
              then Inr (PrintIdent sub @ json_head x @ json_ids x @ '', '' @ quoted ''child'' @ '':[] }'')
              else res_bind (WalkJSON fuel tbl (int i) (sub + 1)) (\<lambda>body.
                Inr (PrintIdent sub @ json_head x @ json_ids x @ '', '' @ quoted ''child'' @ '':['' @
                     [CHR 0x0A] @ body @ PrintIdent sub @ '']}''))
            else if is_reg x then Inr (PrintIdent sub @ json_file x)
            else if is_lnk x then Inr (PrintIdent sub @ json_link x)
            else Inl (Exit 1)) (\<lambda>item.
           Inr (n', out @ item @ (if n' = 0 then [CHR 0x0A] else '','' @ [CHR 0x0A]))))
       [0..<length tbl] (int n0, [])) (\<lambda>(n, out). Inr out))"

definition CreateJSON :: "bool \<Rightarrow> nat \<Rightarrow> inode list \<Rightarrow> string res" where
  "CreateJSON fopen_ok fuel tbl =
     (if \<not> fopen_ok then Inl (Exit 1)
      else res_bind (WalkJSON fuel tbl (-1) 1) (\<lambda>body.
        Inr (''{'' @ quoted ''src'' @ '':'' @ quoted ''fs/'' @ '', '' @
             quoted ''fs'' @ '':['' @ [CHR 0x0A] @ body @ '']}'' @ [CHR 0x0A])))"

section \<open>The reference: a tree\<close>

datatype fs_tree = Dir inode "fs_tree list" | Leaf inode

definition children :: "inode list \<Rightarrow> int \<Rightarrow> nat list" where
  "children tbl pid = filter (\<lambda>i. i_parentid (tbl ! i) = pid \<and> pid < int i) [0..<length tbl]"

function forest :: "inode list \<Rightarrow> int \<Rightarrow> fs_tree list" where
  "forest tbl pid =
     map (\<lambda>i. if is_dir (tbl ! i) then Dir (tbl ! i) (forest tbl (int i)) else Leaf (tbl ! i))
       (children tbl pid)"
  by pat_completeness auto
termination
  by (relation "measure (\<lambda>(tbl, pid). nat (int (length tbl) - pid))") (auto simp: children_def)

declare forest.simps [simp del]

fun tree_xml :: "nat \<Rightarrow> fs_tree \<Rightarrow> string" where
  "tree_xml sub (Leaf x) =
     (if is_reg x then PrintIdent sub @ xml_file x
      else if is_lnk x then PrintIdent sub @ xml_link x else [])"
| "tree_xml sub (Dir x ts) =
     PrintIdent sub @ xml_dir_open x @
     (if ts = [] then []
      else [CHR 0x0A] @ concat (map (tree_xml (Suc sub)) ts) @ PrintIdent sub) @
     ''</Dir>'' @ [CHR 0x0A]"

text \<open>JSON: the items of a list are separated by a comma and a newline.\<close>

definition json_list :: "string list \<Rightarrow> string" where
  "json_list items = (if items = [] then [] else intercalate ('','' @ [CHR 0x0A]) items @ [CHR 0x0A])"

fun tree_json :: "nat \<Rightarrow> fs_tree \<Rightarrow> string" where
  "tree_json sub (Leaf x) = PrintIdent sub @ (if is_reg x then json_file x else json_link x)"
| "tree_json sub (Dir x ts) =
     PrintIdent sub @ json_head x @ json_ids x @ '', '' @ quoted ''child'' @
     (if ts = [] then '':[] }''
      else '':['' @ [CHR 0x0A] @ json_list (map (tree_json (Suc sub)) ts) @ PrintIdent sub @ '']}'')"

fun tree_inodes :: "fs_tree \<Rightarrow> inode list" where
  "tree_inodes (Leaf x) = [x]"
| "tree_inodes (Dir x ts) = x # concat (map tree_inodes ts)"

definition known_type :: "inode \<Rightarrow> bool" where
  "known_type x \<longleftrightarrow> is_dir x \<or> is_reg x \<or> is_lnk x"

end
