(* ===== verification/Fs_Render_Correct.thy ===== *)
theory Fs_Render_Correct
  imports Fs_Render "HOL-Library.Multiset"
begin

text \<open>
  \<open>WalkXML\<close> and \<open>WalkJSON\<close> print the tree that the inode table describes: on every table that
  satisfies the invariant they end, and their output is the reference printer applied to
  \<open>forest tbl (-1)\<close>, which holds every inode below a directory exactly once.
\<close>

section \<open>Children\<close>

lemma concat_map_if:
  "concat (map (\<lambda>i. if P i then h i else []) xs) = concat (map h (filter P xs))"
  by (induction xs) auto

lemma children_wf:
  assumes "wf_inodes tbl"
  shows "children tbl pid = filter (\<lambda>i. i_parentid (tbl ! i) = pid) [0..<length tbl]"
  unfolding children_def using wf_inodesD(3) [OF assms] by (intro filter_cong) auto

lemma IsEmpty_children:
  assumes "wf_inodes tbl"
  shows "IsEmpty tbl pid \<longleftrightarrow> children tbl pid = []"
  unfolding IsEmpty_def children_wf [OF assms] list_all_length by (auto simp: filter_empty_conv)

lemma forest_eq_Nil [simp]: "forest tbl pid = [] \<longleftrightarrow> children tbl pid = []"
  by (simp add: forest.simps)

definition node :: "inode list \<Rightarrow> nat \<Rightarrow> fs_tree" where
  "node tbl i = (if is_dir (tbl ! i) then Dir (tbl ! i) (forest tbl (int i)) else Leaf (tbl ! i))"

lemma forest_node: "forest tbl pid = map (node tbl) (children tbl pid)"
  by (subst forest.simps) (simp add: node_def [abs_def])

section \<open>XML\<close>

lemma WalkXML_forest:
  assumes "wf_inodes tbl" "-1 \<le> pid" "pid < int (length tbl)" "int (length tbl) - pid \<le> int fuel"
  shows "\<forall>sub. WalkXML fuel tbl pid sub = Inr (concat (map (tree_xml sub) (forest tbl pid)))"
proof (rule ptable.walk_induct [OF assms])
  fix f pid
  assume IH: "\<And>i. i < length tbl \<Longrightarrow> i_parentid (tbl ! i) = pid \<Longrightarrow>
    \<forall>sub. WalkXML f tbl (int i) sub = Inr (concat (map (tree_xml sub) (forest tbl (int i))))"
  show "\<forall>sub. WalkXML (Suc f) tbl pid sub = Inr (concat (map (tree_xml sub) (forest tbl pid)))"
  proof
    fix sub
    let ?g = "\<lambda>i. if i_parentid (tbl ! i) = pid then tree_xml sub (node tbl i) else []"
    have "WalkXML (Suc f) tbl pid sub = Inr (concat (map ?g [0..<length tbl]))"
      unfolding WalkXML.simps
      by (rule concat_res_Inr) (auto simp: Let_def IH node_def IsEmpty_children [OF assms(1)] forest_node)
    then show "WalkXML (Suc f) tbl pid sub = Inr (concat (map (tree_xml sub) (forest tbl pid)))"
      by (simp add: concat_map_if forest_node children_wf [OF assms(1)] comp_def)
  qed
qed

text \<open>
  C31. \<open>CreateXML\<close> refines printing a tree: on every table that satisfies the invariant, with
  one level of recursion per inode and one more, it ends and writes the FS element around the
  XML of the forest the table describes, properly nested and indented.
\<close>

theorem CreateXML_refines_tree:
  assumes "wf_inodes tbl" and "length tbl < fuel"
  shows "CreateXML True fuel tbl =
    Inr (''<FS src='' @ [CHR 0x27] @ ''fs/'' @ [CHR 0x27] @ ''>'' @ [CHR 0x0A] @
         concat (map (tree_xml 1) (forest tbl (-1))) @ ''</FS>'' @ [CHR 0x0A])"
  using WalkXML_forest [OF assms(1), of "-1" fuel] assms(2) by (simp add: CreateXML_def)

section \<open>JSON\<close>

lemma json_list_Nil [simp]: "json_list [] = []"
  by (simp add: json_list_def)

lemma json_list_Cons:
  "json_list (x # xs) = x @ (if xs = [] then [CHR 0x0A] else '','' @ [CHR 0x0A] @ json_list xs)"
  by (cases xs) (auto simp: json_list_def intercalate_Cons)

text \<open>The counting loop prints separated items.\<close>

lemma json_loop:
  assumes "\<And>i. i \<in> set is \<Longrightarrow> P i \<Longrightarrow> it i = (if ok i then Inr (g i) else Inl (Exit 1))"
  shows "fold_res (\<lambda>i (n, out). if \<not> P i then Inr (n, out)
       else let n' = n - 1 in res_bind (it i) (\<lambda>item.
         Inr (n', out @ item @ (if n' = 0 then [CHR 0x0A] else '','' @ [CHR 0x0A]))))
     is (int (length (filter P is)), out)
   = (if list_all ok (filter P is) then Inr (0, out @ json_list (map g (filter P is)))
      else Inl (Exit 1))"
  using assms
proof (induction "is" arbitrary: out)
  case Nil
  then show ?case by (simp add: json_list_def)
next
  case (Cons i "is")
  show ?case
  proof (cases "P i \<and> ok i")
    case True
    with Cons.prems [of i] have it: "it i = Inr (g i)" by simp
    let ?sep = "if filter P is = [] then [CHR 0x0A] else '','' @ [CHR 0x0A]"
    show ?thesis
      using True it Cons.IH [of "out @ g i @ ?sep"] Cons.prems
      by (auto simp: Let_def json_list_Cons)
  next
    case False
    then show ?thesis using Cons.IH Cons.prems [of i] Cons.prems by (auto simp: Let_def)
  qed
qed

lemma length_filter_nth: "length (filter P xs) = length (filter (\<lambda>i. P (xs ! i)) [0..<length xs])"
proof -
  have "filter P xs = filter P (map ((!) xs) [0..<length xs])" by (simp only: map_nth)
  then show ?thesis by (simp add: filter_map comp_def)
qed

definition tree_known :: "fs_tree \<Rightarrow> bool" where
  "tree_known t \<longleftrightarrow> list_all known_type (tree_inodes t)"

lemma tree_known_simps [simp]:
  "tree_known (Leaf x) \<longleftrightarrow> known_type x"
  "tree_known (Dir x ts) \<longleftrightarrow> known_type x \<and> list_all tree_known ts"
  by (auto simp: tree_known_def list_all_iff)

lemma WalkJSON_forest:
  assumes "wf_inodes tbl" "-1 \<le> pid" "pid < int (length tbl)" "int (length tbl) - pid \<le> int fuel"
  shows "\<forall>sub. WalkJSON fuel tbl pid sub =
    (if list_all tree_known (forest tbl pid)
     then Inr (json_list (map (tree_json sub) (forest tbl pid))) else Inl (Exit 1))"
proof (rule ptable.walk_induct [OF assms])
  fix f pid
  assume IH: "\<And>i. i < length tbl \<Longrightarrow> i_parentid (tbl ! i) = pid \<Longrightarrow>
    \<forall>sub. WalkJSON f tbl (int i) sub = (if list_all tree_known (forest tbl (int i))
      then Inr (json_list (map (tree_json sub) (forest tbl (int i)))) else Inl (Exit 1))"
  show "\<forall>sub. WalkJSON (Suc f) tbl pid sub = (if list_all tree_known (forest tbl pid)
      then Inr (json_list (map (tree_json sub) (forest tbl pid))) else Inl (Exit 1))"
  proof
    fix sub
    let ?P = "\<lambda>i. i_parentid (tbl ! i) = pid"
    let ?it = "\<lambda>i. let x = tbl ! i in
        if is_dir x then
          if IsEmpty tbl (int i)
          then Inr (PrintIdent sub @ json_head x @ json_ids x @ '', '' @ quoted ''child'' @ '':[] }'')
          else res_bind (WalkJSON f tbl (int i) (sub + 1)) (\<lambda>body.
            Inr (PrintIdent sub @ json_head x @ json_ids x @ '', '' @ quoted ''child'' @ '':['' @
                 [CHR 0x0A] @ body @ PrintIdent sub @ '']}''))
        else if is_reg x then Inr (PrintIdent sub @ json_file x)
        else if is_lnk x then Inr (PrintIdent sub @ json_link x)
        else Inl (Exit 1)"
    have item: "?it i = (if tree_known (node tbl i) then Inr (tree_json sub (node tbl i))
        else Inl (Exit 1))" if "i \<in> set [0..<length tbl]" "?P i" for i
      using that IH [of i]
      by (auto simp: Let_def node_def known_type_def IsEmpty_children [OF assms(1)] list_all_iff
          forest_node)
    have "WalkJSON (Suc f) tbl pid sub = res_bind (fold_res (\<lambda>i (n, out). if \<not> ?P i then Inr (n, out)
       else let n' = n - 1 in res_bind (?it i) (\<lambda>item.
         Inr (n', out @ item @ (if n' = 0 then [CHR 0x0A] else '','' @ [CHR 0x0A]))))
       [0..<length tbl] (int (length (filter ?P [0..<length tbl])), [])) (\<lambda>(n, out). Inr out)"
      by (simp only: WalkJSON.simps Let_def length_filter_nth [of _ tbl])
    also have "\<dots> = (if list_all tree_known (forest tbl pid)
      then Inr (json_list (map (tree_json sub) (forest tbl pid))) else Inl (Exit 1))"
      by (subst json_loop [OF item])
         (auto simp: forest_node children_wf [OF assms(1)] comp_def list_all_iff)
    finally show "WalkJSON (Suc f) tbl pid sub = (if list_all tree_known (forest tbl pid)
      then Inr (json_list (map (tree_json sub) (forest tbl pid))) else Inl (Exit 1))" .
  qed
qed

text \<open>
  C9. \<open>CreateJSON\<close> refines printing a tree: on every table that satisfies the invariant it ends;
  it exits with status 1 exactly when the forest holds an inode that is neither directory, regular
  file nor link, and otherwise writes the JSON of the forest, in which the countdown puts a comma
  between any two neighbours and none after the last.
\<close>

theorem CreateJSON_refines_tree:
  assumes "wf_inodes tbl" and "length tbl < fuel"
  shows "CreateJSON True fuel tbl =
    (if list_all tree_known (forest tbl (-1))
     then Inr (''{'' @ quoted ''src'' @ '':'' @ quoted ''fs/'' @ '', '' @ quoted ''fs'' @ '':['' @
               [CHR 0x0A] @ json_list (map (tree_json 1) (forest tbl (-1))) @ '']}'' @ [CHR 0x0A])
     else Inl (Exit 1))"
  using WalkJSON_forest [OF assms(1), of "-1" fuel] assms(2) by (simp add: CreateJSON_def)

lemma sample_children:
  "children sample_tbl (-1) = [0]" "children sample_tbl 0 = [1, 2]"
  "children sample_tbl (int i) = (if i = 0 then [1, 2] else [])"
  by (auto simp: children_def sample_tbl_def blank_inode_def upt_rec)

lemma sample_forest:
  "forest sample_tbl (-1) = [Dir (sample_tbl ! 0) [Leaf (sample_tbl ! 1), Leaf (sample_tbl ! 2)]]"
  by (simp add: forest.simps [of _ "-1"] forest.simps [of _ 0] sample_children)
     (simp add: sample_tbl_def is_dir_def S_IFMT_def S_IFDIR_def)

theorem CreateXML_refines_tree_witness:
  "CreateXML True 4 sample_tbl =
    Inr (''<FS src='' @ [CHR 0x27] @ ''fs/'' @ [CHR 0x27] @ ''>'' @ [CHR 0x0A] @
         tree_xml 1 (Dir (sample_tbl ! 0) [Leaf (sample_tbl ! 1), Leaf (sample_tbl ! 2)]) @
         ''</FS>'' @ [CHR 0x0A])"
  using CreateXML_refines_tree [of sample_tbl 4] sample_tbl_wf sample_forest
  by (simp add: sample_tbl_def)

theorem CreateJSON_refines_tree_witness:
  "CreateJSON True 4 sample_tbl =
    Inr (''{'' @ quoted ''src'' @ '':'' @ quoted ''fs/'' @ '', '' @ quoted ''fs'' @ '':['' @
         [CHR 0x0A] @ json_list [tree_json 1
           (Dir (sample_tbl ! 0) [Leaf (sample_tbl ! 1), Leaf (sample_tbl ! 2)])] @
         '']}'' @ [CHR 0x0A])"
proof -
  have "known_type (sample_tbl ! 0)" "known_type (sample_tbl ! 1)" "known_type (sample_tbl ! 2)"
    by (simp_all add: sample_tbl_def known_type_def is_dir_def is_reg_def S_IFMT_def S_IFDIR_def
        S_IFREG_def)
  then have "list_all tree_known (forest sample_tbl (-1))" by (simp add: sample_forest)
  moreover have "length sample_tbl < 4" by (simp add: sample_tbl_def)
  ultimately show ?thesis
    using CreateJSON_refines_tree [OF sample_tbl_wf, of 4] by (simp add: sample_forest)
qed

section \<open>Every inode once\<close>

function preorder :: "inode list \<Rightarrow> int \<Rightarrow> nat list" where
  "preorder tbl pid =
     concat (map (\<lambda>i. i # (if is_dir (tbl ! i) then preorder tbl (int i) else [])) (children tbl pid))"
  by pat_completeness auto
termination
  by (relation "measure (\<lambda>(tbl, pid). nat (int (length tbl) - pid))") (auto simp: children_def)

declare preorder.simps [simp del]

lemma forest_preorder:
  "concat (map tree_inodes (forest tbl pid)) = map ((!) tbl) (preorder tbl pid)"
proof (induction tbl pid rule: preorder.induct)
  case (1 tbl pid)
  have "tree_inodes (node tbl i) =
      map ((!) tbl) (i # (if is_dir (tbl ! i) then preorder tbl (int i) else []))"
    if "i \<in> set (children tbl pid)" for i
    using that 1 by (simp add: node_def)
  then show ?case
    by (subst preorder.simps) (simp add: forest_node map_concat comp_def cong: map_cong)
qed

abbreviation occurs :: "inode list \<Rightarrow> int \<Rightarrow> nat \<Rightarrow> nat" where
  "occurs tbl pid j \<equiv> count (mset (preorder tbl pid)) j"

lemma occurs_children:
  "occurs tbl pid j = (\<Sum>i \<leftarrow> children tbl pid.
     (if i = j then 1 else 0) + (if is_dir (tbl ! i) then occurs tbl (int i) j else 0))"
proof -
  have "count (mset (concat (map h xs))) j = (\<Sum>i \<leftarrow> xs. count (mset (h i)) j)" for h and xs :: "nat list"
    by (induction xs) auto
  then show ?thesis
    by (subst preorder.simps) (auto intro!: arg_cong [of _ _ sum_list] map_cong)
qed

lemma sum_list_delta: "distinct xs \<Longrightarrow> (\<Sum>i \<leftarrow> xs. if i = j then 1 else 0) = (if j \<in> set xs then 1 else (0::nat))"
  by (induction xs) auto

text \<open>An inode occurs below a node once if it is a child of it, and as often as its parent.\<close>

lemma occurs_step:
  assumes wf: "wf_inodes tbl" and j: "j < length tbl"
    and par: "i_parentid (tbl ! j) = int k" "is_dir (tbl ! k)"
    and "-1 \<le> pid" "pid < int (length tbl)"
  shows "occurs tbl pid j = (if pid = int k then 1 else 0) + occurs tbl pid k"
proof -
  have "int (length tbl) - pid \<le> int (nat (int (length tbl) - pid))" by simp
  then show ?thesis
  proof (rule ptable.walk_induct [OF wf assms(5,6),
      where P = "\<lambda>_ pid. occurs tbl pid j = (if pid = int k then 1 else 0) + occurs tbl pid k"])
    fix pid
    assume IH: "\<And>i. i < length tbl \<Longrightarrow> i_parentid (tbl ! i) = pid \<Longrightarrow>
      occurs tbl (int i) j = (if int i = int k then 1 else 0) + occurs tbl (int i) k"
    have ch: "i < length tbl \<and> i_parentid (tbl ! i) = pid" if "i \<in> set (children tbl pid)" for i
      using that by (auto simp: children_def)
    have jch: "j \<in> set (children tbl pid) \<longleftrightarrow> pid = int k"
      using j par(1) by (auto simp: children_wf [OF wf])
    have dist: "distinct (children tbl pid)" by (simp add: children_def)
    have "(\<Sum>i \<leftarrow> children tbl pid. if is_dir (tbl ! i) then occurs tbl (int i) j else 0)
        = (\<Sum>i \<leftarrow> children tbl pid. (if i = k then 1 else 0)
             + (if is_dir (tbl ! i) then occurs tbl (int i) k else 0))"
      using IH ch par(2) by (intro arg_cong [of _ _ sum_list] map_cong) auto
    also have "\<dots> = occurs tbl pid k" by (rule occurs_children [symmetric])
    finally have "(\<Sum>i \<leftarrow> children tbl pid. if is_dir (tbl ! i) then occurs tbl (int i) j else 0)
        = occurs tbl pid k" .
    then show "occurs tbl pid j = (if pid = int k then 1 else 0) + occurs tbl pid k"
      using jch by (subst occurs_children) (simp add: sum_list_addf sum_list_delta [OF dist])
  qed
qed

lemma occurs_below_root:
  assumes wf: "wf_inodes tbl" and "i_parentid (tbl ! j) = -1" "j < length tbl"
    and "-1 \<le> pid" "pid < int (length tbl)"
  shows "occurs tbl pid j = (if pid = -1 then 1 else 0)"
proof -
  have "int (length tbl) - pid \<le> int (nat (int (length tbl) - pid))" by simp
  then show ?thesis
  proof (rule ptable.walk_induct [OF wf assms(4,5),
      where P = "\<lambda>_ pid. occurs tbl pid j = (if pid = -1 then 1 else 0)"])
    fix pid
    assume IH: "\<And>i. i < length tbl \<Longrightarrow> i_parentid (tbl ! i) = pid \<Longrightarrow>
      occurs tbl (int i) j = (if int i = -1 then 1 else 0)"
    have "(\<Sum>i \<leftarrow> children tbl pid. if is_dir (tbl ! i) then occurs tbl (int i) j else 0)
        = (\<Sum>i \<leftarrow> children tbl pid. 0)"
      using IH by (intro arg_cong [of _ _ sum_list] map_cong) (auto simp: children_def)
    moreover have "j \<in> set (children tbl pid) \<longleftrightarrow> pid = -1"
      using assms(2,3) by (auto simp: children_wf [OF wf])
    moreover have "distinct (children tbl pid)" by (simp add: children_def)
    ultimately show "occurs tbl pid j = (if pid = -1 then 1 else 0)"
      by (subst occurs_children) (simp add: sum_list_addf sum_list_delta)
  qed
qed

text \<open>
  Nothing is lost and nothing is printed twice: when every entry's parent is the root or a
  directory, the forest both printers walk holds exactly the inodes of the table, each once.
\<close>

theorem forest_has_every_inode_once:
  assumes wf: "wf_inodes tbl"
    and dirs: "\<forall>i < length tbl. i_parentid (tbl ! i) \<noteq> -1 \<longrightarrow> is_dir (tbl ! nat (i_parentid (tbl ! i)))"
  shows "mset (concat (map tree_inodes (forest tbl (-1)))) = mset tbl"
proof -
  have once: "occurs tbl (-1) j = 1" if "j < length tbl" for j
    using that
  proof (induction j rule: less_induct)
    case (less j)
    show ?case
    proof (cases "i_parentid (tbl ! j) = -1")
      case True
      then show ?thesis using occurs_below_root [OF wf True less.prems, of "-1"] by simp
    next
      case False
      then obtain k where k: "i_parentid (tbl ! j) = int k" "k < j"
        using wf_inodesD(2,3) [OF wf less.prems] nonneg_int_cases [of "i_parentid (tbl ! j)"] by force
      then have "is_dir (tbl ! k)" using dirs less.prems False by auto
      then show ?thesis
        using occurs_step [OF wf less.prems k(1), of "-1"] less.IH [OF k(2)] k(2) less.prems by simp
    qed
  qed
  have sub: "set (preorder tbl pid) \<subseteq> {..<length tbl}" for pid
  proof (induction tbl pid rule: preorder.induct)
    case (1 tbl pid)
    then show ?case by (subst preorder.simps) (auto simp: children_def split: if_splits)
  qed
  have "mset (preorder tbl (-1)) = mset [0..<length tbl]"
  proof (rule multiset_eqI)
    fix j
    show "count (mset (preorder tbl (-1))) j = count (mset [0..<length tbl]) j"
    proof (cases "j < length tbl")
      case True
      then show ?thesis using once [OF True] by (simp add: count_mset_set)
    next
      case False
      then have "j \<notin> set (preorder tbl (-1))" using sub by auto
      then show ?thesis using False by (simp add: count_eq_zero_iff)
    qed
  qed
  then have "image_mset ((!) tbl) (mset (preorder tbl (-1))) = image_mset ((!) tbl) (mset [0..<length tbl])"
    by simp
  then show ?thesis unfolding forest_preorder mset_map [symmetric] map_nth .
qed

theorem forest_has_every_inode_once_witness:
  "mset (concat (map tree_inodes (forest sample_tbl (-1)))) = mset sample_tbl"
  by (rule forest_has_every_inode_once [OF sample_tbl_wf])
     (simp add: sample_tbl_def blank_inode_def All_less_Suc nth_Cons' is_dir_def S_IFMT_def S_IFDIR_def)

end
