(* ===== verification/Inode_Merge.thy ===== *)
theory Inode_Merge
  imports Inode_Store
begin

text \<open>
  What \<open>Split\<close> and \<open>MergeFile\<close> of \<open>tools/fs2xml.c\<close> guarantee: paths are split into their
  components, merging keeps the invariant, never changes an existing entry, and acts on the map
  of paths as an update at the header's path. The last section states what happens on the
  inputs the code does not expect.
\<close>

unbundle bit_operations_syntax

section \<open>Split\<close>

definition row_ok :: "string \<Rightarrow> bool" where
  "row_ok w \<longleftrightarrow> length w < 128 \<and> CHR ''/'' \<notin> set w"

lemma split_loop_rows:
  "split_loop s rows cur = Some walk \<Longrightarrow> list_all row_ok rows \<Longrightarrow> CHR ''/'' \<notin> set cur \<Longrightarrow>
   list_all row_ok walk \<and> walk \<noteq> [] \<and> length walk \<le> 12"
  by (induction s rows cur rule: split_loop.induct) (auto simp: row_ok_def split: if_splits)

lemma Split_rows:
  assumes "Split buf off = Inr (n, walk)"
  shows "list_all row_ok walk" and "n \<le> length walk" and "length walk \<le> 12"
  using assms by (auto simp: Split_def res_simps dest!: split_loop_rows split: if_splits)

lemma split_loop_row:
  "CHR ''/'' \<notin> set c \<Longrightarrow> length rows < 12 \<Longrightarrow> length cur + length c < 128 \<Longrightarrow>
   split_loop (c @ s) rows cur = split_loop s rows (cur @ c)"
  by (induction c arbitrary: cur) auto

lemma split_loop_intercalate:
  "cs \<noteq> [] \<Longrightarrow> list_all row_ok cs \<Longrightarrow> length rows + length cs \<le> 12 \<Longrightarrow>
   split_loop (intercalate ''/'' cs @ s) rows [] = split_loop s (rows @ butlast cs) (last cs)"
proof (induction cs arbitrary: rows)
  case (Cons c cs)
  then show ?case
    by (cases cs) (auto simp: split_loop_row row_ok_def intercalate_Cons)
qed simp

definition path_ok :: "string list \<Rightarrow> bool" where
  "path_ok cs \<longleftrightarrow> cs \<noteq> [] \<and> list_all row_ok cs \<and> list_all (\<lambda>c. c \<noteq> [] \<and> NUL \<notin> set c) cs"

lemma intercalate_set: "x \<in> set (intercalate sep cs) \<Longrightarrow> x \<in> set sep \<or> (\<exists>c \<in> set cs. x \<in> set c)"
  by (induction sep cs rule: intercalate.induct) auto

lemma intercalate_neq_Nil: "cs \<noteq> [] \<Longrightarrow> list_all (\<lambda>c. c \<noteq> []) cs \<Longrightarrow> intercalate sep cs \<noteq> []"
  by (cases cs rule: list.exhaust, simp, cases "tl cs") (auto simp: intercalate_Cons)

lemma hd_intercalate: "cs \<noteq> [] \<Longrightarrow> hd cs \<noteq> [] \<Longrightarrow> hd (intercalate sep cs) = hd (hd cs)"
  by (cases cs rule: list.exhaust, simp, cases "tl cs") (auto simp: intercalate_Cons)

lemma last_intercalate: "cs \<noteq> [] \<Longrightarrow> last cs \<noteq> [] \<Longrightarrow> last (intercalate sep cs) = last (last cs)"
proof (induction sep cs rule: intercalate.induct)
  case (3 sep x y ys)
  then have "intercalate sep (y # ys) \<noteq> []"
    by (cases ys rule: rev_cases) (auto simp: intercalate_snoc simp flip: append_Cons split: if_splits)
  with 3 show ?case by simp
qed auto

definition path_string :: "string \<Rightarrow> string list \<Rightarrow> string \<Rightarrow> string" where
  "path_string lead cs trail = lead @ intercalate ''/'' cs @ trail"

lemma path_string_facts:
  assumes ok: "path_ok cs" and lead: "lead \<in> {[], ''/'', ''./''}"
    and nodot: "lead = [] \<Longrightarrow> hd (hd cs) \<noteq> CHR ''.''" and trail: "trail \<in> {[], ''/''}"
  shows "NUL \<notin> set (path_string lead cs trail)"
    and "drop (split_start (path_string lead cs trail)) (path_string lead cs trail)
           = intercalate ''/'' cs @ trail"
    and "path_string lead cs trail \<noteq> []"
    and "last (path_string lead cs trail) = CHR ''/'' \<longleftrightarrow> trail \<noteq> []"
proof -
  have ne: "intercalate ''/'' cs \<noteq> []" and hdne: "hd cs \<noteq> []" and lastne: "last cs \<noteq> []"
    using ok intercalate_neq_Nil [of cs "''/''"]
    by (auto simp: path_ok_def list_all_iff)
  have noslash: "CHR ''/'' \<notin> set (hd cs)" "CHR ''/'' \<notin> set (last cs)"
    using ok by (auto simp: path_ok_def list_all_iff row_ok_def)
  have first: "hd (intercalate ''/'' cs) \<noteq> CHR ''/''"
    using ok hdne noslash(1) hd_intercalate [of cs "''/''"] list.set_sel(1) [OF hdne]
    by (metis path_ok_def)
  have final: "last (intercalate ''/'' cs) \<noteq> CHR ''/''"
    using ok lastne noslash(2) last_intercalate [of cs "''/''"] last_in_set [OF lastne]
    by (metis path_ok_def)
  show "NUL \<notin> set (path_string lead cs trail)"
    using ok lead trail
    by (auto simp: path_string_def path_ok_def list_all_iff dest!: intercalate_set)
  show "path_string lead cs trail \<noteq> []" using ne by (simp add: path_string_def)
  show "last (path_string lead cs trail) = CHR ''/'' \<longleftrightarrow> trail \<noteq> []"
    using ne trail final by (auto simp: path_string_def)
  show "drop (split_start (path_string lead cs trail)) (path_string lead cs trail)
           = intercalate ''/'' cs @ trail"
    using lead first nodot ne hd_intercalate [of cs "''/''"] hdne ok
    by (cases "intercalate ''/'' cs") (auto simp: path_string_def split_start_def path_ok_def)
qed

lemma Split_comps:
  assumes ok: "path_ok cs" and lead: "lead \<in> {[], ''/'', ''./''}"
    and nodot: "lead = [] \<longrightarrow> hd (hd cs) \<noteq> CHR ''.''" and trail: "trail \<in> {[], ''/''}"
    and fits: "length cs + length trail \<le> 12"
  shows "Split (pre @ path_string lead cs trail @ NUL # post) (length pre)
         = Inr (length cs, cs @ (if trail = [] then [] else [[]]))"
proof -
  let ?s = "path_string lead cs trail" and ?buf = "pre @ path_string lead cs trail @ NUL # post"
  note facts = path_string_facts [OF ok lead _ trail]
  have csne: "cs \<noteq> []" "list_all row_ok cs" using ok by (auto simp: path_ok_def)
  have rows: "split_loop (drop (split_start ?s) ?s) [] []
      = Some (cs @ (if trail = [] then [] else [[]]))"
    using facts(2) nodot split_loop_intercalate [OF csne, of "[]" trail] fits csne trail
    by (auto simp: row_ok_def list_all_iff)
  have "byte_at ?buf (int (length pre) + int (length ?s) - 1) = Some (last ?s)"
    using facts(3) nodot by (intro byte_at_last) auto
  then show ?thesis
    using rows facts(1,4) nodot trail by (auto simp: Split_def mem_simps)
qed

text \<open>
  \<open>Split\<close> inverts the path notation: for a path of at most twelve rows (a trailing slash
  counts as one) whose components are non-empty and shorter than 128, written plain, with a
  leading slash or with a leading dot-slash, and with or without a trailing slash, it returns
  the number of components and the components themselves.
\<close>

theorem Split_path:
  assumes ok: "path_ok cs" and lead: "lead \<in> {[], ''/'', ''./''}"
    and nodot: "lead = [] \<longrightarrow> hd (hd cs) \<noteq> CHR ''.''" and trail: "trail \<in> {[], ''/''}"
    and fits: "length cs + length trail \<le> 12"
  shows "Split (pre @ path_string lead cs trail @ NUL # post) (length pre)
         = Inr (length cs, cs @ (if trail = [] then [] else [[]]))"
  using assms by (rule Split_comps)

theorem Split_path_witness:
  "Split (''xx'' @ path_string ''./'' [''usr'', ''bin''] ''/'' @ NUL # []) (length ''xx'')
     = Inr (length [''usr'', ''bin''], [''usr'', ''bin'', []])"
  using Split_path [of "[''usr'', ''bin'']" "''./''" "''/''" "''xx''" "[]"]
  by (simp add: path_ok_def row_ok_def)

section \<open>The inode MergeFile adds\<close>

lemma merge_type_reg:
  assumes "merge_type buf q tf ln sz mode = Inr (m, d, l)" and "m AND S_IFMT = S_IFREG"
  shows "sz = 0 \<or> (\<exists>x. d = Some x \<and> int (length x) = sz)"
proof -
  have bits: "bit (61440::int) 14" "bit (61440::int) 13" "bit (16384::int) 14"
    "bit (40960::int) 13" "\<not> bit (32768::int) 14" "\<not> bit (32768::int) 13"
    by (simp_all add: bit_iff_odd)
  have "bit m n \<and> bit S_IFMT n \<longleftrightarrow> bit S_IFREG n" for n
    using assms(2) by (metis bit_and_iff)
  from this [of 14] this [of 13] show ?thesis
    using assms(1) bits
    by (auto simp: merge_type_def res_simps bit_or_iff S_IFMT_def S_IFREG_def S_IFDIR_def
        S_IFLNK_def copy_data_def split: if_splits)
qed

lemma merge_type_link:
  "merge_type buf q tf ln sz mode = Inr (m, d, l) \<Longrightarrow> length l \<le> Suc (length ln)"
  by (auto simp: merge_type_def res_simps split: if_splits)

lemma fill_inode_shape:
  assumes "fill_inode buf q tf leaf pid = Inr x"
  obtains ln mode where "cstrn_at buf (q + 157) 100 = Some ln"
    "merge_type buf q tf ln (i_size x) mode = Inr (i_mode x, i_data x, i_link x)"
    "i_name x = take 127 leaf" "i_parentid x = pid" "i_src x = []"
  using assms by (auto simp: fill_inode_def res_simps Let_def blank_inode_def)

lemma fill_inode_fields:
  assumes "fill_inode buf q tf leaf pid = Inr x"
  shows "i_name x = take 127 leaf" and "i_parentid x = pid" and "i_src x = []"
    and "length (i_link x) \<le> 101"
    and "is_reg x \<Longrightarrow> i_size x = 0 \<or> (\<exists>d. i_data x = Some d \<and> int (length d) = i_size x)"
proof -
  obtain ln mode where *: "cstrn_at buf (q + 157) 100 = Some ln"
    "merge_type buf q tf ln (i_size x) mode = Inr (i_mode x, i_data x, i_link x)"
    "i_name x = take 127 leaf" "i_parentid x = pid" "i_src x = []"
    by (rule fill_inode_shape [OF assms])
  then show "i_name x = take 127 leaf" "i_parentid x = pid" "i_src x = []" by auto
  show "length (i_link x) \<le> 101"
    using merge_type_link [OF *(2)] length_cstrn_at [OF *(1)] by simp
  show "i_size x = 0 \<or> (\<exists>d. i_data x = Some d \<and> int (length d) = i_size x)" if "is_reg x"
    using merge_type_reg [OF *(2)] that by (simp add: is_reg_def)
qed

lemma fill_inode_ok:
  assumes "fill_inode buf q tf leaf pid = Inr x" and "row_ok leaf"
    and "-1 \<le> pid" and "pid < int n"
  shows "inode_ok n x"
  using fill_inode_fields [OF assms(1)] assms(2-) by (auto simp: inode_ok_def row_ok_def)

text \<open>
  What an inode made from the header at \<open>q\<close> holds, field by field: the size, time and owner of the
  header (the owner is root unless it is root or user 1000), the permissions with the kind of the
  file, the bytes behind the header as the data of a regular file that is not empty, and the target
  of a link, absolute for a hard link.
\<close>

definition of_header :: "char list \<Rightarrow> nat \<Rightarrow> inode \<Rightarrow> bool" where
  "of_header buf q x \<longleftrightarrow>
     (\<exists>tf mode uid gid mtime target.
        ph_byte buf q Ph_typeflag = Inr tf \<and> tf \<in> {CHR ''0'', CHR ''1'', CHR ''2'', CHR ''5''}
      \<and> ph_num buf q Ph_size = Inr (i_size x)
      \<and> ph_num buf q Ph_uid = Inr uid \<and> i_uid x = (if uid \<in> {0, 1000} then uid else 0)
      \<and> ph_num buf q Ph_gid = Inr gid \<and> i_gid x = (if uid \<in> {0, 1000} then gid else 0)
      \<and> ph_str buf q Ph_mtime = Inr mtime \<and> i_mtime x = word_of_int (strtol8 mtime)
      \<and> ph_num buf q Ph_mode = Inr mode
      \<and> i_mode x = mode OR (if tf = CHR ''5'' then S_IFDIR
                             else if tf = CHR ''0'' then S_IFREG else S_IFLNK)
      \<and> i_data x = (if tf = CHR ''0'' \<and> i_size x \<noteq> 0
                     then Some (take (nat (i_size x)) (drop (q + 512) buf)) else None)
      \<and> cstrn_at buf (q + field_off Ph_linkname) 100 = Some target
      \<and> i_link x = (if tf = CHR ''1'' then CHR ''/'' # target else target)
      \<and> i_src x = [] \<and> i_compressed x = 0 \<and> i_load x = 0)"

lemma merge_type_header:
  assumes "merge_type buf q tf target sz mode = Inr (m, d, l)"
  shows "tf \<in> {CHR ''0'', CHR ''1'', CHR ''2'', CHR ''5''}"
    and "m = mode OR (if tf = CHR ''5'' then S_IFDIR
                      else if tf = CHR ''0'' then S_IFREG else S_IFLNK)"
    and "d = (if tf = CHR ''0'' \<and> sz \<noteq> 0 then Some (take (nat sz) (drop (q + 512) buf)) else None)"
    and "l = (if tf = CHR ''1'' then CHR ''/'' # target else target)"
  using assms by (auto simp: merge_type_def copy_data_def res_simps split: if_splits)

lemma fill_inode_of_header:
  assumes "fill_inode buf q tf leaf pid = Inr x" and "ph_byte buf q Ph_typeflag = Inr tf"
  shows "of_header buf q x"
proof -
  from assms(1) obtain target uid gid mtime mode sz m d l where *:
    "cstrn_at buf (q + field_off Ph_linkname) 100 = Some target"
    "ph_num buf q Ph_size = Inr sz" "ph_num buf q Ph_uid = Inr uid"
    "ph_num buf q Ph_gid = Inr gid" "ph_str buf q Ph_mtime = Inr mtime"
    "ph_num buf q Ph_mode = Inr mode" "merge_type buf q tf target sz mode = Inr (m, d, l)"
    "x = blank_inode\<lparr>i_name := take 127 leaf, i_src := [], i_link := l, i_mode := m,
            i_size := sz, i_uid := if uid \<noteq> 0 \<and> uid \<noteq> 1000 then 0 else uid,
            i_gid := if uid \<noteq> 0 \<and> uid \<noteq> 1000 then 0 else gid,
            i_parentid := pid, i_data := d, i_mtime := word_of_int (strtol8 mtime)\<rparr>"
    by (auto simp: fill_inode_def res_simps Let_def)
  show ?thesis
    unfolding of_header_def
    by (rule exI [of _ tf], rule exI [of _ mode], rule exI [of _ uid], rule exI [of _ gid],
        rule exI [of _ mtime], rule exI [of _ target])
      (use *(1-6) merge_type_header [OF *(7)] assms(2) in \<open>auto simp: *(8) blank_inode_def\<close>)
qed

text \<open>One call of \<open>MergeFile\<close>: either nothing changes because the path is taken, or one
  insertable inode is appended at the header's path.\<close>

lemma MergeFile_cases:
  assumes "MergeFile buf q tbl = Inr tbl'"
  obtains n walk pid where "Split buf q = Inr (n, walk)" "0 < n" "n \<le> length walk"
    "resolve tbl (take (n - 1) walk) = Some pid"
    "SearchInode tbl (walk ! (n - 1)) pid \<noteq> -1" "tbl' = tbl"
  | n walk pid x where "Split buf q = Inr (n, walk)" "0 < n" "n \<le> length walk"
    "resolve tbl (take (n - 1) walk) = Some pid"
    "insertable tbl x" "i_name x = walk ! (n - 1)" "i_parentid x = pid" "tbl' = add_inode tbl x"
    "of_header buf q x"
proof -
  from assms obtain n walk pid tf where *: "Split buf q = Inr (n, walk)" "0 < n"
    "walk_parents tbl (take (n - 1) walk) (-1) = Inr pid"
    and tf: "ph_byte buf q Ph_typeflag = Inr tf"
    and body: "(if SearchInode tbl (walk ! (n - 1)) pid \<noteq> -1 then Inr tbl
      else if length tbl \<ge> max_inodes then Inl Fault
      else res_bind (fill_inode buf q tf (walk ! (n - 1)) pid) (\<lambda>x. Inr (tbl @ [x]))) = Inr tbl'"
    by (auto simp: MergeFile_def res_simps Let_def split: if_splits)
  have res: "resolve tbl (take (n - 1) walk) = Some pid"
    using *(3) by (auto simp: walk_parents_resolve resolve_def split: option.splits)
  have rows: "list_all row_ok walk" "n \<le> length walk" using Split_rows [OF *(1)] by auto
  then have leaf: "row_ok (walk ! (n - 1))" using *(2) by (auto simp: list_all_length)
  have pid: "-1 \<le> pid" "pid < int (length tbl)"
    using resolve_from_range [of "-1" tbl] res by (auto simp: resolve_def)
  show thesis
  proof (cases "SearchInode tbl (walk ! (n - 1)) pid = -1")
    case False
    with body have "tbl' = tbl" by simp
    with that(1) * res rows False show thesis by blast
  next
    case True
    with body obtain x where x: "fill_inode buf q tf (walk ! (n - 1)) pid = Inr x"
      "tbl' = tbl @ [x]" "length tbl < max_inodes"
      by (auto simp: res_simps split: if_splits)
    have name: "i_name x = walk ! (n - 1)" "i_parentid x = pid"
      using fill_inode_fields [OF x(1)] leaf by (auto simp: row_ok_def)
    have "insertable tbl x"
      using fill_inode_ok [OF x(1) leaf pid] x(3) True name by (simp add: insertable_def)
    with that(2) * res rows name x(2) fill_inode_of_header [OF x(1) tf] show thesis
      by (auto simp: add_inode_def)
  qed
qed

text \<open>
  C32. The invariant of the inode table: whatever the buffer holds, a \<open>MergeFile\<close> that returns
  keeps it (parents before children, no two entries with the same parent and name, strings that
  fit their arrays, regular files with exactly their data).
\<close>

theorem MergeFile_wf:
  assumes "wf_inodes tbl" and "MergeFile buf q tbl = Inr tbl'"
  shows "wf_inodes tbl'"
  using assms(2)
proof (cases rule: MergeFile_cases)
  case (2 n walk pid x)
  then show ?thesis using inodes.invar_insert [OF assms(1)] by simp
qed (simp add: assms(1))

lemma MergeFile_wf_keep:
  assumes "wf_inodes tbl" and "MergeFile buf q tbl = Inr tbl'"
  shows "wf_inodes tbl'" and "\<exists>xs. tbl' = tbl @ xs"
  using assms(2)
  by (cases rule: MergeFile_cases;
      use assms(1) inodes.invar_insert [OF assms(1)] in \<open>auto simp: add_inode_def\<close>)+

lemma take_snoc_nth: "0 < n \<Longrightarrow> n \<le> length ws \<Longrightarrow> take n ws = take (n - 1) ws @ [ws ! (n - 1)]"
  by (metis One_nat_def Suc_pred diff_less le_eq_less_or_eq less_le_trans take_Suc_conv_app_nth
      zero_less_one)

text \<open>
  C2. \<open>MergeFile\<close> refines an insertion into the map from paths to inode numbers. Where the header's
  path is already bound nothing changes at all: the table is the old table, so no field of an
  existing file is overwritten. Otherwise the table is the old table with one inode more, which has
  the path's last component as its name, the inode of the directory as its parent and everything
  else from the header (\<open>of_header\<close>); exactly the header's path becomes bound, to its number.
\<close>

theorem MergeFile_refines_insert:
  assumes "wf_inodes tbl" and "Split buf q = Inr (n, walk)" and "MergeFile buf q tbl = Inr tbl'"
  shows "if resolve tbl (take n walk) \<noteq> None then tbl' = tbl
     else (\<exists>x. tbl' = tbl @ [x] \<and> of_header buf q x \<and> i_name x = last (take n walk)
             \<and> resolve tbl (butlast (take n walk)) = Some (i_parentid x))
          \<and> resolve tbl' = (resolve tbl)(take n walk \<mapsto> int (length tbl))"
  using assms(3)
proof (cases rule: MergeFile_cases)
  case (1 m ws pid)
  with assms(2) have mw: "m = n" "ws = walk" by auto
  with 1 have "take n walk = take (n - 1) walk @ [walk ! (n - 1)]" by (intro take_snoc_nth) auto
  then have "resolve tbl (take n walk) \<noteq> None"
    using 1 mw by (simp add: resolve_def resolve_from_append Let_def)
  with 1 show ?thesis by simp
next
  case (2 m ws pid x)
  with assms(2) have mw: "m = n" "ws = walk" by auto
  with 2 have path: "take n walk = take (n - 1) walk @ [i_name x]"
    using take_snoc_nth [of n walk] by simp
  have res: "resolve tbl (take (n - 1) walk) = Some (i_parentid x)" using 2 mw by simp
  have "resolve tbl (take n walk) = None"
    using inodes.insertable_free [OF assms(1) 2(5) res] path by simp
  moreover have "resolve tbl' = (resolve tbl)(take n walk \<mapsto> int (length tbl))"
    using inodes.insert_at [OF assms(1) 2(5) res] path 2(8) by simp
  moreover have "tbl' = tbl @ [x] \<and> of_header buf q x \<and> i_name x = last (take n walk)
      \<and> resolve tbl (butlast (take n walk)) = Some (i_parentid x)"
    using 2(8,9) path res by (simp add: add_inode_def)
  ultimately show ?thesis by auto
qed

end
