(* ===== verification/Tar_Archive.thy ===== *)
theory Tar_Archive
  imports Inode_Merge
begin

text \<open>
  \<open>Untar\<close> of \<open>tools/fs2xml.c\<close>, and the tar archives it is meant for. The loop runs on fuel:
  each turn spends one unit and an empty tank is \<open>Diverges\<close>. The reference side is the ustar
  format: \<open>archive es\<close> lays out a header and the padded data of every entry and two zero blocks,
  and \<open>merge_entry\<close> is what one entry means for the inode table.
\<close>

unbundle bit_operations_syntax

section \<open>Untar\<close>

text \<open>\<open>p = p + size; if (p & 511) p = p & ~0x1FF;\<close> on 32-bit \<open>int\<close>s.\<close>

definition next_pos :: "int \<Rightarrow> int \<Rightarrow> int res" where
  "next_pos p sz =
     (if sz \<noteq> 0 then
        (let p' = p + sz in
         if - (2 ^ 31) \<le> p' \<and> p' < 2 ^ 31
         then Inr (if p' AND 511 \<noteq> 0 then p' AND NOT 0x1FF else p')
         else Inl Fault)
      else Inr p)"

fun Untar_loop :: "nat \<Rightarrow> char list \<Rightarrow> int \<Rightarrow> int \<Rightarrow> inode list \<Rightarrow> inode list res" where
  "Untar_loop 0 buf len p tbl = Inl Diverges"
| "Untar_loop (Suc fuel) buf len p tbl =
     (if p < len then
        if p < 0 \<or> p + 0x200 \<ge> 2 ^ 31 then Inl Fault
        else let q = nat p; p1 = p + 0x200 in
        res_bind (is_ustar buf q) (\<lambda>ok.
        if \<not> ok then Untar_loop fuel buf len p1 tbl
        else
          res_bind (ph_num buf q Ph_size) (\<lambda>sz.
          res_bind (MergeFile buf q tbl) (\<lambda>tbl'.
          res_bind (next_pos p1 sz) (\<lambda>p2. Untar_loop fuel buf len p2 tbl'))))
      else Inr tbl)"

definition Untar :: "nat \<Rightarrow> char list \<Rightarrow> int \<Rightarrow> inode list \<Rightarrow> inode list res" where
  "Untar fuel buf len tbl = Untar_loop fuel buf len 0 tbl"

lemma and_not_511: "(p::int) AND NOT 0x1FF = 512 * (p div 512)"
proof -
  have m: "(511::int) = mask 9" by (simp add: mask_eq_exp_minus_1)
  have "p AND NOT (mask 9) = push_bit 9 (drop_bit 9 p)"
    by (rule bit_eqI) (auto simp: bit_simps not_less)
  then show ?thesis by (simp add: m [symmetric] push_bit_eq_mult drop_bit_eq_div mult.commute)
qed

lemma and_511: "(p::int) AND 511 = p mod 512"
proof -
  have "(511::int) = mask 9" by (simp add: mask_eq_exp_minus_1)
  then have "p AND 511 = take_bit 9 p" by (simp only: take_bit_eq_mask)
  then show ?thesis by (simp add: take_bit_eq_mod)
qed

lemma next_pos_eq:
  assumes "512 dvd p" "- (2 ^ 31) \<le> p + sz" "p + sz < 2 ^ 31"
  shows "next_pos p sz = Inr (p + 512 * (sz div 512))"
proof -
  have "(p + sz) div 512 = p div 512 + sz div 512"
    using assms(1) by (simp add: div_plus_div_distrib_dvd_left)
  moreover have "512 * (p div 512) = p" using assms(1) by simp
  moreover have "p + sz = 512 * ((p + sz) div 512)" if "(p + sz) mod 512 = 0"
    using that by (metis dvd_eq_mod_eq_0 dvd_mult_div_cancel)
  ultimately show ?thesis
    using assms(2,3) by (auto simp: next_pos_def Let_def and_not_511 [simplified] and_511)
qed

lemma next_pos_cases:
  assumes "next_pos p sz = Inr p'" "512 dvd p"
  shows "p' = p + 512 * (sz div 512)"
proof (cases "sz = 0")
  case False
  then have "- (2 ^ 31) \<le> p + sz \<and> p + sz < 2 ^ 31"
    using assms(1) by (auto simp: next_pos_def Let_def split: if_splits)
  then show ?thesis using next_pos_eq [OF assms(2), of sz] assms(1) by simp
qed (use assms in \<open>simp add: next_pos_def\<close>)

section \<open>Termination and the invariant\<close>

lemma MergeFile_returns: "MergeFile buf q tbl \<noteq> Inl Diverges"
  by (auto simp: MergeFile_def fill_inode_def merge_type_def copy_data_def Split_def Let_def
      ph_num_def ph_str_def ph_byte_def walk_parents_resolve halt_simps
      split: if_splits option.splits)

lemma step_returns:
  "is_ustar buf q \<noteq> Inl Diverges" "ph_num buf q f \<noteq> Inl Diverges"
  "MergeFile buf q tbl \<noteq> Inl Diverges" "next_pos p sz \<noteq> Inl Diverges"
  using MergeFile_returns
  by (auto simp: is_ustar_def ph_num_def ph_str_def next_pos_def Let_def halt_simps
      split: if_splits)

text \<open>No header the loop can come by, that is no block with the magic, has a negative size.\<close>

definition sizes_ok :: "char list \<Rightarrow> int \<Rightarrow> bool" where
  "sizes_ok buf len \<longleftrightarrow>
     list_all (\<lambda>k. is_ustar buf (512 * k) = Inr True \<longrightarrow>
                    (case ph_num buf (512 * k) Ph_size of Inl _ \<Rightarrow> True | Inr sz \<Rightarrow> 0 \<le> sz))
              [0..<nat (len + 511) div 512]"

lemma sizes_okD:
  assumes "sizes_ok buf len" and "512 dvd p" and "0 \<le> p" and "p < len"
    and "is_ustar buf (nat p) = Inr True" and "ph_num buf (nat p) Ph_size = Inr sz"
  shows "0 \<le> sz"
proof -
  obtain k where k: "p = 512 * k" using assms(2) by (elim dvdE)
  with assms(3,4) have "nat p = 512 * nat k" "nat k < nat (len + 511) div 512" by linarith+
  then show ?thesis using assms(1,5,6) by (auto simp: sizes_ok_def list_all_iff)
qed

lemma Untar_loop_enough:
  assumes "sizes_ok buf len"
  shows "512 dvd p \<Longrightarrow> 0 < fuel \<Longrightarrow> len - p \<le> 512 * (int fuel - 1) \<Longrightarrow>
    Untar_loop fuel buf len p tbl \<noteq> Inl Diverges"
proof (induction fuel arbitrary: p tbl)
  case (Suc fuel)
  show ?case
  proof (cases "p < len \<and> 0 \<le> p \<and> p + 512 < 2 ^ 31")
    case True
    with Suc.prems have fuel: "0 < fuel" by auto
    have next_ok: "Untar_loop fuel buf len (p + 512 + 512 * k) t \<noteq> Inl Diverges" if "0 \<le> k" for k t
      using Suc.prems fuel that by (intro Suc.IH) (auto simp: dvd_add algebra_simps)
    have *: "Untar_loop fuel buf len (p + 512) t \<noteq> Inl Diverges" for t
      using next_ok [of 0] by simp
    have **: "Untar_loop fuel buf len p2 t \<noteq> Inl Diverges"
      if "is_ustar buf (nat p) = Inr True" "ph_num buf (nat p) Ph_size = Inr sz"
        "next_pos (p + 512) sz = Inr p2" for sz p2 t
    proof -
      have "p2 = p + 512 + 512 * (sz div 512)"
        using next_pos_cases [OF that(3)] Suc.prems(1) by simp
      moreover have "0 \<le> sz div 512"
        using sizes_okD [OF assms Suc.prems(1) _ _ that(1,2)] True by simp
      ultimately show ?thesis using next_ok by simp
    qed
    show ?thesis using True * ** step_returns
      by (auto simp: Let_def halt_simps split: if_splits)
  qed auto
qed simp

text \<open>More fuel changes nothing once the loop has come to its end.\<close>

lemma Untar_loop_more:
  "Untar_loop fuel buf len p tbl \<noteq> Inl Diverges \<Longrightarrow>
   Untar_loop (fuel + k) buf len p tbl = Untar_loop fuel buf len p tbl"
proof (induction fuel arbitrary: p tbl)
  case (Suc fuel)
  show ?case
  proof (cases "p < len \<and> 0 \<le> p \<and> p + 512 < 2 ^ 31")
    case True
    with Suc show ?thesis
      by (cases "is_ustar buf (nat p)"; cases "ph_num buf (nat p) Ph_size";
          cases "MergeFile buf (nat p) tbl"; cases "next_pos (p + 512) (projr (ph_num buf (nat p) Ph_size))")
        (auto simp: Let_def split: if_splits)
  qed auto
qed simp

text \<open>
  C38. \<open>Untar\<close> returns: when no 512-byte block of the archive that carries the magic of a header has
  a negative size field, one turn per block and one more are enough, whatever else the archive holds
  and whatever the data of its files reads as; and any more turns give the same result.
\<close>

theorem Untar_terminates:
  assumes "sizes_ok buf len" and "len \<le> 512 * (int fuel - 1)" and "0 < fuel"
  shows "Untar fuel buf len tbl \<noteq> Inl Diverges
       \<and> Untar (fuel + k) buf len tbl = Untar fuel buf len tbl"
  using Untar_loop_enough [of buf len 0 fuel tbl] Untar_loop_more [of fuel buf len 0 tbl k] assms
  by (simp add: Untar_def)

text \<open>The invariant survives a whole archive, and entries merged earlier stay where they are.\<close>

lemma Untar_loop_wf:
  "wf_inodes tbl \<Longrightarrow> Untar_loop fuel buf len p tbl = Inr tbl' \<Longrightarrow>
   wf_inodes tbl' \<and> (\<exists>xs. tbl' = tbl @ xs)"
proof (induction fuel arbitrary: p tbl)
  case (Suc fuel)
  show ?case
  proof (cases "p < len")
    case False
    with Suc.prems show ?thesis by simp
  next
    case True
    with Suc.prems(2) consider p2 where "Untar_loop fuel buf len p2 tbl = Inr tbl'"
      | p2 t where "MergeFile buf (nat p) tbl = Inr t" "Untar_loop fuel buf len p2 t = Inr tbl'"
      by (auto simp: Let_def res_simps split: if_splits)
    then show ?thesis
    proof cases
      case 1
      then show ?thesis using Suc.IH Suc.prems(1) by blast
    next
      case 2
      with MergeFile_wf_keep [OF Suc.prems(1) 2(1)] Suc.IH [OF _ 2(2)] show ?thesis by force
    qed
  qed
qed simp

text \<open>
  Whatever the archive holds, an \<open>Untar\<close> that returns keeps the invariant of the inode
  table and only adds entries at its end.
\<close>

theorem Untar_wf:
  assumes "wf_inodes tbl" and "Untar fuel buf len tbl = Inr tbl'"
  shows "wf_inodes tbl' \<and> (\<exists>xs. tbl' = tbl @ xs)"
  using assms Untar_loop_wf unfolding Untar_def by blast

end
