(* ===== verification/Tar_Format.thy ===== *)
theory Tar_Format
  imports Tar_Archive
begin

text \<open>
  The ustar format as a reference, and \<open>Untar\<close> against it. \<open>header_bytes\<close> lays the sixteen
  fields out in the order of \<open>struct posix_header\<close>; \<open>entry_bytes\<close> adds the data padded to
  512-byte blocks; \<open>archive\<close> is a list of entries and the two zero blocks that end it.
\<close>

unbundle bit_operations_syntax

section \<open>Headers\<close>

definition pad :: "nat \<Rightarrow> string \<Rightarrow> string" where
  "pad n s = s @ replicate (n - length s) NUL"

definition fields_bytes :: "(posix_field \<Rightarrow> string) \<Rightarrow> posix_field list \<Rightarrow> string" where
  "fields_bytes c fs = concat (map (\<lambda>f. pad (field_size f) (c f)) fs)"

definition header_bytes :: "(posix_field \<Rightarrow> string) \<Rightarrow> string" where
  "header_bytes c = fields_bytes c posix_header @ replicate 12 NUL"

lemma length_pad [simp]: "length s \<le> n \<Longrightarrow> length (pad n s) = n"
  by (simp add: pad_def)

lemma length_fields_bytes:
  "(\<And>f. length (c f) \<le> field_size f) \<Longrightarrow>
   length (fields_bytes c fs) = sum_list (map field_size fs)"
  by (induction fs) (simp_all add: fields_bytes_def)

lemma length_header_bytes:
  "(\<And>f. length (c f) \<le> field_size f) \<Longrightarrow> length (header_bytes c) = 512"
  by (simp add: header_bytes_def length_fields_bytes posix_header_def)

lemma header_bytes_split:
  assumes "\<And>f. length (c f) \<le> field_size f"
  obtains A B where "header_bytes c = A @ pad (field_size f) (c f) @ B" "length A = field_off f"
proof -
  have "f \<in> set posix_header" by (cases f) (simp_all add: posix_header_def)
  then have dw: "dropWhile (\<lambda>g. g \<noteq> f) posix_header \<noteq> []" by (simp add: dropWhile_eq_Nil_conv)
  then have "hd (dropWhile (\<lambda>g. g \<noteq> f) posix_header) = f"
    using hd_dropWhile [of "\<lambda>g. g \<noteq> f"] by blast
  with dw obtain ys where "dropWhile (\<lambda>g. g \<noteq> f) posix_header = f # ys"
    by (metis list.exhaust_sel)
  then have ys: "posix_header = takeWhile (\<lambda>g. g \<noteq> f) posix_header @ f # ys"
    using takeWhile_dropWhile_id [of "\<lambda>g. g \<noteq> f" posix_header] by simp
  let ?A = "fields_bytes c (takeWhile (\<lambda>g. g \<noteq> f) posix_header)"
  have "header_bytes c = ?A @ pad (field_size f) (c f) @ (fields_bytes c ys @ replicate 12 NUL)"
    unfolding header_bytes_def by (subst ys) (simp add: fields_bytes_def)
  moreover have "length ?A = field_off f"
    using assms by (simp add: length_fields_bytes field_off_def)
  ultimately show thesis using that by blast
qed

definition content_ok :: "(posix_field \<Rightarrow> string) \<Rightarrow> bool" where
  "content_ok c \<longleftrightarrow>
     (\<forall>f \<in> set posix_header. length (c f) \<le> field_size f \<and> NUL \<notin> set (c f)
        \<and> (f \<noteq> Ph_typeflag \<longrightarrow> length (c f) < field_size f)) \<and> length (c Ph_typeflag) = 1"

lemma content_okD:
  assumes "content_ok c"
  shows "length (c f) \<le> field_size f" and "NUL \<notin> set (c f)"
    and "f \<noteq> Ph_typeflag \<Longrightarrow> length (c f) < field_size f"
proof -
  have "f \<in> set posix_header" by (cases f) (simp_all add: posix_header_def)
  with assms show "length (c f) \<le> field_size f" "NUL \<notin> set (c f)"
    "f \<noteq> Ph_typeflag \<Longrightarrow> length (c f) < field_size f" by (auto simp: content_ok_def)
qed

lemma pad_NUL: "length s < n \<Longrightarrow> pad n s = s @ NUL # replicate (n - length s - 1) NUL"
  by (metis Suc_diff_Suc diff_Suc_1' minus_nat.diff_0 pad_def replicate_Suc zero_less_diff One_nat_def diff_diff_left add.commute plus_1_eq_Suc)

lemma header_cstr:
  assumes "content_ok c" and "f \<noteq> Ph_typeflag"
  shows "cstr_at (pre @ header_bytes c @ post) (length pre + field_off f) = Some (c f)"
proof -
  obtain A B where AB: "header_bytes c = A @ pad (field_size f) (c f) @ B" "length A = field_off f"
    using header_bytes_split content_okD(1) [OF assms(1)] by blast
  obtain zs where "pad (field_size f) (c f) = c f @ NUL # zs"
    using pad_NUL content_okD(3) [OF assms] by blast
  then have "pre @ header_bytes c @ post = (pre @ A) @ c f @ NUL # (zs @ B @ post)"
    using AB by simp
  then show ?thesis
    using cstr_at_append_NUL [OF content_okD(2) [OF assms(1), of f], of "pre @ A"] AB(2)
    by (simp add: add.commute)
qed

lemma ph_str_header [simp]:
  "content_ok c \<Longrightarrow> f \<noteq> Ph_typeflag \<Longrightarrow>
   ph_str (pre @ header_bytes c @ post) (length pre) f = Inr (c f)"
  by (simp add: ph_str_def header_cstr)

lemma ph_num_header [simp]:
  "content_ok c \<Longrightarrow> f \<noteq> Ph_typeflag \<Longrightarrow>
   ph_num (pre @ header_bytes c @ post) (length pre) f = Inr (wrap32 (strtol8 (c f)))"
  by (simp add: ph_num_def)

lemma takeWhile_take_NUL: "NUL \<notin> set s \<Longrightarrow> takeWhile (\<lambda>c. c \<noteq> NUL) (s @ replicate n NUL) = s"
  by (cases n) (auto simp: takeWhile_append takeWhile_eq_all_conv)

lemma cstrn_header:
  assumes "content_ok c"
  shows "cstrn_at (pre @ header_bytes c @ post) (length pre + 157) 100 = Some (c Ph_linkname)"
proof -
  obtain A B where AB: "header_bytes c = A @ pad 100 (c Ph_linkname) @ B" "length A = 157"
    using header_bytes_split [of c Ph_linkname] content_okD(1) [OF assms] by auto
  have len: "length (c Ph_linkname) < 100" using content_okD(3) [OF assms, of Ph_linkname] by simp
  have "drop (length pre + 157) (pre @ header_bytes c @ post) = pad 100 (c Ph_linkname) @ B @ post"
    using AB by simp
  then have "take 100 (drop (length pre + 157) (pre @ header_bytes c @ post)) = pad 100 (c Ph_linkname)"
    using len by simp
  then show ?thesis
    using len content_okD(2) [OF assms, of Ph_linkname]
    by (simp add: cstrn_at_def pad_def takeWhile_take_NUL)
qed

lemma ph_byte_header [simp]:
  assumes "content_ok c"
  shows "ph_byte (pre @ header_bytes c @ post) (length pre) Ph_typeflag = Inr (hd (c Ph_typeflag))"
proof -
  obtain A B where AB: "header_bytes c = A @ pad 1 (c Ph_typeflag) @ B" "length A = 156"
    using header_bytes_split [of c Ph_typeflag] content_okD(1) [OF assms] by auto
  obtain t where t: "c Ph_typeflag = [t]"
    using assms by (auto simp: content_ok_def length_Suc_conv)
  have "pre @ header_bytes c @ post = (pre @ A) @ t # B @ post" using AB t by (simp add: pad_def)
  moreover have "byte_at ((pre @ A) @ t # B @ post) (int (length (pre @ A))) = Some t"
    by (rule byte_at_append)
  ultimately show ?thesis using t AB(2) by (simp add: ph_byte_def)
qed

lemma is_ustar_header:
  assumes "content_ok c" and "c Ph_magic = ''ustar''"
  shows "is_ustar (pre @ header_bytes c @ post) (length pre) = Inr True"
proof -
  obtain A B where AB: "header_bytes c = A @ pad 6 (c Ph_magic) @ B" "length A = 257"
    using header_bytes_split [of c Ph_magic] content_okD(1) [OF assms(1)] by auto
  have "drop (length pre + 257) (pre @ header_bytes c @ post)
      = ''ustar'' @ replicate 1 NUL @ B @ post"
    using AB assms(2) by (simp add: pad_def)
  then show ?thesis by (simp add: is_ustar_def)
qed

section \<open>Entries and archives\<close>

record tar_entry =
  te_lead :: string
  te_path :: "string list"
  te_trail :: string
  te_mode :: nat
  te_uid :: nat
  te_gid :: nat
  te_mtime :: nat
  te_type :: char
  te_link :: string
  te_data :: string

definition te_name :: "tar_entry \<Rightarrow> string" where
  "te_name e = path_string (te_lead e) (te_path e) (te_trail e)"

fun entry_field :: "tar_entry \<Rightarrow> posix_field \<Rightarrow> string" where
  "entry_field e Ph_name = te_name e"
| "entry_field e Ph_mode = oct_string 7 (te_mode e)"
| "entry_field e Ph_uid = oct_string 7 (te_uid e)"
| "entry_field e Ph_gid = oct_string 7 (te_gid e)"
| "entry_field e Ph_size = oct_string 11 (length (te_data e))"
| "entry_field e Ph_mtime = oct_string 11 (te_mtime e)"
| "entry_field e Ph_typeflag = [te_type e]"
| "entry_field e Ph_linkname = te_link e"
| "entry_field e Ph_magic = ''ustar''"
| "entry_field e f = []"

definition data_blocks :: "string \<Rightarrow> string" where
  "data_blocks d = d @ replicate ((512 - length d mod 512) mod 512) NUL"

definition entry_bytes :: "tar_entry \<Rightarrow> string" where
  "entry_bytes e = header_bytes (entry_field e) @ data_blocks (te_data e)"

definition archive :: "tar_entry list \<Rightarrow> string" where
  "archive es = concat (map entry_bytes es) @ replicate 1024 NUL"

text \<open>The last, partly filled block of the data does not itself look like a header.\<close>

definition tail_ok :: "string \<Rightarrow> bool" where
  "tail_ok d \<longleftrightarrow> take 5 (drop (512 * (length d div 512) + 257) d) \<noteq> ''ustar''"

definition entry_ok :: "tar_entry \<Rightarrow> bool" where
  "entry_ok e \<longleftrightarrow>
     path_ok (te_path e) \<and> te_lead e \<in> {[], ''/'', ''./''} \<and> te_trail e \<in> {[], ''/''} \<and>
     (te_lead e = [] \<longrightarrow> hd (hd (te_path e)) \<noteq> CHR ''.'') \<and>
     length (te_path e) + length (te_trail e) \<le> 12 \<and> length (te_name e) < 100 \<and>
     te_mode e < 8 ^ 7 \<and> te_uid e < 8 ^ 7 \<and> te_gid e < 8 ^ 7 \<and> te_mtime e < 8 ^ 11 \<and>
     te_type e \<in> set ''0125'' \<and> (te_type e \<noteq> CHR ''0'' \<longrightarrow> te_data e = []) \<and>
     (te_type e \<in> set ''12'' \<longrightarrow> te_link e \<noteq> []) \<and>
     length (te_link e) < 100 \<and> NUL \<notin> set (te_link e) \<and>
     length (te_data e) < 2 ^ 31 \<and> tail_ok (te_data e)"

text \<open>What an entry means: the inode it describes, and how the table takes it.\<close>

definition type_bits :: "char \<Rightarrow> int" where
  "type_bits t = (if t = CHR ''5'' then S_IFDIR else if t = CHR ''0'' then S_IFREG else S_IFLNK)"

definition entry_inode :: "tar_entry \<Rightarrow> int \<Rightarrow> inode" where
  "entry_inode e pid =
     blank_inode\<lparr>
       i_name := last (te_path e), i_parentid := pid,
       i_link := if te_type e = CHR ''1'' then CHR ''/'' # te_link e else te_link e,
       i_mode := int (te_mode e) OR type_bits (te_type e),
       i_size := int (length (te_data e)),
       i_uid := if te_uid e = 1000 then 1000 else 0,
       i_gid := if te_uid e = 0 \<or> te_uid e = 1000 then int (te_gid e) else 0,
       i_data := if te_data e = [] then None else Some (te_data e),
       i_mtime := word_of_nat (te_mtime e)\<rparr>"

definition merge_entry :: "tar_entry \<Rightarrow> inode list \<Rightarrow> inode list res" where
  "merge_entry e tbl =
     (case resolve tbl (butlast (te_path e)) of
        None \<Rightarrow> Inl (Exit 1)
      | Some pid \<Rightarrow>
          if SearchInode tbl (last (te_path e)) pid \<noteq> -1 then Inr tbl
          else if length tbl \<ge> max_inodes then Inl Fault
          else Inr (tbl @ [entry_inode e pid]))"

lemma entry_content_ok: "entry_ok e \<Longrightarrow> content_ok (entry_field e)"
proof -
  assume e: "entry_ok e"
  have nul: "NUL \<notin> set (oct_string k n)" for k n
    using oct_string_oct oct_not_sign by blast
  have "NUL \<notin> set (te_name e)"
    using e path_string_facts(1) [of "te_path e" "te_lead e" "te_trail e"]
    by (auto simp: entry_ok_def te_name_def)
  then show ?thesis
    using e nul by (auto simp: content_ok_def posix_header_def entry_ok_def)
qed

lemma wrap32_strtol8: "n < 8 ^ k \<Longrightarrow> n < 2 ^ 31 \<Longrightarrow> wrap32 (strtol8 (oct_string k n)) = int n"
proof -
  assume n: "n < 8 ^ k" "n < 2 ^ 31"
  then have "strtol8 (oct_string k n) = int n"
    using oct_string_value [of n k] by (simp add: order_less_le_trans)
  then show ?thesis using n(2) by simp
qed

end
