(* ===== verification/Tar_Correct.thy ===== *)
theory Tar_Correct
  imports Tar_Format
begin

text \<open>
  \<open>MergeFile\<close> and \<open>Untar\<close> of \<open>tools/fs2xml.c\<close> on ustar archives: unpacking an archive is
  merging its entries in order, and the failures the loop has on other inputs.
\<close>

unbundle bit_operations_syntax

section \<open>One entry\<close>

lemma Split_header:
  assumes ok: "content_ok c" and name: "c Ph_name = path_string lead cs trail"
    and "path_ok cs" "lead \<in> {[], ''/'', ''./''}" "lead = [] \<longrightarrow> hd (hd cs) \<noteq> CHR ''.''"
    and "trail \<in> {[], ''/''}" "length cs + length trail \<le> 12"
  shows "Split (pre @ header_bytes c @ post) (length pre)
       = Inr (length cs, cs @ (if trail = [] then [] else [[]]))"
proof -
  obtain A B where AB: "header_bytes c = A @ pad 100 (c Ph_name) @ B" "length A = 0"
    using header_bytes_split [of c Ph_name] content_okD(1) [OF ok] by auto
  obtain zs where "pad 100 (c Ph_name) = c Ph_name @ NUL # zs"
    using pad_NUL content_okD(3) [OF ok, of Ph_name] by auto
  then have "pre @ header_bytes c @ post = pre @ path_string lead cs trail @ NUL # (zs @ B @ post)"
    using AB name by simp
  then show ?thesis using Split_comps assms by simp
qed

lemma Split_entry:
  assumes "entry_ok e"
  shows "Split (pre @ header_bytes (entry_field e) @ post) (length pre)
       = Inr (length (te_path e), te_path e @ (if te_trail e = [] then [] else [[]]))"
proof (rule Split_header [of _ "te_lead e"])
  show "content_ok (entry_field e)" using entry_content_ok [OF assms] .
qed (use assms in \<open>unfold entry_ok_def, simp_all add: te_name_def\<close>)

lemma fill_entry:
  assumes "entry_ok e"
  shows "fill_inode (pre @ entry_bytes e @ post) (length pre) (te_type e) (last (te_path e)) pid
       = Inr (entry_inode e pid)"
proof -
  let ?buf = "pre @ header_bytes (entry_field e) @ data_blocks (te_data e) @ post"
  have ok: "content_ok (entry_field e)" using entry_content_ok [OF assms] .
  have link: "cstrn_at ?buf (length pre + 157) 100 = Some (te_link e)"
    using cstrn_header [OF ok, of pre] by simp
  have num: "te_mode e < 8 ^ 7" "te_uid e < 8 ^ 7" "te_gid e < 8 ^ 7" "te_mtime e < 8 ^ 11"
    "length (te_data e) < 2 ^ 31"
    using assms unfolding entry_ok_def by blast+
  have mode: "wrap32 (strtol8 (oct_string 7 (te_mode e))) = int (te_mode e)"
    and uid: "wrap32 (strtol8 (oct_string 7 (te_uid e))) = int (te_uid e)"
    and gid: "wrap32 (strtol8 (oct_string 7 (te_gid e))) = int (te_gid e)"
    and sz: "wrap32 (strtol8 (oct_string 11 (length (te_data e)))) = int (length (te_data e))"
    by (rule wrap32_strtol8; use num in simp)+
  have mtime: "strtol8 (oct_string 11 (te_mtime e)) = int (te_mtime e)"
    by (rule oct_string_value; use num in simp)
  have len: "length (header_bytes (entry_field e)) = 512"
    using length_header_bytes content_okD(1) [OF ok] by blast
  have copy: "copy_data ?buf (length pre) (int (length (te_data e))) = Inr (te_data e)"
    using len by (simp add: copy_data_def data_blocks_def)
  have "path_ok (te_path e)" using assms unfolding entry_ok_def by blast
  then have "row_ok (last (te_path e))" by (simp add: path_ok_def list_all_iff)
  then have row: "take 127 (last (te_path e)) = last (te_path e)" by (simp add: row_ok_def)
  have typed: "te_type e \<in> {CHR ''0'', CHR ''1'', CHR ''2'', CHR ''5''}"
    "te_type e \<noteq> CHR ''0'' \<Longrightarrow> te_data e = []"
    "te_type e \<in> {CHR ''1'', CHR ''2''} \<Longrightarrow> te_link e \<noteq> []"
    using assms unfolding entry_ok_def by simp_all
  have merged: "merge_type ?buf (length pre) (te_type e) (te_link e) (int (length (te_data e))) m
      = Inr (m OR type_bits (te_type e), if te_data e = [] then None else Some (te_data e),
             if te_type e = CHR ''1'' then CHR ''/'' # te_link e else te_link e)" for m
    using typed copy by (auto simp: merge_type_def type_bits_def)
  show ?thesis
    unfolding fill_inode_def entry_bytes_def entry_inode_def
    using ok link mode uid gid sz mtime merged row
    by (simp add: Let_def blank_inode_def)
qed

lemma MergeFile_entry:
  assumes "entry_ok e"
  shows "MergeFile (pre @ entry_bytes e @ post) (length pre) tbl = merge_entry e tbl"
proof -
  let ?post = "data_blocks (te_data e) @ post"
  have ok: "content_ok (entry_field e)" using entry_content_ok [OF assms] .
  have ne: "te_path e \<noteq> []" using assms unfolding entry_ok_def path_ok_def by blast
  then have "te_path e ! (length (te_path e) - 1) = last (te_path e)"
    "take (length (te_path e) - 1) (te_path e) = butlast (te_path e)"
    "te_path e @ zs = [] \<longleftrightarrow> False" for zs
    by (simp_all add: last_conv_nth butlast_conv_take)
  then show ?thesis
    using ne Split_entry [OF assms, of pre ?post] fill_entry [OF assms, of pre post] ok
    by (auto simp: MergeFile_def merge_entry_def entry_bytes_def walk_parents_resolve
        resolve_def nth_append Let_def split: option.splits)
qed

section \<open>Archives\<close>

lemma data_blocks_split:
  obtains a b where "d = a @ b" "length a = 512 * (length d div 512)" "length b = length d mod 512"
    "data_blocks d = (if b = [] then a else a @ b @ replicate (512 - length b) NUL)"
proof -
  let ?k = "512 * (length d div 512)"
  have l: "length d = ?k + length d mod 512" by simp
  have b: "length (drop ?k d) = length d mod 512" by (simp add: minus_mult_div_eq_mod)
  have a: "length (take ?k d) = ?k" using l by simp
  have "data_blocks d = (if drop ?k d = [] then take ?k d
      else take ?k d @ drop ?k d @ replicate (512 - length (drop ?k d)) NUL)"
  proof (cases "length d mod 512 = 0")
    case True
    then show ?thesis using b by (auto simp: data_blocks_def)
  next
    case False
    moreover have "length d mod 512 < 512" by simp
    ultimately have "(512 - length d mod 512) mod 512 = 512 - length d mod 512"
      by (simp del: mod_less_divisor)
    moreover have "drop ?k d \<noteq> []" using False b by (metis list.size(3))
    ultimately show ?thesis unfolding data_blocks_def b by simp
  qed
  with that [of "take ?k d" "drop ?k d"] a b show thesis by simp
qed

lemma length_data_blocks:
  "length (data_blocks d) = 512 * (length d div 512) + (if length d mod 512 = 0 then 0 else 512)"
proof -
  obtain a b where ab: "length a = 512 * (length d div 512)" "length b = length d mod 512"
    "data_blocks d = (if b = [] then a else a @ b @ replicate (512 - length b) NUL)"
    by (rule data_blocks_split)
  have "length b < 512" using ab(2) by simp
  then show ?thesis using ab(1,3) by (auto simp flip: ab(2))
qed

lemma length_entry_bytes:
  "entry_ok e \<Longrightarrow> length (entry_bytes e) = 512 + length (data_blocks (te_data e))"
  using length_header_bytes content_okD(1) [OF entry_content_ok] by (simp add: entry_bytes_def)

text \<open>A block that is not a header is skipped.\<close>

lemma Untar_skip:
  assumes "is_ustar buf p = Inr False" "int p < len" "int p + 512 < 2 ^ 31"
  shows "Untar_loop (Suc fuel) buf len (int p) tbl = Untar_loop fuel buf len (int (p + 512)) tbl"
  using assms by (simp add: Let_def algebra_simps)

lemma is_ustar_zeros:
  assumes "257 < n"
  shows "is_ustar (pre @ replicate n NUL @ post) (length pre) = Inr False"
proof -
  have d: "drop (length pre + 257) (pre @ replicate n NUL @ post) = replicate (n - 257) NUL @ post"
    using assms by (simp add: drop_replicate)
  have "replicate (n - 257) NUL @ post \<noteq> []" "hd (replicate (n - 257) NUL @ post) = NUL"
    using assms by (cases "n - 257"; simp)+
  then have "mem_prefix ''ustar'' (replicate (n - 257) NUL @ post) = Some False"
    by (intro mem_prefix_hd) simp_all
  then show ?thesis using d by (simp add: is_ustar_def)
qed

lemma is_ustar_block:
  assumes "length b < 512" and "take 5 (drop 257 b) \<noteq> ''ustar''"
  shows "is_ustar (pre @ b @ replicate (512 - length b) NUL @ post) (length pre) = Inr False"
proof -
  let ?m = "drop 257 (b @ replicate (512 - length b) NUL @ post)"
  have five: "5 \<le> length ?m" using assms(1) by simp
  have "take 5 ?m \<noteq> ''ustar''"
  proof (cases "262 \<le> length b")
    case True
    then show ?thesis using assms(2) by simp
  next
    case False
    then have "261 - length b < 512 - length b" "length b \<le> 261" by arith+
    then have "(b @ replicate (512 - length b) NUL @ post) ! 261 = NUL"
      by (simp add: nth_append)
    moreover have nth: "take 5 (drop 257 m) ! 4 = m ! 261" if "262 \<le> length m" for m :: string
      using that by simp
    have "take 5 ?m ! 4 = (b @ replicate (512 - length b) NUL @ post) ! 261"
      using assms(1) by (intro nth) simp
    ultimately have at4: "take 5 ?m ! 4 = NUL" by (simp only:)
    show ?thesis
    proof
      assume "take 5 ?m = ''ustar''"
      with at4 have "''ustar'' ! 4 = NUL" by (simp only:)
      then show False by simp
    qed
  qed
  moreover have "length ''ustar'' = 5" by simp
  then have "mem_prefix ''ustar'' ?m = Some (take 5 ?m = ''ustar'')"
    using mem_prefix_long [of "''ustar''" ?m] five by (simp only:)
  ultimately have "mem_prefix ''ustar'' ?m = Some False" by (simp only:)
  then show ?thesis by (simp add: is_ustar_def)
qed

lemma is_ustar_data:
  assumes "entry_ok e" and "length (te_data e) mod 512 \<noteq> 0"
  shows "is_ustar (pre @ entry_bytes e @ post)
           (length pre + 512 + 512 * (length (te_data e) div 512)) = Inr False"
proof -
  obtain a b where ab: "te_data e = a @ b" "length a = 512 * (length (te_data e) div 512)"
    "length b = length (te_data e) mod 512"
    "data_blocks (te_data e) = (if b = [] then a else a @ b @ replicate (512 - length b) NUL)"
    by (rule data_blocks_split)
  let ?pre = "pre @ header_bytes (entry_field e) @ a"
  have b: "length b < 512" "b \<noteq> []" using ab(3) assms(2) by auto
  have "tail_ok (te_data e)" using assms(1) unfolding entry_ok_def by blast
  then have "take 5 (drop (length a + 257) (a @ b)) \<noteq> ''ustar''"
    unfolding tail_ok_def ab(2) [symmetric] by (simp add: ab(1))
  then have tail: "take 5 (drop 257 b) \<noteq> ''ustar''" by simp
  have "length (header_bytes (entry_field e)) = 512"
    using length_header_bytes content_okD(1) [OF entry_content_ok [OF assms(1)]] by blast
  then have len: "length ?pre = length pre + 512 + 512 * (length (te_data e) div 512)"
    using ab(2) by simp
  have "pre @ entry_bytes e @ post = ?pre @ b @ replicate (512 - length b) NUL @ post"
    using ab(4) b(2) by (simp add: entry_bytes_def)
  then show ?thesis unfolding len [symmetric] using is_ustar_block [OF b(1) tail, of ?pre post]
    by (simp only:)
qed

lemma Untar_trailer:
  assumes "int (length pre) + 1024 < 2 ^ 31 - 512" "2 < fuel"
  shows "Untar_loop fuel (pre @ replicate 1024 NUL @ junk) (int (length pre) + 1024) (int (length pre)) tbl
       = Inr tbl"
proof -
  obtain f where f: "fuel = Suc (Suc (Suc f))" using assms(2) by (metis Suc_diff_Suc diff_0_eq_0 less_imp_Suc_add numeral_2_eq_2 add_Suc_right add_Suc)
  let ?buf = "pre @ replicate 1024 NUL @ junk"
  have split: "?buf = (pre @ replicate 512 NUL) @ replicate 512 NUL @ junk"
    using replicate_add [of 512 512 NUL] by simp
  have "is_ustar ?buf (length pre) = Inr False" by (rule is_ustar_zeros) simp
  moreover have "is_ustar ?buf (length (pre @ replicate 512 NUL)) = Inr False"
    unfolding split by (rule is_ustar_zeros) simp
  ultimately show ?thesis
    using assms(1) Untar_skip [of ?buf "length pre"] Untar_skip [of ?buf "length pre + 512"]
    by (simp add: f del: Untar_loop.simps) simp
qed

lemma Untar_header:
  assumes e: "entry_ok e" and dvd: "512 dvd length pre"
    and small: "int (length pre) + 512 + int (length (te_data e)) < 2 ^ 31" "int (length pre) < len"
  shows "Untar_loop (Suc fuel) (pre @ entry_bytes e @ post) len (int (length pre)) tbl =
     res_bind (merge_entry e tbl)
       (Untar_loop fuel (pre @ entry_bytes e @ post) len
          (int (length pre + 512 + 512 * (length (te_data e) div 512))))"
proof -
  let ?buf = "pre @ entry_bytes e @ post"
  have ok: "content_ok (entry_field e)" using entry_content_ok [OF e] .
  have us: "is_ustar ?buf (length pre) = Inr True"
    using is_ustar_header [OF ok] by (simp add: entry_bytes_def)
  have "length (te_data e) < 8 ^ 11" "length (te_data e) < 2 ^ 31"
    using e unfolding entry_ok_def by simp_all
  then have sz: "ph_num ?buf (length pre) Ph_size = Inr (int (length (te_data e)))"
    using ok wrap32_strtol8 by (simp add: entry_bytes_def)
  have dvd': "512 dvd int (length pre)" using dvd by (metis int_dvd_int_iff of_nat_numeral)
  have "next_pos (int (length pre) + 512) (int (length (te_data e)))
      = Inr (int (length pre) + 512 + 512 * (int (length (te_data e)) div 512))"
    using dvd' small(1) by (intro next_pos_eq) (simp_all add: dvd_add)
  then have np: "next_pos (int (length pre) + 512) (int (length (te_data e)))
      = Inr (int (length pre + 512 + 512 * (length (te_data e) div 512)))"
    by (simp add: zdiv_int)
  show ?thesis
    using us sz np MergeFile_entry [OF e, of pre post tbl] small
    by (simp add: Let_def)
qed

lemma Untar_entries:
  "list_all entry_ok es \<Longrightarrow> 512 dvd length pre \<Longrightarrow>
   len = int (length pre) + int (length (concat (map entry_bytes es))) + 1024 \<Longrightarrow>
   len < 2 ^ 31 - 512 \<Longrightarrow> len - int (length pre) \<le> 512 * (int fuel - 1) \<Longrightarrow>
   Untar_loop fuel (pre @ concat (map entry_bytes es) @ replicate 1024 NUL @ junk) len
     (int (length pre)) tbl = fold_res merge_entry es tbl"
proof (induction es arbitrary: pre fuel tbl)
  case Nil
  then show ?case using Untar_trailer [of pre fuel junk tbl] by simp
next
  case (Cons e es)
  let ?rest = "concat (map entry_bytes es) @ replicate 1024 NUL @ junk"
  let ?d = "te_data e" and ?pre = "pre @ entry_bytes e"
  have e: "entry_ok e" and es: "list_all entry_ok es" using Cons.prems(1) by auto
  have len: "length (entry_bytes e) = 512 + length (data_blocks ?d)"
    by (rule length_entry_bytes [OF e])
  have dle: "length ?d \<le> length (data_blocks ?d)" by (simp add: data_blocks_def)
  obtain f where fuel: "fuel = Suc f" using Cons.prems(3,5) by (cases fuel) auto
  have dvd: "512 dvd length ?pre"
    using Cons.prems(2) len length_data_blocks [of ?d] by auto
  have head: "Untar_loop fuel (pre @ entry_bytes e @ ?rest) len (int (length pre)) tbl
      = res_bind (merge_entry e tbl) (Untar_loop f (pre @ entry_bytes e @ ?rest) len
          (int (length pre + 512 + 512 * (length ?d div 512))))"
    unfolding fuel using Cons.prems(2-4) len dle by (intro Untar_header [OF e]) simp_all
  have IH: "Untar_loop g (?pre @ ?rest) len (int (length ?pre)) t = fold_res merge_entry es t"
    if "len - int (length ?pre) \<le> 512 * (int g - 1)" for g t
    using Cons.prems that by (intro Cons.IH [OF es dvd]) auto
  have body: "Untar_loop f (pre @ entry_bytes e @ ?rest) len
      (int (length pre + 512 + 512 * (length ?d div 512))) t = fold_res merge_entry es t" for t
  proof (cases "length ?d mod 512 = 0")
    case True
    then have l: "length ?pre = length pre + 512 + 512 * (length ?d div 512)"
      using len length_data_blocks [of ?d] by simp
    have "len - int (length ?pre) \<le> 512 * (int f - 1)" using Cons.prems(5) fuel l by simp
    from IH [OF this] show ?thesis unfolding l [symmetric] append_assoc .
  next
    case False
    then have l: "length ?pre = length pre + 512 + 512 * (length ?d div 512) + 512"
      using len length_data_blocks [of ?d] by simp
    obtain g where g: "f = Suc g" using Cons.prems(3,5) fuel l by (cases f) auto
    have skip: "Untar_loop f (pre @ entry_bytes e @ ?rest) len
        (int (length pre + 512 + 512 * (length ?d div 512))) t
      = Untar_loop g (pre @ entry_bytes e @ ?rest) len (int (length ?pre)) t"
      unfolding g l using Cons.prems(3,4) l by (intro Untar_skip is_ustar_data [OF e False]) simp_all
    have "len - int (length ?pre) \<le> 512 * (int g - 1)" using Cons.prems(5) fuel g l by simp
    from IH [OF this] show ?thesis unfolding skip append_assoc .
  qed
  show ?case using head body by (cases "merge_entry e tbl") (simp_all del: Untar_loop.simps)
qed

text \<open>
  C1. Unpacking a ustar archive is merging its entries in order: for every list of well-formed
  entries, whatever follows the archive in the buffer, \<open>Untar\<close> returns and gives exactly the
  table (or the exit) that merging the entries one after the other gives, although the position
  is rounded down, not up, after a file's data.
\<close>

theorem Untar_archive:
  assumes "list_all entry_ok es" and "length (archive es) < 2 ^ 31 - 512"
    and "length (archive es) + 512 \<le> 512 * fuel"
  shows "Untar fuel (archive es @ junk) (int (length (archive es))) tbl = fold_res merge_entry es tbl"
proof -
  have "int (length (archive es) + 512) \<le> int (512 * fuel)"
    using assms(3) by (simp only: of_nat_le_iff)
  then have "int (length (archive es)) \<le> 512 * (int fuel - 1)" by simp
  then show ?thesis
    using Untar_entries [of es "[]" "int (length (archive es))" fuel junk tbl] assms(1,2)
    by (simp add: Untar_def archive_def)
qed

definition sample_dir :: tar_entry where
  "sample_dir = \<lparr>te_lead = ''./'', te_path = [''usr''], te_trail = ''/'', te_mode = 493, te_uid = 0,
     te_gid = 0, te_mtime = 0, te_type = CHR ''5'', te_link = [], te_data = []\<rparr>"

definition sample_file :: tar_entry where
  "sample_file = \<lparr>te_lead = ''./'', te_path = [''usr'', ''a''], te_trail = [], te_mode = 420,
     te_uid = 7, te_gid = 7, te_mtime = 0, te_type = CHR ''0'', te_link = [], te_data = ''hi''\<rparr>"

lemma sample_ok: "entry_ok sample_dir" "entry_ok sample_file"
  by (simp_all add: entry_ok_def path_ok_def row_ok_def te_name_def path_string_def tail_ok_def
      sample_dir_def sample_file_def)

lemma sample_merge:
  "merge_entry sample_dir [] = Inr [entry_inode sample_dir (-1)]"
  "merge_entry sample_file [entry_inode sample_dir (-1)]
     = Inr [entry_inode sample_dir (-1), entry_inode sample_file 0]"
  by (simp_all add: merge_entry_def sample_dir_def sample_file_def resolve_def SearchInode_def
      entry_inode_def max_inodes_def blank_inode_def Let_def)

lemma sample_length: "length (archive [sample_dir, sample_file]) = 2560"
  using sample_ok
  by (simp add: archive_def length_entry_bytes length_data_blocks sample_dir_def sample_file_def)

theorem Untar_archive_witness:
  "Untar 6 (archive [sample_dir, sample_file] @ []) 2560 []
     = Inr [entry_inode sample_dir (-1), entry_inode sample_file 0]"
  using Untar_archive [of "[sample_dir, sample_file]" 6 "[]" "[]"]
  by (simp add: sample_ok sample_length sample_merge)

theorem MergeFile_wf_witness:
  "wf_inodes [entry_inode sample_dir (-1)]"
  using MergeFile_wf [of "[]" "entry_bytes sample_dir" 0 "[entry_inode sample_dir (-1)]"]
    MergeFile_entry [OF sample_ok(1), of "[]" "[]" "[]"] sample_merge by simp

theorem MergeFile_refines_insert_witness:
  "of_header (entry_bytes sample_dir) 0 (entry_inode sample_dir (-1))
   \<and> resolve [entry_inode sample_dir (-1)] = (resolve [])([''usr''] \<mapsto> 0)"
  using MergeFile_refines_insert [of "[]" "entry_bytes sample_dir" 0 1 "[''usr'', []]"
      "[entry_inode sample_dir (-1)]"]
    MergeFile_entry [OF sample_ok(1), of "[]" "[]" "[]"] sample_merge
    Split_entry [OF sample_ok(1), of "[]" "data_blocks []"]
  by (simp add: entry_bytes_def sample_dir_def resolve_def SearchInode_def)

lemma ph_size_entry:
  "entry_ok e \<Longrightarrow> ph_num (pre @ entry_bytes e @ post) (length pre) Ph_size = Inr (int (length (te_data e)))"
  using entry_content_ok [of e]
  by (simp add: entry_bytes_def wrap32_strtol8) (simp add: entry_ok_def wrap32_strtol8)

lemma sample_sizes: "sizes_ok (archive [sample_dir, sample_file]) 2560"
proof -
  let ?a = "archive [sample_dir, sample_file]" and ?d = "entry_bytes sample_dir"
  let ?f = "entry_bytes sample_file"
  have len: "length ?d = 512" "length ?f = 1024"
    using sample_ok by (simp_all add: length_entry_bytes length_data_blocks sample_dir_def sample_file_def)
  have a: "?a = ?d @ ?f @ replicate 1024 NUL" by (simp add: archive_def)
  have z: "replicate 1024 NUL = replicate 512 NUL @ replicate 512 NUL"
    by (simp flip: replicate_add)
  have "ph_num ?a 0 Ph_size = Inr 0" "ph_num ?a 512 Ph_size = Inr 2"
    using ph_size_entry [OF sample_ok(1), of "[]" "?f @ replicate 1024 NUL"]
      ph_size_entry [OF sample_ok(2), of ?d "replicate 1024 NUL"] len
    by (simp_all only: a append_Nil list.size) (simp_all add: sample_dir_def sample_file_def)
  moreover have "is_ustar ?a 1024 = Inr False"
    using is_ustar_data [OF sample_ok(2), of ?d "replicate 1024 NUL"] len
    by (simp add: archive_def sample_file_def)
  moreover have "is_ustar ?a 1536 = Inr False" "is_ustar ?a 2048 = Inr False"
    using is_ustar_zeros [of 1024 "?d @ ?f" "[]"]
      is_ustar_zeros [of 512 "?d @ ?f @ replicate 512 NUL" "[]"] len
    by (simp_all add: a z)
  ultimately show ?thesis by (simp add: sizes_ok_def upt_rec)
qed

theorem Untar_terminates_witness:
  "Untar 6 (archive [sample_dir, sample_file]) 2560 [] \<noteq> Inl Diverges"
  using Untar_terminates [OF sample_sizes, of 6 "[]" 0] by simp

theorem Untar_wf_witness:
  "wf_inodes [entry_inode sample_dir (-1), entry_inode sample_file 0]"
  using Untar_wf [of "[]" 6 "archive [sample_dir, sample_file]" 2560
      "[entry_inode sample_dir (-1), entry_inode sample_file 0]"]
    Untar_entries [of "[sample_dir, sample_file]" "[]" 2560 6 "[]" "[]"]
  using sample_length by (simp add: sample_ok sample_merge archive_def Untar_def)

section \<open>The entry for the current directory\<close>

text \<open>
  An archive made with \<open>tar c .\<close> starts with an entry named dot-slash. For that name \<open>Split\<close>
  returns 0 components and \<open>MergeFile\<close> reads \<open>walk[-1]\<close>: an access outside the array, for every
  table and every other content of the header.
\<close>

theorem MergeFile_dot_slash_faults:
  assumes "content_ok c" and "c Ph_name = ''./''"
  shows "MergeFile (pre @ header_bytes c @ post) (length pre) tbl = Inl Fault"
proof -
  have str: "cstr_at (pre @ header_bytes c @ post) (length pre) = Some ''./''"
    using header_cstr [OF assms(1), of Ph_name pre post] assms(2) by simp
  obtain A B where AB: "header_bytes c = A @ pad 100 (c Ph_name) @ B" "length A = 0"
    using header_bytes_split [of c Ph_name] content_okD(1) [OF assms(1)] by auto
  then have "pre @ header_bytes c @ post = pre @ ''./'' @ (replicate 98 NUL @ B @ post)"
    using assms(2) by (simp add: pad_def)
  then have "byte_at (pre @ header_bytes c @ post) (int (length pre) + 1) = Some CHR ''/''"
    using byte_at_last [of "''./''" pre "replicate 98 NUL @ B @ post"] by (simp add: add.commute)
  then have "Split (pre @ header_bytes c @ post) (length pre) = Inr (0, [[]])"
    using str by (simp add: Split_def split_start_def add.commute)
  then show ?thesis by (simp add: MergeFile_def)
qed

theorem MergeFile_dot_slash_faults_witness:
  "MergeFile ([] @ header_bytes ((entry_field sample_dir)(Ph_name := ''./'')) @ []) (length ([]::string)) []
     = Inl Fault"
  by (rule MergeFile_dot_slash_faults)
     (use entry_content_ok [OF sample_ok(1)] in \<open>auto simp: content_ok_def\<close>)

section \<open>A negative size\<close>

text \<open>A directory header whose size field reads \<open>-1000\<close> (octal): -512.\<close>

definition bad_field :: "posix_field \<Rightarrow> string" where
  "bad_field = (entry_field sample_dir)(Ph_size := ''-1000'')"

lemma bad_field_ok: "content_ok bad_field"
  using entry_content_ok [OF sample_ok(1)]
  by (auto simp: content_ok_def bad_field_def)

lemma bad_size: "wrap32 (strtol8 ''-1000'') = -512"
  by (simp add: strtol8_def is_space_def is_oct_def clamp_long_def)

lemma bad_merge:
  "tbl = [] \<or> SearchInode tbl ''usr'' (-1) \<noteq> -1 \<Longrightarrow>
   \<exists>t. MergeFile (header_bytes bad_field @ post) 0 tbl = Inr t \<and> SearchInode t ''usr'' (-1) \<noteq> -1"
proof -
  assume tbl: "tbl = [] \<or> SearchInode tbl ''usr'' (-1) \<noteq> -1"
  have sp: "Split (header_bytes bad_field @ post) 0 = Inr (1, [''usr'', []])"
    using Split_header [OF bad_field_ok, of "''./''" "[''usr'']" "''/''" "[]" post]
    by (simp add: bad_field_def te_name_def sample_dir_def path_ok_def row_ok_def)
  have tf: "ph_byte (header_bytes bad_field @ post) 0 Ph_typeflag = Inr CHR ''5''"
    using ph_byte_header [OF bad_field_ok, of "[]" post] by (simp add: bad_field_def sample_dir_def)
  have str: "ph_str (header_bytes bad_field @ post) 0 f = Inr (bad_field f)"
    if "f \<noteq> Ph_typeflag" for f
    using ph_str_header [OF bad_field_ok that, of "[]" post] by simp
  have ln: "cstrn_at (header_bytes bad_field @ post) 157 100 = Some (bad_field Ph_linkname)"
    using cstrn_header [OF bad_field_ok, of "[]" post] by simp
  have "\<exists>x. fill_inode (header_bytes bad_field @ post) 0 CHR ''5'' ''usr'' (-1) = Inr x"
    by (simp add: fill_inode_def ph_num_def str ln merge_type_def Let_def)
  then obtain x where x: "fill_inode (header_bytes bad_field @ post) 0 CHR ''5'' ''usr'' (-1) = Inr x"
    by blast
  from fill_inode_fields [OF x] have "matches ''usr'' (-1) x" by (simp add: matches_def)
  then show ?thesis
    using tbl sp tf x
    by (auto simp: MergeFile_def Let_def max_inodes_def SearchInode_def matches_def)
qed

lemma bad_loop:
  "tbl = [] \<or> SearchInode tbl ''usr'' (-1) \<noteq> -1 \<Longrightarrow>
   0 < len \<Longrightarrow> Untar_loop fuel (header_bytes bad_field @ post) len 0 tbl = Inl Diverges"
proof (induction fuel arbitrary: tbl)
  case (Suc fuel)
  from bad_merge [OF Suc.prems(1)] obtain t where
    t: "MergeFile (header_bytes bad_field @ post) 0 tbl = Inr t" "SearchInode t ''usr'' (-1) \<noteq> -1"
    by blast
  have us: "is_ustar (header_bytes bad_field @ post) 0 = Inr True"
    using is_ustar_header [OF bad_field_ok, of "[]" post] by (simp add: bad_field_def)
  have sz: "ph_num (header_bytes bad_field @ post) 0 Ph_size = Inr (-512)"
    using ph_num_header [OF bad_field_ok, of Ph_size "[]" post] bad_size by (simp add: bad_field_def)
  show ?case
    using Suc.IH [of t] Suc.prems(2) t us sz by (simp add: next_pos_def)
qed simp

text \<open>
  A header with a negative size makes \<open>Untar\<close> loop forever: the position returns to the
  same header, so no number of turns is enough, whatever follows the header.
\<close>

theorem Untar_negative_size_diverges:
  "\<forall>fuel. Untar fuel (header_bytes bad_field @ post) 1024 [] = Inl Diverges"
  unfolding Untar_def using bad_loop [of "[]" 1024] by simp

end
