(* ===== verification/Fs_Walk.thy ===== *)
theory Fs_Walk
  imports Fs_Render_Correct Tar_Correct
begin

text \<open>
  \<open>ShouldBeLoaded\<close>, \<open>EndsWith\<close>, \<open>ShouldBeCompressed\<close>, \<open>WalkDir\<close>, \<open>CreateFilesystem\<close>,
  \<open>decompress\<close> and \<open>main\<close> of \<open>tools/fs2xml.c\<close>. What the tool does to the host file system is a
  list of operations in the order of the calls; whether a file can be created is the parameter
  \<open>fopen_ok\<close>, which may depend on the operations so far, and the bzip2 library is the parameter
  \<open>bz2\<close>, which gives the new content of the buffer and the length read, or \<open>None\<close> when the archive
  cannot be opened.
\<close>

section \<open>The code\<close>

datatype host_op = Mkdir string | WriteFile string string | RunCmd string

definition ShouldBeLoaded :: "string \<Rightarrow> bool" where
  "ShouldBeLoaded name \<longleftrightarrow>
     name = ''libc.so'' \<or> name = ''libncurses.so.5.9'' \<or> name = ''libmenu.so.5.9'' \<or>
     name = ''libgcc_s.so.1''"

definition EndsWith :: "string \<Rightarrow> string \<Rightarrow> bool" where
  "EndsWith str suffix =
     (if length suffix > length str then False
      else take (length suffix) (drop (length str - length suffix) str) = suffix)"

definition ShouldBeCompressed :: "string \<Rightarrow> string option \<Rightarrow> int \<Rightarrow> bool res" where
  "ShouldBeCompressed name data sz =
     (if sz < 4 then Inr False
      else if EndsWith name ''.jpg'' then Inr False
      else if EndsWith name ''.png'' then Inr False
      else if EndsWith name ''.gz'' then Inr False
      else if EndsWith name ''.bz2'' then Inr False
      else if EndsWith name ''.zip'' then Inr False
      else if EndsWith name ''.png'' then Inr False
      else if EndsWith name ''.3gp'' then Inr False
      else if EndsWith name ''.mpg'' then Inr False
      else if sz > 10 * 1024 then Inr True
      else case data of
        None \<Rightarrow> Inl Fault
      | Some d \<Rightarrow> opt_res (mem_prefix (CHR 0x7F # ''ELF'') d))"

text \<open>What \<open>fwrite (data, size, 1, fp)\<close> writes.\<close>

definition file_content :: "inode \<Rightarrow> string res" where
  "file_content x =
     (if i_size x = 0 then Inr []
      else case i_data x of
        None \<Rightarrow> Inl Fault
      | Some d \<Rightarrow> if 0 \<le> i_size x \<and> i_size x \<le> int (length d)
                  then Inr (take (nat (i_size x)) d) else Inl Fault)"

definition bzip2_cmd :: "string \<Rightarrow> string" where
  "bzip2_cmd path = ''bzip2 -f '' @ [CHR 0x22] @ path @ [CHR 0x22, CHR 0x0A]"

type_synonym walk_state = "inode list \<times> host_op list"

text \<open>The body of the loop of \<open>WalkDir\<close> for a regular file.\<close>

definition WalkFile ::
  "(host_op list \<Rightarrow> string \<Rightarrow> bool) \<Rightarrow> nat \<Rightarrow> walk_state \<Rightarrow> walk_state res" where
  "WalkFile fopen_ok i = (\<lambda>(tbl, ops).
     let x = tbl ! i in
     res_bind (GetFullPathNotHidden tbl ''fs'' (int i) False) (\<lambda>(path, hidden).
     res_bind (if hidden then store 128 (drop 3 path) else Inr (i_src x)) (\<lambda>src.
     if \<not> fopen_ok ops path then Inl (Exit 1)
     else
     res_bind (file_content x) (\<lambda>content.
     res_bind (ShouldBeCompressed (i_name x) (i_data x) (i_size x)) (\<lambda>c.
     res_bind (if c then res_bind (store 1024 (bzip2_cmd path)) (\<lambda>cmd. Inr [RunCmd cmd])
               else Inr []) (\<lambda>cmds.
       Inr (tbl[i := x\<lparr>i_src := src, i_compressed := if c then 1 else i_compressed x,
                       i_load := if ShouldBeLoaded (i_name x) then 1 else i_load x\<rparr>],
            ops @ [WriteFile path content] @ cmds)))))))"

primrec WalkDir ::
  "nat \<Rightarrow> (host_op list \<Rightarrow> string \<Rightarrow> bool) \<Rightarrow> int \<Rightarrow> walk_state \<Rightarrow> walk_state res" where
  "WalkDir 0 = (\<lambda>fopen_ok parentid s. Inl Diverges)"
| "WalkDir (Suc fuel) = (\<lambda>fopen_ok parentid (tbl, ops).
     res_bind (GetFullPathNotHidden tbl ''fs'' parentid False) (\<lambda>(path, hidden).
     fold_res (\<lambda>i s.
       if i_parentid (fst s ! i) \<noteq> parentid then Inr s
       else res_bind (if is_dir (fst s ! i) then WalkDir fuel fopen_ok (int i) s else Inr s) (\<lambda>s.
         if is_reg (fst s ! i) then WalkFile fopen_ok i s else Inr s))
       [0..<length tbl] (tbl, ops @ [Mkdir path])))"

definition CreateFilesystem ::
  "(host_op list \<Rightarrow> string \<Rightarrow> bool) \<Rightarrow> inode list \<Rightarrow> walk_state res" where
  "CreateFilesystem fopen_ok tbl = WalkDir (length tbl + 1) fopen_ok (-1) (tbl, [])"

definition decompress ::
  "(string \<Rightarrow> char list \<Rightarrow> (char list \<times> int) option) \<Rightarrow> string \<Rightarrow> char list \<Rightarrow> (char list \<times> int) res" where
  "decompress bz2 filename buf =
     res_bind (store 256 filename) (\<lambda>name.
       case bz2 name buf of None \<Rightarrow> Inl (Exit 1) | Some r \<Rightarrow> Inr r)"

text \<open>The number and the total size of the regular files, which \<open>main\<close> reports; the sum is a
  32-bit \<open>int\<close>.\<close>

definition file_stats :: "inode list \<Rightarrow> (nat \<times> int) res" where
  "file_stats tbl =
     fold_res (\<lambda>x (n, size).
       if \<not> is_reg x then Inr (n, size)
       else let size' = size + i_size x in
         if - (2 ^ 31) \<le> size' \<and> size' < 2 ^ 31 then Inr (Suc n, size') else Inl Fault) tbl (0, 0)"

text \<open>
  \<open>main\<close> for the arguments \<open>args\<close> (without the program name), a buffer \<open>buf\<close> as \<open>malloc\<close>
  left it and \<open>fuel\<close> turns for each \<open>Untar\<close>; the result is the final table, the host operations
  and the texts of fs.xml and fs.json.
\<close>

definition fs2xml_main ::
  "(string \<Rightarrow> char list \<Rightarrow> (char list \<times> int) option) \<Rightarrow> (host_op list \<Rightarrow> string \<Rightarrow> bool) \<Rightarrow> bool \<Rightarrow> bool
   \<Rightarrow> nat \<Rightarrow> char list \<Rightarrow> string list \<Rightarrow> (inode list \<times> host_op list \<times> string \<times> string) res" where
  "fs2xml_main bz2 fopen_ok xml_ok json_ok fuel buf args =
     (if args = [] then Inl (Exit 1)
      else
      res_bind (fold_res (\<lambda>arg (b, tbl).
        res_bind (decompress bz2 arg b) (\<lambda>(b', len).
        res_bind (Untar fuel b' len tbl) (\<lambda>tbl'. Inr (b', tbl')))) args (buf, [])) (\<lambda>(b, tbl).
      res_bind (file_stats tbl) (\<lambda>_.
      res_bind (CreateFilesystem fopen_ok tbl) (\<lambda>(tbl', ops).
      res_bind (CreateXML xml_ok (length tbl' + 1) tbl') (\<lambda>xml.
      res_bind (CreateJSON json_ok (length tbl' + 1) tbl') (\<lambda>json.
        Inr (tbl', ops, xml, json)))))))"

section \<open>Compression policy\<close>

lemma EndsWith_iff: "EndsWith str suffix \<longleftrightarrow> (\<exists>p. str = p @ suffix)"
proof
  assume "EndsWith str suffix"
  then have "length suffix \<le> length str" "drop (length str - length suffix) str = suffix"
    by (auto simp: EndsWith_def split: if_splits)
  then show "\<exists>p. str = p @ suffix" by (metis append_take_drop_id)
qed (auto simp: EndsWith_def)

definition packed_suffixes :: "string list" where
  "packed_suffixes = [''.jpg'', ''.png'', ''.gz'', ''.bz2'', ''.zip'', ''.3gp'', ''.mpg'']"

text \<open>
  Which files are compressed: for a file with exactly its data, \<open>ShouldBeCompressed\<close> reads only
  bytes the file has, and answers yes exactly when the name has none of the seven suffixes of
  already packed formats and the file is longer than 10 KiB or starts with the ELF magic.
\<close>

theorem ShouldBeCompressed_policy:
  assumes "int (length d) = sz"
  shows "ShouldBeCompressed name (Some d) sz =
    Inr ((\<forall>s \<in> set packed_suffixes. \<not> (\<exists>p. name = p @ s)) \<and>
         (10240 < length d \<or> 4 \<le> length d \<and> take 4 d = CHR 0x7F # ''ELF''))"
proof -
  have elf: "mem_prefix (CHR 0x7F # ''ELF'') d = Some (take 4 d = CHR 0x7F # ''ELF'')"
    if "4 \<le> length d"
    using mem_prefix_long [of "CHR 0x7F # ''ELF''" d] that by (simp add: eval_nat_numeral)
  have "\<not> sz < 4 \<longleftrightarrow> 4 \<le> length d" "sz > 10 * 1024 \<longleftrightarrow> 10240 < length d" using assms by auto
  moreover have "10240 < length d \<Longrightarrow> 4 \<le> length d" by simp
  ultimately show ?thesis
    using elf unfolding ShouldBeCompressed_def packed_suffixes_def EndsWith_iff [symmetric]
    by (auto simp del: EndsWith_iff)
qed

theorem ShouldBeCompressed_policy_witness:
  "ShouldBeCompressed ''init'' (Some (CHR 0x7F # ''ELF'')) 4 = Inr True"
  using ShouldBeCompressed_policy [of "CHR 0x7F # ''ELF''" 4 "''init''"]
  by (auto simp: packed_suffixes_def append_eq_Cons_conv Cons_eq_append_conv)

end
