(* ===== verification/Fs_Walk_Correct.thy ===== *)
theory Fs_Walk_Correct
  imports Fs_Walk
begin

text \<open>
  What \<open>WalkDir\<close> does as a whole: it creates one directory per directory inode before anything
  inside it, writes every regular file below directories once, with its data, and records in the
  table only the source path, compression and load flags. Every walk ends.
\<close>

section \<open>What the walk reads stays the same\<close>

definition shape :: "inode \<Rightarrow> inode" where
  "shape x = x\<lparr>i_src := [], i_compressed := 0, i_load := 0\<rparr>"

lemma shape_fields:
  assumes "shape x = shape y"
  shows "i_name x = i_name y" "i_parentid x = i_parentid y" "i_mode x = i_mode y"
    "i_size x = i_size y" "i_data x = i_data y" "i_link x = i_link y"
proof -
  have sel: "i_name (shape z) = i_name z" "i_parentid (shape z) = i_parentid z"
    "i_mode (shape z) = i_mode z" "i_size (shape z) = i_size z" "i_data (shape z) = i_data z"
    "i_link (shape z) = i_link z" for z
    by (simp_all add: shape_def)
  show "i_name x = i_name y" "i_parentid x = i_parentid y" "i_mode x = i_mode y"
    "i_size x = i_size y" "i_data x = i_data y" "i_link x = i_link y"
    using assms sel by metis+
qed

lemma get_inode_shape:
  assumes "map shape t = map shape u"
  shows "(\<exists>x y. get_inode t i = Inr x \<and> get_inode u i = Inr y \<and> shape x = shape y)
       \<or> (get_inode t i = Inl Fault \<and> get_inode u i = Inl Fault)"
proof -
  have "length t = length u" using assms by (metis length_map)
  moreover have "shape (t ! k) = shape (u ! k)" if "k < length t" for k
    using assms that calculation by (metis nth_map)
  ultimately show ?thesis by (auto simp: get_inode_def)
qed

lemma path_loop_nh_shape:
  assumes "map shape t = map shape u"
  shows "path_loop_nh fuel t i p h = path_loop_nh fuel u i p h"
proof (induction fuel arbitrary: i p h)
  case (Suc fuel)
  from get_inode_shape [OF assms, of i] show ?case
  proof (elim disjE exE conjE)
    fix x y
    assume "get_inode t i = Inr x" "get_inode u i = Inr y" "shape x = shape y"
    then show ?thesis using shape_fields [of x y] by (simp add: Suc.IH)
  qed simp
qed simp

lemma GetFullPathNotHidden_shape:
  assumes "map shape t = map shape u"
  shows "GetFullPathNotHidden t root i h = GetFullPathNotHidden u root i h"
proof -
  have "length t = length u" using assms by (metis length_map)
  then show ?thesis unfolding GetFullPathNotHidden_def using path_loop_nh_shape [OF assms] by simp
qed

section \<open>The reference\<close>

text \<open>Host path and hidden flag of an inode; \<open>paths_fit\<close> says that no buffer overflows.\<close>

definition host_path :: "inode list \<Rightarrow> int \<Rightarrow> string \<times> bool" where
  "host_path tbl i = (case GetFullPathNotHidden tbl ''fs'' i False of Inl _ \<Rightarrow> ([], False) | Inr r \<Rightarrow> r)"

definition paths_fit :: "inode list \<Rightarrow> bool" where
  "paths_fit tbl \<longleftrightarrow>
     (\<forall>i \<in> set (map int [0..<length tbl]).
        GetFullPathNotHidden tbl ''fs'' i False = Inr (host_path tbl i) \<and>
        length (fst (host_path tbl i)) < 1012 \<and>
        (snd (host_path tbl i) \<longrightarrow> length (fst (host_path tbl i)) < 131))"

definition contents :: "inode \<Rightarrow> string" where
  "contents x = (if i_size x = 0 then [] else the (i_data x))"

definition compress :: "inode \<Rightarrow> bool" where
  "compress x \<longleftrightarrow> ShouldBeCompressed (i_name x) (i_data x) (i_size x) = Inr True"

definition file_ops :: "inode list \<Rightarrow> nat \<Rightarrow> host_op list" where
  "file_ops tbl i =
     (if is_reg (tbl ! i)
      then WriteFile (fst (host_path tbl (int i))) (contents (tbl ! i)) #
           (if compress (tbl ! i) then [RunCmd (bzip2_cmd (fst (host_path tbl (int i))))] else [])
      else [])"

function host_ops :: "inode list \<Rightarrow> int \<Rightarrow> host_op list" where
  "host_ops tbl pid =
     Mkdir (fst (host_path tbl pid)) #
     concat (map (\<lambda>i. if is_dir (tbl ! i) then host_ops tbl (int i) else file_ops tbl i)
       (children tbl pid))"
  by pat_completeness auto
termination
  by (relation "measure (\<lambda>(tbl, pid). nat (int (length tbl) - pid))") (auto simp: children_def)

declare host_ops.simps [simp del]

text \<open>The table after the regular files of a set of inode numbers have been written.\<close>

definition mark :: "inode list \<Rightarrow> nat \<Rightarrow> inode" where
  "mark tbl i =
     (let x = tbl ! i in
      x\<lparr>i_src := if snd (host_path tbl (int i)) then drop 3 (fst (host_path tbl (int i))) else i_src x,
        i_compressed := if compress x then 1 else i_compressed x,
        i_load := if ShouldBeLoaded (i_name x) then 1 else i_load x\<rparr>)"

definition marked :: "inode list \<Rightarrow> nat set \<Rightarrow> inode list" where
  "marked tbl S = map (\<lambda>i. if i \<in> S \<and> is_reg (tbl ! i) then mark tbl i else tbl ! i) [0..<length tbl]"

lemma length_marked [simp]: "length (marked tbl S) = length tbl"
  by (simp add: marked_def)

lemma nth_marked:
  "i < length tbl \<Longrightarrow> marked tbl S ! i = (if i \<in> S \<and> is_reg (tbl ! i) then mark tbl i else tbl ! i)"
  by (simp add: marked_def)

lemma shape_mark [simp]: "shape (mark tbl i) = shape (tbl ! i)"
  by (simp add: mark_def shape_def Let_def)

lemma shape_marked: "map shape (marked tbl S) = map shape tbl"
  by (rule nth_equalityI) (simp_all add: nth_marked)

lemma marked_empty [simp]: "marked tbl {} = tbl"
  by (simp add: marked_def map_nth)

lemma marked_nth_fields:
  assumes "i < length tbl"
  shows "i_name (marked tbl S ! i) = i_name (tbl ! i)"
    "i_parentid (marked tbl S ! i) = i_parentid (tbl ! i)"
    "i_size (marked tbl S ! i) = i_size (tbl ! i)" "i_data (marked tbl S ! i) = i_data (tbl ! i)"
    "is_dir (marked tbl S ! i) = is_dir (tbl ! i)" "is_reg (marked tbl S ! i) = is_reg (tbl ! i)"
  by (simp_all add: nth_marked [OF assms] mark_def is_dir_def is_reg_def Let_def)

lemma not_dir_and_reg: "is_dir x \<Longrightarrow> \<not> is_reg x"
  by (simp add: is_dir_def is_reg_def S_IFDIR_def S_IFREG_def)

section \<open>One file\<close>

lemma reg_data:
  assumes "wf_inodes tbl" "i < length tbl" "is_reg (tbl ! i)"
  shows "file_content (tbl ! i) = Inr (contents (tbl ! i))"
    and "ShouldBeCompressed (i_name (tbl ! i)) (i_data (tbl ! i)) (i_size (tbl ! i))
         = Inr (compress (tbl ! i))"
proof -
  let ?x = "tbl ! i"
  have data: "i_size ?x = 0 \<or> (\<exists>d. i_data ?x = Some d \<and> int (length d) = i_size ?x)"
    using wf_inodesD(1) [OF assms(1,2)] assms(3) by (simp add: inode_ok_def)
  then show "file_content ?x = Inr (contents ?x)" by (auto simp: file_content_def contents_def)
  have "\<exists>b. ShouldBeCompressed (i_name ?x) (i_data ?x) (i_size ?x) = Inr b"
    using data
  proof
    assume "i_size ?x = 0"
    then show ?thesis by (intro exI [of _ False]) (simp add: ShouldBeCompressed_def)
  next
    assume "\<exists>d. i_data ?x = Some d \<and> int (length d) = i_size ?x"
    then obtain d where d: "i_data ?x = Some d" "int (length d) = i_size ?x" by blast
    have "4 \<le> i_size ?x \<Longrightarrow> \<exists>b. mem_prefix (CHR 0x7F # ''ELF'') d = Some b"
      using mem_prefix_long [of "CHR 0x7F # ''ELF''" d] d(2) by auto
    then show ?thesis using d(1) by (auto simp: ShouldBeCompressed_def)
  qed
  then show "ShouldBeCompressed (i_name ?x) (i_data ?x) (i_size ?x) = Inr (compress ?x)"
    by (auto simp: compress_def)
qed

lemma marked_insert:
  assumes "i < length tbl" "is_reg (tbl ! i)"
  shows "(marked tbl S)[i := mark tbl i] = marked tbl (insert i S)"
  using assms by (intro nth_equalityI) (auto simp: nth_marked nth_list_update)

lemma marked_same:
  assumes "i < length tbl" "is_reg (tbl ! i)" "marked tbl S ! i = mark tbl i"
  shows "marked tbl S = marked tbl (insert i S)"
  using marked_insert [OF assms(1,2), of S] by (metis assms(3) list_update_id)

lemma WalkFile_marked:
  assumes "wf_inodes tbl" "paths_fit tbl" "i < length tbl" "is_reg (tbl ! i)"
  shows "WalkFile (\<lambda>_ _. True) i (marked tbl S, ops)
       = Inr (marked tbl (insert i S), ops @ file_ops tbl i)"
proof -
  let ?x = "marked tbl S ! i"
  have hp: "GetFullPathNotHidden (marked tbl S) ''fs'' (int i) False = Inr (host_path tbl (int i))"
    "length (fst (host_path tbl (int i))) < 1012"
    "snd (host_path tbl (int i)) \<Longrightarrow> length (fst (host_path tbl (int i))) < 131"
    using assms(2,3) GetFullPathNotHidden_shape [OF shape_marked [of tbl S]]
    by (auto simp: paths_fit_def)
  have cont: "file_content ?x = Inr (contents (tbl ! i))"
    using reg_data(1) [OF assms(1,3,4)] unfolding file_content_def marked_nth_fields [OF assms(3)] .
  have comp: "ShouldBeCompressed (i_name ?x) (i_data ?x) (i_size ?x) = Inr (compress (tbl ! i))"
    using reg_data(2) [OF assms(1,3,4)] unfolding marked_nth_fields [OF assms(3)] .
  have "?x\<lparr>i_src := if snd (host_path tbl (int i)) then drop 3 (fst (host_path tbl (int i))) else i_src ?x,
       i_compressed := if compress (tbl ! i) then 1 else i_compressed ?x,
       i_load := if ShouldBeLoaded (i_name ?x) then 1 else i_load ?x\<rparr> = mark tbl i"
    using assms(3,4) by (auto simp: nth_marked mark_def Let_def)
  then show ?thesis
    using hp cont comp marked_insert [OF assms(3,4), of S] marked_same [OF assms(3,4), of S]
    by (cases "host_path tbl (int i)")
       (auto simp: WalkFile_def Let_def store_def bzip2_cmd_def file_ops_def assms(4))
qed

section \<open>The walk\<close>

lemma fold_res_marked:
  assumes "\<And>i S ops. i \<in> set is \<Longrightarrow>
      f i (marked tbl S, ops) = Inr (marked tbl (S \<union> V i), ops @ g i)"
  shows "fold_res f is (marked tbl S, ops)
       = Inr (marked tbl (S \<union> \<Union> (V ` set is)), ops @ concat (map g is))"
  using assms by (induction "is" arbitrary: S ops) (auto simp: Un_assoc)

lemma GetFullPathNotHidden_marked:
  assumes "paths_fit tbl" and pid: "-1 \<le> pid" "pid < int (length tbl)"
  shows "GetFullPathNotHidden (marked tbl S) ''fs'' pid False = Inr (host_path tbl pid)"
proof (cases "pid = -1")
  case True
  then show ?thesis
    using GetFullPathNotHidden_shape [OF shape_marked [of tbl S]]
    by (simp add: host_path_def GetFullPathNotHidden_def store_def)
next
  case False
  with pid have "pid \<in> set (map int [0..<length tbl])"
    using nonneg_int_cases [of pid] by force
  then show ?thesis
    using assms(1) GetFullPathNotHidden_shape [OF shape_marked [of tbl S]]
    unfolding paths_fit_def by metis
qed

lemma WalkDir_marked:
  assumes "wf_inodes tbl" "paths_fit tbl"
    and "-1 \<le> pid" "pid < int (length tbl)" "int (length tbl) - pid \<le> int fuel"
  shows "\<forall>S ops. WalkDir fuel (\<lambda>_ _. True) pid (marked tbl S, ops)
     = Inr (marked tbl (S \<union> set (preorder tbl pid)), ops @ host_ops tbl pid)"
proof (rule ptable.walk_induct [OF assms(1,3-5)], intro allI)
  fix f pid S ops
  assume pid: "-1 \<le> pid" "pid < int (length tbl)"
    and IH: "\<And>i. i < length tbl \<Longrightarrow> i_parentid (tbl ! i) = pid \<Longrightarrow>
      \<forall>S ops. WalkDir f (\<lambda>_ _. True) (int i) (marked tbl S, ops)
        = Inr (marked tbl (S \<union> set (preorder tbl (int i))), ops @ host_ops tbl (int i))"
  let ?C = "\<lambda>i. i_parentid (tbl ! i) = pid"
  let ?V = "\<lambda>i. if ?C i then insert i (if is_dir (tbl ! i) then set (preorder tbl (int i)) else {}) else {}"
  let ?g = "\<lambda>i. if ?C i then if is_dir (tbl ! i) then host_ops tbl (int i) else file_ops tbl i else []"
  let ?body = "\<lambda>i s. if i_parentid (fst s ! i) \<noteq> pid then Inr s
       else res_bind (if is_dir (fst s ! i) then WalkDir f (\<lambda>_ _. True) (int i) s else Inr s) (\<lambda>s.
         if is_reg (fst s ! i) then WalkFile (\<lambda>_ _. True) i s else Inr s)"
  have skip: "marked tbl (insert i S) = marked tbl S" if "\<not> is_reg (tbl ! i)" for i S
    using that by (auto simp: marked_def)
  have body: "?body i (marked tbl S, ops) = Inr (marked tbl (S \<union> ?V i), ops @ ?g i)"
    if "i \<in> set [0..<length tbl]" for i S ops
    using that IH [of i] WalkFile_marked [OF assms(1,2), of i] skip [of i] not_dir_and_reg [of "tbl ! i"]
    by (auto simp: marked_nth_fields file_ops_def)
  note path = GetFullPathNotHidden_marked [OF assms(2) pid]
  have V: "\<Union> (?V ` set [0..<length tbl]) = set (preorder tbl pid)"
    by (subst preorder.simps) (auto simp: children_wf [OF assms(1)] split: if_splits)
  have g: "concat (map ?g [0..<length tbl])
      = concat (map (\<lambda>i. if is_dir (tbl ! i) then host_ops tbl (int i) else file_ops tbl i) (children tbl pid))"
    by (simp add: concat_map_if children_wf [OF assms(1)])
  have "fold_res ?body [0..<length tbl] (marked tbl S, ops') =
      Inr (marked tbl (S \<union> \<Union> (?V ` set [0..<length tbl])), ops' @ concat (map ?g [0..<length tbl]))"
    for ops' by (rule fold_res_marked) (rule body)
  then have loop: "fold_res ?body [0..<length tbl] (marked tbl S, ops') =
      Inr (marked tbl (S \<union> set (preorder tbl pid)), ops' @
        concat (map (\<lambda>i. if is_dir (tbl ! i) then host_ops tbl (int i) else file_ops tbl i) (children tbl pid)))"
    for ops' unfolding V g .
  obtain path h where hp: "host_path tbl pid = (path, h)" by fastforce
  show "WalkDir (Suc f) (\<lambda>_ _. True) pid (marked tbl S, ops)
     = Inr (marked tbl (S \<union> set (preorder tbl pid)), ops @ host_ops tbl pid)"
    unfolding WalkDir.simps prod.case path hp res_bind.simps length_marked
    by (subst loop) (simp add: host_ops.simps [of tbl pid] hp)
qed

lemma CreateFilesystem_marked:
  assumes "wf_inodes tbl" and "paths_fit tbl"
  shows "CreateFilesystem (\<lambda>_ _. True) tbl
     = Inr (marked tbl (set (preorder tbl (-1))), host_ops tbl (-1))"
proof -
  have "\<forall>S ops. WalkDir (length tbl + 1) (\<lambda>_ _. True) (-1) (marked tbl S, ops)
     = Inr (marked tbl (S \<union> set (preorder tbl (-1))), ops @ host_ops tbl (-1))"
    by (rule WalkDir_marked [OF assms]) simp_all
  from this [rule_format, of "{}" "[]"] show ?thesis
    by (simp add: CreateFilesystem_def del: WalkDir.simps)
qed

text \<open>
  C4. \<open>CreateFilesystem\<close> ends and does what the tree says: when every host path fits the buffers
  and every file can be created, the host operations are, in preorder, one mkdir per directory
  before its contents and, for each regular file below directories, one write of its data and, by
  the compression policy, one bzip2 call; the table differs from the old one only in the source
  path, compressed and load fields of those files.
\<close>

theorem CreateFilesystem_correct:
  assumes "wf_inodes tbl" and "paths_fit tbl"
  shows "CreateFilesystem (\<lambda>_ _. True) tbl
     = Inr (marked tbl (set (preorder tbl (-1))), host_ops tbl (-1))"
  using assms by (rule CreateFilesystem_marked)

lemma sample_paths: "paths_fit sample_tbl"
proof -
  have len: "length sample_tbl = 3" by (simp add: sample_tbl_def)
  note path = GetFullPathNotHidden_resolve [OF sample_tbl_wf, of _ _ "''fs''" False]
  have "GetFullPathNotHidden sample_tbl ''fs'' 0 False = Inr (''fs/etc'', False)"
    "GetFullPathNotHidden sample_tbl ''fs'' 1 False = Inr (''fs/etc/rc'', True)"
    "GetFullPathNotHidden sample_tbl ''fs'' 2 False = Inr (''fs/etc/rc'', True)"
    using path [of "[''etc'']" 0] path [of "[''etc'', ''.rc'']" 1] path [of "[''etc'', ''_rc'']" 2]
    by (simp_all add: sample_tbl_resolve len unhide_def slashed_def)
  moreover have "[0..<length sample_tbl] = [0, 1, 2]" by (simp add: len upt_rec)
  ultimately show ?thesis by (simp add: paths_fit_def host_path_def)
qed

theorem CreateFilesystem_correct_witness:
  "CreateFilesystem (\<lambda>_ _. True) sample_tbl
     = Inr (marked sample_tbl (set (preorder sample_tbl (-1))), host_ops sample_tbl (-1))"
  by (rule CreateFilesystem_correct [OF sample_tbl_wf sample_paths])

end
