(* ===== verification/Fs_Main.thy ===== *)
theory Fs_Main
  imports Fs_Walk_Correct
begin

text \<open>
  \<open>main\<close> of \<open>tools/fs2xml.c\<close> as a whole: whatever the archives hold and whatever the host does,
  a run that returns has a well-formed inode table, and its two output files are the XML and the
  JSON of the same forest.
\<close>

section \<open>The walk keeps the invariant\<close>

lemma wf_update:
  assumes "wf_inodes tbl" and "i < length tbl" and "shape y = shape (tbl ! i)"
    and "length (i_src y) < 128"
  shows "wf_inodes (tbl[i := y])"
proof -
  note f = shape_fields [OF assms(3)]
  have "inode_ok j (tbl[i := y] ! j)" if "j < length tbl" for j
    using wf_inodesD(1) [OF assms(1) that] assms(4) f that
    by (cases "j = i") (simp_all add: inode_ok_def is_reg_def)
  moreover have "\<not> same_place (tbl[i := y] ! k) (tbl[i := y] ! j)" if "j < length tbl" "k < j" for j k
    using assms(1,2) that f by (auto simp: wf_inodes_def same_place_def nth_list_update)
  ultimately show ?thesis using assms(1) by (simp add: wf_inodes_def)
qed

lemma WalkFile_result:
  assumes "WalkFile fopen_ok i (tbl, ops) = Inr (tbl', ops')"
  shows "\<exists>src c. (length src < 128 \<or> src = i_src (tbl ! i)) \<and>
    tbl' = tbl[i := (tbl ! i)\<lparr>i_src := src, i_compressed := if c then 1 else i_compressed (tbl ! i),
        i_load := if ShouldBeLoaded (i_name (tbl ! i)) then 1 else i_load (tbl ! i)\<rparr>]"
proof -
  let ?x = "tbl ! i"
  obtain path hidden where g: "GetFullPathNotHidden tbl ''fs'' (int i) False = Inr (path, hidden)"
    using assms by (cases "GetFullPathNotHidden tbl ''fs'' (int i) False") (auto simp: WalkFile_def)
  obtain src where s: "(if hidden then store 128 (drop 3 path) else Inr (i_src ?x)) = Inr src"
    using assms g by (cases "if hidden then store 128 (drop 3 path) else Inr (i_src ?x)")
      (simp_all add: WalkFile_def Let_def)
  obtain content where f: "fopen_ok ops path" "file_content ?x = Inr content"
    using assms g s by (cases "file_content ?x")
      (simp_all add: WalkFile_def Let_def split: if_split_asm)
  obtain c where c: "ShouldBeCompressed (i_name ?x) (i_data ?x) (i_size ?x) = Inr c"
    using assms g s f by (cases "ShouldBeCompressed (i_name ?x) (i_data ?x) (i_size ?x)")
      (simp_all add: WalkFile_def Let_def)
  have t: "tbl' = tbl[i := ?x\<lparr>i_src := src, i_compressed := if c then 1 else i_compressed ?x,
        i_load := if ShouldBeLoaded (i_name ?x) then 1 else i_load ?x\<rparr>]"
    using assms unfolding WalkFile_def Let_def prod.case g s f(2) c res_bind.simps
    by (auto simp: f(1) res_simps)
  have "length src < 128 \<or> src = i_src ?x"
    using s by (auto simp: store_def split: if_split_asm)
  with t show ?thesis by blast
qed

lemma WalkFile_wf:
  assumes "wf_inodes tbl" "i < length tbl" "WalkFile fopen_ok i (tbl, ops) = Inr (tbl', ops')"
  shows "wf_inodes tbl' \<and> length tbl' = length tbl"
proof -
  from WalkFile_result [OF assms(3)] obtain src c where
    src: "length src < 128 \<or> src = i_src (tbl ! i)" and
    t: "tbl' = tbl[i := (tbl ! i)\<lparr>i_src := src, i_compressed := if c then 1 else i_compressed (tbl ! i),
        i_load := if ShouldBeLoaded (i_name (tbl ! i)) then 1 else i_load (tbl ! i)\<rparr>]"
    by (elim exE conjE)
  have "length src < 128"
    using src wf_inodesD(1) [OF assms(1,2)] by (elim disjE) (simp_all add: inode_ok_def)
  then have "wf_inodes tbl'"
    unfolding t by (intro wf_update [OF assms(1,2)]) (simp_all add: shape_def)
  then show ?thesis by (simp add: t)
qed

lemma WalkFile_step_wf:
  assumes "wf_inodes (fst u)" and "i < length (fst u)" and "(if is_reg (fst u ! i) then WalkFile fopen_ok i u else Inr u) = Inr t"
  shows "wf_inodes (fst t) \<and> length (fst t) = length (fst u)"
proof (cases "is_reg (fst u ! i)")
  case True
  with assms(3) have "WalkFile fopen_ok i (fst u, snd u) = Inr (fst t, snd t)" by simp
  from WalkFile_wf [OF assms(1,2) this] show ?thesis by simp
qed (use assms in simp)

lemma WalkDir_wf:
  "wf_inodes tbl \<Longrightarrow> WalkDir fuel fopen_ok pid (tbl, ops) = Inr (tbl', ops') \<Longrightarrow>
   wf_inodes tbl' \<and> length tbl' = length tbl"
proof (induction fuel arbitrary: pid tbl ops tbl' ops')
  case (Suc fuel)
  let ?P = "\<lambda>s. wf_inodes (fst s) \<and> length (fst s) = length tbl"
  let ?dir = "\<lambda>i s. if is_dir (fst s ! i) then WalkDir fuel fopen_ok (int i) s else Inr s"
  let ?file = "\<lambda>i s. if is_reg (fst s ! i) then WalkFile fopen_ok i s else Inr s"
  let ?body = "\<lambda>i s. if i_parentid (fst s ! i) \<noteq> pid then Inr s else res_bind (?dir i s) (?file i)"
  from Suc.prems(2) obtain path where
    loop: "fold_res ?body [0..<length tbl] (tbl, ops @ [Mkdir path]) = Inr (tbl', ops')"
    by (auto simp: res_simps)
  have fil: "?P t" if "i < length tbl" "?P u" "?file i u = Inr t" for i u t
    using WalkFile_step_wf [OF _ _ that(3)] that(1,2) by metis
  have dir: "?P u" if "?P s" "?dir i s = Inr u" for i s u
  proof (cases "is_dir (fst s ! i)")
    case True
    with that have "WalkDir fuel fopen_ok (int i) (fst s, snd s) = Inr (fst u, snd u)" by simp
    with Suc.IH [of "fst s" "int i" "snd s" "fst u" "snd u"] that(1) show ?thesis by metis
  next
    case False
    with that show ?thesis by simp
  qed
  have step: "?P t" if i: "i \<in> set [0..<length tbl]" and s: "?P s" and t: "?body i s = Inr t" for i s t
  proof (cases "i_parentid (fst s ! i) = pid")
    case True
    with t have "res_bind (?dir i s) (?file i) = Inr t" by (simp only: simp_thms if_False)
    then obtain u where "?dir i s = Inr u" "?file i u = Inr t" unfolding res_bind_Inr_iff by blast
    with fil [of i u t] dir [of s i u] i s show ?thesis by (metis atLeastLessThan_iff set_upt)
  next
    case False
    with s t show ?thesis by simp
  qed
  have "?P (tbl', ops')"
  proof (rule fold_res_invariant [OF loop])
    show "?P (tbl, ops @ [Mkdir path])" using Suc.prems(1) by simp
  qed (rule step)
  then show ?case by simp
qed simp

section \<open>The program\<close>

lemma unpack_wf:
  assumes "fold_res (\<lambda>arg (b, tbl). res_bind (decompress bz2 arg b) (\<lambda>(b', len).
        res_bind (Untar fuel b' len tbl) (\<lambda>tbl'. Inr (b', tbl')))) args (buf, []) = Inr (b, tbl)"
  shows "wf_inodes tbl"
proof -
  have "wf_inodes (snd (b, tbl))"
  proof (rule fold_res_invariant [OF assms])
    fix arg and s t :: "char list \<times> inode list"
    assume s: "wf_inodes (snd s)"
      and step: "(case s of (b, tbl) \<Rightarrow> res_bind (decompress bz2 arg b) (\<lambda>(b', len).
        res_bind (Untar fuel b' len tbl) (\<lambda>tbl'. Inr (b', tbl')))) = Inr t"
    obtain b0 t0 where "s = (b0, t0)" by (cases s)
    with step obtain b' len where "Untar fuel b' len t0 = Inr (snd t)"
      by (auto simp: res_simps)
    with Untar_loop_wf s \<open>s = (b0, t0)\<close> show "wf_inodes (snd t)" unfolding Untar_def by auto
  qed simp
  then show ?thesis by simp
qed

text \<open>
  C3. End to end: for every bzip2 library, every host and every list of archives, when the
  program runs to its end the inode table satisfies the invariant, fs.xml is the XML and fs.json the
  JSON of the forest the final table describes, and that forest holds only directories, regular
  files and links.
\<close>

theorem fs2xml_main_outputs:
  assumes "fs2xml_main bz2 fopen_ok xml_ok json_ok fuel buf args = Inr (tbl, ops, xml, json)"
  shows "wf_inodes tbl \<and> list_all tree_known (forest tbl (-1)) \<and>
    xml = ''<FS src='' @ [CHR 0x27] @ ''fs/'' @ [CHR 0x27] @ ''>'' @ [CHR 0x0A] @
          concat (map (tree_xml 1) (forest tbl (-1))) @ ''</FS>'' @ [CHR 0x0A] \<and>
    json = ''{'' @ quoted ''src'' @ '':'' @ quoted ''fs/'' @ '', '' @ quoted ''fs'' @ '':['' @
          [CHR 0x0A] @ json_list (map (tree_json 1) (forest tbl (-1))) @ '']}'' @ [CHR 0x0A]"
proof -
  from assms obtain b t where
    unpack: "fold_res (\<lambda>arg (b, tbl). res_bind (decompress bz2 arg b) (\<lambda>(b', len).
        res_bind (Untar fuel b' len tbl) (\<lambda>tbl'. Inr (b', tbl')))) args (buf, []) = Inr (b, t)"
    and walk: "CreateFilesystem fopen_ok t = Inr (tbl, ops)"
    and xml: "CreateXML xml_ok (length tbl + 1) tbl = Inr xml"
    and json: "CreateJSON json_ok (length tbl + 1) tbl = Inr json"
    unfolding fs2xml_main_def by (auto simp: res_simps split: if_splits)
  have wf: "wf_inodes tbl"
    using WalkDir_wf [OF unpack_wf [OF unpack]] walk unfolding CreateFilesystem_def by blast
  have "WalkXML (length tbl + 1) tbl (-1) 1 = Inr (concat (map (tree_xml 1) (forest tbl (-1))))"
    using WalkXML_forest [OF wf, of "-1" "length tbl + 1"] by simp
  moreover have "WalkJSON (length tbl + 1) tbl (-1) 1 = (if list_all tree_known (forest tbl (-1))
      then Inr (json_list (map (tree_json 1) (forest tbl (-1)))) else Inl (Exit 1))"
    using WalkJSON_forest [OF wf, of "-1" "length tbl + 1"] by simp
  ultimately show ?thesis
    using wf xml json
    by (auto simp: CreateXML_def CreateJSON_def simp del: WalkXML.simps WalkJSON.simps split: if_splits)
qed

definition sample_bz2 :: "string \<Rightarrow> char list \<Rightarrow> (char list \<times> int) option" where
  "sample_bz2 name buf = Some (archive [sample_dir], 1536)"

lemma sample_dir_run:
  "Untar 4 (archive [sample_dir]) 1536 [] = Inr [entry_inode sample_dir (-1)]"
  "wf_inodes [entry_inode sample_dir (-1)]"
proof -
  have "length (archive [sample_dir]) = 1536"
    using sample_ok by (simp add: archive_def length_entry_bytes length_data_blocks sample_dir_def)
  then show run: "Untar 4 (archive [sample_dir]) 1536 [] = Inr [entry_inode sample_dir (-1)]"
    using Untar_entries [of "[sample_dir]" "[]" 1536 4 "[]" "[]"]
    by (simp add: sample_ok sample_merge archive_def Untar_def)
  then show "wf_inodes [entry_inode sample_dir (-1)]" using Untar_loop_wf unfolding Untar_def
    using wf_inodes_Nil by blast
qed

lemma sample_dir_facts:
  "is_dir (entry_inode sample_dir pid)" "\<not> is_reg (entry_inode sample_dir pid)"
  "i_parentid (entry_inode sample_dir pid) = pid" "i_name (entry_inode sample_dir pid) = ''usr''"
  by (simp_all add: entry_inode_def sample_dir_def is_dir_def is_reg_def type_bits_def
      S_IFMT_def S_IFDIR_def S_IFREG_def)

lemma sample_main_runs:
  "\<exists>ops xml json. fs2xml_main sample_bz2 (\<lambda>_ _. True) True True 4 [] [''a.tar.bz2'']
     = Inr ([entry_inode sample_dir (-1)], ops, xml, json)"
proof -
  let ?t = "[entry_inode sample_dir (-1)]"
  have res: "resolve ?t [''usr''] = Some 0"
    by (simp add: resolve_def SearchInode_def sample_dir_facts Let_def)
  have "GetFullPathNotHidden ?t ''fs'' 0 False = Inr (''fs/usr'', False)"
    using GetFullPathNotHidden_resolve [OF sample_dir_run(2), of "[''usr'']" 0 "''fs''" False] res
    by (simp add: unhide_def slashed_def)
  then have "paths_fit ?t" by (simp add: paths_fit_def host_path_def)
  then have fs: "CreateFilesystem (\<lambda>_ _. True) ?t = Inr (?t, host_ops ?t (-1))"
    using CreateFilesystem_marked [OF sample_dir_run(2)] by (simp add: marked_def sample_dir_facts)
  have ch: "children ?t (-1) = [0]" "children ?t 0 = []"
    by (simp_all add: children_def sample_dir_facts)
  have known: "list_all tree_known (forest ?t (-1))"
    by (simp add: forest_node ch node_def sample_dir_facts known_type_def)
  have "\<exists>x. CreateXML True 2 ?t = Inr x"
    using WalkXML_forest [OF sample_dir_run(2), of "-1" 2] by (simp add: CreateXML_def)
  moreover have "\<exists>j. CreateJSON True 2 ?t = Inr j"
    using WalkJSON_forest [OF sample_dir_run(2), of "-1" 2] known by (simp add: CreateJSON_def)
  ultimately show ?thesis
    using sample_dir_run(1) fs
    by (auto simp: fs2xml_main_def file_stats_def sample_dir_facts decompress_def sample_bz2_def store_def numeral_2_eq_2
        simp del: WalkXML.simps WalkJSON.simps)
qed

theorem fs2xml_main_outputs_witness:
  "\<exists>ops xml json. fs2xml_main sample_bz2 (\<lambda>_ _. True) True True 4 [] [''a.tar.bz2'']
     = Inr ([entry_inode sample_dir (-1)], ops, xml, json) \<and>
     wf_inodes [entry_inode sample_dir (-1)]"
  using sample_main_runs fs2xml_main_outputs by blast

end
