(* ===== verification/Fs_Strings.thy ===== *)
theory Fs_Strings
  imports Prelude
begin

text \<open>
  The two functions of \<open>tools/fs2xml.c\<close> that shift a string by one place in its buffer,
  \<open>RemoveFirstSignofString\<close> and \<open>AddFirstSigntoString\<close>. The buffer is the list of its bytes.
\<close>

definition move_byte :: "nat \<Rightarrow> nat \<Rightarrow> char list \<Rightarrow> char list res" where
  "move_byte dst src m = res_bind (peek m src) (poke m dst)"

definition RemoveFirstSignofString :: "char list \<Rightarrow> char list res" where
  "RemoveFirstSignofString s =
     res_bind (opt_res (cstr_at s 0)) (\<lambda>str. fold_res (\<lambda>i. move_byte i (i + 1)) [0..<length str] s)"

definition AddFirstSigntoString :: "char list \<Rightarrow> char \<Rightarrow> char list res" where
  "AddFirstSigntoString s x =
     res_bind (opt_res (cstr_at s 0)) (\<lambda>str.
     res_bind (fold_res (\<lambda>i. move_byte (i + 1) i) (rev [0..<length str + 1]) s) (\<lambda>s. poke s 0 x))"

lemma move_byte_ok: "dst < length m \<Longrightarrow> src < length m \<Longrightarrow> move_byte dst src m = Inr (m[dst := m ! src])"
  by (simp add: move_byte_def peek_def poke_def)

lemma cstr_at_split:
  assumes "cstr_at m 0 = Some s"
  obtains rest where "m = s @ NUL # rest" and "NUL \<notin> set s"
proof -
  have nul: "NUL \<in> set m" and s: "s = takeWhile (\<lambda>c. c \<noteq> NUL) m" using assms by (auto simp: cstr_at_def split: if_splits)
  then have "dropWhile (\<lambda>c. c \<noteq> NUL) m \<noteq> []" by (simp add: dropWhile_eq_Nil_conv)
  moreover from this have "hd (dropWhile (\<lambda>c. c \<noteq> NUL) m) = NUL" using hd_dropWhile [of "\<lambda>c. c \<noteq> NUL" m] by simp
  ultimately obtain rest where "dropWhile (\<lambda>c. c \<noteq> NUL) m = NUL # rest" by (metis list.collapse)
  then have "m = s @ NUL # rest" unfolding s by (metis takeWhile_dropWhile_id)
  moreover have "NUL \<notin> set s" using s by (auto dest: set_takeWhileD)
  ultimately show thesis by (rule that)
qed

lemma shift_down: "n < length m \<Longrightarrow> fold_res (\<lambda>i. move_byte i (i + 1)) [0..<n] m = Inr (take n (tl m) @ drop n m)"
proof (induction n)
  case (Suc n)
  let ?m = "take n (tl m) @ drop n m"
  have "?m[n := ?m ! Suc n] = take (Suc n) (tl m) @ drop (Suc n) m"
    using Suc.prems less_diff_conv [of n "length m" 1] by (simp add: not_le [symmetric] nth_append list_update_append min_def Cons_nth_drop_Suc [symmetric] nth_tl take_Suc_conv_app_nth)
  then show ?case using Suc by (simp add: fold_res_append move_byte_ok min_def)
qed simp

lemma shift_up:
  "n < length m \<Longrightarrow> fold_res (\<lambda>i. move_byte (i + 1) i) (rev [0..<n]) m = Inr (take 1 m @ take n m @ drop (n + 1) m)"
proof (induction n arbitrary: m)
  case (Suc n)
  let ?m = "m[Suc n := m ! n]"
  have "take 1 ?m @ take n ?m @ drop (n + 1) ?m = take 1 m @ take (Suc n) m @ drop (Suc n + 1) m"
    using Suc.prems by (simp add: take_update_swap drop_update_swap list_update_beyond take_Suc_conv_app_nth Cons_nth_drop_Suc [symmetric])
  then show ?case using Suc by (simp add: move_byte_ok)
qed (cases m; simp)

lemma cstr_at_prefix: "NUL \<notin> set s \<Longrightarrow> cstr_at (s @ NUL # rest) 0 = Some s"
  using cstr_at_append_NUL [of s "[]" rest] by simp

lemma RemoveFirst_buffer:
  assumes "NUL \<notin> set (x # s)"
  shows "RemoveFirstSignofString (x # s @ NUL # rest) = Inr (s @ NUL # NUL # rest)"
  using cstr_at_prefix [OF assms, of rest] shift_down [of "Suc (length s)" "x # s @ NUL # rest"]
  by (simp add: RemoveFirstSignofString_def del: upt_Suc)

lemma AddFirst_buffer:
  assumes "NUL \<notin> set s"
  shows "AddFirstSigntoString (s @ NUL # c # rest) x = Inr (x # s @ NUL # rest)"
proof -
  let ?m = "s @ NUL # c # rest"
  have "take 1 ?m @ take (length s + 1) ?m @ drop (length s + 1 + 1) ?m = hd ?m # s @ NUL # rest" by (cases s) simp_all
  then have "fold_res (\<lambda>i. move_byte (i + 1) i) (rev [0..<length s + 1]) ?m = Inr (hd ?m # s @ NUL # rest)"
    using shift_up [of "length s + 1" ?m] by (simp del: upt_Suc)
  then show ?thesis using cstr_at_prefix [OF assms, of "c # rest"] by (simp add: AddFirstSigntoString_def poke_def del: upt_Suc)
qed

text \<open>
  Adding a character in front of a string and removing it give the string back: when the buffer has a byte
  behind the string, the first puts the character in front and the second takes it away; when the string
  fills its buffer, adding a character writes behind it.
\<close>

theorem first_sign_roundtrip:
  assumes "cstr_at m 0 = Some s" and "x \<noteq> NUL"
  shows "if length s + 1 < length m
    then \<exists>m' m''. AddFirstSigntoString m x = Inr m' \<and> cstr_at m' 0 = Some (x # s) \<and> length m' = length m \<and>
      RemoveFirstSignofString m' = Inr m'' \<and> cstr_at m'' 0 = Some s \<and> length m'' = length m
    else AddFirstSigntoString m x = Inl Fault"
proof -
  obtain rest where m: "m = s @ NUL # rest" "NUL \<notin> set s" using cstr_at_split [OF assms(1)] by blast
  show ?thesis
  proof (cases rest)
    case Nil
    then have "move_byte (length s + 1) (length s) m = Inl Fault" using m by (simp add: move_byte_def peek_def poke_def nth_append)
    then show ?thesis using assms(1) m(1) Nil by (simp add: AddFirstSigntoString_def)
  next
    case (Cons c cs)
    then show ?thesis
      using AddFirst_buffer [OF m(2), of c cs x] RemoveFirst_buffer [of x s cs] cstr_at_prefix [of "x # s" cs] cstr_at_prefix [OF m(2), of "NUL # cs"]
        m assms(2) by simp
  qed
qed

theorem first_sign_roundtrip_witness:
  "\<exists>m' m''. AddFirstSigntoString [CHR ''a'', CHR ''b'', NUL, CHR ''z''] CHR ''/'' = Inr m' \<and> cstr_at m' 0 = Some ''/ab'' \<and>
     RemoveFirstSignofString m' = Inr m'' \<and> cstr_at m'' 0 = Some ''ab''"
proof -
  have "cstr_at [CHR ''a'', CHR ''b'', NUL, CHR ''z''] 0 = Some ''ab''" by (simp add: cstr_at_def)
  from first_sign_roundtrip [OF this, of "CHR ''/''"] show ?thesis by auto
qed

end
