(* ===== verification/Snd_Timer.thy ===== *)
theory Snd_Timer
  imports Prelude
begin

text \<open>
  The system timer of \<open>patches/linux/dummy_sound.c\<close>, which stands in for the clock of a sound
  card: \<open>dummy_systimer_rearm\<close>, \<open>_update\<close>, \<open>_start\<close>, \<open>_stop\<close>, \<open>_prepare\<close>, \<open>_callback\<close> and
  \<open>_pointer\<close>. The kernel is 32-bit, so \<open>unsigned int\<close>, \<open>unsigned long\<close> and \<open>jiffies\<close> are 32-bit
  words and wrap; \<open>HZ\<close> is the kernel's tick rate. Calls into the kernel and accesses of the
  device registers are a list of \<open>kcall\<close>s, in order. The two loops of \<open>_update\<close> need not end, so
  they are partial functions, and \<open>None\<close> is \<open>Diverges\<close>. Locking is not modelled: every function
  holds the lock for its whole body, so the functions are atomic steps.
\<close>

section \<open>The code\<close>

type_synonym u32 = "32 word"

datatype kcall = IoWrite nat u32 | IoRead nat | AddTimer u32 | DelTimer | PeriodElapsed

record dummy_systimer_pcm =
  base_time :: u32
  frac_pos :: u32
  frac_period_rest :: u32
  frac_buffer_size :: u32
  frac_period_size :: u32
  rate :: u32
  elapsed :: u32

text \<open>\<open>kzalloc\<close>\<close>

definition systimer_zero :: dummy_systimer_pcm where
  "systimer_zero = \<lparr>base_time = 0, frac_pos = 0, frac_period_rest = 0, frac_buffer_size = 0,
     frac_period_size = 0, rate = 0, elapsed = 0\<rparr>"

definition dummy_systimer_rearm :: "u32 \<Rightarrow> dummy_systimer_pcm \<Rightarrow> kcall list res" where
  "dummy_systimer_rearm jiffies dpcm =
     (if rate dpcm = 0 then Inl Fault
      else Inr [AddTimer (jiffies + (frac_period_rest dpcm + rate dpcm - 1) div rate dpcm)])"

partial_function (option) buffer_loop :: "u32 \<Rightarrow> u32 \<Rightarrow> u32 option" where
  "buffer_loop pos sz = (if pos \<ge> sz then buffer_loop (pos - sz) sz else Some pos)"

partial_function (option) period_loop :: "u32 \<Rightarrow> u32 \<Rightarrow> u32 \<Rightarrow> u32 \<Rightarrow> (u32 \<times> u32) option" where
  "period_loop sz delta rest el =
     (if rest \<le> delta then period_loop sz delta (rest + sz) (el + 1) else Some (rest, el))"

definition loop_res :: "'a option \<Rightarrow> 'a res" where
  "loop_res x = (case x of None \<Rightarrow> Inl Diverges | Some y \<Rightarrow> Inr y)"

definition dummy_systimer_update :: "u32 \<Rightarrow> dummy_systimer_pcm \<Rightarrow> dummy_systimer_pcm res" where
  "dummy_systimer_update jiffies dpcm =
     (let delta = jiffies - base_time dpcm in
      if delta = 0 then Inr dpcm
      else let t = base_time dpcm + delta; delta = delta * rate dpcm in
        res_bind (loop_res (buffer_loop (frac_pos dpcm + delta) (frac_buffer_size dpcm))) (\<lambda>pos.
        res_bind (loop_res (period_loop (frac_period_size dpcm) delta (frac_period_rest dpcm)
                    (elapsed dpcm))) (\<lambda>(rest, el).
          Inr (dpcm\<lparr>base_time := t, frac_pos := pos, frac_period_rest := rest - delta,
                    elapsed := el\<rparr>))))"

definition dummy_systimer_start ::
  "u32 \<Rightarrow> dummy_systimer_pcm \<Rightarrow> (dummy_systimer_pcm \<times> kcall list) res" where
  "dummy_systimer_start jiffies dpcm =
     (let dpcm = dpcm\<lparr>base_time := jiffies\<rparr> in
      res_bind (dummy_systimer_rearm jiffies dpcm) (\<lambda>calls. Inr (dpcm, calls)))"

definition dummy_systimer_stop :: "dummy_systimer_pcm \<Rightarrow> dummy_systimer_pcm \<times> kcall list" where
  "dummy_systimer_stop dpcm = (dpcm, [DelTimer])"

definition dummy_systimer_prepare ::
  "u32 \<Rightarrow> u32 \<Rightarrow> u32 \<Rightarrow> u32 \<Rightarrow> dummy_systimer_pcm \<Rightarrow> dummy_systimer_pcm" where
  "dummy_systimer_prepare hz rt_rate buffer_size period_size dpcm =
     dpcm\<lparr>frac_pos := 0, rate := rt_rate, frac_buffer_size := buffer_size * hz,
          frac_period_size := period_size * hz, frac_period_rest := period_size * hz,
          elapsed := 0\<rparr>"

definition dummy_systimer_callback ::
  "u32 \<Rightarrow> dummy_systimer_pcm \<Rightarrow> (dummy_systimer_pcm \<times> kcall list) res" where
  "dummy_systimer_callback jiffies dpcm =
     res_bind (dummy_systimer_update jiffies dpcm) (\<lambda>dpcm.
     res_bind (dummy_systimer_rearm jiffies dpcm) (\<lambda>calls.
       Inr (dpcm\<lparr>elapsed := 0\<rparr>,
            calls @ (if elapsed dpcm \<noteq> 0 then [IoRead 0, PeriodElapsed] else []))))"

definition dummy_systimer_pointer ::
  "u32 \<Rightarrow> u32 \<Rightarrow> dummy_systimer_pcm \<Rightarrow> (dummy_systimer_pcm \<times> u32) res" where
  "dummy_systimer_pointer hz jiffies dpcm =
     res_bind (dummy_systimer_update jiffies dpcm) (\<lambda>dpcm.
       if hz = 0 then Inl Fault else Inr (dpcm, frac_pos dpcm div hz))"

section \<open>The loops\<close>

lemma loop_res_simps [simp]: "loop_res None = Inl Diverges" "loop_res (Some y) = Inr y"
  by (simp_all add: loop_res_def)

lemma buffer_loop_mod:
  assumes "sz \<noteq> 0"
  shows "buffer_loop pos sz = Some (pos mod sz)"
proof (induction "unat pos" arbitrary: pos rule: less_induct)
  case less
  show ?case
  proof (cases "pos \<ge> sz")
    case True
    have u: "unat (pos - sz) = unat pos - unat sz"
      using True by (simp add: unat_sub)
    moreover have "0 < unat sz" using assms by (simp add: unat_gt_0)
    ultimately have "unat (pos - sz) < unat pos"
      using True by (simp add: word_le_nat_alt)
    with less have "buffer_loop (pos - sz) sz = Some ((pos - sz) mod sz)" by simp
    moreover have "(pos - sz) mod sz = pos mod sz"
    proof (rule word_unat_eq_iff [THEN iffD2])
      show "unat ((pos - sz) mod sz) = unat (pos mod sz)"
        using True by (simp add: unat_mod_distrib u word_le_nat_alt le_mod_geq [symmetric])
    qed
    ultimately show ?thesis using True by (subst buffer_loop.simps) simp
  next
    case False
    then have "pos mod sz = pos" by (simp add: word_unat_eq_iff unat_mod_distrib word_le_nat_alt)
    then show ?thesis using False by (subst buffer_loop.simps) simp
  qed
qed

text \<open>How many periods end in a stretch of \<open>x\<close> when \<open>rest\<close> is left of the current one.\<close>

definition periods_ended :: "nat \<Rightarrow> nat \<Rightarrow> nat \<Rightarrow> nat" where
  "periods_ended sz x rest = (if x < rest then 0 else (x - rest) div sz + 1)"

lemma period_loop_count:
  assumes "sz \<noteq> 0" and "unat delta + unat sz < 2 ^ 32"
  shows "period_loop sz delta rest el =
    Some (rest + of_nat (periods_ended (unat sz) (unat delta) (unat rest)) * sz,
          el + of_nat (periods_ended (unat sz) (unat delta) (unat rest)))"
proof (induction "unat delta + 1 - unat rest" arbitrary: rest el rule: less_induct)
  case less
  let ?k = "\<lambda>r. periods_ended (unat sz) (unat delta) r"
  show ?case
  proof (cases "rest \<le> delta")
    case True
    then have le: "unat rest \<le> unat delta" by (simp add: word_le_nat_alt)
    have pos: "0 < unat sz" using assms(1) by (simp add: unat_gt_0)
    have "unat rest + unat sz < 2 ^ 32" using le assms(2) by linarith
    then have u: "unat (rest + sz) = unat rest + unat sz"
      using unat_add_lem [of rest sz] by simp
    have k: "?k (unat rest) = ?k (unat rest + unat sz) + 1"
    proof (cases "unat delta < unat rest + unat sz")
      case True
      then show ?thesis using le pos by (simp add: periods_ended_def)
    next
      case False
      then have "unat delta - unat rest = (unat delta - (unat rest + unat sz)) + unat sz" by simp
      then have "(unat delta - unat rest) div unat sz =
          (unat delta - (unat rest + unat sz)) div unat sz + 1"
        using pos by (metis add.commute div_add_self2 less_not_refl)
      then show ?thesis using False le by (simp add: periods_ended_def)
    qed
    have "unat delta + 1 - unat (rest + sz) < unat delta + 1 - unat rest" using u le pos by simp
    from less [OF this, of "el + 1"] show ?thesis
      using True u k by (subst period_loop.simps) (simp add: algebra_simps)
  next
    case False
    then have "unat delta < unat rest" by (simp add: word_le_nat_alt)
    then have "?k (unat rest) = 0" by (simp add: periods_ended_def)
    then show ?thesis using False by (subst period_loop.simps) simp
  qed
qed

end
