(* ===== verification/Snd_Clock.thy ===== *)
theory Snd_Clock
  imports Snd_Timer
begin

text \<open>
  What the system timer of \<open>patches/linux/dummy_sound.c\<close> computes: an ideal clock. After \<open>n\<close>
  jiffies a stream of rate \<open>r\<close> has played \<open>r * n\<close> fractions of a frame (a frame is \<open>HZ\<close>
  fractions); \<open>clock_at d T\<close> says the fields of the timer are those of the fractional time \<open>T\<close>.
  \<open>dummy_systimer_update\<close> refines adding to \<open>T\<close> as long as no 32-bit sum overflows.
\<close>

section \<open>The ideal clock\<close>

definition clock_at :: "dummy_systimer_pcm \<Rightarrow> nat \<Rightarrow> bool" where
  "clock_at d T \<longleftrightarrow>
     unat (frac_pos d) = T mod unat (frac_buffer_size d) \<and>
     unat (frac_period_rest d) = unat (frac_period_size d) - T mod unat (frac_period_size d)"

definition same_setup :: "dummy_systimer_pcm \<Rightarrow> dummy_systimer_pcm \<Rightarrow> bool" where
  "same_setup d d' \<longleftrightarrow> rate d' = rate d \<and> frac_buffer_size d' = frac_buffer_size d \<and>
     frac_period_size d' = frac_period_size d"

text \<open>No sum of \<open>dummy_systimer_update\<close> overflows within \<open>n\<close> jiffies.\<close>

definition in_range :: "dummy_systimer_pcm \<Rightarrow> nat \<Rightarrow> bool" where
  "in_range d n \<longleftrightarrow> 0 < rate d \<and> 0 < frac_buffer_size d \<and> 0 < frac_period_size d \<and>
     n < 2 ^ 32 \<and> n * unat (rate d) + unat (frac_buffer_size d) < 2 ^ 32 \<and>
     n * unat (rate d) + unat (frac_period_size d) < 2 ^ 32"

lemma in_range_mono: "in_range d n \<Longrightarrow> m \<le> n \<Longrightarrow> in_range d m"
  unfolding in_range_def by (meson add_le_mono1 le_less_trans mult_le_mono1)

lemma in_range_setup: "same_setup d d' \<Longrightarrow> in_range d' n = in_range d n"
  by (simp add: in_range_def same_setup_def)

lemma same_setup_trans: "same_setup a b \<Longrightarrow> same_setup b c \<Longrightarrow> same_setup a c"
  by (simp add: same_setup_def)

lemma periods_ended_clock:
  assumes "0 < P"
  shows "periods_ended P x (P - T mod P) = (T + x) div P - T div P"
    and "P - T mod P + periods_ended P x (P - T mod P) * P - x = P - (T + x) mod P"
    and "x \<le> P - T mod P + periods_ended P x (P - T mod P) * P"
    and "P - T mod P + periods_ended P x (P - T mod P) * P \<le> x + P"
proof -
  let ?m = "T mod P"
  have m: "?m < P" using assms by simp
  have k: "periods_ended P x (P - ?m) = (?m + x) div P"
  proof (cases "x < P - ?m")
    case True
    then show ?thesis by (simp add: periods_ended_def)
  next
    case False
    then have "?m + x = (x - (P - ?m)) + P" using m by simp
    then have "(?m + x) div P = (x - (P - ?m)) div P + 1"
      using assms by (metis add.commute div_add_self2 less_not_refl)
    then show ?thesis using False by (simp add: periods_ended_def)
  qed
  have "T + x = T div P * P + (?m + x)" by simp
  then have q: "(T + x) div P = T div P + (?m + x) div P"
    by (metis assms div_mult_self3 less_not_refl)
  then show "periods_ended P x (P - ?m) = (T + x) div P - T div P" using k by simp
  have r: "(T + x) mod P = (?m + x) mod P" by (simp add: mod_simps)
  have split: "(?m + x) div P * P + (?m + x) mod P = ?m + x" by simp
  moreover have "(?m + x) mod P < P" using assms by simp
  ultimately show "P - ?m + periods_ended P x (P - ?m) * P - x = P - (T + x) mod P"
    and "x \<le> P - ?m + periods_ended P x (P - ?m) * P"
    and "P - ?m + periods_ended P x (P - ?m) * P \<le> x + P"
    using m unfolding k r by linarith+
qed

lemma update_clock:
  assumes clock: "clock_at d T" and range: "in_range d (unat (jiffies - base_time d))"
  defines "x \<equiv> unat (jiffies - base_time d) * unat (rate d)"
  shows "\<exists>d'. dummy_systimer_update jiffies d = Inr d' \<and> clock_at d' (T + x) \<and> same_setup d d' \<and>
    base_time d' = jiffies \<and>
    elapsed d' = elapsed d + of_nat ((T + x) div unat (frac_period_size d) - T div unat (frac_period_size d))"
proof (cases "jiffies - base_time d = 0")
  case True
  then show ?thesis using clock
    by (simp add: dummy_systimer_update_def x_def same_setup_def)
next
  case False
  let ?B = "unat (frac_buffer_size d)" and ?P = "unat (frac_period_size d)"
  let ?delta = "(jiffies - base_time d) * rate d"
  let ?k = "periods_ended ?P x (unat (frac_period_rest d))"
  have B: "0 < ?B" "frac_buffer_size d \<noteq> 0" and P: "0 < ?P" "frac_period_size d \<noteq> 0"
    using range by (auto simp: in_range_def unat_gt_0)
  have xB: "x + ?B < 2 ^ 32" and xP: "x + ?P < 2 ^ 32" using range by (auto simp: in_range_def x_def)
  then have delta: "unat ?delta = x"
    unfolding x_def using unat_mult_lem [of "jiffies - base_time d" "rate d"] by auto
  have posB: "unat (frac_pos d) < ?B" using clock B by (simp add: clock_at_def)
  then have "unat (frac_pos d + ?delta) = unat (frac_pos d) + x"
    using unat_add_lem [of "frac_pos d" ?delta] delta xB by simp
  then have pos: "unat ((frac_pos d + ?delta) mod frac_buffer_size d) = (T + x) mod ?B"
    using clock by (simp add: unat_mod_distrib clock_at_def mod_simps)
  note pc = periods_ended_clock [OF P(1), where x = x and T = T]
  have rest: "unat (frac_period_rest d) = ?P - T mod ?P" using clock by (simp add: clock_at_def)
  have "unat (frac_period_rest d) + ?k * ?P \<le> x + ?P" using pc(4) rest by simp
  then have "unat (frac_period_rest d + of_nat ?k * frac_period_size d) = unat (frac_period_rest d) + ?k * ?P"
    using xP by (simp add: unat_word_ariths unat_of_nat mod_simps)
  then have "unat (frac_period_rest d + of_nat ?k * frac_period_size d - ?delta) =
      unat (frac_period_rest d) + ?k * ?P - x"
    using delta pc(3) rest by (simp add: unat_sub word_le_nat_alt)
  then have rest': "unat (frac_period_rest d + of_nat ?k * frac_period_size d - ?delta) = ?P - (T + x) mod ?P"
    using pc(2) rest by simp
  have "period_loop (frac_period_size d) ?delta (frac_period_rest d) (elapsed d) =
      Some (frac_period_rest d + of_nat ?k * frac_period_size d, elapsed d + of_nat ?k)"
    using period_loop_count [OF P(2), of ?delta] xP delta by simp
  then show ?thesis
    using False buffer_loop_mod [OF B(2)] pos rest' pc(1) rest
    by (simp add: dummy_systimer_update_def Let_def clock_at_def same_setup_def)
qed

section \<open>Rearming\<close>

lemma ceil_div_props:
  fixes rest r :: nat
  assumes "0 < r" "0 < rest"
  shows "rest \<le> (rest + r - 1) div r * r" and "m < (rest + r - 1) div r \<Longrightarrow> m * r < rest"
proof -
  let ?q = "(rest + r - 1) div r"
  have eq: "?q * r + (rest + r - 1) mod r = rest + r - 1" by simp
  moreover have "(rest + r - 1) mod r < r" using assms(1) by simp
  ultimately show "rest \<le> ?q * r" using assms by linarith
  assume "m < ?q"
  then have "(m + 1) * r \<le> ?q * r" by (intro mult_le_mono1) simp
  also have "\<dots> \<le> rest + r - 1" by simp
  finally show "m * r < rest" using assms by (simp add: add_mult_distrib)
qed

lemma div_step_iff:
  fixes T x P :: nat
  assumes "0 < P"
  shows "T div P < (T + x) div P \<longleftrightarrow> P - T mod P \<le> x"
proof -
  have "(T + x) div P - T div P = periods_ended P x (P - T mod P)"
    using periods_ended_clock(1) [OF assms] by simp
  then show ?thesis by (auto simp: periods_ended_def split: if_splits)
qed

text \<open>
  \<open>dummy_systimer_rearm\<close> programs the timer for the exact jiffy at which the current period
  ends: for a timer at the fractional time \<open>T\<close> it is set \<open>k\<close> jiffies ahead, where a period has
  ended after \<open>k\<close> jiffies and none has after fewer.
\<close>

theorem systimer_rearm_exact:
  assumes "clock_at d T" and "0 < rate d" and "0 < frac_period_size d"
    and "unat (frac_period_size d) + unat (rate d) < 2 ^ 32"
  shows "\<exists>k. dummy_systimer_rearm jiffies d = Inr [AddTimer (jiffies + of_nat k)] \<and>
    T div unat (frac_period_size d) < (T + k * unat (rate d)) div unat (frac_period_size d) \<and>
    (\<forall>m < k. (T + m * unat (rate d)) div unat (frac_period_size d) = T div unat (frac_period_size d))"
proof -
  let ?P = "unat (frac_period_size d)" and ?r = "unat (rate d)"
  let ?rest = "unat (frac_period_rest d)"
  have P: "0 < ?P" and r: "0 < ?r" using assms(2,3) by (simp_all add: unat_gt_0)
  have rest: "?rest = ?P - T mod ?P" using assms(1) by (simp add: clock_at_def)
  then have pos: "0 < ?rest" and le: "?rest \<le> ?P" using P by simp_all
  have "unat (frac_period_rest d + rate d) = ?rest + ?r"
    using unat_add_lem [of "frac_period_rest d" "rate d"] le assms(4) by simp
  then have "unat (frac_period_rest d + rate d - 1) = ?rest + ?r - 1"
    using r by (subst unat_sub) (simp_all add: word_le_nat_alt)
  then have "(frac_period_rest d + rate d - 1) div rate d = of_nat ((?rest + ?r - 1) div ?r)"
    by (intro word_eq_of_nat) (simp add: unat_div_distrib)
  then have run: "dummy_systimer_rearm jiffies d =
      Inr [AddTimer (jiffies + of_nat ((?rest + ?r - 1) div ?r))]"
    using assms(2) by (simp add: dummy_systimer_rearm_def)
  have "(T + m * ?r) div ?P = T div ?P" if "m < (?rest + ?r - 1) div ?r" for m
    using ceil_div_props(2) [OF r pos that] div_step_iff [OF P, of T "m * ?r"] rest
      div_le_mono [of T "T + m * ?r" ?P] by simp
  then show ?thesis
    using run ceil_div_props(1) [OF r pos] div_step_iff [OF P] rest
    by (intro exI [of _ "(?rest + ?r - 1) div ?r"]) simp
qed

lemma elapsed_bound:
  assumes "0 < P" and "x + P < 2 ^ 32"
  shows "(T + x) div P - T div P < (2 ^ 32 :: nat)"
proof -
  let ?k = "periods_ended P x (P - T mod P)"
  have "?k * P \<le> x + P" using periods_ended_clock(4) [OF assms(1), of T x] by linarith
  moreover have "?k \<le> ?k * P" using assms(1) by simp
  ultimately show ?thesis using assms(2) periods_ended_clock(1) [OF assms(1), of x T] by linarith
qed

text \<open>
  The timer callback: a timer at time \<open>T\<close> with no unreported period, called so soon that
  nothing overflows, moves to the time of the call, acknowledges the device and reports to ALSA
  exactly when a period ended since the last report, and always programs the timer again.
\<close>

theorem systimer_callback_notifies:
  assumes "clock_at d T" and "elapsed d = 0" and "in_range d (unat (jiffies - base_time d))"
    and "T' = T + unat (jiffies - base_time d) * unat (rate d)"
  shows "\<exists>d' t. dummy_systimer_callback jiffies d =
      Inr (d', AddTimer t # (if T div unat (frac_period_size d) < T' div unat (frac_period_size d)
                             then [IoRead 0, PeriodElapsed] else [])) \<and>
    clock_at d' T' \<and> elapsed d' = 0 \<and> base_time d' = jiffies \<and> same_setup d d'"
proof -
  let ?P = "unat (frac_period_size d)"
  from update_clock [OF assms(1,3)] obtain d' where
    up: "dummy_systimer_update jiffies d = Inr d'" "clock_at d' T'" "same_setup d d'"
      "base_time d' = jiffies" "elapsed d' = of_nat (T' div ?P - T div ?P)"
    using assms(2,4) by auto
  have P: "0 < ?P" and r: "rate d' \<noteq> 0" and x: "T' - T + ?P < 2 ^ 32" "T' = T + (T' - T)"
    using assms(3,4) up(3) by (auto simp: in_range_def same_setup_def unat_gt_0)
  have "unat (elapsed d') = T' div ?P - T div ?P"
    unfolding up(5) using elapsed_bound [OF P x(1), of T] x(2)
    by (simp add: unat_of_nat)
  then have "elapsed d' \<noteq> 0 \<longleftrightarrow> T div ?P < T' div ?P"
    by (metis unat_eq_zero zero_less_diff gr0_conv_Suc not_gr0 unat_gt_0)
  then show ?thesis
    using up r by (auto simp: dummy_systimer_callback_def dummy_systimer_rearm_def clock_at_def same_setup_def)
qed

section \<open>Running streams\<close>

text \<open>
  A running stream: its timer, the jiffies since the start and the kernel calls so far. Time passes,
  the application asks for the position, and the timer fires; whatever the order, at most \<open>D\<close>
  jiffies pass between two updates of the timer.
\<close>

inductive stream_step ::
  "u32 \<Rightarrow> u32 \<Rightarrow> nat \<Rightarrow> dummy_systimer_pcm \<times> nat \<times> kcall list \<Rightarrow> dummy_systimer_pcm \<times> nat \<times> kcall list \<Rightarrow> bool"
  for hz j0 D where
  tick: "unat (j0 + of_nat (Suc n) - base_time d) \<le> D \<Longrightarrow> stream_step hz j0 D (d, n, c) (d, Suc n, c)"
| pointer: "dummy_systimer_pointer hz (j0 + of_nat n) d = Inr (d', p) \<Longrightarrow>
    stream_step hz j0 D (d, n, c) (d', n, c)"
| callback: "dummy_systimer_callback (j0 + of_nat n) d = Inr (d', k) \<Longrightarrow>
    stream_step hz j0 D (d, n, c) (d', n, c @ k)"

text \<open>The timer at jiffy \<open>n\<close>: it was last updated at some \<open>m\<close>, at most \<open>D\<close> jiffies ago.\<close>

definition stream_inv :: "u32 \<Rightarrow> nat \<Rightarrow> dummy_systimer_pcm \<Rightarrow> dummy_systimer_pcm \<times> nat \<times> kcall list \<Rightarrow> bool" where
  "stream_inv j0 D d0 = (\<lambda>(d, n, c). same_setup d0 d \<and>
     (\<exists>m \<le> n. n - m \<le> D \<and> base_time d = j0 + of_nat m \<and> clock_at d (m * unat (rate d0))))"

lemma jiffies_diff:
  fixes j0 :: u32
  assumes "m \<le> n" "n - m < 2 ^ 32"
  shows "unat (j0 + of_nat n - (j0 + of_nat m)) = n - m"
proof -
  have "j0 + of_nat n - (j0 + of_nat m) = (of_nat (n - m) :: u32)" using assms(1) by simp
  then show ?thesis using assms(2) by (simp only: unat_of_nat) simp
qed

lemma stream_update:
  assumes "stream_inv j0 D d0 (d, n, c)" and "in_range d0 D"
  shows "\<exists>d'. dummy_systimer_update (j0 + of_nat n) d = Inr d' \<and> same_setup d0 d' \<and>
    base_time d' = j0 + of_nat n \<and> clock_at d' (n * unat (rate d0))"
proof -
  from assms(1) obtain m where m: "same_setup d0 d" "m \<le> n" "n - m \<le> D"
    "base_time d = j0 + of_nat m" "clock_at d (m * unat (rate d0))" by (auto simp: stream_inv_def)
  have D: "D < 2 ^ 32" using assms(2) by (simp add: in_range_def)
  have diff: "unat (j0 + of_nat n - base_time d) = n - m" unfolding m(4)
    by (rule jiffies_diff [OF m(2)]) (use m(3) D in linarith)
  have "in_range d (n - m)" using in_range_setup [OF m(1)] in_range_mono [OF assms(2) m(3)] by simp
  with update_clock [OF m(5), of "j0 + of_nat n"] diff obtain d' where
    "dummy_systimer_update (j0 + of_nat n) d = Inr d'" "same_setup d d'"
    "clock_at d' (m * unat (rate d0) + (n - m) * unat (rate d))" "base_time d' = j0 + of_nat n" by auto
  moreover have "m * unat (rate d0) + (n - m) * unat (rate d) = n * unat (rate d0)"
    using m(1,2) by (simp add: same_setup_def flip: add_mult_distrib)
  ultimately show ?thesis using same_setup_trans [OF m(1)] by auto
qed

lemma stream_inv_step:
  assumes "stream_step hz j0 D s t" "stream_inv j0 D d0 s" "in_range d0 D"
  shows "stream_inv j0 D d0 t"
  using assms
proof (induction rule: stream_step.induct)
  case (tick n d c)
  from tick.prems(1) obtain m where m: "same_setup d0 d" "m \<le> n" "n - m \<le> D"
    "base_time d = j0 + of_nat m" "clock_at d (m * unat (rate d0))" by (auto simp: stream_inv_def)
  have "0 < unat (rate d0)" "0 < unat (frac_buffer_size d0)" "D * unat (rate d0) + unat (frac_buffer_size d0) < 2 ^ 32"
    using tick.prems(2) by (auto simp: in_range_def unat_gt_0)
  moreover from this(1) have "D \<le> D * unat (rate d0)" by simp
  ultimately have "D + 1 < 2 ^ 32" by linarith
  then have "unat (j0 + of_nat (Suc n) - base_time d) = Suc n - m"
    unfolding m(4) using m(2,3) by (intro jiffies_diff) auto
  then have "Suc n - m \<le> D" using tick.hyps by simp
  then show ?case using m unfolding stream_inv_def by (auto intro!: exI [of _ m])
next
  case (pointer n d d' p c)
  with stream_update [OF pointer.prems] show ?case
    by (auto simp: stream_inv_def dummy_systimer_pointer_def split: if_splits)
next
  case (callback n d d' k c)
  with stream_update [OF callback.prems] show ?case
    by (auto simp: stream_inv_def dummy_systimer_callback_def clock_at_def same_setup_def res_simps
        intro!: exI [of _ n])
qed

lemma stream_inv_reach:
  assumes "(stream_step hz j0 D)\<^sup>*\<^sup>* s t" "stream_inv j0 D d0 s" "in_range d0 D"
  shows "stream_inv j0 D d0 t"
  using assms by (induction rule: rtranclp_induct) (auto intro: stream_inv_step)

lemma stream_inv_start:
  assumes "d = dummy_systimer_prepare hz r b p d0"
  shows "stream_inv j0 D d (d\<lparr>base_time := j0\<rparr>, 0, c)"
  by (simp add: assms stream_inv_def same_setup_def clock_at_def dummy_systimer_prepare_def)

lemma frame_pos:
  fixes hz b :: u32
  assumes "0 < hz" "unat b * unat hz < 2 ^ 32" "unat pos = T mod unat (b * hz)"
  shows "pos div hz = of_nat (T div unat hz mod unat b)"
proof (rule word_eq_of_nat)
  have "unat (b * hz) = unat hz * unat b" using assms(2) unat_mult_lem [of b hz] by (simp add: mult.commute)
  then have "unat pos div unat hz = T div unat hz mod unat b"
    using assms(1,3) by (simp add: mod_mult2_eq unat_gt_0)
  then show "unat (pos div hz) = T div unat hz mod unat b" by (simp add: unat_div_distrib)
qed

text \<open>
  C5. The position of a stream never drifts: in every state a started stream reaches, through any
  interleaving of time, position queries and timer callbacks with at most \<open>D\<close> jiffies between two
  updates, asking at jiffy \<open>n\<close> ends and gives the frame \<open>\<lfloor>r * n / HZ\<rfloor>\<close> modulo the buffer size, also
  when the jiffies counter wraps.
\<close>

theorem systimer_pointer_exact:
  assumes "d = dummy_systimer_prepare hz r b p d0" and "dummy_systimer_start j0 d = Inr (d1, c1)"
    and "(stream_step hz j0 D)\<^sup>*\<^sup>* (d1, 0, c1) (d2, n, c2)" and "in_range d D"
    and "0 < hz" and "unat b * unat hz < 2 ^ 32"
  shows "\<exists>d3. dummy_systimer_pointer hz (j0 + of_nat n) d2 =
    Inr (d3, of_nat (n * unat r div unat hz mod unat b))"
proof -
  have d1: "d1 = d\<lparr>base_time := j0\<rparr>"
    using assms(2) by (auto simp: dummy_systimer_start_def Let_def res_simps)
  have "stream_inv j0 D d (d2, n, c2)"
    using stream_inv_reach [OF assms(3) _ assms(4)] stream_inv_start [OF assms(1)] d1 by blast
  from stream_update [OF this assms(4)] obtain d' where
    up: "dummy_systimer_update (j0 + of_nat n) d2 = Inr d'" "same_setup d d'"
      "clock_at d' (n * unat (rate d))" by blast
  then have "unat (frac_pos d') = n * unat r mod unat (b * hz)"
    by (simp add: clock_at_def same_setup_def assms(1) dummy_systimer_prepare_def)
  from frame_pos [OF assms(5,6) this] show ?thesis
    using up(1) assms(5) by (simp add: dummy_systimer_pointer_def)
qed

section \<open>Witnesses\<close>

abbreviation sample_timer :: dummy_systimer_pcm where
  "sample_timer \<equiv> dummy_systimer_prepare 50 8000 1024 256 systimer_zero"

lemma sample_in_range: "n \<le> 100 \<Longrightarrow> in_range sample_timer n"
  by (rule in_range_mono [of _ 100])
    (simp_all add: in_range_def dummy_systimer_prepare_def)

lemma sample_clock: "clock_at sample_timer 0"
  by (simp add: clock_at_def dummy_systimer_prepare_def)

theorem systimer_rearm_exact_witness:
  "\<exists>k. dummy_systimer_rearm 7 sample_timer = Inr [AddTimer (7 + of_nat k)] \<and>
     0 < k * 8000 div (12800::nat) \<and> (\<forall>m < k. m * 8000 div (12800::nat) = 0)"
  using systimer_rearm_exact [OF sample_clock, of 7]
  by (simp add: dummy_systimer_prepare_def)

theorem systimer_callback_notifies_witness:
  "\<exists>d' t. dummy_systimer_callback 2 sample_timer = Inr (d', [AddTimer t, IoRead 0, PeriodElapsed]) \<and>
     clock_at d' 16000"
  using systimer_callback_notifies [OF sample_clock, of 2 16000] sample_in_range [of 2]
  by (auto simp: dummy_systimer_prepare_def systimer_zero_def)

theorem systimer_pointer_exact_witness:
  "\<exists>d3. dummy_systimer_pointer 50 0 (sample_timer\<lparr>base_time := -1\<rparr>) = Inr (d3, 160)"
proof -
  let ?d = "sample_timer\<lparr>base_time := -1\<rparr>"
  obtain c where start: "dummy_systimer_start (-1) sample_timer = Inr (?d, c)"
    by (simp add: dummy_systimer_start_def dummy_systimer_rearm_def Let_def dummy_systimer_prepare_def)
  have "stream_step 50 (-1) 100 (?d, 0, c) (?d, Suc 0, c)"
    by (rule stream_step.tick) simp
  then have "(stream_step 50 (-1) 100)\<^sup>*\<^sup>* (?d, 0, c) (?d, 1, c)" by auto
  from systimer_pointer_exact [OF refl start this] sample_in_range [of 100] show ?thesis by simp
qed

end
