(* ===== verification/Snd_Pcm.thy ===== *)
theory Snd_Pcm
  imports Snd_Clock
begin

text \<open>
  The PCM interface of \<open>patches/linux/dummy_sound.c\<close>: the structures of the driver,
  \<open>dummy_systimer_ops\<close>, and \<open>dummy_pcm_trigger\<close>, \<open>_prepare\<close>, \<open>_pointer\<close>, \<open>_hw_params\<close>, \<open>_hw_free\<close>,
  \<open>_open\<close>, \<open>_close\<close>, \<open>_copy\<close>, \<open>_silence\<close> and \<open>_page\<close>. Structures are records, function pointers
  are functions, a pointer that may be NULL is an option, and the use of a NULL or freed pointer is
  \<open>Fault\<close>. ALSA and the kernel are parameters: whether \<open>kzalloc\<close> succeeds, what adding a
  constraint returns, \<open>virt_to_phys\<close>, \<open>snd_pcm_lib_malloc_pages\<close> and \<open>snd_pcm_lib_free_pages\<close>.
  The constants are those of the kernel's ABI.
\<close>

unbundle bit_operations_syntax

section \<open>Structures\<close>

definition ENOMEM :: int where "ENOMEM = 12"
definition EINVAL :: int where "EINVAL = 22"
definition ENODEV :: int where "ENODEV = 19"

definition SNDRV_PCM_INFO_MMAP :: u32 where "SNDRV_PCM_INFO_MMAP = 0x1"
definition SNDRV_PCM_INFO_MMAP_VALID :: u32 where "SNDRV_PCM_INFO_MMAP_VALID = 0x2"
definition SNDRV_PCM_INFO_INTERLEAVED :: u32 where "SNDRV_PCM_INFO_INTERLEAVED = 0x100"
definition SNDRV_PCM_INFO_NONINTERLEAVED :: u32 where "SNDRV_PCM_INFO_NONINTERLEAVED = 0x200"
definition SNDRV_PCM_INFO_RESUME :: u32 where "SNDRV_PCM_INFO_RESUME = 0x40000"

lemmas info_flags = SNDRV_PCM_INFO_MMAP_def SNDRV_PCM_INFO_MMAP_VALID_def
  SNDRV_PCM_INFO_INTERLEAVED_def SNDRV_PCM_INFO_NONINTERLEAVED_def SNDRV_PCM_INFO_RESUME_def

record snd_pcm_hardware =
  hw_info :: u32
  hw_formats :: "64 word"
  hw_rates :: u32
  hw_rate_min :: u32
  hw_rate_max :: u32
  hw_channels_min :: u32
  hw_channels_max :: u32
  hw_buffer_bytes_max :: u32
  hw_period_bytes_min :: u32
  hw_period_bytes_max :: u32
  hw_periods_min :: u32
  hw_periods_max :: u32
  hw_fifo_size :: u32

record snd_pcm_runtime =
  rt_hw :: snd_pcm_hardware
  rt_dma_area :: u32
  rt_dma_bytes :: u32
  rt_periods :: u32
  rt_period_size :: u32
  rt_buffer_size :: u32
  rt_rate :: u32
  rt_channels :: u32
  rt_format :: u32
  rt_private_data :: "dummy_systimer_pcm option"

datatype snd_pcm_stream = STREAM_PLAYBACK | STREAM_CAPTURE

record snd_pcm_substream =
  ss_device :: u32
  ss_stream :: snd_pcm_stream
  ss_runtime :: snd_pcm_runtime

record dummy_timer_ops =
  top_create :: "bool \<Rightarrow> snd_pcm_substream \<Rightarrow> snd_pcm_substream \<times> int"
  top_free :: "snd_pcm_substream \<Rightarrow> snd_pcm_substream"
  top_prepare :: "u32 \<Rightarrow> snd_pcm_substream \<Rightarrow> (snd_pcm_substream \<times> int) res"
  top_start :: "u32 \<Rightarrow> snd_pcm_substream \<Rightarrow> (snd_pcm_substream \<times> kcall list \<times> int) res"
  top_stop :: "snd_pcm_substream \<Rightarrow> (snd_pcm_substream \<times> kcall list \<times> int) res"
  top_pointer :: "u32 \<Rightarrow> u32 \<Rightarrow> snd_pcm_substream \<Rightarrow> (snd_pcm_substream \<times> u32) res"

text \<open>The constraints a model may add to a stream; the parameter \<open>add\<close> below is what ALSA returns
  for each.\<close>

datatype hw_constraint = ConstraintIntegerPeriods | ConstraintBufferBytes u32 u32

record dummy_model =
  dm_name :: string
  dm_playback_constraints :: "((hw_constraint \<Rightarrow> int) \<Rightarrow> int \<times> hw_constraint list) option"
  dm_capture_constraints :: "((hw_constraint \<Rightarrow> int) \<Rightarrow> int \<times> hw_constraint list) option"
  dm_formats :: "64 word"
  dm_buffer_bytes_max :: u32
  dm_period_bytes_min :: u32
  dm_period_bytes_max :: u32
  dm_periods_min :: u32
  dm_periods_max :: u32
  dm_rates :: u32
  dm_rate_min :: u32
  dm_rate_max :: u32
  dm_channels_min :: u32
  dm_channels_max :: u32

text \<open>\<open>pcm\<close> is the number of the PCM device it points to, \<open>cd_volume_ctl\<close> and \<open>cd_switch_ctl\<close> are the access words of the controls they point to.\<close>

record snd_dummy =
  sd_model :: "dummy_model option"
  sd_pcm :: "nat option"
  sd_pcm_hw :: snd_pcm_hardware
  sd_mixer_volume :: "(int \<times> int) list"
  sd_capture_source :: "(int \<times> int) list"
  sd_iobox :: int
  sd_cd_volume_ctl :: "u32 option"
  sd_cd_switch_ctl :: "u32 option"
  sd_timer_ops :: "dummy_timer_ops option"

section \<open>The timer operations of a substream\<close>

definition timer_data :: "snd_pcm_substream \<Rightarrow> dummy_systimer_pcm res" where
  "timer_data ss = opt_res (rt_private_data (ss_runtime ss))"

definition set_private :: "dummy_systimer_pcm option \<Rightarrow> snd_pcm_substream \<Rightarrow> snd_pcm_substream" where
  "set_private d ss = ss\<lparr>ss_runtime := (ss_runtime ss)\<lparr>rt_private_data := d\<rparr>\<rparr>"

definition dummy_systimer_create :: "bool \<Rightarrow> snd_pcm_substream \<Rightarrow> snd_pcm_substream \<times> int" where
  "dummy_systimer_create kzalloc_ok ss =
     (if \<not> kzalloc_ok then (ss, - ENOMEM) else (set_private (Some systimer_zero) ss, 0))"

definition dummy_systimer_free :: "snd_pcm_substream \<Rightarrow> snd_pcm_substream" where
  "dummy_systimer_free ss = set_private None ss"

definition dummy_systimer_ops :: dummy_timer_ops where
  "dummy_systimer_ops =
     \<lparr>top_create = dummy_systimer_create,
      top_free = dummy_systimer_free,
      top_prepare = (\<lambda>hz ss. let rt = ss_runtime ss in res_bind (timer_data ss) (\<lambda>d.
        Inr (set_private (Some (dummy_systimer_prepare hz (rt_rate rt) (rt_buffer_size rt)
               (rt_period_size rt) d)) ss, 0))),
      top_start = (\<lambda>jiffies ss. res_bind (timer_data ss) (\<lambda>d.
        res_bind (dummy_systimer_start jiffies d) (\<lambda>(d', calls).
          Inr (set_private (Some d') ss, calls, 0)))),
      top_stop = (\<lambda>ss. res_bind (timer_data ss) (\<lambda>d.
        let (d', calls) = dummy_systimer_stop d in Inr (set_private (Some d') ss, calls, 0))),
      top_pointer = (\<lambda>hz jiffies ss. res_bind (timer_data ss) (\<lambda>d.
        res_bind (dummy_systimer_pointer hz jiffies d) (\<lambda>(d', pos).
          Inr (set_private (Some d') ss, pos))))\<rparr>"

section \<open>The PCM operations\<close>

datatype trigger_cmd =
  TRIGGER_STOP | TRIGGER_START | TRIGGER_PAUSE_PUSH | TRIGGER_PAUSE_RELEASE |
  TRIGGER_SUSPEND | TRIGGER_RESUME

definition timer_ops_of :: "snd_dummy \<Rightarrow> dummy_timer_ops res" where
  "timer_ops_of dummy = opt_res (sd_timer_ops dummy)"

definition trigger_start ::
  "(u32 \<Rightarrow> u32) \<Rightarrow> u32 \<Rightarrow> snd_dummy \<Rightarrow> snd_pcm_substream \<Rightarrow> (snd_pcm_substream \<times> kcall list \<times> int) res" where
  "trigger_start virt_to_phys jiffies dummy ss =
     (let rt = ss_runtime ss;
          writes = [IoWrite 1 (virt_to_phys (rt_dma_area rt)), IoWrite 2 (rt_periods rt),
                    IoWrite 3 (rt_period_size rt), IoWrite 5 (rt_rate rt),
                    IoWrite 6 (rt_channels rt), IoWrite 7 (rt_format rt), IoWrite 0 1] in
      res_bind (timer_ops_of dummy) (\<lambda>ops.
      res_bind (top_start ops jiffies ss) (\<lambda>(ss', calls, ret). Inr (ss', writes @ calls, ret))))"

definition trigger_stop ::
  "snd_dummy \<Rightarrow> snd_pcm_substream \<Rightarrow> (snd_pcm_substream \<times> kcall list \<times> int) res" where
  "trigger_stop dummy ss =
     res_bind (timer_ops_of dummy) (\<lambda>ops.
     res_bind (top_stop ops ss) (\<lambda>(ss', calls, ret). Inr (ss', IoWrite 0 0 # calls, ret)))"

fun dummy_pcm_trigger ::
  "(u32 \<Rightarrow> u32) \<Rightarrow> u32 \<Rightarrow> snd_dummy \<Rightarrow> snd_pcm_substream \<Rightarrow> trigger_cmd
   \<Rightarrow> (snd_pcm_substream \<times> kcall list \<times> int) res" where
  "dummy_pcm_trigger v2p jiffies dummy ss TRIGGER_START = trigger_start v2p jiffies dummy ss"
| "dummy_pcm_trigger v2p jiffies dummy ss TRIGGER_RESUME = trigger_start v2p jiffies dummy ss"
| "dummy_pcm_trigger v2p jiffies dummy ss TRIGGER_STOP = trigger_stop dummy ss"
| "dummy_pcm_trigger v2p jiffies dummy ss TRIGGER_SUSPEND = trigger_stop dummy ss"
| "dummy_pcm_trigger v2p jiffies dummy ss cmd = Inr (ss, [], - EINVAL)"

definition dummy_pcm_prepare ::
  "u32 \<Rightarrow> snd_dummy \<Rightarrow> snd_pcm_substream \<Rightarrow> (snd_pcm_substream \<times> int) res" where
  "dummy_pcm_prepare hz dummy ss =
     res_bind (timer_ops_of dummy) (\<lambda>ops. top_prepare ops hz ss)"

definition dummy_pcm_pointer ::
  "u32 \<Rightarrow> u32 \<Rightarrow> snd_dummy \<Rightarrow> snd_pcm_substream \<Rightarrow> (snd_pcm_substream \<times> u32) res" where
  "dummy_pcm_pointer hz jiffies dummy ss =
     res_bind (timer_ops_of dummy) (\<lambda>ops. top_pointer ops hz jiffies ss)"

definition dummy_pcm_hardware :: snd_pcm_hardware where
  "dummy_pcm_hardware =
     \<lparr>hw_info = SNDRV_PCM_INFO_MMAP OR SNDRV_PCM_INFO_INTERLEAVED OR SNDRV_PCM_INFO_RESUME
        OR SNDRV_PCM_INFO_MMAP_VALID,
      hw_formats = 0x2 OR 0x4, hw_rates = 0x40000000 OR 0xFE,
      hw_rate_min = 5500, hw_rate_max = 48000, hw_channels_min = 1, hw_channels_max = 1,
      hw_buffer_bytes_max = 64 * 1024, hw_period_bytes_min = 64, hw_period_bytes_max = 64 * 1024,
      hw_periods_min = 1, hw_periods_max = 1024, hw_fifo_size = 0\<rparr>"

definition dummy_pcm_hw_params ::
  "(snd_pcm_substream \<Rightarrow> u32 \<Rightarrow> snd_pcm_substream \<times> int) \<Rightarrow> bool \<Rightarrow> u32 \<Rightarrow> snd_pcm_substream
   \<Rightarrow> snd_pcm_substream \<times> int" where
  "dummy_pcm_hw_params malloc_pages fake_buffer buffer_bytes ss =
     (if fake_buffer
      then (ss\<lparr>ss_runtime := (ss_runtime ss)\<lparr>rt_dma_bytes := buffer_bytes\<rparr>\<rparr>, 0)
      else malloc_pages ss buffer_bytes)"

definition dummy_pcm_hw_free ::
  "(snd_pcm_substream \<Rightarrow> snd_pcm_substream \<times> int) \<Rightarrow> bool \<Rightarrow> snd_pcm_substream
   \<Rightarrow> snd_pcm_substream \<times> int" where
  "dummy_pcm_hw_free free_pages fake_buffer ss = (if fake_buffer then (ss, 0) else free_pages ss)"

text \<open>The capabilities a substream gets: odd devices are not interleaved, and devices with bit 1
  set cannot be mapped.\<close>

definition open_info :: "u32 \<Rightarrow> u32 \<Rightarrow> u32" where
  "open_info device info =
     (let info = if device AND 1 \<noteq> 0
                 then (info AND NOT SNDRV_PCM_INFO_INTERLEAVED) OR SNDRV_PCM_INFO_NONINTERLEAVED
                 else info in
      if device AND 2 \<noteq> 0
      then info AND NOT (SNDRV_PCM_INFO_MMAP OR SNDRV_PCM_INFO_MMAP_VALID) else info)"

definition dummy_pcm_open ::
  "(hw_constraint \<Rightarrow> int) \<Rightarrow> bool \<Rightarrow> snd_dummy \<Rightarrow> snd_pcm_substream
   \<Rightarrow> snd_dummy \<times> snd_pcm_substream \<times> int" where
  "dummy_pcm_open add kzalloc_ok dummy ss =
     (let ops = dummy_systimer_ops;
          dummy = dummy\<lparr>sd_timer_ops := Some ops\<rparr>;
          (ss, err) = top_create ops kzalloc_ok ss in
      if err < 0 then (dummy, ss, err)
      else
        let hw = (sd_pcm_hw dummy)\<lparr>hw_info := open_info (ss_device ss) (hw_info (sd_pcm_hw dummy))\<rparr>;
            ss = ss\<lparr>ss_runtime := (ss_runtime ss)\<lparr>rt_hw := hw\<rparr>\<rparr> in
        case sd_model dummy of
          None \<Rightarrow> (dummy, ss, 0)
        | Some m \<Rightarrow>
            let constraints = if ss_stream ss = STREAM_PLAYBACK then dm_playback_constraints m
                              else dm_capture_constraints m;
                err = (case constraints of None \<Rightarrow> err | Some f \<Rightarrow> fst (f add)) in
            if err < 0 then (dummy, top_free ops ss, err) else (dummy, ss, 0))"

definition dummy_pcm_close :: "snd_dummy \<Rightarrow> snd_pcm_substream \<Rightarrow> (snd_pcm_substream \<times> int) res" where
  "dummy_pcm_close dummy ss =
     res_bind (timer_ops_of dummy) (\<lambda>ops. Inr (top_free ops ss, 0))"

definition dummy_pcm_copy :: "snd_pcm_substream \<Rightarrow> int \<Rightarrow> u32 \<Rightarrow> u32 \<Rightarrow> snd_pcm_substream \<times> int" where
  "dummy_pcm_copy ss channel pos count = (ss, 0)"

definition dummy_pcm_silence :: "snd_pcm_substream \<Rightarrow> int \<Rightarrow> u32 \<Rightarrow> u32 \<Rightarrow> snd_pcm_substream \<times> int" where
  "dummy_pcm_silence ss channel pos count = (ss, 0)"

end
