(* ===== verification/Snd_Mixer.thy ===== *)
theory Snd_Mixer
  imports Snd_Pcm
begin

text \<open>
  The mixer of \<open>patches/linux/dummy_sound.c\<close>: \<open>snd_dummy_volume_info\<close>, \<open>_volume_get\<close>,
  \<open>_volume_put\<close>, \<open>_capsrc_get\<close>, \<open>_capsrc_put\<close>, \<open>_iobox_info\<close>, \<open>_iobox_get\<close>, \<open>_iobox_put\<close>, the table
  \<open>snd_dummy_controls\<close> and \<open>snd_card_dummy_new_mixer\<close>. A user's value is a pair of \<open>int\<close>s; an
  address outside the arrays is \<open>Fault\<close>. Volumes and capture switches share one contract, the
  locale \<open>stereo_control\<close>.
\<close>

unbundle bit_operations_syntax

section \<open>The controls\<close>

definition SNDRV_CTL_ELEM_ACCESS_INACTIVE :: u32 where "SNDRV_CTL_ELEM_ACCESS_INACTIVE = 0x100"

definition MIXER_ADDR_LAST :: nat where "MIXER_ADDR_LAST = 4"

record ctl_elem_info =
  ei_count :: nat
  ei_min :: int
  ei_max :: int

definition snd_dummy_volume_info :: ctl_elem_info where
  "snd_dummy_volume_info = \<lparr>ei_count = 2, ei_min = -50, ei_max = 100\<rparr>"

definition chan_get :: "(int \<times> int) list \<Rightarrow> nat \<Rightarrow> (int \<times> int) res" where
  "chan_get vs addr = (if addr < length vs then Inr (vs ! addr) else Inl Fault)"

definition snd_dummy_volume_get :: "snd_dummy \<Rightarrow> nat \<Rightarrow> (int \<times> int) res" where
  "snd_dummy_volume_get dummy addr = chan_get (sd_mixer_volume dummy) addr"

definition volume_clamp :: "int \<Rightarrow> int" where
  "volume_clamp v = (let v = if v < -50 then -50 else v in if v > 100 then 100 else v)"

definition snd_dummy_volume_put :: "snd_dummy \<Rightarrow> nat \<Rightarrow> int \<times> int \<Rightarrow> (snd_dummy \<times> int) res" where
  "snd_dummy_volume_put dummy addr = (\<lambda>(v0, v1).
     let left = volume_clamp v0; right = volume_clamp v1 in
     res_bind (chan_get (sd_mixer_volume dummy) addr) (\<lambda>(o0, o1).
     let change = o0 \<noteq> left \<or> o1 \<noteq> right in
       Inr (dummy\<lparr>sd_mixer_volume := (sd_mixer_volume dummy)[addr := (left, right)]\<rparr>,
            if change then 1 else 0)))"

definition snd_dummy_capsrc_get :: "snd_dummy \<Rightarrow> nat \<Rightarrow> (int \<times> int) res" where
  "snd_dummy_capsrc_get dummy addr = chan_get (sd_capture_source dummy) addr"

definition snd_dummy_capsrc_put :: "snd_dummy \<Rightarrow> nat \<Rightarrow> int \<times> int \<Rightarrow> (snd_dummy \<times> int) res" where
  "snd_dummy_capsrc_put dummy addr = (\<lambda>(v0, v1).
     let left = v0 AND 1; right = v1 AND 1 in
     res_bind (chan_get (sd_capture_source dummy) addr) (\<lambda>(o0, o1).
     let change = o0 \<noteq> left \<and> o1 \<noteq> right in
       Inr (dummy\<lparr>sd_capture_source := (sd_capture_source dummy)[addr := (left, right)]\<rparr>,
            if change then 1 else 0)))"

definition snd_dummy_iobox_info :: "string list" where
  "snd_dummy_iobox_info = [''None'', ''CD Player'']"

definition snd_dummy_iobox_get :: "snd_dummy \<Rightarrow> int" where
  "snd_dummy_iobox_get dummy = sd_iobox dummy"

text \<open>\<open>snd_dummy_iobox_put\<close> for the unsigned item; the result also has the controls whose change
  is notified.\<close>

definition snd_dummy_iobox_put :: "snd_dummy \<Rightarrow> u32 \<Rightarrow> (snd_dummy \<times> string list \<times> int) res" where
  "snd_dummy_iobox_put dummy item =
     (if item > 1 then Inr (dummy, [], - EINVAL)
      else if uint item \<noteq> sd_iobox dummy then
        (let dummy = dummy\<lparr>sd_iobox := uint item\<rparr>;
             set_access = \<lambda>a. if sd_iobox dummy \<noteq> 0 then a AND NOT SNDRV_CTL_ELEM_ACCESS_INACTIVE
                              else a OR SNDRV_CTL_ELEM_ACCESS_INACTIVE in
         res_bind (opt_res (sd_cd_volume_ctl dummy)) (\<lambda>vol.
         res_bind (opt_res (sd_cd_switch_ctl dummy)) (\<lambda>sw.
           Inr (dummy\<lparr>sd_cd_volume_ctl := Some (set_access vol), sd_cd_switch_ctl := Some (set_access sw)\<rparr>,
                [''CD Volume'', ''CD Capture Switch''], 1))))
      else Inr (dummy, [], 0))"

section \<open>The table of controls\<close>

datatype ctl_kind = VolumeCtl nat | CapsrcCtl nat | IoboxCtl

record snd_kcontrol_new =
  kn_name :: string
  kn_kind :: ctl_kind
  kn_access :: u32

text \<open>\<open>SNDRV_CTL_ELEM_ACCESS_READWRITE | SNDRV_CTL_ELEM_ACCESS_TLV_READ\<close> is 0x13.\<close>

definition DUMMY_VOLUME :: "string \<Rightarrow> nat \<Rightarrow> snd_kcontrol_new" where
  "DUMMY_VOLUME xname addr = \<lparr>kn_name = xname, kn_kind = VolumeCtl addr, kn_access = 0x13\<rparr>"

definition DUMMY_CAPSRC :: "string \<Rightarrow> nat \<Rightarrow> snd_kcontrol_new" where
  "DUMMY_CAPSRC xname addr = \<lparr>kn_name = xname, kn_kind = CapsrcCtl addr, kn_access = 0\<rparr>"

definition snd_dummy_controls :: "snd_kcontrol_new list" where
  "snd_dummy_controls =
     [DUMMY_VOLUME ''Master Volume'' 0, DUMMY_CAPSRC ''Master Capture Switch'' 0,
      DUMMY_VOLUME ''Synth Volume'' 3, DUMMY_CAPSRC ''Synth Capture Switch'' 3,
      DUMMY_VOLUME ''Line Volume'' 1, DUMMY_CAPSRC ''Line Capture Switch'' 1,
      DUMMY_VOLUME ''Mic Volume'' 2, DUMMY_CAPSRC ''Mic Capture Switch'' 2,
      DUMMY_VOLUME ''CD Volume'' 4, DUMMY_CAPSRC ''CD Capture Switch'' 4,
      \<lparr>kn_name = ''External I/O Box'', kn_kind = IoboxCtl, kn_access = 0\<rparr>]"

text \<open>
  The loop of \<open>snd_card_dummy_new_mixer\<close>: \<open>ctl_add\<close> is what \<open>snd_ctl_add\<close> returns for a control
  and \<open>new_access\<close> the access word \<open>snd_ctl_new1\<close> gives it.
\<close>

fun new_mixer_loop ::
  "(string \<Rightarrow> int) \<Rightarrow> (u32 \<Rightarrow> u32) \<Rightarrow> snd_kcontrol_new list \<Rightarrow> snd_dummy \<Rightarrow> snd_dummy \<times> int" where
  "new_mixer_loop ctl_add new_access [] dummy = (dummy, 0)"
| "new_mixer_loop ctl_add new_access (k # ks) dummy =
     (let err = ctl_add (kn_name k) in
      if err < 0 then (dummy, err)
      else new_mixer_loop ctl_add new_access ks
        (if kn_name k = ''CD Volume'' then dummy\<lparr>sd_cd_volume_ctl := Some (new_access (kn_access k))\<rparr>
         else if kn_name k = ''CD Capture Switch''
         then dummy\<lparr>sd_cd_switch_ctl := Some (new_access (kn_access k))\<rparr> else dummy))"

definition snd_card_dummy_new_mixer ::
  "(string \<Rightarrow> int) \<Rightarrow> (u32 \<Rightarrow> u32) \<Rightarrow> snd_dummy \<Rightarrow> snd_dummy \<times> int" where
  "snd_card_dummy_new_mixer ctl_add new_access dummy =
     new_mixer_loop ctl_add new_access snd_dummy_controls (dummy\<lparr>sd_iobox := 1\<rparr>)"

text \<open>A write of a user to a control goes to the \<open>put\<close> function of its entry.\<close>

definition control_put :: "snd_dummy \<Rightarrow> ctl_kind \<Rightarrow> int \<times> int \<Rightarrow> (snd_dummy \<times> int) res" where
  "control_put dummy kind v =
     (case kind of
        VolumeCtl addr \<Rightarrow> snd_dummy_volume_put dummy addr v
      | CapsrcCtl addr \<Rightarrow> snd_dummy_capsrc_put dummy addr v
      | IoboxCtl \<Rightarrow> res_bind (snd_dummy_iobox_put dummy (word_of_int (fst v)))
                      (\<lambda>(dummy', notified, ret). Inr (dummy', ret)))"

section \<open>The contract of a stereo control\<close>

locale stereo_control =
  fixes get :: "'s \<Rightarrow> nat \<Rightarrow> (int \<times> int) res"
    and put :: "'s \<Rightarrow> nat \<Rightarrow> int \<times> int \<Rightarrow> ('s \<times> int) res"
    and norm :: "int \<Rightarrow> int"
    and invar :: "'s \<Rightarrow> bool"
  assumes put_total: "invar s \<Longrightarrow> addr \<le> MIXER_ADDR_LAST \<Longrightarrow> \<exists>s' ch. put s addr v = Inr (s', ch) \<and> invar s'"
    and get_total: "invar s \<Longrightarrow> addr \<le> MIXER_ADDR_LAST \<Longrightarrow> \<exists>v. get s addr = Inr v"
    and get_put: "put s addr v = Inr (s', ch) \<Longrightarrow>
      get s' a = (if a = addr then Inr (norm (fst v), norm (snd v)) else get s a)"
    and norm_norm: "norm (norm x) = norm x"
begin

lemma put_get_same:
  assumes "put s addr v = Inr (s', ch)" "get s' addr = Inr w" "put s' addr w = Inr (s'', ch')"
  shows "get s'' a = get s' a"
  using get_put [OF assms(1), of addr] get_put [OF assms(3), of a] assms(2) norm_norm by auto

text \<open>After any sequence of writes every address holds the normalised value of the last write to it,
  or what it held before.\<close>

lemma puts_last:
  assumes "invar s" and "\<And>a v. (a, v) \<in> set ps \<Longrightarrow> a \<le> MIXER_ADDR_LAST"
  shows "\<exists>t. fold_res (\<lambda>(a, v) s. res_bind (put s a v) (\<lambda>(s', ch). Inr s')) ps s = Inr t \<and> invar t \<and>
    (\<forall>a. get t a = (case map_of (rev ps) a of
       Some v \<Rightarrow> Inr (norm (fst v), norm (snd v)) | None \<Rightarrow> get s a))"
  using assms
proof (induction ps rule: rev_induct)
  case (snoc p ps)
  obtain a v where p: "p = (a, v)" by (cases p)
  from snoc obtain t where t: "fold_res (\<lambda>(a, v) s. res_bind (put s a v) (\<lambda>(s', ch). Inr s')) ps s = Inr t"
    "invar t" "\<forall>a. get t a = (case map_of (rev ps) a of
       Some v \<Rightarrow> Inr (norm (fst v), norm (snd v)) | None \<Rightarrow> get s a)" by auto
  have "a \<le> MIXER_ADDR_LAST" using snoc.prems(2) [of a v] p by simp
  then obtain t' ch where t': "put t a v = Inr (t', ch)" "invar t'" using put_total [OF t(2)] by blast
  then show ?case using t get_put [OF t'(1)] p by (simp add: fold_res_append)
qed simp

end

section \<open>The mixer keeps it\<close>

text \<open>The invariant of the mixer: five stereo volumes in the range the control announces, five pairs
  of switches, and the CD controls inactive exactly when the I/O box has none.\<close>

definition volumes_ok :: "(int \<times> int) list \<Rightarrow> bool" where
  "volumes_ok vs \<longleftrightarrow> length vs = MIXER_ADDR_LAST + 1 \<and>
     list_all (\<lambda>(l, r). ei_min snd_dummy_volume_info \<le> l \<and> l \<le> ei_max snd_dummy_volume_info \<and>
        ei_min snd_dummy_volume_info \<le> r \<and> r \<le> ei_max snd_dummy_volume_info) vs"

definition sources_ok :: "(int \<times> int) list \<Rightarrow> bool" where
  "sources_ok vs \<longleftrightarrow> length vs = MIXER_ADDR_LAST + 1 \<and> list_all (\<lambda>(l, r). l \<in> {0, 1} \<and> r \<in> {0, 1}) vs"

definition cd_ok :: "int \<Rightarrow> u32 option \<Rightarrow> u32 option \<Rightarrow> bool" where
  "cd_ok iobox vol sw \<longleftrightarrow> iobox \<in> {0, 1} \<and>
     (case (vol, sw) of
        (Some a, Some b) \<Rightarrow>
          (a AND SNDRV_CTL_ELEM_ACCESS_INACTIVE \<noteq> 0 \<longleftrightarrow> iobox = 0) \<and>
          (b AND SNDRV_CTL_ELEM_ACCESS_INACTIVE \<noteq> 0 \<longleftrightarrow> iobox = 0)
      | _ \<Rightarrow> False)"

definition mixer_ok :: "snd_dummy \<Rightarrow> bool" where
  "mixer_ok s \<longleftrightarrow> volumes_ok (sd_mixer_volume s) \<and> sources_ok (sd_capture_source s) \<and>
     cd_ok (sd_iobox s) (sd_cd_volume_ctl s) (sd_cd_switch_ctl s)"

lemma list_all_update: "list_all P xs \<Longrightarrow> P y \<Longrightarrow> list_all P (xs[i := y])"
  using set_update_subset_insert [of xs i y] unfolding list_all_iff by blast

lemma volume_clamp_range: "-50 \<le> volume_clamp v" "volume_clamp v \<le> 100"
  by (simp_all add: volume_clamp_def Let_def)

lemma and_1_range: "(v::int) AND 1 \<in> {0, 1}"
  by (simp add: and_one_eq mod2_eq_if)

lemma volume_put_result:
  "snd_dummy_volume_put s addr v = Inr (s', ch) \<Longrightarrow>
   s' = s\<lparr>sd_mixer_volume := (sd_mixer_volume s)[addr := (volume_clamp (fst v), volume_clamp (snd v))]\<rparr>"
  by (cases v) (auto simp: snd_dummy_volume_put_def Let_def res_simps split: prod.splits)

lemma capsrc_put_result:
  "snd_dummy_capsrc_put s addr v = Inr (s', ch) \<Longrightarrow>
   s' = s\<lparr>sd_capture_source := (sd_capture_source s)[addr := (fst v AND 1, snd v AND 1)]\<rparr>"
  by (cases v) (auto simp: snd_dummy_capsrc_put_def Let_def res_simps split: prod.splits)

lemma volume_put_ok:
  assumes "mixer_ok s" "snd_dummy_volume_put s addr v = Inr (s', ch)"
  shows "mixer_ok s'"
proof -
  have "volumes_ok ((sd_mixer_volume s)[addr := (volume_clamp (fst v), volume_clamp (snd v))])"
    using assms(1) volume_clamp_range
    by (simp add: mixer_ok_def volumes_ok_def snd_dummy_volume_info_def list_all_update)
  then show ?thesis using assms(1) unfolding volume_put_result [OF assms(2)] by (simp add: mixer_ok_def)
qed

lemma capsrc_put_ok:
  assumes "mixer_ok s" "snd_dummy_capsrc_put s addr v = Inr (s', ch)"
  shows "mixer_ok s'"
proof -
  have "sources_ok ((sd_capture_source s)[addr := (fst v AND 1, snd v AND 1)])"
    using assms(1) and_1_range [of "fst v"] and_1_range [of "snd v"] unfolding mixer_ok_def sources_ok_def
    by (simp add: list_all_update)
  then show ?thesis using assms(1) unfolding capsrc_put_result [OF assms(2)] by (simp add: mixer_ok_def)
qed

lemma inactive_bit:
  "(a AND NOT SNDRV_CTL_ELEM_ACCESS_INACTIVE) AND SNDRV_CTL_ELEM_ACCESS_INACTIVE = 0"
  "(a OR SNDRV_CTL_ELEM_ACCESS_INACTIVE) AND SNDRV_CTL_ELEM_ACCESS_INACTIVE \<noteq> 0"
proof -
  have "((a OR 0x100) AND 0x100) = (0x100 :: u32)" by (rule bit_word_eqI) (auto simp: bit_simps)
  then show "(a OR SNDRV_CTL_ELEM_ACCESS_INACTIVE) AND SNDRV_CTL_ELEM_ACCESS_INACTIVE \<noteq> 0"
    by (simp add: SNDRV_CTL_ELEM_ACCESS_INACTIVE_def)
  show "(a AND NOT SNDRV_CTL_ELEM_ACCESS_INACTIVE) AND SNDRV_CTL_ELEM_ACCESS_INACTIVE = 0"
    by (rule bit_word_eqI) (auto simp: bit_simps)
qed

lemma iobox_put_ok:
  assumes "mixer_ok s"
  shows "\<exists>s' ns r. snd_dummy_iobox_put s item = Inr (s', ns, r) \<and> mixer_ok s'"
proof -
  obtain a b where cd: "sd_cd_volume_ctl s = Some a" "sd_cd_switch_ctl s = Some b"
    using assms by (auto simp: mixer_ok_def cd_ok_def split: option.splits)
  have item: "uint item \<in> {0, 1}" if "\<not> item > 1"
  proof -
    have "uint item \<le> 1" using that by (simp add: word_less_def)
    moreover have "0 \<le> uint item" by simp
    ultimately have "uint item = 0 \<or> uint item = 1" by arith
    then show ?thesis by simp
  qed
  then show ?thesis
    using assms cd inactive_bit
    by (auto simp: snd_dummy_iobox_put_def Let_def mixer_ok_def cd_ok_def)
qed

interpretation volume: stereo_control snd_dummy_volume_get snd_dummy_volume_put volume_clamp mixer_ok
proof unfold_locales
  fix s addr v
  assume ok: "mixer_ok s" and a: "addr \<le> MIXER_ADDR_LAST"
  then have "addr < length (sd_mixer_volume s)" by (simp add: mixer_ok_def volumes_ok_def)
  then obtain s' ch where "snd_dummy_volume_put s addr v = Inr (s', ch)"
    by (cases v; cases "sd_mixer_volume s ! addr") (simp add: snd_dummy_volume_put_def chan_get_def Let_def)
  with volume_put_ok [OF ok] show "\<exists>s' ch. snd_dummy_volume_put s addr v = Inr (s', ch) \<and> mixer_ok s'"
    by blast
next
  fix s addr
  assume "mixer_ok s" "addr \<le> MIXER_ADDR_LAST"
  then show "\<exists>v. snd_dummy_volume_get s addr = Inr v"
    by (simp add: mixer_ok_def volumes_ok_def snd_dummy_volume_get_def chan_get_def)
qed (auto simp: snd_dummy_volume_put_def snd_dummy_volume_get_def chan_get_def Let_def res_simps
    volume_clamp_def split: prod.splits if_splits)

interpretation capsrc: stereo_control snd_dummy_capsrc_get snd_dummy_capsrc_put "\<lambda>v. v AND 1" mixer_ok
proof unfold_locales
  fix s addr v
  assume ok: "mixer_ok s" and a: "addr \<le> MIXER_ADDR_LAST"
  then have "addr < length (sd_capture_source s)" by (simp add: mixer_ok_def sources_ok_def)
  then obtain s' ch where "snd_dummy_capsrc_put s addr v = Inr (s', ch)"
    by (cases v; cases "sd_capture_source s ! addr") (simp add: snd_dummy_capsrc_put_def chan_get_def Let_def)
  with capsrc_put_ok [OF ok] show "\<exists>s' ch. snd_dummy_capsrc_put s addr v = Inr (s', ch) \<and> mixer_ok s'"
    by blast
next
  fix s addr
  assume "mixer_ok s" "addr \<le> MIXER_ADDR_LAST"
  then show "\<exists>v. snd_dummy_capsrc_get s addr = Inr v"
    by (simp add: mixer_ok_def sources_ok_def snd_dummy_capsrc_get_def chan_get_def)
qed (auto simp: snd_dummy_capsrc_put_def snd_dummy_capsrc_get_def chan_get_def Let_def res_simps
    split: prod.splits if_splits)

section \<open>The mixer as a whole\<close>

lemma new_mixer_loop_zero:
  assumes "new_mixer_loop ctl_add new_access ks dummy = (dummy', 0)"
  shows "dummy' = fold (\<lambda>k d. if kn_name k = ''CD Volume'' then d\<lparr>sd_cd_volume_ctl := Some (new_access (kn_access k))\<rparr>
     else if kn_name k = ''CD Capture Switch'' then d\<lparr>sd_cd_switch_ctl := Some (new_access (kn_access k))\<rparr> else d)
     ks dummy"
  using assms by (induction ks arbitrary: dummy) (auto simp: Let_def split: if_splits)

lemma new_mixer_ok:
  assumes "snd_card_dummy_new_mixer ctl_add new_access dummy = (dummy', 0)"
    and "sd_mixer_volume dummy = replicate 5 (0, 0)" "sd_capture_source dummy = replicate 5 (0, 0)"
    and "\<forall>a. a AND SNDRV_CTL_ELEM_ACCESS_INACTIVE = 0 \<longrightarrow> new_access a AND SNDRV_CTL_ELEM_ACCESS_INACTIVE = 0"
  shows "mixer_ok dummy'"
proof -
  have "dummy' = dummy\<lparr>sd_iobox := 1, sd_cd_volume_ctl := Some (new_access 0x13),
      sd_cd_switch_ctl := Some (new_access 0)\<rparr>"
    using new_mixer_loop_zero [OF assms(1) [unfolded snd_card_dummy_new_mixer_def]]
    by (simp add: snd_dummy_controls_def DUMMY_VOLUME_def DUMMY_CAPSRC_def)
  then show ?thesis
    using assms(2,3) assms(4) [rule_format, of "0x13"] assms(4) [rule_format, of 0]
    by (simp add: mixer_ok_def cd_ok_def volumes_ok_def sources_ok_def MIXER_ADDR_LAST_def
        snd_dummy_volume_info_def SNDRV_CTL_ELEM_ACCESS_INACTIVE_def list_all_iff)
qed

lemma control_put_ok:
  assumes "mixer_ok s" and "k \<in> set snd_dummy_controls"
  shows "\<exists>s' r. control_put s (kn_kind k) v = Inr (s', r) \<and> mixer_ok s'"
proof (cases "kn_kind k")
  case (VolumeCtl addr)
  with assms(2) have "addr \<le> MIXER_ADDR_LAST"
    by (auto simp: snd_dummy_controls_def DUMMY_VOLUME_def DUMMY_CAPSRC_def MIXER_ADDR_LAST_def)
  with volume.put_total [OF assms(1)] VolumeCtl show ?thesis by (simp add: control_put_def)
next
  case (CapsrcCtl addr)
  with assms(2) have "addr \<le> MIXER_ADDR_LAST"
    by (auto simp: snd_dummy_controls_def DUMMY_VOLUME_def DUMMY_CAPSRC_def MIXER_ADDR_LAST_def)
  with capsrc.put_total [OF assms(1)] CapsrcCtl show ?thesis by (simp add: control_put_def)
next
  case IoboxCtl
  from iobox_put_ok [OF assms(1), of "word_of_int (fst v)"] IoboxCtl show ?thesis
    by (auto simp: control_put_def)
qed

definition mixer_run :: "(snd_kcontrol_new \<times> int \<times> int) list \<Rightarrow> snd_dummy \<Rightarrow> snd_dummy res" where
  "mixer_run = fold_res (\<lambda>(k, v) s. res_bind (control_put s (kn_kind k) v) (\<lambda>(s', r). Inr s'))"

lemma mixer_run_ok:
  "mixer_ok s \<Longrightarrow> set (map fst ws) \<subseteq> set snd_dummy_controls \<Longrightarrow>
   \<exists>t. mixer_run ws s = Inr t \<and> mixer_ok t"
proof (induction ws arbitrary: s)
  case (Cons w ws)
  obtain k v where w: "w = (k, v)" by (cases w)
  with Cons.prems(2) have "k \<in> set snd_dummy_controls" by simp
  from control_put_ok [OF Cons.prems(1) this, of v] obtain s' r
    where "control_put s (kn_kind k) v = Inr (s', r)" "mixer_ok s'" by blast
  with Cons.IH Cons.prems(2) w show ?case by (simp add: mixer_run_def)
qed (simp add: mixer_run_def)

text \<open>
  C33. The mixer from the registration of its controls on: on a zeroed card whose controls ALSA
  accepts and creates active, every sequence of writes to the controls of the table, with any
  values, succeeds without an access outside the arrays or through a NULL control, keeps every
  volume in the range \<open>snd_dummy_volume_info\<close> announces and every switch 0 or 1, and keeps the CD
  controls inactive exactly while the I/O box has no CD player.
\<close>

theorem mixer_invariant:
  assumes "snd_card_dummy_new_mixer ctl_add new_access dummy = (dummy', 0)"
    and "sd_mixer_volume dummy = replicate 5 (0, 0)" and "sd_capture_source dummy = replicate 5 (0, 0)"
    and "\<forall>a. a AND SNDRV_CTL_ELEM_ACCESS_INACTIVE = 0 \<longrightarrow> new_access a AND SNDRV_CTL_ELEM_ACCESS_INACTIVE = 0"
    and "set (map fst ws) \<subseteq> set snd_dummy_controls"
  shows "\<exists>t. mixer_run ws dummy' = Inr t \<and> mixer_ok t"
  using mixer_run_ok [OF new_mixer_ok [OF assms(1-4)] assms(5)] .


text \<open>
  The change flags: writing a volume returns 1 exactly when the stored pair changes, but
  writing a capture switch returns 1 only when both channels change; a write that flips one channel
  is stored and reported as no change.
\<close>

theorem change_flags:
  assumes "mixer_ok s" and "addr \<le> MIXER_ADDR_LAST"
  shows "(\<exists>s' ch. snd_dummy_volume_put s addr v = Inr (s', ch) \<and>
      (ch = 1 \<longleftrightarrow> snd_dummy_volume_get s' addr \<noteq> snd_dummy_volume_get s addr)) \<and>
    (\<exists>l r s'. snd_dummy_capsrc_put s addr (l, r) = Inr (s', 0) \<and>
      snd_dummy_capsrc_get s' addr \<noteq> snd_dummy_capsrc_get s addr)"
proof (intro conjI)
  have len: "addr < length (sd_mixer_volume s)" "addr < length (sd_capture_source s)"
    using assms by (simp_all add: mixer_ok_def volumes_ok_def sources_ok_def)
  obtain a b where vol: "sd_mixer_volume s ! addr = (a, b)" by fastforce
  show "\<exists>s' ch. snd_dummy_volume_put s addr v = Inr (s', ch) \<and>
      (ch = 1 \<longleftrightarrow> snd_dummy_volume_get s' addr \<noteq> snd_dummy_volume_get s addr)"
    using len vol by (cases v) (auto simp: snd_dummy_volume_put_def snd_dummy_volume_get_def chan_get_def Let_def)
  obtain c d where src: "sd_capture_source s ! addr = (c, d)" by fastforce
  have "c \<in> {0, 1}" "d \<in> {0, 1}"
    using assms(1) src len nth_mem [OF len(2)]
    by (fastforce simp: mixer_ok_def sources_ok_def list_all_iff)+
  then have "snd_dummy_capsrc_put s addr (1 - c, d) =
        Inr (s\<lparr>sd_capture_source := (sd_capture_source s)[addr := (1 - c, d)]\<rparr>, 0)" "1 - c \<noteq> c"
    using len src by (auto simp: snd_dummy_capsrc_put_def chan_get_def Let_def)
  then show "\<exists>l r s'. snd_dummy_capsrc_put s addr (l, r) = Inr (s', 0) \<and>
      snd_dummy_capsrc_get s' addr \<noteq> snd_dummy_capsrc_get s addr"
    using len src by (intro exI [of _ "1 - c"] exI [of _ d])
      (auto simp: snd_dummy_capsrc_get_def chan_get_def)
qed

section \<open>Witnesses\<close>

lemma control_count: "length snd_dummy_controls = 11"
  by (simp add: snd_dummy_controls_def)

definition zero_card :: snd_dummy where
  "zero_card = \<lparr>sd_model = None, sd_pcm = None, sd_pcm_hw = dummy_pcm_hardware, sd_mixer_volume = replicate 5 (0, 0),
     sd_capture_source = replicate 5 (0, 0), sd_iobox = 0, sd_cd_volume_ctl = None,
     sd_cd_switch_ctl = None, sd_timer_ops = None\<rparr>"

definition zero_mixer :: snd_dummy where
  "zero_mixer = fst (snd_card_dummy_new_mixer (\<lambda>_. 0) (\<lambda>a. a) zero_card)"

lemma new_mixer_loop_accepted: "snd (new_mixer_loop (\<lambda>_. 0) new_access ks dummy) = 0"
  by (induction ks arbitrary: dummy) (simp_all add: Let_def)

lemma zero_new_mixer: "snd_card_dummy_new_mixer (\<lambda>_. 0) (\<lambda>a. a) zero_card = (zero_mixer, 0)"
  by (simp add: zero_mixer_def snd_card_dummy_new_mixer_def new_mixer_loop_accepted prod_eq_iff)

lemma zero_mixer_ok: "mixer_ok zero_mixer"
  by (rule new_mixer_ok [OF zero_new_mixer]) (simp_all add: zero_card_def)

theorem mixer_invariant_witness:
  "\<exists>t. mixer_run [(snd_dummy_controls ! 8, 300, -300), (snd_dummy_controls ! 5, 7, 8)] zero_mixer = Inr t \<and>
     mixer_ok t"
proof (rule mixer_invariant [OF zero_new_mixer])
  show "set (map fst [(snd_dummy_controls ! 8, 300::int, -300::int), (snd_dummy_controls ! 5, 7, 8)])
      \<subseteq> set snd_dummy_controls"
    using nth_mem [of 8 snd_dummy_controls] nth_mem [of 5 snd_dummy_controls] control_count by simp
qed (simp_all add: zero_card_def)


theorem change_flags_witness:
  "(\<exists>s' ch. snd_dummy_volume_put zero_mixer 3 (5, 6) = Inr (s', ch) \<and>
      (ch = 1 \<longleftrightarrow> snd_dummy_volume_get s' 3 \<noteq> snd_dummy_volume_get zero_mixer 3)) \<and>
   (\<exists>l r s'. snd_dummy_capsrc_put zero_mixer 3 (l, r) = Inr (s', 0) \<and>
      snd_dummy_capsrc_get s' 3 \<noteq> snd_dummy_capsrc_get zero_mixer 3)"
  by (rule change_flags [OF zero_mixer_ok]) (simp add: MIXER_ADDR_LAST_def)

end
