(* ===== verification/Snd_Stream.thy ===== *)
theory Snd_Stream
  imports Snd_Pcm
begin

text \<open>
  The contract of \<open>struct dummy_timer_ops\<close> and what the PCM layer of
  \<open>patches/linux/dummy_sound.c\<close> makes of it. The locale \<open>timer_ops\<close> states what a timer promises:
  once prepared and started, it answers every query that comes within \<open>D\<close> jiffies of the last one
  with the ideal position. The PCM operations are clients; \<open>dummy_systimer_ops\<close> is the provider.
\<close>

section \<open>The contract\<close>

text \<open>The frame the hardware would be at after \<open>n\<close> jiffies.\<close>

definition ideal_frame :: "u32 \<Rightarrow> snd_pcm_runtime \<Rightarrow> nat \<Rightarrow> u32" where
  "ideal_frame hz rt n = of_nat (n * unat (rt_rate rt) div unat hz mod unat (rt_buffer_size rt))"

definition stream_fits :: "u32 \<Rightarrow> snd_pcm_runtime \<Rightarrow> nat \<Rightarrow> bool" where
  "stream_fits hz rt D \<longleftrightarrow>
     0 < hz \<and> 0 < rt_rate rt \<and> 0 < rt_buffer_size rt \<and> 0 < rt_period_size rt \<and> D < 2 ^ 32 \<and>
     unat (rt_buffer_size rt) * unat hz + D * unat (rt_rate rt) < 2 ^ 32 \<and>
     unat (rt_period_size rt) * unat hz + D * unat (rt_rate rt) < 2 ^ 32"

text \<open>Position queries, each a given number of jiffies after the one before.\<close>

fun poll_positions ::
  "u32 \<Rightarrow> u32 \<Rightarrow> snd_dummy \<Rightarrow> nat \<Rightarrow> nat list \<Rightarrow> snd_pcm_substream \<Rightarrow> u32 list res" where
  "poll_positions hz j0 dummy n [] ss = Inr []"
| "poll_positions hz j0 dummy n (g # gs) ss =
     res_bind (dummy_pcm_pointer hz (j0 + of_nat (n + g)) dummy ss) (\<lambda>(ss', pos).
     res_bind (poll_positions hz j0 dummy (n + g) gs ss') (\<lambda>ps. Inr (pos # ps)))"

fun poll_times :: "nat \<Rightarrow> nat list \<Rightarrow> nat list" where
  "poll_times n [] = []"
| "poll_times n (g # gs) = (n + g) # poll_times (n + g) gs"

locale timer_ops =
  fixes ops :: dummy_timer_ops
    and ready :: "u32 \<Rightarrow> nat \<Rightarrow> snd_pcm_runtime \<Rightarrow> snd_pcm_substream \<Rightarrow> bool"
    and running :: "u32 \<Rightarrow> nat \<Rightarrow> snd_pcm_runtime \<Rightarrow> u32 \<Rightarrow> nat \<Rightarrow> snd_pcm_substream \<Rightarrow> bool"
  assumes prepare_ready: "rt_private_data (ss_runtime ss) \<noteq> None \<Longrightarrow> stream_fits hz (ss_runtime ss) D \<Longrightarrow>
      \<exists>ss'. top_prepare ops hz ss = Inr (ss', 0) \<and> ready hz D (ss_runtime ss) ss'"
    and start_running: "ready hz D rt ss \<Longrightarrow>
      \<exists>ss' t. top_start ops j ss = Inr (ss', [AddTimer t], 0) \<and> running hz D rt j 0 ss'"
    and pointer_frame: "running hz D rt j m ss \<Longrightarrow> m \<le> n \<Longrightarrow> n - m \<le> D \<Longrightarrow>
      \<exists>ss'. top_pointer ops hz (j + of_nat n) ss = Inr (ss', ideal_frame hz rt n) \<and>
        running hz D rt j n ss'"
    and stop_deletes: "running hz D rt j m ss \<Longrightarrow> \<exists>ss'. top_stop ops ss = Inr (ss', [DelTimer], 0)"
begin

lemma poll_frames:
  assumes "sd_timer_ops dummy = Some ops" and "running hz D rt j n ss" and "\<And>g. g \<in> set gs \<Longrightarrow> g \<le> D"
  shows "poll_positions hz j dummy n gs ss = Inr (map (ideal_frame hz rt) (poll_times n gs))"
  using assms(2,3)
proof (induction gs arbitrary: n ss)
  case (Cons g gs)
  from pointer_frame [OF Cons.prems(1), of "n + g"] Cons.prems(2) obtain ss' where
    "top_pointer ops hz (j + of_nat (n + g)) ss = Inr (ss', ideal_frame hz rt (n + g))"
    "running hz D rt j (n + g) ss'" by auto
  with Cons assms(1) show ?case by (simp add: dummy_pcm_pointer_def timer_ops_of_def)
qed simp

lemma prepare_trigger:
  assumes ops: "sd_timer_ops dummy = Some ops" and alive: "rt_private_data (ss_runtime ss) \<noteq> None"
    and fits: "stream_fits hz (ss_runtime ss) D"
  shows "\<exists>ss1 ss2 calls. dummy_pcm_prepare hz dummy ss = Inr (ss1, 0) \<and>
    dummy_pcm_trigger v2p j dummy ss1 TRIGGER_START = Inr (ss2, calls, 0) \<and>
    running hz D (ss_runtime ss) j 0 ss2"
proof -
  obtain ss1 where "top_prepare ops hz ss = Inr (ss1, 0)" and r: "ready hz D (ss_runtime ss) ss1"
    using prepare_ready [OF alive fits] by blast
  moreover obtain ss2 t where "top_start ops j ss1 = Inr (ss2, [AddTimer t], 0)"
    "running hz D (ss_runtime ss) j 0 ss2" using start_running [OF r] by blast
  ultimately show ?thesis
    using ops by (simp add: dummy_pcm_prepare_def trigger_start_def timer_ops_of_def Let_def)
qed

lemma playback:
  assumes "sd_timer_ops dummy = Some ops" and "rt_private_data (ss_runtime ss) \<noteq> None"
    and "stream_fits hz (ss_runtime ss) D" and "\<And>g. g \<in> set gs \<Longrightarrow> g \<le> D"
  shows "\<exists>ss1 ss2 calls. dummy_pcm_prepare hz dummy ss = Inr (ss1, 0) \<and>
    dummy_pcm_trigger v2p j dummy ss1 TRIGGER_START = Inr (ss2, calls, 0) \<and>
    poll_positions hz j dummy 0 gs ss2 = Inr (map (ideal_frame hz (ss_runtime ss)) (poll_times 0 gs))"
  using prepare_trigger [OF assms(1-3), of v2p j] poll_frames [OF assms(1) _ assms(4)] by blast

end

section \<open>The system timer keeps it\<close>

definition systimer_ready :: "u32 \<Rightarrow> nat \<Rightarrow> snd_pcm_runtime \<Rightarrow> snd_pcm_substream \<Rightarrow> bool" where
  "systimer_ready hz D rt ss \<longleftrightarrow> stream_fits hz rt D \<and>
     (\<exists>d. rt_private_data (ss_runtime ss) =
        Some (dummy_systimer_prepare hz (rt_rate rt) (rt_buffer_size rt) (rt_period_size rt) d))"

definition systimer_running ::
  "u32 \<Rightarrow> nat \<Rightarrow> snd_pcm_runtime \<Rightarrow> u32 \<Rightarrow> nat \<Rightarrow> snd_pcm_substream \<Rightarrow> bool" where
  "systimer_running hz D rt j n ss \<longleftrightarrow> stream_fits hz rt D \<and>
     (\<exists>d d0. rt_private_data (ss_runtime ss) = Some d \<and> base_time d = j + of_nat n \<and>
        same_setup (dummy_systimer_prepare hz (rt_rate rt) (rt_buffer_size rt) (rt_period_size rt) d0) d \<and>
        clock_at d (n * unat (rt_rate rt)))"

lemma set_private_simps [simp]:
  "rt_private_data (ss_runtime (set_private d ss)) = d"
  "timer_data (set_private (Some x) ss) = Inr x"
  by (simp_all add: set_private_def timer_data_def)

lemma fits_in_range:
  assumes "stream_fits hz rt D"
  shows "in_range (dummy_systimer_prepare hz (rt_rate rt) (rt_buffer_size rt) (rt_period_size rt) d) D"
proof -
  have u: "unat (rt_buffer_size rt * hz) = unat (rt_buffer_size rt) * unat hz"
    "unat (rt_period_size rt * hz) = unat (rt_period_size rt) * unat hz"
    using assms unat_mult_lem [of "rt_buffer_size rt" hz] unat_mult_lem [of "rt_period_size rt" hz]
    by (auto simp: stream_fits_def)
  moreover from u assms have "0 < rt_buffer_size rt * hz" "0 < rt_period_size rt * hz"
    by (simp_all add: word_less_nat_alt stream_fits_def)
  ultimately show ?thesis
    using assms by (simp add: in_range_def stream_fits_def dummy_systimer_prepare_def)
qed

lemma systimer_pointer_frame:
  assumes "systimer_running hz D rt j m ss" "m \<le> n" "n - m \<le> D"
  shows "\<exists>ss'. top_pointer dummy_systimer_ops hz (j + of_nat n) ss = Inr (ss', ideal_frame hz rt n) \<and>
    systimer_running hz D rt j n ss'"
proof -
  from assms(1) obtain d d0 where d: "rt_private_data (ss_runtime ss) = Some d"
    "base_time d = j + of_nat m" "clock_at d (m * unat (rt_rate rt))" and fits: "stream_fits hz rt D"
    and same: "same_setup (dummy_systimer_prepare hz (rt_rate rt) (rt_buffer_size rt) (rt_period_size rt) d0) d"
    by (auto simp: systimer_running_def)
  let ?d = "dummy_systimer_prepare hz (rt_rate rt) (rt_buffer_size rt) (rt_period_size rt) d0"
  have r: "rate ?d = rt_rate rt" by (simp add: dummy_systimer_prepare_def)
  have "stream_inv j D ?d (d, n, [])"
    using same d assms(2,3) r unfolding stream_inv_def by auto
  from stream_update [OF this fits_in_range [OF fits]] obtain d' where
    up: "dummy_systimer_update (j + of_nat n) d = Inr d'" "same_setup ?d d'"
      "base_time d' = j + of_nat n" "clock_at d' (n * unat (rt_rate rt))" using r by auto
  then have "unat (frac_pos d') = n * unat (rt_rate rt) mod unat (rt_buffer_size rt * hz)"
    by (simp add: clock_at_def same_setup_def dummy_systimer_prepare_def)
  then have "frac_pos d' div hz = ideal_frame hz rt n"
    unfolding ideal_frame_def using fits by (intro frame_pos) (auto simp: stream_fits_def)
  then show ?thesis
    using up d(1) fits by (auto simp: dummy_systimer_ops_def dummy_systimer_pointer_def timer_data_def
        systimer_running_def stream_fits_def)
qed

interpretation systimer: timer_ops dummy_systimer_ops systimer_ready systimer_running
proof unfold_locales
  fix ss :: snd_pcm_substream and hz :: u32 and D
  assume "rt_private_data (ss_runtime ss) \<noteq> None" "stream_fits hz (ss_runtime ss) D"
  then show "\<exists>ss'. top_prepare dummy_systimer_ops hz ss = Inr (ss', 0) \<and>
      systimer_ready hz D (ss_runtime ss) ss'"
    by (auto simp: dummy_systimer_ops_def timer_data_def systimer_ready_def Let_def)
next
  fix hz j :: u32 and D rt ss
  assume "systimer_ready hz D rt ss"
  then show "\<exists>ss' t. top_start dummy_systimer_ops j ss = Inr (ss', [AddTimer t], 0) \<and>
      systimer_running hz D rt j 0 ss'"
    by (auto simp: systimer_ready_def systimer_running_def dummy_systimer_ops_def timer_data_def
        dummy_systimer_start_def dummy_systimer_rearm_def Let_def dummy_systimer_prepare_def
        same_setup_def clock_at_def stream_fits_def)
next
  fix hz j :: u32 and D m rt ss
  assume "systimer_running hz D rt j m ss"
  then show "\<exists>ss'. top_stop dummy_systimer_ops ss = Inr (ss', [DelTimer], 0)"
    by (auto simp: systimer_running_def dummy_systimer_ops_def timer_data_def dummy_systimer_stop_def)
qed (rule systimer_pointer_frame)

section \<open>The PCM operations\<close>

lemma open_ok:
  assumes "dummy_pcm_open add ok dummy ss = (dummy', ss', err)"
  shows "sd_timer_ops dummy' = Some dummy_systimer_ops"
    and "err \<le> 0"
    and "err = 0 \<Longrightarrow> rt_private_data (ss_runtime ss') = Some systimer_zero"
  using assms
  by (auto simp: dummy_pcm_open_def dummy_systimer_ops_def dummy_systimer_create_def Let_def ENOMEM_def
      set_private_def split: if_splits option.splits)

text \<open>
  C10. Playing a stream through the PCM operations: after a successful open, whatever hardware
  parameters ALSA then sets, prepare and the START trigger succeed, and position queries that are
  at most \<open>D\<close> jiffies apart return the ideal positions \<open>\<lfloor>rate * n / HZ\<rfloor>\<close> modulo the buffer size.
\<close>

theorem pcm_playback_positions:
  assumes "dummy_pcm_open add ok dummy ss = (dummy', ss', 0)"
    and "rt_private_data rt = rt_private_data (ss_runtime ss')"
    and "stream_fits hz rt D" and "\<forall>g \<in> set gs. g \<le> D"
  shows "\<exists>ss1 ss2 calls. dummy_pcm_prepare hz dummy' (ss'\<lparr>ss_runtime := rt\<rparr>) = Inr (ss1, 0) \<and>
    dummy_pcm_trigger v2p j dummy' ss1 TRIGGER_START = Inr (ss2, calls, 0) \<and>
    poll_positions hz j dummy' 0 gs ss2 = Inr (map (ideal_frame hz rt) (poll_times 0 gs))"
  using systimer.playback [of dummy' "ss'\<lparr>ss_runtime := rt\<rparr>" hz D gs v2p j] open_ok [OF assms(1)] assms
  by simp

text \<open>The device registers after a sequence of calls.\<close>

fun io_regs :: "kcall list \<Rightarrow> (nat \<rightharpoonup> u32) \<Rightarrow> nat \<rightharpoonup> u32" where
  "io_regs [] m = m"
| "io_regs (IoWrite r v # cs) m = io_regs cs (m(r \<mapsto> v))"
| "io_regs (c # cs) m = io_regs cs m"

lemma trigger_cases:
  assumes "sd_timer_ops dummy = Some dummy_systimer_ops"
    and "rt_private_data (ss_runtime ss) = Some d" and "rate d \<noteq> 0" and "rt = ss_runtime ss"
  shows "\<exists>ss' pre t. trigger_start v2p j dummy ss = Inr (ss', pre @ [IoWrite 0 1, AddTimer t], 0) \<and>
        io_regs pre Map.empty = [1 \<mapsto> v2p (rt_dma_area rt), 2 \<mapsto> rt_periods rt, 3 \<mapsto> rt_period_size rt,
          5 \<mapsto> rt_rate rt, 6 \<mapsto> rt_channels rt, 7 \<mapsto> rt_format rt]"
    and "\<exists>ss'. trigger_stop dummy ss = Inr (ss', [IoWrite 0 0, DelTimer], 0)"
  using assms
  by (auto simp: trigger_start_def trigger_stop_def timer_ops_of_def dummy_systimer_ops_def
      timer_data_def dummy_systimer_start_def dummy_systimer_rearm_def dummy_systimer_stop_def Let_def
      intro!: exI [of _ "[_, _, _, _, _, _]"])

text \<open>
  Starting and resuming a prepared stream writes the buffer address, the number and size of the
  periods, the rate, the channels and the format to the device before the one write of 1 to the
  control register that starts it, and then arms the timer; stopping and suspending write 0 to the
  control register and delete the timer; every other command fails with EINVAL and touches nothing.
\<close>

theorem pcm_trigger_device:
  assumes "sd_timer_ops dummy = Some dummy_systimer_ops"
    and "rt_private_data (ss_runtime ss) = Some d" and "rate d \<noteq> 0" and "rt = ss_runtime ss"
  shows "(cmd \<in> {TRIGGER_START, TRIGGER_RESUME} \<and>
      (\<exists>ss' pre t. dummy_pcm_trigger v2p j dummy ss cmd = Inr (ss', pre @ [IoWrite 0 1, AddTimer t], 0) \<and>
        io_regs pre Map.empty = [1 \<mapsto> v2p (rt_dma_area rt), 2 \<mapsto> rt_periods rt, 3 \<mapsto> rt_period_size rt,
          5 \<mapsto> rt_rate rt, 6 \<mapsto> rt_channels rt, 7 \<mapsto> rt_format rt])) \<or>
    (cmd \<in> {TRIGGER_STOP, TRIGGER_SUSPEND} \<and>
      (\<exists>ss'. dummy_pcm_trigger v2p j dummy ss cmd = Inr (ss', [IoWrite 0 0, DelTimer], 0))) \<or>
    (cmd \<in> {TRIGGER_PAUSE_PUSH, TRIGGER_PAUSE_RELEASE} \<and>
      dummy_pcm_trigger v2p j dummy ss cmd = Inr (ss, [], - EINVAL))"
  using trigger_cases(1) [OF assms, of v2p j] trigger_cases(2) [OF assms] by (cases cmd) simp_all

lemma open_info_bits:
  "open_info device (hw_info dummy_pcm_hardware) AND SNDRV_PCM_INFO_INTERLEAVED \<noteq> 0 \<longleftrightarrow> device AND 1 = 0"
  "open_info device (hw_info dummy_pcm_hardware) AND SNDRV_PCM_INFO_NONINTERLEAVED \<noteq> 0 \<longleftrightarrow> device AND 1 \<noteq> 0"
  "open_info device (hw_info dummy_pcm_hardware) AND SNDRV_PCM_INFO_MMAP \<noteq> 0 \<longleftrightarrow> device AND 2 = 0"
  by (simp_all add: open_info_def dummy_pcm_hardware_def info_flags Let_def)

text \<open>
  \<open>dummy_pcm_open\<close> owns the timer exactly when it succeeds: on a closed substream it returns
  0 with a zeroed timer and with the card's capabilities (interleaved exactly on even devices,
  mappable exactly on devices without bit 1), or a negative error and leaves no timer behind,
  whether the allocation or the model's constraint failed.
\<close>

theorem dummy_pcm_open_owns_timer:
  assumes "dummy_pcm_open add ok dummy ss = (dummy', ss', err)"
    and "rt_private_data (ss_runtime ss) = None" and "sd_pcm_hw dummy = dummy_pcm_hardware"
  shows "if err = 0
    then rt_private_data (ss_runtime ss') = Some systimer_zero \<and>
      (hw_info (rt_hw (ss_runtime ss')) AND SNDRV_PCM_INFO_INTERLEAVED \<noteq> 0 \<longleftrightarrow> ss_device ss AND 1 = 0) \<and>
      (hw_info (rt_hw (ss_runtime ss')) AND SNDRV_PCM_INFO_NONINTERLEAVED \<noteq> 0 \<longleftrightarrow> ss_device ss AND 1 \<noteq> 0) \<and>
      (hw_info (rt_hw (ss_runtime ss')) AND SNDRV_PCM_INFO_MMAP \<noteq> 0 \<longleftrightarrow> ss_device ss AND 2 = 0)
    else err < 0 \<and> rt_private_data (ss_runtime ss') = None"
proof (cases "err = 0")
  case True
  then have hw: "hw_info (rt_hw (ss_runtime ss')) = open_info (ss_device ss) (hw_info dummy_pcm_hardware)"
    using assms(1,3) by (auto simp: dummy_pcm_open_def dummy_systimer_ops_def dummy_systimer_create_def
        Let_def ENOMEM_def set_private_def split: if_splits option.splits)
  show ?thesis
    using open_ok(3) [OF assms(1)] True unfolding hw open_info_bits by simp
next
  case False
  then show ?thesis
    using assms(1,2) open_ok(2) [OF assms(1)]
    by (auto simp: dummy_pcm_open_def dummy_systimer_ops_def dummy_systimer_create_def
        dummy_systimer_free_def Let_def ENOMEM_def set_private_def split: if_splits option.splits)
qed

section \<open>Witnesses\<close>

definition sample_rt :: snd_pcm_runtime where
  "sample_rt = \<lparr>rt_hw = dummy_pcm_hardware, rt_dma_area = 0xC0000000, rt_dma_bytes = 1024, rt_periods = 4,
     rt_period_size = 256, rt_buffer_size = 1024, rt_rate = 8000, rt_channels = 1, rt_format = 1,
     rt_private_data = None\<rparr>"

definition sample_ss :: snd_pcm_substream where
  "sample_ss = \<lparr>ss_device = 3, ss_stream = STREAM_PLAYBACK, ss_runtime = sample_rt\<rparr>"

definition sample_card :: snd_dummy where
  "sample_card = \<lparr>sd_model = None, sd_pcm = None, sd_pcm_hw = dummy_pcm_hardware, sd_mixer_volume = replicate 5 (0, 0),
     sd_capture_source = replicate 5 (0, 0), sd_iobox = 1, sd_cd_volume_ctl = Some 0,
     sd_cd_switch_ctl = Some 0, sd_timer_ops = None\<rparr>"

abbreviation sample_opened :: "snd_dummy \<times> snd_pcm_substream \<times> int" where
  "sample_opened \<equiv> dummy_pcm_open (\<lambda>_. 0) True sample_card sample_ss"

lemma sample_open:
  "\<exists>dummy' ss'. sample_opened = (dummy', ss', 0)"
  by (simp add: dummy_pcm_open_def dummy_systimer_ops_def dummy_systimer_create_def sample_card_def Let_def)

theorem pcm_playback_positions_witness:
  "\<exists>dummy' ss' ss1 ss2 calls. sample_opened = (dummy', ss', 0) \<and>
    dummy_pcm_prepare 50 dummy' (ss'\<lparr>ss_runtime := sample_rt\<lparr>rt_private_data := Some systimer_zero\<rparr>\<rparr>) = Inr (ss1, 0) \<and>
    dummy_pcm_trigger (\<lambda>a. a) 0 dummy' ss1 TRIGGER_START = Inr (ss2, calls, 0) \<and>
    poll_positions 50 0 dummy' 0 [3, 10] ss2 = Inr [480, 32]"
proof -
  obtain dummy' ss' where o: "sample_opened = (dummy', ss', 0)" using sample_open by blast
  have "stream_fits 50 (sample_rt\<lparr>rt_private_data := Some systimer_zero\<rparr>) 100"
    by (simp add: stream_fits_def sample_rt_def)
  from pcm_playback_positions [OF o _ this, of "[3, 10]" "\<lambda>a. a" 0] open_ok(3) [OF o]
  show ?thesis using o by (simp add: ideal_frame_def sample_rt_def)
qed

abbreviation sample_playing :: snd_pcm_substream where
  "sample_playing \<equiv> set_private (Some sample_timer) sample_ss"

theorem pcm_trigger_device_witness:
  "\<exists>ss' pre t. dummy_pcm_trigger (\<lambda>a. a) 5 (sample_card\<lparr>sd_timer_ops := Some dummy_systimer_ops\<rparr>)
      sample_playing TRIGGER_RESUME = Inr (ss', pre @ [IoWrite 0 1, AddTimer t], 0) \<and>
    io_regs pre Map.empty 5 = Some 8000"
proof -
  have "rate sample_timer \<noteq> 0" by (simp add: dummy_systimer_prepare_def)
  from pcm_trigger_device [OF _ _ this refl, of "sample_card\<lparr>sd_timer_ops := Some dummy_systimer_ops\<rparr>"
      sample_playing TRIGGER_RESUME "\<lambda>a. a" 5]
  obtain ss' pre t where "dummy_pcm_trigger (\<lambda>a. a) 5 (sample_card\<lparr>sd_timer_ops := Some dummy_systimer_ops\<rparr>)
      sample_playing TRIGGER_RESUME = Inr (ss', pre @ [IoWrite 0 1, AddTimer t], 0)"
    "io_regs pre Map.empty 5 = Some (rt_rate (ss_runtime sample_playing))" by auto
  then show ?thesis by (auto simp: set_private_def sample_ss_def sample_rt_def)
qed

theorem dummy_pcm_open_owns_timer_witness:
  "\<exists>dummy' ss'. sample_opened = (dummy', ss', 0) \<and>
     hw_info (rt_hw (ss_runtime ss')) AND SNDRV_PCM_INFO_INTERLEAVED = 0"
proof -
  obtain dummy' ss' where o: "sample_opened = (dummy', ss', 0)" using sample_open by blast
  from dummy_pcm_open_owns_timer [OF this] o show ?thesis
    by (simp add: sample_ss_def sample_rt_def sample_card_def)
qed

end
