(* ===== verification/Resources.thy ===== *)
theory Resources
  imports Prelude
begin

text \<open>
  Kernel resources and who holds them. A driver's registration and its removal are traces of
  acquisitions and releases; \<open>run_res\<close> replays a trace and fails on a second acquisition of
  something held and on a release of something not held. The locale \<open>resource_driver\<close> is the
  contract of a driver's entry and exit code.
\<close>

datatype 'r rev = Acq 'r | Rel 'r

fun run_res :: "'r rev list \<Rightarrow> 'r set \<Rightarrow> 'r set option" where
  "run_res [] H = Some H"
| "run_res (Acq r # tr) H = (if r \<in> H then None else run_res tr (insert r H))"
| "run_res (Rel r # tr) H = (if r \<in> H then run_res tr (H - {r}) else None)"

lemma run_res_append:
  "run_res (tr @ tr') H = (case run_res tr H of None \<Rightarrow> None | Some H' \<Rightarrow> run_res tr' H')"
  by (induction tr H rule: run_res.induct) auto

lemma run_res_Acq_map:
  "distinct rs \<Longrightarrow> set rs \<inter> H = {} \<Longrightarrow> run_res (map Acq rs) H = Some (H \<union> set rs)"
proof (induction rs arbitrary: H)
  case (Cons r rs)
  then have "run_res (map Acq rs) (insert r H) = Some (insert r H \<union> set rs)" by (intro Cons.IH) auto
  then show ?case using Cons.prems by simp
qed simp

lemma run_res_Rel_map:
  "distinct rs \<Longrightarrow> set rs \<subseteq> H \<Longrightarrow> run_res (map Rel rs) H = Some (H - set rs)"
proof (induction rs arbitrary: H)
  case (Cons r rs)
  then have "run_res (map Rel rs) (H - {r}) = Some (H - {r} - set rs)" by (intro Cons.IH) auto
  moreover have "H - {r} - set rs = H - set (r # rs)" by auto
  ultimately show ?case using Cons.prems by simp
qed simp

definition acquired :: "'r rev list \<Rightarrow> 'r set" where
  "acquired tr = {r. Acq r \<in> set tr}"

text \<open>What was held before and is not touched stays held.\<close>

lemma run_res_frame:
  "run_res tr H = Some H' \<Longrightarrow> acquired tr \<inter> F = {} \<Longrightarrow> H \<inter> F = {} \<Longrightarrow> run_res tr (H \<union> F) = Some (H' \<union> F)"
proof (induction tr H arbitrary: H' rule: run_res.induct)
  case (2 r tr H)
  then have "run_res tr (insert r H \<union> F) = Some (H' \<union> F)"
    by (intro "2.IH") (auto simp: acquired_def split: if_splits)
  with 2 show ?case by (auto simp: acquired_def split: if_splits)
next
  case (3 r tr H)
  then have "run_res tr ((H - {r}) \<union> F) = Some (H' \<union> F)"
    by (intro "3.IH") (auto simp: acquired_def split: if_splits)
  moreover have "(H - {r}) \<union> F = (H \<union> F) - {r}" using 3 by (auto split: if_splits)
  ultimately show ?case using 3 by (auto split: if_splits)
qed simp

text \<open>A load, and the unload when it succeeded.\<close>

definition load_cycle :: "('e \<Rightarrow> 'r rev list \<times> 's \<times> int) \<Rightarrow> ('s \<Rightarrow> 'r rev list) \<Rightarrow> 'e \<Rightarrow> 'r rev list" where
  "load_cycle enter leave e = (case enter e of (tr, s, ret) \<Rightarrow> if ret = 0 then tr @ leave s else tr)"

text \<open>A later load is not handed anything an earlier one still holds: the kernel gives every mapping
  and every open file an address or a descriptor that is not in use.\<close>

definition fresh_loads ::
  "('e \<Rightarrow> 'r rev list \<times> 's \<times> int) \<Rightarrow> ('s \<Rightarrow> 'r rev list) \<Rightarrow> ('e \<Rightarrow> 'r list) \<Rightarrow> 'e list \<Rightarrow> bool" where
  "fresh_loads enter leave leaks =
     sorted_wrt (\<lambda>e e'. acquired (load_cycle enter leave e') \<inter> set (leaks e) = {})"

text \<open>Entry code returns its trace, the state it leaves and its result (0 or a negative error);
  \<open>leaks\<close> is what a load leaves behind for good, nothing for a driver that is right.\<close>

locale resource_driver =
  fixes enter :: "'e \<Rightarrow> 'r rev list \<times> 's \<times> int"
    and leave :: "'s \<Rightarrow> 'r rev list"
    and env_ok :: "'e \<Rightarrow> bool"
    and leaks :: "'e \<Rightarrow> 'r list"
  assumes fail_leaks:
      "env_ok e \<Longrightarrow> enter e = (tr, s, ret) \<Longrightarrow> ret \<noteq> 0 \<Longrightarrow> run_res tr {} = Some (set (leaks e))"
    and leave_leaks:
      "env_ok e \<Longrightarrow> enter e = (tr, s, 0) \<Longrightarrow> run_res (tr @ leave s) {} = Some (set (leaks e))"
begin

lemma cycle_leaks: "env_ok e \<Longrightarrow> run_res (load_cycle enter leave e) {} = Some (set (leaks e))"
  using fail_leaks leave_leaks by (cases "enter e") (auto simp: load_cycle_def)

lemma cycles_from:
  "(\<And>e. e \<in> set es \<Longrightarrow> env_ok e) \<Longrightarrow> fresh_loads enter leave leaks es \<Longrightarrow>
   (\<And>e. e \<in> set es \<Longrightarrow> acquired (load_cycle enter leave e) \<inter> H = {}) \<Longrightarrow>
   run_res (concat (map (load_cycle enter leave) es)) H = Some (H \<union> (\<Union>e \<in> set es. set (leaks e)))"
proof (induction es arbitrary: H)
  case (Cons e es)
  have "run_res (load_cycle enter leave e) ({} \<union> H) = Some (set (leaks e) \<union> H)"
    by (rule run_res_frame [OF cycle_leaks]) (use Cons.prems(1,3) in auto)
  moreover have "run_res (concat (map (load_cycle enter leave) es)) (set (leaks e) \<union> H)
      = Some ((set (leaks e) \<union> H) \<union> (\<Union>e \<in> set es. set (leaks e)))"
    by (rule Cons.IH) (use Cons.prems in \<open>auto simp: fresh_loads_def\<close>)
  ultimately show ?case by (simp add: run_res_append ac_simps)
qed simp

text \<open>However often the driver is loaded and unloaded, nothing is released twice and exactly the
  leaks of its loads are left.\<close>

lemma cycles_leak:
  "(\<And>e. e \<in> set es \<Longrightarrow> env_ok e) \<Longrightarrow> fresh_loads enter leave leaks es \<Longrightarrow>
   run_res (concat (map (load_cycle enter leave) es)) {} = Some (\<Union>e \<in> set es. set (leaks e))"
  using cycles_from [of es "{}"] by simp

end

lemma fresh_loads_Nil [simp]: "fresh_loads enter leave (\<lambda>_. []) es"
  by (induction es) (simp_all add: fresh_loads_def)

end
