(* ===== verification/Snd_Card.thy ===== *)
theory Snd_Card
  imports Snd_Mixer Snd_Stream Resources
begin

text \<open>
  The card models, the probe function and the power management of
  \<open>patches/linux/dummy_sound.c\<close>: \<open>emu10k1_playback_constraints\<close>, the six \<open>dummy_model\<close>s,
  \<open>snd_card_dummy_pcm\<close>, \<open>snd_dummy_probe\<close>, \<open>snd_dummy_remove\<close>, \<open>snd_dummy_suspend\<close> and
  \<open>snd_dummy_resume\<close>. Calls into ALSA are a list of \<open>card_call\<close>s; what they return are parameters.
\<close>

section \<open>Card models\<close>

definition emu10k1_playback_constraints :: "(hw_constraint \<Rightarrow> int) \<Rightarrow> int \<times> hw_constraint list" where
  "emu10k1_playback_constraints add =
     (let err = add ConstraintIntegerPeriods in
      if err < 0 then (err, [ConstraintIntegerPeriods])
      else let c = ConstraintBufferBytes 256 0xFFFFFFFF; err = add c in
        if err < 0 then (err, [ConstraintIntegerPeriods, c]) else (0, [ConstraintIntegerPeriods, c]))"

text \<open>The members an initialiser leaves out are 0 or NULL.\<close>

definition model_zero :: dummy_model where
  "model_zero = \<lparr>dm_name = [], dm_playback_constraints = None, dm_capture_constraints = None, dm_formats = 0,
     dm_buffer_bytes_max = 0, dm_period_bytes_min = 0, dm_period_bytes_max = 0, dm_periods_min = 0,
     dm_periods_max = 0, dm_rates = 0, dm_rate_min = 0, dm_rate_max = 0, dm_channels_min = 0,
     dm_channels_max = 0\<rparr>"

definition model_emu10k1 :: dummy_model where
  "model_emu10k1 = model_zero\<lparr>dm_name := ''emu10k1'',
     dm_playback_constraints := Some emu10k1_playback_constraints, dm_buffer_bytes_max := 128 * 1024\<rparr>"

definition model_rme9652 :: dummy_model where
  "model_rme9652 = model_zero\<lparr>dm_name := ''rme9652'', dm_buffer_bytes_max := 26 * 64 * 1024,
     dm_formats := 0x400, dm_channels_min := 26, dm_channels_max := 26, dm_periods_min := 2,
     dm_periods_max := 2\<rparr>"

definition model_ice1712 :: dummy_model where
  "model_ice1712 = model_zero\<lparr>dm_name := ''ice1712'', dm_buffer_bytes_max := 256 * 1024,
     dm_formats := 0x400, dm_channels_min := 10, dm_channels_max := 10, dm_periods_min := 1,
     dm_periods_max := 1024\<rparr>"

definition model_uda1341 :: dummy_model where
  "model_uda1341 = model_zero\<lparr>dm_name := ''uda1341'', dm_buffer_bytes_max := 16380, dm_formats := 0x4,
     dm_channels_min := 2, dm_channels_max := 2, dm_periods_min := 2, dm_periods_max := 255\<rparr>"

definition model_ac97 :: dummy_model where
  "model_ac97 = model_zero\<lparr>dm_name := ''ac97'', dm_formats := 0x4, dm_channels_min := 2,
     dm_channels_max := 2, dm_rates := 0x80, dm_rate_min := 48000, dm_rate_max := 48000\<rparr>"

definition model_ca0106 :: dummy_model where
  "model_ca0106 = model_zero\<lparr>dm_name := ''ca0106'', dm_formats := 0x4,
     dm_buffer_bytes_max := (65536 - 64) * 8, dm_period_bytes_max := 65536 - 64, dm_periods_min := 2,
     dm_periods_max := 8, dm_channels_min := 2, dm_channels_max := 2,
     dm_rates := 0x80 OR 0x400 OR 0x1000, dm_rate_min := 48000, dm_rate_max := 192000\<rparr>"

definition dummy_models :: "dummy_model list" where
  "dummy_models = [model_emu10k1, model_rme9652, model_ice1712, model_uda1341, model_ac97, model_ca0106]"

text \<open>The search of \<open>snd_dummy_probe\<close> for \<open>model[dev]\<close>, which may be NULL.\<close>

fun find_model :: "string option \<Rightarrow> dummy_model list \<Rightarrow> dummy_model option" where
  "find_model None ms = None"
| "find_model (Some name) [] = None"
| "find_model (Some name) (m # ms) = (if name = dm_name m then Some m else find_model (Some name) ms)"

text \<open>The overrides of \<open>snd_dummy_probe\<close>: every member of the model that is not 0.\<close>

definition apply_model :: "dummy_model option \<Rightarrow> snd_pcm_hardware \<Rightarrow> snd_pcm_hardware" where
  "apply_model model hw =
     (case model of None \<Rightarrow> hw | Some m \<Rightarrow>
        let pick = \<lambda>a b. if a \<noteq> 0 then a else b in
        hw\<lparr>hw_formats := if dm_formats m \<noteq> 0 then dm_formats m else hw_formats hw,
           hw_buffer_bytes_max := pick (dm_buffer_bytes_max m) (hw_buffer_bytes_max hw),
           hw_period_bytes_min := pick (dm_period_bytes_min m) (hw_period_bytes_min hw),
           hw_period_bytes_max := pick (dm_period_bytes_max m) (hw_period_bytes_max hw),
           hw_periods_min := pick (dm_periods_min m) (hw_periods_min hw),
           hw_periods_max := pick (dm_periods_max m) (hw_periods_max hw),
           hw_rates := pick (dm_rates m) (hw_rates hw),
           hw_rate_min := pick (dm_rate_min m) (hw_rate_min hw),
           hw_rate_max := pick (dm_rate_max m) (hw_rate_max hw),
           hw_channels_min := pick (dm_channels_min m) (hw_channels_min hw),
           hw_channels_max := pick (dm_channels_max m) (hw_channels_max hw)\<rparr>)"

section \<open>PCM devices\<close>

datatype card_call =
  Ioremap u32 u32 | CardNew | PcmNew nat int | PcmSetOps bool | PcmPreallocate nat nat |
  CardRegister | SetDrvdata | CardFree | PowerState bool | PcmSuspendAll "nat option"

definition snd_card_dummy_pcm ::
  "(nat \<Rightarrow> int) \<Rightarrow> bool \<Rightarrow> snd_dummy \<Rightarrow> nat \<Rightarrow> int \<Rightarrow> snd_dummy \<times> card_call list \<times> int" where
  "snd_card_dummy_pcm pcm_new fake_buffer dummy device substreams =
     (let err = pcm_new device in
      if err < 0 then (dummy, [PcmNew device substreams], err)
      else (dummy\<lparr>sd_pcm := Some device\<rparr>,
            [PcmNew device substreams, PcmSetOps fake_buffer] @
              (if \<not> fake_buffer then [PcmPreallocate 0 (64 * 1024)] else []), 0))"

text \<open>The loop over the PCM devices, for \<open>n\<close> more of them from \<open>idx\<close> on; \<open>substreams\<close> is
  \<open>pcm_substreams[dev]\<close>, which the loop clamps in place.\<close>

definition clamp_substreams :: "int \<Rightarrow> int" where
  "clamp_substreams s = (let s = if s < 1 then 1 else s in if s > 128 then 128 else s)"

fun pcm_loop ::
  "(nat \<Rightarrow> int) \<Rightarrow> bool \<Rightarrow> nat \<Rightarrow> nat \<Rightarrow> int \<Rightarrow> snd_dummy \<Rightarrow> snd_dummy \<times> card_call list \<times> int" where
  "pcm_loop pcm_new fake idx 0 substreams dummy = (dummy, [], 0)"
| "pcm_loop pcm_new fake idx (Suc n) substreams dummy =
     (let substreams = clamp_substreams substreams;
          (dummy, calls, err) = snd_card_dummy_pcm pcm_new fake dummy idx substreams in
      if err < 0 then (dummy, calls, err)
      else let (dummy, calls', err) = pcm_loop pcm_new fake (Suc idx) n substreams dummy in
        (dummy, calls @ calls', err))"

section \<open>Probe, remove, suspend and resume\<close>

record probe_env =
  pe_fake_buffer :: bool
  pe_model :: "string option"
  pe_pcm_devs :: int
  pe_pcm_substreams :: int
  pe_card_new :: int
  pe_pcm_new :: "nat \<Rightarrow> int"
  pe_ctl_add :: "string \<Rightarrow> int"
  pe_new_access :: "u32 \<Rightarrow> u32"
  pe_register :: int

text \<open>\<open>card->private_data\<close>, zeroed by \<open>snd_card_new\<close>; \<open>hw\<close> stands for the zeroed \<open>pcm_hw\<close>, which
  the probe function overwrites.\<close>

definition new_dummy :: "snd_pcm_hardware \<Rightarrow> snd_dummy" where
  "new_dummy hw = \<lparr>sd_model = None, sd_pcm = None, sd_pcm_hw = hw, sd_mixer_volume = replicate 5 (0, 0),
     sd_capture_source = replicate 5 (0, 0), sd_iobox = 0, sd_cd_volume_ctl = None,
     sd_cd_switch_ctl = None, sd_timer_ops = None\<rparr>"

definition hw_zero :: snd_pcm_hardware where
  "hw_zero = \<lparr>hw_info = 0, hw_formats = 0, hw_rates = 0, hw_rate_min = 0, hw_rate_max = 0,
     hw_channels_min = 0, hw_channels_max = 0, hw_buffer_bytes_max = 0, hw_period_bytes_min = 0,
     hw_period_bytes_max = 0, hw_periods_min = 0, hw_periods_max = 0, hw_fifo_size = 0\<rparr>"

definition snd_dummy_probe :: "probe_env \<Rightarrow> snd_dummy \<times> card_call list \<times> int" where
  "snd_dummy_probe e =
     (let io = [Ioremap 0x98000000 0x400];
          err = pe_card_new e;
          dummy = new_dummy hw_zero in
      if err < 0 then (dummy, io, err)
      else
        let io = io @ [CardNew];
            m = find_model (pe_model e) dummy_models;
            dummy = dummy\<lparr>sd_model := m\<rparr>;
            (dummy, calls, err) = pcm_loop (pe_pcm_new e) (pe_fake_buffer e) 0
               (min 4 (nat (pe_pcm_devs e))) (pe_pcm_substreams e) dummy in
        if err < 0 then (dummy, io @ calls @ [CardFree], err)
        else
          let dummy = dummy\<lparr>sd_pcm_hw := apply_model m dummy_pcm_hardware\<rparr>;
              (dummy, err) = snd_card_dummy_new_mixer (pe_ctl_add e) (pe_new_access e) dummy in
          if err < 0 then (dummy, io @ calls @ [CardFree], err)
          else
            let err = pe_register e in
            if err = 0 then (dummy, io @ calls @ [CardRegister, SetDrvdata], 0)
            else (dummy, io @ calls @ [CardRegister, CardFree], err))"

definition snd_dummy_remove :: "card_call list \<times> int" where
  "snd_dummy_remove = ([CardFree], 0)"

definition snd_dummy_suspend :: "snd_dummy \<Rightarrow> card_call list \<times> int" where
  "snd_dummy_suspend dummy = ([PowerState False, PcmSuspendAll (sd_pcm dummy)], 0)"

definition snd_dummy_resume :: "card_call list \<times> int" where
  "snd_dummy_resume = ([PowerState True], 0)"

section \<open>The models are consistent\<close>

lemmas model_defs = model_emu10k1_def model_rme9652_def model_ice1712_def model_uda1341_def
  model_ac97_def model_ca0106_def model_zero_def

lemma find_model_set: "find_model name ms = Some m \<Longrightarrow> m \<in> set ms"
  by (induction name ms rule: find_model.induct) (auto split: if_splits)

definition probe_hw :: "string option \<Rightarrow> snd_pcm_hardware" where
  "probe_hw name = apply_model (find_model name dummy_models) dummy_pcm_hardware"

definition hw_sane :: "snd_pcm_hardware \<Rightarrow> bool" where
  "hw_sane hw \<longleftrightarrow> 0 < hw_rate_min hw \<and> hw_rate_min hw \<le> hw_rate_max hw \<and> hw_rate_max hw \<le> 192000 \<and>
     0 < hw_channels_min hw \<and> hw_channels_min hw \<le> hw_channels_max hw \<and>
     0 < hw_periods_min hw \<and> hw_periods_min hw \<le> hw_periods_max hw \<and>
     0 < hw_period_bytes_min hw \<and> hw_period_bytes_min hw \<le> hw_period_bytes_max hw \<and>
     hw_periods_min hw * hw_period_bytes_min hw \<le> hw_buffer_bytes_max hw \<and>
     hw_buffer_bytes_max hw \<le> 26 * 64 * 1024 \<and> hw_formats hw \<noteq> 0 \<and> hw_rates hw \<noteq> 0"

lemma apply_model_sane:
  assumes "m \<in> set dummy_models"
  shows "hw_sane (apply_model (Some m) dummy_pcm_hardware)"
proof -
  have m: "m = model_emu10k1 \<or> m = model_rme9652 \<or> m = model_ice1712 \<or> m = model_uda1341 \<or>
      m = model_ac97 \<or> m = model_ca0106" using assms by (simp add: dummy_models_def)
  then show ?thesis
    by (elim disjE) (simp_all add: hw_sane_def apply_model_def model_defs dummy_pcm_hardware_def Let_def)
qed

lemma probe_hw_sane: "hw_sane (probe_hw name)"
proof (cases "find_model name dummy_models")
  case None
  then show ?thesis by (simp add: probe_hw_def apply_model_def hw_sane_def dummy_pcm_hardware_def)
next
  case (Some m)
  then show ?thesis using apply_model_sane [OF find_model_set] by (simp add: probe_hw_def)
qed

text \<open>
  C34. The clock fits every card: whatever model is chosen, a stream whose rate, buffer and period
  lie within the capabilities the probe function installs can be timed without overflow, for every
  tick rate up to 1000 Hz and position queries up to 10000 jiffies apart, so the exactness of the
  position holds for every card the driver can present.
\<close>

theorem every_model_fits_clock:
  assumes "0 < rt_rate rt" and "rt_rate rt \<le> hw_rate_max (probe_hw name)"
    and "0 < rt_buffer_size rt" and "rt_buffer_size rt \<le> hw_buffer_bytes_max (probe_hw name)"
    and "0 < rt_period_size rt" and "rt_period_size rt \<le> rt_buffer_size rt"
    and "0 < hz" and "hz \<le> 1000"
  shows "stream_fits hz rt 10000"
proof -
  have sane: "hw_rate_max (probe_hw name) \<le> 192000" "hw_buffer_bytes_max (probe_hw name) \<le> 1703936"
    using probe_hw_sane [of name] by (simp_all add: hw_sane_def)
  have "rt_rate rt \<le> 192000" "rt_buffer_size rt \<le> 1703936" "rt_period_size rt \<le> 1703936"
    using order.trans [OF assms(2) sane(1)] order.trans [OF assms(4) sane(2)]
      order.trans [OF assms(6) order.trans [OF assms(4) sane(2)]] by simp_all
  then have r: "unat (rt_rate rt) \<le> 192000" and b: "unat (rt_buffer_size rt) \<le> 1703936"
    and p: "unat (rt_period_size rt) \<le> 1703936" and h: "unat hz \<le> 1000"
    using assms(8) by (simp_all add: word_le_nat_alt)
  have "unat (rt_buffer_size rt) * unat hz \<le> 1703936 * 1000"
    "unat (rt_period_size rt) * unat hz \<le> 1703936 * 1000"
    using mult_le_mono [OF b h] mult_le_mono [OF p h] by simp_all
  then show ?thesis
    using r assms(1,3,5,7) by (simp add: stream_fits_def)
qed

theorem every_model_fits_clock_witness:
  "stream_fits 50 (sample_rt\<lparr>rt_rate := 48000\<rparr>) 10000"
  by (rule every_model_fits_clock [where name = "Some ''ac97''"])
    (simp_all add: probe_hw_def dummy_models_def apply_model_def model_defs dummy_pcm_hardware_def
      sample_rt_def)

section \<open>Probing\<close>

lemma clamp_substreams_idem [simp]: "clamp_substreams (clamp_substreams s) = clamp_substreams s"
  by (simp add: clamp_substreams_def Let_def)

fun is_pcm_new :: "card_call \<Rightarrow> bool" where
  "is_pcm_new (PcmNew d s) = True"
| "is_pcm_new c = False"

lemma pcm_loop_err: "pcm_loop pcm_new fake idx n s dummy = (dummy', calls, err) \<Longrightarrow> err \<le> 0"
  by (induction n arbitrary: idx s dummy dummy' calls err)
    (auto simp: Let_def split: if_splits prod.splits)

lemma pcm_loop_quiet:
  assumes "pcm_loop pcm_new fake idx n s dummy = (dummy', calls, err)"
  shows "set calls \<inter> {CardNew, CardFree, CardRegister, SetDrvdata} = {}"
  using assms
proof (induction n arbitrary: idx s dummy dummy' calls err)
  case (Suc n)
  then show ?case
    by (auto simp: Let_def snd_card_dummy_pcm_def split: if_splits prod.splits)
qed simp

lemma pcm_loop_ok:
  assumes "pcm_loop pcm_new fake idx n s dummy = (dummy', calls, 0)"
  shows "filter is_pcm_new calls = map (\<lambda>d. PcmNew d (clamp_substreams s)) [idx..<idx + n] \<and>
    dummy' = (if n = 0 then dummy else dummy\<lparr>sd_pcm := Some (idx + n - 1)\<rparr>)"
  using assms
proof (induction n arbitrary: idx s dummy dummy' calls)
  case (Suc n)
  let ?s = "clamp_substreams s"
  from Suc.prems obtain calls' where
    rest: "pcm_loop pcm_new fake (Suc idx) n ?s (dummy\<lparr>sd_pcm := Some idx\<rparr>) = (dummy', calls', 0)"
    and calls: "filter is_pcm_new calls = PcmNew idx ?s # filter is_pcm_new calls'"
    by (auto simp: Let_def snd_card_dummy_pcm_def split: if_splits prod.splits)
  from Suc.IH [OF rest] calls show ?case by (simp add: upt_conv_Cons del: upt_Suc)
qed simp

lemma new_mixer_loop_err: "snd (new_mixer_loop ctl_add new_access ks dummy) \<le> 0"
  by (induction ks arbitrary: dummy) (simp_all add: Let_def)

lemma new_mixer_loop_hw: "sd_pcm_hw (fst (new_mixer_loop ctl_add new_access ks dummy)) = sd_pcm_hw dummy"
  by (induction ks arbitrary: dummy) (simp_all add: Let_def)

lemma new_mixer_loop_pcm: "sd_pcm (fst (new_mixer_loop ctl_add new_access ks dummy)) = sd_pcm dummy"
  by (induction ks arbitrary: dummy) (simp_all add: Let_def)

lemma new_mixer_keeps:
  assumes "snd_card_dummy_new_mixer ctl_add new_access d = (d', err)"
  shows "sd_pcm_hw d' = sd_pcm_hw d" and "sd_pcm d' = sd_pcm d"
  using arg_cong [OF assms, of fst] new_mixer_loop_hw [of ctl_add new_access snd_dummy_controls]
    new_mixer_loop_pcm [of ctl_add new_access snd_dummy_controls]
  by (auto simp: snd_card_dummy_new_mixer_def)

text \<open>The ways through \<open>snd_dummy_probe\<close>.\<close>

lemma probe_cases:
  assumes "snd_dummy_probe e = (dummy, calls, ret)"
  obtains (no_card) "calls = [Ioremap 0x98000000 0x400]" "ret < 0"
  | (failed) mid fin where "calls = Ioremap 0x98000000 0x400 # CardNew # mid @ fin @ [CardFree]" "ret \<noteq> 0"
      "set mid \<inter> {CardNew, CardFree, CardRegister, SetDrvdata} = {}" "fin = [] \<or> fin = [CardRegister]"
  | (ok) mid d where "calls = Ioremap 0x98000000 0x400 # CardNew # mid @ [CardRegister, SetDrvdata]" "ret = 0"
      "set mid \<inter> {CardNew, CardFree, CardRegister, SetDrvdata} = {}"
      "pcm_loop (pe_pcm_new e) (pe_fake_buffer e) 0 (min 4 (nat (pe_pcm_devs e))) (pe_pcm_substreams e)
         ((new_dummy hw_zero)\<lparr>sd_model := find_model (pe_model e) dummy_models\<rparr>) = (d, mid, 0)"
      "snd_card_dummy_new_mixer (pe_ctl_add e) (pe_new_access e)
         (d\<lparr>sd_pcm_hw := probe_hw (pe_model e)\<rparr>) = (dummy, 0)"
proof (cases "pe_card_new e < 0")
  case True
  with assms no_card show ?thesis by (auto simp: snd_dummy_probe_def Let_def)
next
  case False
  obtain d mid err where loop: "pcm_loop (pe_pcm_new e) (pe_fake_buffer e) 0 (min 4 (nat (pe_pcm_devs e)))
      (pe_pcm_substreams e) ((new_dummy hw_zero)\<lparr>sd_model := find_model (pe_model e) dummy_models\<rparr>)
      = (d, mid, err)" by (metis prod_cases3)
  obtain d' err' where mixer: "snd_card_dummy_new_mixer (pe_ctl_add e) (pe_new_access e)
      (d\<lparr>sd_pcm_hw := probe_hw (pe_model e)\<rparr>) = (d', err')" by fastforce
  note quiet = pcm_loop_quiet [OF loop] and err = pcm_loop_err [OF loop]
  have err': "err' \<le> 0"
    using mixer new_mixer_loop_err unfolding snd_card_dummy_new_mixer_def by (metis snd_conv)
  have run: "snd_dummy_probe e =
      (if err < 0 then (d, [Ioremap 0x98000000 0x400, CardNew] @ mid @ [CardFree], err)
       else if err' < 0 then (d', [Ioremap 0x98000000 0x400, CardNew] @ mid @ [CardFree], err')
       else if pe_register e = 0 then (d', [Ioremap 0x98000000 0x400, CardNew] @ mid @ [CardRegister, SetDrvdata], 0)
       else (d', [Ioremap 0x98000000 0x400, CardNew] @ mid @ [CardRegister, CardFree], pe_register e))"
    using False loop mixer by (simp add: snd_dummy_probe_def Let_def probe_hw_def)
  show ?thesis
  proof (cases "err = 0 \<and> err' = 0 \<and> pe_register e = 0")
    case True
    then show ?thesis using run assms loop mixer quiet by (intro ok [of mid d]) auto
  next
    case False
    then show ?thesis
      using run assms err err' quiet failed [of mid "[]"] failed [of mid "[CardRegister]"]
      by (auto split: if_splits)
  qed
qed

text \<open>
  \<open>snd_dummy_probe\<close> is all or nothing: when it returns 0 the card was registered and published
  last and never freed, it has exactly the PCM devices 0 to min(4, \<open>pcm_devs\<close>) - 1 with the clamped
  number of substreams, the capabilities of the chosen model and a mixer that satisfies its invariant;
  when it fails nothing was published and the card was freed exactly when it had been created.
\<close>

theorem snd_dummy_probe_outcome:
  assumes "snd_dummy_probe e = (dummy, calls, ret)"
    and "\<forall>a. a AND SNDRV_CTL_ELEM_ACCESS_INACTIVE = 0 \<longrightarrow>
      pe_new_access e a AND SNDRV_CTL_ELEM_ACCESS_INACTIVE = 0"
  shows "if ret = 0
    then (\<exists>mid. calls = mid @ [CardRegister, SetDrvdata]) \<and> CardFree \<notin> set calls \<and>
      filter is_pcm_new calls = map (\<lambda>d. PcmNew d (clamp_substreams (pe_pcm_substreams e)))
        [0..<min 4 (nat (pe_pcm_devs e))] \<and>
      sd_pcm_hw dummy = probe_hw (pe_model e) \<and> mixer_ok dummy
    else SetDrvdata \<notin> set calls \<and> (CardNew \<in> set calls \<longleftrightarrow> last calls = CardFree) \<and>
      count_list calls CardFree = count_list calls CardNew"
  using assms(1)
proof (cases rule: probe_cases)
  case no_card
  then show ?thesis by simp
next
  case (failed mid fin)
  then show ?thesis by (auto simp: count_list_0_iff)
next
  case (ok mid d)
  note loop = pcm_loop_ok [OF ok(4)]
  have "mixer_ok dummy"
    by (rule new_mixer_ok [OF ok(5) _ _ assms(2)]) (use loop in \<open>auto simp: new_dummy_def\<close>)
  moreover have "sd_pcm_hw dummy = probe_hw (pe_model e)"
    using new_mixer_keeps(1) [OF ok(5)] by simp
  ultimately show ?thesis using ok loop by (auto simp del: upt_Suc)
qed

text \<open>
  Suspending a card suspends only its last PCM device: after a successful probe with \<open>n\<close> > 1
  PCM devices, \<open>snd_dummy_suspend\<close> suspends the streams of device \<open>n\<close> - 1 and of no other, although
  the probe function created the devices 0 to \<open>n\<close> - 1.
\<close>

theorem suspend_only_last_device:
  assumes "snd_dummy_probe e = (dummy, calls, 0)" and "n = min 4 (nat (pe_pcm_devs e))" and "1 < n"
  shows "fst (snd_dummy_suspend dummy) = [PowerState False, PcmSuspendAll (Some (n - 1))] \<and>
    PcmNew 0 (clamp_substreams (pe_pcm_substreams e)) \<in> set calls"
  using assms(1)
proof (cases rule: probe_cases)
  case (ok mid d)
  note loop = pcm_loop_ok [OF ok(4), folded assms(2)]
  have "sd_pcm dummy = Some (n - 1)"
    using new_mixer_keeps(2) [OF ok(5)] loop assms(3) by simp
  moreover have "PcmNew 0 (clamp_substreams (pe_pcm_substreams e)) \<in> set (filter is_pcm_new mid)"
    using loop assms(3) by simp
  ultimately show ?thesis using ok(1) by (simp add: snd_dummy_suspend_def)
qed simp_all

section \<open>Witnesses\<close>

definition sample_env :: probe_env where
  "sample_env = \<lparr>pe_fake_buffer = False, pe_model = Some ''ac97'', pe_pcm_devs = 2, pe_pcm_substreams = 500,
     pe_card_new = 0, pe_pcm_new = (\<lambda>_. 0), pe_ctl_add = (\<lambda>_. 0), pe_new_access = (\<lambda>a. a), pe_register = 0\<rparr>"

lemma pcm_loop_accepted: "snd (snd (pcm_loop (\<lambda>_. 0) fake idx n s d)) = 0"
  by (induction n arbitrary: idx s d) (simp_all add: Let_def snd_card_dummy_pcm_def case_prod_beta)

lemma sample_probe: "\<exists>dummy calls. snd_dummy_probe sample_env = (dummy, calls, 0)"
proof -
  obtain dummy calls ret where run: "snd_dummy_probe sample_env = (dummy, calls, ret)" by (metis prod_cases3)
  moreover have "ret = 0"
    using run pcm_loop_accepted new_mixer_loop_accepted
    by (auto simp: snd_dummy_probe_def sample_env_def snd_card_dummy_new_mixer_def Let_def
        simp del: pcm_loop.simps new_mixer_loop.simps split: prod.splits if_splits) (metis snd_conv less_irrefl)+
  ultimately show ?thesis by blast
qed

theorem snd_dummy_probe_outcome_witness:
  "\<exists>dummy calls. snd_dummy_probe sample_env = (dummy, calls, 0) \<and>
     filter is_pcm_new calls = [PcmNew 0 128, PcmNew 1 128] \<and> mixer_ok dummy"
proof -
  obtain dummy calls where run: "snd_dummy_probe sample_env = (dummy, calls, 0)" using sample_probe by blast
  have "[0..<2] = [0, Suc 0]" by (simp add: upt_conv_Cons)
  with run snd_dummy_probe_outcome [OF run] show ?thesis by (simp add: sample_env_def clamp_substreams_def)
qed

theorem suspend_only_last_device_witness:
  "\<exists>dummy calls. snd_dummy_probe sample_env = (dummy, calls, 0) \<and>
     fst (snd_dummy_suspend dummy) = [PowerState False, PcmSuspendAll (Some 1)]"
proof -
  obtain dummy calls where run: "snd_dummy_probe sample_env = (dummy, calls, 0)" using sample_probe by blast
  with suspend_only_last_device [OF run refl] show ?thesis by (simp add: sample_env_def)
qed

end
