(* ===== verification/Snd_Module.thy ===== *)
theory Snd_Module
  imports Snd_Card
begin

text \<open>
  The module entry and exit code of \<open>patches/linux/dummy_sound.c\<close>: \<open>free_fake_buffer\<close>,
  \<open>alloc_fake_buffer\<close>, \<open>dummy_pcm_page\<close>, \<open>snd_dummy_unregister_all\<close>, \<open>alsa_card_dummy_init\<close> and
  \<open>alsa_card_dummy_exit\<close>. Each returns the trace of what it acquires and releases. The kernel's
  answers are parameters: whether a page can be had, and what registering a device gives.
\<close>

section \<open>The code\<close>

text \<open>\<open>IoMapping a\<close> is the mapping of the sound registers that a call of \<open>snd_dummy_probe\<close> makes, at the address \<open>a\<close>.\<close>

datatype snd_rsrc = Driver | Device nat | Page nat | IoMapping nat

definition free_fake_buffer :: "bool \<Rightarrow> bool list \<Rightarrow> snd_rsrc rev list \<times> bool list" where
  "free_fake_buffer fake_buffer dummy_page =
     (if fake_buffer
      then (map (\<lambda>i. Rel (Page i)) (filter (\<lambda>i. dummy_page ! i) [0..<2]), [False, False])
      else ([], dummy_page))"

fun alloc_loop ::
  "bool \<Rightarrow> (nat \<Rightarrow> bool) \<Rightarrow> nat list \<Rightarrow> bool list \<Rightarrow> snd_rsrc rev list \<times> bool list \<times> int" where
  "alloc_loop fake_buffer page_ok [] dummy_page = ([], dummy_page, 0)"
| "alloc_loop fake_buffer page_ok (i # is) dummy_page =
     (if \<not> page_ok i
      then let (tr, pages) = free_fake_buffer fake_buffer (dummy_page[i := False]) in (tr, pages, - ENOMEM)
      else let (tr, pages, err) = alloc_loop fake_buffer page_ok is (dummy_page[i := True]) in
        (Acq (Page i) # tr, pages, err))"

definition alloc_fake_buffer ::
  "bool \<Rightarrow> (nat \<Rightarrow> bool) \<Rightarrow> bool list \<Rightarrow> snd_rsrc rev list \<times> bool list \<times> int" where
  "alloc_fake_buffer fake_buffer page_ok dummy_page =
     (if \<not> fake_buffer then ([], dummy_page, 0) else alloc_loop fake_buffer page_ok [0, 1] dummy_page)"

text \<open>The page a stream maps at every offset.\<close>

definition dummy_pcm_page :: "snd_pcm_substream \<Rightarrow> u32 \<Rightarrow> nat" where
  "dummy_pcm_page ss offset = (case ss_stream ss of STREAM_PLAYBACK \<Rightarrow> 0 | STREAM_CAPTURE \<Rightarrow> 1)"

text \<open>\<open>platform_device_register_simple\<close> fails, or the device has no card because its probe failed,
  or it has one. It calls \<open>snd_dummy_probe\<close>, whose first statement maps the sound registers; the argument is the
  address \<open>ioremap_nocache\<close> returned, \<open>None\<close> for NULL.\<close>

datatype reg_result = RegErr | RegNoCard "nat option" | RegCard "nat option"

definition probe_trace :: "nat option \<Rightarrow> snd_rsrc rev list" where
  "probe_trace io_base = (case io_base of None \<Rightarrow> [] | Some a \<Rightarrow> [Acq (IoMapping a)])"

record module_env =
  me_fake_buffer :: bool
  me_page_ok :: "nat \<Rightarrow> bool"
  me_driver_register :: int
  me_enable :: "bool list"
  me_register :: "nat \<Rightarrow> reg_result"

text \<open>The static data of the module: \<open>fake_buffer\<close>, \<open>devices\<close> and \<open>dummy_page\<close>.\<close>

record module_state =
  ms_fake_buffer :: bool
  ms_devices :: "bool list"
  ms_pages :: "bool list"

definition snd_dummy_unregister_all :: "module_state \<Rightarrow> snd_rsrc rev list" where
  "snd_dummy_unregister_all s =
     map (\<lambda>i. Rel (Device i)) (filter (\<lambda>i. ms_devices s ! i) [0..<length (ms_devices s)]) @
     [Rel Driver] @ fst (free_fake_buffer (ms_fake_buffer s) (ms_pages s))"

fun cards_loop ::
  "(nat \<Rightarrow> reg_result) \<Rightarrow> (nat \<times> bool) list \<Rightarrow> bool list \<Rightarrow> nat \<Rightarrow> snd_rsrc rev list \<times> bool list \<times> nat" where
  "cards_loop register [] devices cards = ([], devices, cards)"
| "cards_loop register ((i, enabled) # is) devices cards =
     (if \<not> enabled then cards_loop register is devices cards
      else case register i of
        RegErr \<Rightarrow> cards_loop register is devices cards
      | RegNoCard io_base \<Rightarrow>
          let (tr, r) = cards_loop register is devices cards in
          (Acq (Device i) # probe_trace io_base @ Rel (Device i) # tr, r)
      | RegCard io_base \<Rightarrow>
          let (tr, r) = cards_loop register is (devices[i := True]) (cards + 1) in
          (Acq (Device i) # probe_trace io_base @ tr, r))"

definition alsa_card_dummy_init :: "module_env \<Rightarrow> snd_rsrc rev list \<times> module_state \<times> int" where
  "alsa_card_dummy_init e =
     (let n = length (me_enable e); err = me_driver_register e;
          s = \<lparr>ms_fake_buffer = me_fake_buffer e, ms_devices = replicate n False, ms_pages = [False, False]\<rparr> in
      if err < 0 then ([], s, err)
      else
        let (tr_pages, pages, err) = alloc_fake_buffer (me_fake_buffer e) (me_page_ok e) (ms_pages s);
            s = s\<lparr>ms_pages := pages\<rparr> in
        if err < 0 then (Acq Driver # tr_pages @ [Rel Driver], s, err)
        else
          let (tr_cards, devices, cards) =
                cards_loop (me_register e) (enumerate 0 (me_enable e)) (ms_devices s) 0;
              s = s\<lparr>ms_devices := devices\<rparr>;
              tr = Acq Driver # tr_pages @ tr_cards in
          if cards = 0 then (tr @ snd_dummy_unregister_all s, s, - ENODEV)
          else (tr, s, 0))"

definition alsa_card_dummy_exit :: "module_state \<Rightarrow> snd_rsrc rev list" where
  "alsa_card_dummy_exit s = snd_dummy_unregister_all s"

section \<open>What is held\<close>

definition held_pages :: "bool \<Rightarrow> snd_rsrc set" where
  "held_pages fake = (if fake then {Page 0, Page 1} else {})"

lemma upt_2: "[0..<2] = [0, Suc 0]"
  by (simp add: upt_conv_Cons)

lemma alloc_fake_buffer_trace:
  assumes "alloc_fake_buffer fake ok [False, False] = (tr, pages, err)"
    and "\<And>i. Page i \<notin> H"
  shows "if err < 0 then run_res tr H = Some H
    else run_res tr H = Some (H \<union> held_pages fake) \<and> pages = [fake, fake]"
  using assms
  by (cases fake; cases "ok 0"; cases "ok 1")
    (auto simp: alloc_fake_buffer_def free_fake_buffer_def ENOMEM_def held_pages_def upt_2)

text \<open>The cards that stay registered.\<close>

definition has_card :: "reg_result \<Rightarrow> bool" where
  "has_card r = (case r of RegCard _ \<Rightarrow> True | _ \<Rightarrow> False)"

definition cards_of :: "(nat \<Rightarrow> reg_result) \<Rightarrow> (nat \<times> bool) list \<Rightarrow> nat list" where
  "cards_of register xs = map fst (filter (\<lambda>(i, enabled). enabled \<and> has_card (register i)) xs)"

text \<open>The addresses the probes of the enabled cards map.\<close>

fun probe_map :: "reg_result \<Rightarrow> nat list" where
  "probe_map RegErr = []"
| "probe_map (RegNoCard io_base) = (case io_base of None \<Rightarrow> [] | Some a \<Rightarrow> [a])"
| "probe_map (RegCard io_base) = (case io_base of None \<Rightarrow> [] | Some a \<Rightarrow> [a])"

definition probe_maps :: "(nat \<Rightarrow> reg_result) \<Rightarrow> (nat \<times> bool) list \<Rightarrow> nat list" where
  "probe_maps register xs = concat (map (\<lambda>(i, enabled). if enabled then probe_map (register i) else []) xs)"

lemma cards_loop_result:
  "cards_loop register xs devices cards = (tr, devices', cards') \<Longrightarrow>
   devices' = fold (\<lambda>i d. d[i := True]) (cards_of register xs) devices \<and>
   cards' = cards + length (cards_of register xs)"
proof (induction xs arbitrary: devices cards tr)
  case (Cons x xs)
  obtain i en where "x = (i, en)" by (cases x)
  with Cons.prems Cons.IH [of devices cards] Cons.IH [of "devices[i := True]" "Suc cards"] show ?case
    by (cases "register i") (auto simp: cards_of_def has_card_def Let_def split: if_splits prod.splits)
qed (simp add: cards_of_def)

lemma run_probe_trace:
  "(\<And>a. m = Some a \<Longrightarrow> IoMapping a \<notin> H) \<Longrightarrow>
   run_res (probe_trace m @ tr) H = run_res tr (H \<union> IoMapping ` set (case m of None \<Rightarrow> [] | Some a \<Rightarrow> [a]))"
  by (cases m) (simp_all add: probe_trace_def)

lemma cards_loop_trace:
  "cards_loop register xs devices cards = (tr, r) \<Longrightarrow> distinct (map fst xs) \<Longrightarrow>
   distinct (probe_maps register xs) \<Longrightarrow>
   (\<And>i. i \<in> fst ` set xs \<Longrightarrow> Device i \<notin> H) \<Longrightarrow>
   (\<And>a. a \<in> set (probe_maps register xs) \<Longrightarrow> IoMapping a \<notin> H) \<Longrightarrow>
   run_res tr H = Some (H \<union> Device ` set (cards_of register xs) \<union> IoMapping ` set (probe_maps register xs))"
proof (induction xs arbitrary: devices cards tr r H)
  case (Cons x xs)
  obtain i en where x: "x = (i, en)" by (cases x)
  let ?m = "if en then probe_map (register i) else []"
  have maps: "probe_maps register (x # xs) = ?m @ probe_maps register xs" by (simp add: probe_maps_def x)
  have cards: "cards_of register (x # xs) = (if en \<and> has_card (register i) then [i] else []) @ cards_of register xs"
    by (simp add: cards_of_def x)
  have new: "Device i \<notin> H" and map_new: "\<And>a. a \<in> set ?m \<Longrightarrow> IoMapping a \<notin> H"
    using Cons.prems(4,5) x maps by auto
  have dist: "distinct (map fst xs)" "distinct (probe_maps register xs)"
    using Cons.prems(2,3) maps by auto
  have dev: "Device j \<notin> H \<union> (if c then {Device i} else {}) \<union> IoMapping ` set ?m" if "j \<in> fst ` set xs" for j c
    using Cons.prems(2,4) that x by (auto simp: image_iff split: if_splits)
  have io: "IoMapping a \<notin> H \<union> (if c then {Device i} else {}) \<union> IoMapping ` set ?m"
    if "a \<in> set (probe_maps register xs)" for a c
    using Cons.prems(3,5) that maps by (auto split: if_splits)
  consider "\<not> en \<or> register i = RegErr" | m where "en" "register i = RegNoCard m"
    | m where "en" "register i = RegCard m" by (cases "register i") auto
  then show ?case
  proof cases
    case 1
    then have m: "?m = []" by auto
    have "cards_loop register xs devices cards = (tr, r)" using Cons.prems(1) 1 x by (auto split: if_splits)
    from Cons.IH [OF this dist, of H] dev [of _ False] io [of _ False] show ?thesis
      using 1 m by (auto simp: cards has_card_def maps)
  next
    case (2 m)
    with Cons.prems(1) x obtain tr' where rest: "cards_loop register xs devices cards = (tr', r)"
      "tr = Acq (Device i) # probe_trace m @ Rel (Device i) # tr'"
      by (auto simp: Let_def split: prod.splits)
    have fresh: "\<And>a. m = Some a \<Longrightarrow> IoMapping a \<notin> insert (Device i) H" using map_new 2 by auto
    have "run_res tr H = run_res tr' (H \<union> IoMapping ` set ?m)"
      using new 2 by (auto simp: rest(2) run_probe_trace [OF fresh] Un_Diff insert_Diff_if
          intro!: arg_cong [of _ _ "run_res tr'"] split: option.splits)
    with Cons.IH [OF rest(1) dist, of "H \<union> IoMapping ` set ?m"] dev [of _ False] io [of _ False] show ?thesis
      using 2 by (auto simp: cards has_card_def maps)
  next
    case (3 m)
    with Cons.prems(1) x obtain tr' where rest: "cards_loop register xs (devices[i := True]) (cards + 1) = (tr', r)"
      "tr = Acq (Device i) # probe_trace m @ tr'"
      by (auto simp: Let_def split: prod.splits)
    have fresh: "\<And>a. m = Some a \<Longrightarrow> IoMapping a \<notin> insert (Device i) H" using map_new 3 by auto
    have "run_res tr H = run_res tr' (H \<union> {Device i} \<union> IoMapping ` set ?m)"
      using new 3 by (simp add: rest(2) run_probe_trace [OF fresh])
    with Cons.IH [OF rest(1) dist, of "H \<union> {Device i} \<union> IoMapping ` set ?m"] dev [of _ True] io [of _ True]
    show ?thesis using 3 by (auto simp: cards has_card_def maps)
  qed
qed (simp add: cards_of_def probe_maps_def)

lemma nth_update_True: "i < length d \<Longrightarrow> d[a := True] ! i = (i = a \<or> d ! i)"
  by (cases "i = a") auto

lemma fold_set_nth:
  "i < length d \<Longrightarrow> fold (\<lambda>i d. d[i := True]) is d ! i = (i \<in> set is \<or> d ! i)"
  by (induction "is" arbitrary: d) (auto simp: nth_update_True)

lemma length_fold_set [simp]: "length (fold (\<lambda>i d. d[i := True]) is d) = length d"
  by (induction "is" arbitrary: d) auto

lemma cards_of_bound: "set (cards_of register (enumerate 0 en)) \<subseteq> {..<length en}"
  by (auto simp: cards_of_def in_set_enumerate_eq)

lemma unregister_trace:
  assumes "ms_devices s = fold (\<lambda>i d. d[i := True]) cs (replicate n False)" "set cs \<subseteq> {..<n}"
    and "ms_pages s = [ms_fake_buffer s, ms_fake_buffer s]"
  shows "run_res (snd_dummy_unregister_all s) ({Driver} \<union> held_pages (ms_fake_buffer s) \<union> Device ` set cs) = Some {}"
proof -
  let ?H = "{Driver} \<union> held_pages (ms_fake_buffer s) \<union> Device ` set cs"
  let ?is = "filter (\<lambda>i. ms_devices s ! i) [0..<length (ms_devices s)]"
  have "set ?is = set cs" using assms(1,2) by (auto simp: fold_set_nth)
  then have set_is: "set (map Device ?is) = Device ` set cs" by simp
  have "distinct (map Device ?is)" by (simp add: distinct_map inj_on_def)
  then have "run_res (map Rel (map Device ?is)) ?H = Some (?H - Device ` set cs)"
    using run_res_Rel_map [of "map Device ?is" ?H] set_is by auto
  moreover have "?H - Device ` set cs = {Driver} \<union> held_pages (ms_fake_buffer s)"
    by (auto simp: held_pages_def)
  moreover have "run_res ([Rel Driver] @ fst (free_fake_buffer (ms_fake_buffer s) (ms_pages s)))
      ({Driver} \<union> held_pages (ms_fake_buffer s)) = Some {}"
    by (cases "ms_fake_buffer s") (auto simp: free_fake_buffer_def assms(3) held_pages_def upt_2)
  ultimately show ?thesis by (simp add: snd_dummy_unregister_all_def run_res_append o_def)
qed

lemma unregister_keeps:
  assumes "ms_devices s = fold (\<lambda>i d. d[i := True]) cs (replicate n False)" "set cs \<subseteq> {..<n}"
    and "ms_pages s = [ms_fake_buffer s, ms_fake_buffer s]"
  shows "run_res (snd_dummy_unregister_all s)
      ({Driver} \<union> held_pages (ms_fake_buffer s) \<union> Device ` set cs \<union> IoMapping ` A) = Some (IoMapping ` A)"
proof -
  have "acquired (snd_dummy_unregister_all s) = {}"
    by (auto simp: acquired_def snd_dummy_unregister_all_def free_fake_buffer_def split: if_splits)
  moreover have "({Driver} \<union> held_pages (ms_fake_buffer s) \<union> Device ` set cs) \<inter> IoMapping ` A = {}"
    by (auto simp: held_pages_def)
  ultimately show ?thesis using run_res_frame [OF unregister_trace [OF assms], of "IoMapping ` A"] by simp
qed

text \<open>
  What a load leaves behind: nothing when it ends before the cards are looked for, and else the registers mapped
  by every probe, since no code of the driver unmaps them.
\<close>

definition pages_missing :: "module_env \<Rightarrow> bool" where
  "pages_missing e \<longleftrightarrow> me_fake_buffer e \<and> \<not> (me_page_ok e 0 \<and> me_page_ok e 1)"

definition snd_leaks :: "module_env \<Rightarrow> snd_rsrc list" where
  "snd_leaks e =
     (if me_driver_register e < 0 \<or> pages_missing e then []
      else map IoMapping (probe_maps (me_register e) (enumerate 0 (me_enable e))))"

lemma alloc_fails_iff: "snd (snd (alloc_fake_buffer fake ok pages)) < 0 \<longleftrightarrow> fake \<and> \<not> (ok 0 \<and> ok 1)"
  by (cases fake; cases "ok 0"; cases "ok 1")
    (auto simp: alloc_fake_buffer_def free_fake_buffer_def ENOMEM_def split: prod.splits)

lemma init_trace:
  assumes "alsa_card_dummy_init e = (tr, s, ret)" and dist: "distinct (snd_leaks e)"
  defines "cs \<equiv> cards_of (me_register e) (enumerate 0 (me_enable e))"
  shows "if ret = 0
    then run_res tr {} = Some ({Driver} \<union> held_pages (me_fake_buffer e) \<union> Device ` set cs \<union> set (snd_leaks e)) \<and>
      ms_fake_buffer s = me_fake_buffer e \<and> ms_pages s = [ms_fake_buffer s, ms_fake_buffer s] \<and>
      ms_devices s = fold (\<lambda>i d. d[i := True]) cs (replicate (length (me_enable e)) False)
    else run_res tr {} = Some (set (snd_leaks e))"
proof -
  let ?fake = "me_fake_buffer e" and ?n = "length (me_enable e)"
  let ?io = "probe_maps (me_register e) (enumerate 0 (me_enable e))"
  obtain tp pages err where alloc: "alloc_fake_buffer ?fake (me_page_ok e) [False, False] = (tp, pages, err)"
    by (metis prod_cases3)
  obtain tc devices cards where
    loop: "cards_loop (me_register e) (enumerate 0 (me_enable e)) (replicate ?n False) 0 = (tc, devices, cards)"
    by (metis prod_cases3)
  let ?s = "\<lparr>ms_fake_buffer = ?fake, ms_devices = devices, ms_pages = pages\<rparr>"
  note res = cards_loop_result [OF loop, folded cs_def]
  have err: "err < 0 \<longleftrightarrow> pages_missing e"
    using alloc_fails_iff [of ?fake "me_page_ok e" "[False, False]"] alloc by (simp add: pages_missing_def)
  have tp: "if err < 0 then run_res tp {Driver} = Some {Driver}
      else run_res tp {Driver} = Some ({Driver} \<union> held_pages ?fake) \<and> pages = [?fake, ?fake]"
    using alloc_fake_buffer_trace [OF alloc, of "{Driver}"] by simp
  have tc: "run_res tc ({Driver} \<union> held_pages ?fake)
      = Some ({Driver} \<union> held_pages ?fake \<union> Device ` set cs \<union> IoMapping ` set ?io)" if "distinct ?io"
    unfolding cs_def by (rule cards_loop_trace [OF loop _ that])
      (auto simp: held_pages_def simp flip: distinct_map)
  consider "me_driver_register e < 0" | "0 \<le> me_driver_register e" "err < 0" | "0 \<le> me_driver_register e" "0 \<le> err"
    by linarith
  then show ?thesis
  proof cases
    case 1
    then show ?thesis using assms(1) by (auto simp: alsa_card_dummy_init_def snd_leaks_def Let_def)
  next
    case 2
    then show ?thesis using assms(1) alloc tp err
      by (auto simp: alsa_card_dummy_init_def snd_leaks_def Let_def run_res_append)
  next
    case 3
    then have leaks: "snd_leaks e = map IoMapping ?io" using err by (simp add: snd_leaks_def)
    then have "distinct ?io" using dist by (simp add: distinct_map)
    note tc = tc [OF this]
    from 3 have run: "alsa_card_dummy_init e = (let tr = Acq Driver # tp @ tc in
        if cards = 0 then (tr @ snd_dummy_unregister_all ?s, ?s, - ENODEV) else (tr, ?s, 0))"
      using alloc loop by (simp add: alsa_card_dummy_init_def Let_def)
    have held: "run_res (Acq Driver # tp @ tc) {}
        = Some ({Driver} \<union> held_pages ?fake \<union> Device ` set cs \<union> set (snd_leaks e))"
      using tp tc 3 leaks by (simp add: run_res_append)
    have "run_res (snd_dummy_unregister_all ?s)
        ({Driver} \<union> held_pages ?fake \<union> Device ` set cs \<union> set (snd_leaks e)) = Some (set (snd_leaks e))"
      using unregister_keeps [of ?s cs ?n "set ?io"] res tp 3 cards_of_bound [of "me_register e" "me_enable e"] leaks
      by (simp add: cs_def)
    then show ?thesis
      using assms(1) run held res tp 3 by (auto simp: Let_def run_res_append ENODEV_def split: if_splits)
  qed
qed

interpretation snd_module: resource_driver alsa_card_dummy_init alsa_card_dummy_exit
  "\<lambda>e. distinct (snd_leaks e)" snd_leaks
proof unfold_locales
  fix e tr s and ret :: int
  assume "distinct (snd_leaks e)" "alsa_card_dummy_init e = (tr, s, ret)" "ret \<noteq> 0"
  then show "run_res tr {} = Some (set (snd_leaks e))" using init_trace by fastforce
next
  fix e tr s
  assume dist: "distinct (snd_leaks e)" and run: "alsa_card_dummy_init e = (tr, s, 0)"
  have "set (snd_leaks e) = IoMapping ` {a. IoMapping a \<in> set (snd_leaks e)}"
    by (auto simp: snd_leaks_def)
  with init_trace [OF run dist] show "run_res (tr @ alsa_card_dummy_exit s) {} = Some (set (snd_leaks e))"
    using unregister_keeps [of s "cards_of (me_register e) (enumerate 0 (me_enable e))" _
        "{a. IoMapping a \<in> set (snd_leaks e)}"] cards_of_bound
    by (simp add: run_res_append alsa_card_dummy_exit_def)
qed

end
