(* ===== verification/Snd_Proc.thy ===== *)
theory Snd_Proc
  imports Snd_Card
begin

text \<open>
  The proc interface of \<open>patches/linux/dummy_sound.c\<close> (\<open>CONFIG_SND_DEBUG\<close>): \<open>print_formats\<close>,
  \<open>print_rates\<close>, the table \<open>fields\<close>, \<open>dummy_proc_read\<close> and \<open>dummy_proc_write\<close>. A field is a name
  instead of an offset into \<open>pcm_hw\<close>. \<open>snd_info_get_line\<close> has already split the input into lines;
  \<open>snd_info_get_str\<close>, \<open>kstrtoull\<close> and \<open>snd_pcm_format_name\<close> are parameters.
\<close>

unbundle bit_operations_syntax

section \<open>The code\<close>

datatype hw_field =
  F_formats | F_rates | F_rate_min | F_rate_max | F_channels_min | F_channels_max |
  F_buffer_bytes_max | F_period_bytes_min | F_period_bytes_max | F_periods_min | F_periods_max

fun field_name :: "hw_field \<Rightarrow> string" where
  "field_name F_formats = ''formats''"
| "field_name F_rates = ''rates''"
| "field_name F_rate_min = ''rate_min''"
| "field_name F_rate_max = ''rate_max''"
| "field_name F_channels_min = ''channels_min''"
| "field_name F_channels_max = ''channels_max''"
| "field_name F_buffer_bytes_max = ''buffer_bytes_max''"
| "field_name F_period_bytes_min = ''period_bytes_min''"
| "field_name F_period_bytes_max = ''period_bytes_max''"
| "field_name F_periods_min = ''periods_min''"
| "field_name F_periods_max = ''periods_max''"

text \<open>\<open>sizeof\<close> the member, on the 32-bit kernel.\<close>

fun hw_field_size :: "hw_field \<Rightarrow> nat" where
  "hw_field_size F_formats = 8"
| "hw_field_size _ = 4"

definition fields :: "hw_field list" where
  "fields = [F_formats, F_rates, F_rate_min, F_rate_max, F_channels_min, F_channels_max,
     F_buffer_bytes_max, F_period_bytes_min, F_period_bytes_max, F_periods_min, F_periods_max]"

text \<open>Reading and writing a member through \<open>get_dummy_int_ptr\<close> or \<open>get_dummy_ll_ptr\<close>.\<close>

fun hw_get :: "hw_field \<Rightarrow> snd_pcm_hardware \<Rightarrow> 64 word" where
  "hw_get F_formats hw = hw_formats hw"
| "hw_get F_rates hw = ucast (hw_rates hw)"
| "hw_get F_rate_min hw = ucast (hw_rate_min hw)"
| "hw_get F_rate_max hw = ucast (hw_rate_max hw)"
| "hw_get F_channels_min hw = ucast (hw_channels_min hw)"
| "hw_get F_channels_max hw = ucast (hw_channels_max hw)"
| "hw_get F_buffer_bytes_max hw = ucast (hw_buffer_bytes_max hw)"
| "hw_get F_period_bytes_min hw = ucast (hw_period_bytes_min hw)"
| "hw_get F_period_bytes_max hw = ucast (hw_period_bytes_max hw)"
| "hw_get F_periods_min hw = ucast (hw_periods_min hw)"
| "hw_get F_periods_max hw = ucast (hw_periods_max hw)"

fun hw_set :: "hw_field \<Rightarrow> 64 word \<Rightarrow> snd_pcm_hardware \<Rightarrow> snd_pcm_hardware" where
  "hw_set F_formats v hw = hw\<lparr>hw_formats := v\<rparr>"
| "hw_set F_rates v hw = hw\<lparr>hw_rates := ucast v\<rparr>"
| "hw_set F_rate_min v hw = hw\<lparr>hw_rate_min := ucast v\<rparr>"
| "hw_set F_rate_max v hw = hw\<lparr>hw_rate_max := ucast v\<rparr>"
| "hw_set F_channels_min v hw = hw\<lparr>hw_channels_min := ucast v\<rparr>"
| "hw_set F_channels_max v hw = hw\<lparr>hw_channels_max := ucast v\<rparr>"
| "hw_set F_buffer_bytes_max v hw = hw\<lparr>hw_buffer_bytes_max := ucast v\<rparr>"
| "hw_set F_period_bytes_min v hw = hw\<lparr>hw_period_bytes_min := ucast v\<rparr>"
| "hw_set F_period_bytes_max v hw = hw\<lparr>hw_period_bytes_max := ucast v\<rparr>"
| "hw_set F_periods_min v hw = hw\<lparr>hw_periods_min := ucast v\<rparr>"
| "hw_set F_periods_max v hw = hw\<lparr>hw_periods_max := ucast v\<rparr>"

definition print_formats :: "(nat \<Rightarrow> string) \<Rightarrow> nat \<Rightarrow> snd_pcm_hardware \<Rightarrow> string" where
  "print_formats format_name format_last hw =
     concat (map (\<lambda>i. if hw_formats hw AND push_bit i 1 \<noteq> 0 then CHR '' '' # format_name i else [])
       [0..<format_last])"

definition proc_rates :: "nat list" where
  "proc_rates = [5512, 8000, 11025, 16000, 22050, 32000, 44100, 48000, 64000, 88200, 96000, 176400, 192000]"

definition print_rates :: "snd_pcm_hardware \<Rightarrow> string" where
  "print_rates hw =
     (if hw_rates hw AND 0x40000000 \<noteq> 0 then '' continuous'' else []) @
     (if hw_rates hw AND 0x80000000 \<noteq> 0 then '' knot'' else []) @
     concat (map (\<lambda>(i, r). if hw_rates hw AND push_bit i 1 \<noteq> 0 then CHR '' '' # nat_digits 10 r else [])
       (enumerate 0 proc_rates))"

fun hex_digits :: "nat \<Rightarrow> string" where
  "hex_digits n =
     (let d = \<lambda>k. char_of (if k < 10 then 48 + k else 87 + k) in
      if n < 16 then [d n] else hex_digits (n div 16) @ [d (n mod 16)])"

declare hex_digits.simps [simp del]

definition fmt_hash_x :: "64 word \<Rightarrow> string" where
  "fmt_hash_x v = (if v = 0 then ''0'' else ''0x'' @ hex_digits (unat v))"

fun field_format :: "hw_field \<Rightarrow> 64 word \<Rightarrow> string" where
  "field_format F_formats v = fmt_hash_x v"
| "field_format F_rates v = fmt_hash_x v"
| "field_format _ v = fmt_i (sint (ucast v :: u32))"

definition dummy_proc_read :: "(nat \<Rightarrow> string) \<Rightarrow> nat \<Rightarrow> snd_pcm_hardware \<Rightarrow> string" where
  "dummy_proc_read format_name format_last hw =
     concat (map (\<lambda>f. field_name f @ '' '' @ field_format f (hw_get f hw) @
       (if field_name f = ''formats'' then print_formats format_name format_last hw
        else if field_name f = ''rates'' then print_rates hw else []) @ [CHR 0x0A]) fields)"

definition proc_write_line ::
  "(string \<Rightarrow> nat \<Rightarrow> string \<times> string) \<Rightarrow> (string \<Rightarrow> 64 word option) \<Rightarrow> string \<Rightarrow> snd_pcm_hardware
   \<Rightarrow> snd_pcm_hardware" where
  "proc_write_line get_str kstrtoull line hw =
     (let (item, ptr) = get_str line 20 in
      case find (\<lambda>f. item = field_name f) fields of
        None \<Rightarrow> hw
      | Some f \<Rightarrow> (case kstrtoull (fst (get_str ptr 20)) of None \<Rightarrow> hw | Some v \<Rightarrow> hw_set f v hw))"

definition dummy_proc_write ::
  "(string \<Rightarrow> nat \<Rightarrow> string \<times> string) \<Rightarrow> (string \<Rightarrow> 64 word option) \<Rightarrow> string list \<Rightarrow> snd_dummy \<Rightarrow> snd_dummy" where
  "dummy_proc_write get_str kstrtoull lines dummy =
     fold (\<lambda>line d. d\<lparr>sd_pcm_hw := proc_write_line get_str kstrtoull line (sd_pcm_hw d)\<rparr>) lines dummy"

section \<open>Correctness\<close>

lemma find_field: "find (\<lambda>f. item = field_name f) fields = Some f \<longleftrightarrow> item = field_name f"
  by (cases f) (auto simp: fields_def)

lemma find_no_field: "find (\<lambda>f. item = field_name f) fields = None \<longleftrightarrow> (\<forall>f. item \<noteq> field_name f)"
proof
  assume none: "find (\<lambda>f. item = field_name f) fields = None"
  show "\<forall>f. item \<noteq> field_name f"
  proof
    fix f show "item \<noteq> field_name f" using none find_field [of item f] by auto
  qed
qed (auto simp: find_None_iff)

lemma ucast_down_up: "ucast (ucast v :: u32) = (take_bit 32 v :: 64 word)"
  by (rule bit_word_eqI) (auto simp: bit_simps)

lemma hw_get_set:
  "hw_get g (hw_set f v hw) = (if g = f then take_bit (8 * hw_field_size f) v else hw_get g hw)"
  by (cases f; cases g) (simp_all add: ucast_down_up take_bit_word_eq_self)

text \<open>
  Writing to the proc file: a line whose words are a field's name and a number stores the
  number in that field, cut to the field's width, and changes no other; a line with an unknown name
  or without a number changes nothing.
\<close>

theorem proc_write_line_sets:
  assumes "get_str line 20 = (item, ptr)" and "kstrtoull (fst (get_str ptr 20)) = val"
  shows "hw_get g (proc_write_line get_str kstrtoull line hw) =
    (case val of
       Some v \<Rightarrow> if item = field_name g then take_bit (8 * hw_field_size g) v else hw_get g hw
     | None \<Rightarrow> hw_get g hw)"
proof (cases "find (\<lambda>f. item = field_name f) fields")
  case None
  then show ?thesis using assms find_no_field [of item]
    by (auto simp: proc_write_line_def split: option.splits)
next
  case (Some f)
  then have "item = field_name g \<longleftrightarrow> g = f" for g
    using find_field [of item f] find_field [of item g] by auto
  then show ?thesis using assms Some
    by (auto simp: proc_write_line_def hw_get_set split: option.splits)
qed

definition sample_get_str :: "string \<Rightarrow> nat \<Rightarrow> string \<times> string" where
  "sample_get_str line n =
     (take (n - 1) (takeWhile (\<lambda>c. c \<noteq> CHR '' '') line), drop 1 (dropWhile (\<lambda>c. c \<noteq> CHR '' '') line))"

theorem proc_write_line_sets_witness:
  "hw_get F_rate_max (proc_write_line sample_get_str (\<lambda>s. if s = ''96000'' then Some 96000 else None)
     ''rate_max 96000'' dummy_pcm_hardware) = 96000"
proof -
  let ?k = "\<lambda>s. if s = ''96000'' then Some 96000 else None"
  have "sample_get_str ''rate_max 96000'' 20 = (''rate_max'', ''96000'')"
    "?k (fst (sample_get_str ''96000'' 20)) = Some 96000" by (simp_all add: sample_get_str_def)
  then show ?thesis
    using proc_write_line_sets [of sample_get_str "''rate_max 96000''" "''rate_max''" "''96000''" ?k
        "Some 96000" F_rate_max dummy_pcm_hardware] by simp
qed

end
