(* ===== verification/Kbd.thy ===== *)
theory Kbd
  imports Resources
begin

text \<open>
  \<open>patches/linux/opencores-kbd.c\<close>, the keyboard driver: the interrupt handler
  \<open>opencores_kbd_isr\<close>, \<open>opencores_kbd_probe\<close> and \<open>opencores_kbd_remove\<close>. The byte the handler reads
  from the controller is its argument, and what it tells the input layer is a list of events; the
  input layer itself is a parameter. The probe function returns the trace of what it acquires and releases, in the order of the code, with
  its \<open>goto\<close> chain as nested cleanups; the kernel's answers are parameters.
\<close>

unbundle bit_operations_syntax

section \<open>The code\<close>

datatype input_event = ReportKey nat int | InputSync

definition opencores_kbd_isr :: "8 word \<Rightarrow> input_event list" where
  "opencores_kbd_isr c = [ReportKey (unat (c AND 0x7F)) (if c AND 0x80 \<noteq> 0 then 0 else 1), InputSync]"

text \<open>The driver's data after probing; \<open>kb_keybit\<close> are the keys the input device announces.\<close>

record opencores_kbd =
  kb_irq :: int
  kb_keycodes :: "16 word list"
  kb_keybit :: "nat set"
  kb_keycodesize :: nat
  kb_keycodemax :: nat

datatype kbd_rsrc = KbdMem | InputDev | MemRegion | IoMap | Irq | InputRegistered

record kbd_env =
  ke_has_res :: bool
  ke_irq :: int
  ke_kzalloc :: bool
  ke_input :: bool
  ke_region :: bool
  ke_ioremap :: bool
  ke_request_irq :: int
  ke_register :: int

definition KEY_RESERVED :: nat where "KEY_RESERVED = 0"

fun set_keybits :: "16 word list \<Rightarrow> nat set \<Rightarrow> nat set" where
  "set_keybits [] bits = bits"
| "set_keybits (k # ks) bits = set_keybits ks (insert (unat k) bits)"

definition kbd_setup :: "int \<Rightarrow> opencores_kbd" where
  "kbd_setup irq =
     (let codes = map of_nat [0..<128] in
      \<lparr>kb_irq = irq, kb_keycodes = codes, kb_keybit = set_keybits codes {} - {KEY_RESERVED},
       kb_keycodesize = 2, kb_keycodemax = length codes\<rparr>)"

definition kbd_alloc :: "kbd_env \<Rightarrow> kbd_rsrc list" where
  "kbd_alloc e = (if ke_kzalloc e then [KbdMem] else []) @ (if ke_input e then [InputDev] else [])"

text \<open>\<open>err_free_mem\<close>: freeing NULL does nothing.\<close>

definition err_free_mem :: "kbd_env \<Rightarrow> kbd_rsrc rev list" where
  "err_free_mem e = (if ke_input e then [Rel InputDev] else []) @ (if ke_kzalloc e then [Rel KbdMem] else [])"

definition opencores_kbd_probe :: "kbd_env \<Rightarrow> kbd_rsrc rev list \<times> opencores_kbd \<times> int" where
  "opencores_kbd_probe e =
     (let kbd = kbd_setup (ke_irq e); mem = map Acq (kbd_alloc e) in
      if \<not> ke_has_res e then ([], kbd, -22)
      else if ke_irq e < 0 then ([], kbd, -22)
      else if \<not> ke_kzalloc e \<or> \<not> ke_input e then (mem @ err_free_mem e, kbd, -12)
      else if \<not> ke_region e then (mem @ err_free_mem e, kbd, -16)
      else if \<not> ke_ioremap e then
        (mem @ [Acq MemRegion] @ [Rel MemRegion] @ err_free_mem e, kbd, -6)
      else if ke_request_irq e \<noteq> 0 then
        (mem @ [Acq MemRegion, Acq IoMap] @ [Rel IoMap, Rel MemRegion] @ err_free_mem e, kbd, ke_request_irq e)
      else if ke_register e \<noteq> 0 then
        (mem @ [Acq MemRegion, Acq IoMap, Acq Irq] @ [Rel Irq, Rel IoMap, Rel MemRegion] @ err_free_mem e,
         kbd, ke_register e)
      else (mem @ [Acq MemRegion, Acq IoMap, Acq Irq, Acq InputRegistered], kbd, 0))"

text \<open>\<open>input_unregister_device\<close> also drops the input device itself.\<close>

definition opencores_kbd_remove :: "opencores_kbd \<Rightarrow> kbd_rsrc rev list" where
  "opencores_kbd_remove kbd =
     [Rel Irq, Rel IoMap, Rel MemRegion, Rel InputRegistered, Rel InputDev, Rel KbdMem]"

section \<open>Key events\<close>

text \<open>What the controller sends for a key: its scan code, with the top bit set on release.\<close>

definition scan_byte :: "nat \<Rightarrow> bool \<Rightarrow> 8 word" where
  "scan_byte key pressed = of_nat key OR (if pressed then 0 else 0x80)"

definition apply_key :: "nat \<times> bool \<Rightarrow> nat set \<Rightarrow> nat set" where
  "apply_key = (\<lambda>(key, pressed) down. if pressed then insert key down else down - {key})"

text \<open>
  The input layer of the kernel, with a state of its own: what \<open>input_report_key\<close> and \<open>input_sync\<close> do,
  and the keys that are down for its users. Documented of it is that a key event counts when the
  device announced the key in \<open>keybit\<close> and is dropped otherwise.
\<close>

record 's input_layer =
  il_report_key :: "nat \<Rightarrow> int \<Rightarrow> 's \<Rightarrow> 's"
  il_sync :: "'s \<Rightarrow> 's"
  il_down :: "'s \<Rightarrow> nat set"

definition honours_keybit :: "nat set \<Rightarrow> 's input_layer \<Rightarrow> bool" where
  "honours_keybit keybit il \<longleftrightarrow>
     (\<forall>key s. il_down il (il_report_key il key 1 s) = (if key \<in> keybit then insert key (il_down il s) else il_down il s)
           \<and> il_down il (il_report_key il key 0 s) = (if key \<in> keybit then il_down il s - {key} else il_down il s))
   \<and> (\<forall>s. il_down il (il_sync il s) = il_down il s)"

fun deliver :: "'s input_layer \<Rightarrow> input_event list \<Rightarrow> 's \<Rightarrow> 's" where
  "deliver il [] s = s"
| "deliver il (ReportKey key v # evs) s = deliver il evs (il_report_key il key v s)"
| "deliver il (InputSync # evs) s = deliver il evs (il_sync il s)"

text \<open>The driver with the input layer behind it: one interrupt per byte.\<close>

definition kbd_interrupts :: "'s input_layer \<Rightarrow> 8 word list \<Rightarrow> 's \<Rightarrow> 's" where
  "kbd_interrupts il cs s = deliver il (concat (map opencores_kbd_isr cs)) s"

lemma deliver_append: "deliver il (as @ bs) s = deliver il bs (deliver il as s)"
  by (induction il as s rule: deliver.induct) auto

lemma bit_0x80: "bit (0x80 :: 8 word) i \<longleftrightarrow> i = 7"
proof -
  have "(0x80 :: 8 word) = 2 ^ 7" by simp
  then show ?thesis by (simp only: bit_exp_iff) (auto simp: possible_bit_def)
qed

lemma bit_0x7F: "bit (0x7F :: 8 word) i \<longleftrightarrow> i < 7"
proof -
  have "(0x7F :: 8 word) = mask 7" by (simp add: mask_eq_exp_minus_1)
  then show ?thesis by (simp only: bit_mask_iff) (auto simp: possible_bit_def)
qed

lemma small_high_bits: "key < 128 \<Longrightarrow> bit (of_nat key :: 8 word) i \<Longrightarrow> i < 7" for key :: nat
proof -
  assume "key < 128" "bit (of_nat key :: 8 word) i"
  then have "take_bit 7 key = key" "bit key i" by (simp_all add: take_bit_nat_eq_self bit_simps)
  then show ?thesis by (metis bit_take_bit_iff)
qed

lemma bit_scan_byte: "bit (scan_byte key pressed) i \<longleftrightarrow> bit (of_nat key :: 8 word) i \<or> \<not> pressed \<and> i = 7"
  unfolding scan_byte_def
  by (cases pressed) (simp_all only: if_True if_False bit_or_iff bit_0x80 bit_0_eq bot_apply bot_bool_def simp_thms)

lemma isr_scan_byte:
  assumes "key < 128"
  shows "opencores_kbd_isr (scan_byte key pressed) = [ReportKey key (if pressed then 1 else 0), InputSync]"
proof -
  note high = small_high_bits [OF assms]
  have "scan_byte key pressed AND 0x7F = of_nat key"
    by (rule bit_word_eqI) (use high in \<open>auto simp only: bit_and_iff bit_0x7F bit_scan_byte\<close>)
  moreover have "unat (of_nat key :: 8 word) = key" using assms by (simp add: unat_of_nat)
  moreover have "scan_byte key pressed AND 0x80 = (if pressed then 0 else 0x80)"
    by (rule bit_word_eqI, cases pressed)
      (use high in \<open>auto simp only: bit_and_iff bit_0x80 bit_scan_byte if_True if_False bit_0_eq
          bot_apply bot_bool_def\<close>)
  ultimately show ?thesis by (simp add: opencores_kbd_isr_def)
qed

lemma set_keybits_eq: "set_keybits ks bits = bits \<union> unat ` set ks"
  by (induction ks arbitrary: bits) auto

lemma keybit_setup: "kb_keybit (kbd_setup irq) = {1..127}"
proof -
  have "unat ` set (map of_nat [0..<128] :: 16 word list) = (\<lambda>i. i) ` {0..<128}"
    unfolding set_map set_upt image_image by (rule image_cong) (simp_all add: unat_of_nat)
  then have "set_keybits (map of_nat [0..<128]) {} = {0..<128}"
    unfolding set_keybits_eq by (simp only: Un_empty_left image_ident)
  then have "kb_keybit (kbd_setup irq) = {0..<128} - {0}"
    by (simp only: kbd_setup_def Let_def opencores_kbd.select_convs KEY_RESERVED_def)
  moreover have "i \<in> {0..<128} - {0} \<longleftrightarrow> i \<in> {1..127}" for i :: nat
    unfolding Diff_iff atLeastLessThan_iff atLeastAtMost_iff singleton_iff by arith
  ultimately show ?thesis by blast
qed

lemma probe_keybit: "opencores_kbd_probe e = (tr, kbd, ret) \<Longrightarrow> kb_keybit kbd = {1..127}"
  by (auto simp: opencores_kbd_probe_def Let_def keybit_setup split: if_splits)

lemma interrupts_track:
  assumes "honours_keybit {1..127} il"
  shows "(\<forall>(key, pressed) \<in> set evs. key < 128) \<Longrightarrow>
    il_down il (kbd_interrupts il (map (\<lambda>(key, pressed). scan_byte key pressed) evs) s)
      = fold apply_key (filter (\<lambda>(key, pressed). key \<noteq> KEY_RESERVED) evs) (il_down il s)"
proof (induction evs arbitrary: s)
  case (Cons ev evs)
  obtain key pressed where ev: "ev = (key, pressed)" by (cases ev)
  then have key: "key < 128" using Cons.prems by simp
  let ?s = "deliver il (opencores_kbd_isr (scan_byte key pressed)) s"
  have "il_down il ?s = (if key \<noteq> KEY_RESERVED then apply_key ev (il_down il s) else il_down il s)"
    using assms key by (cases pressed) (auto simp: isr_scan_byte ev honours_keybit_def apply_key_def KEY_RESERVED_def)
  moreover have "kbd_interrupts il (map (\<lambda>(key, pressed). scan_byte key pressed) (ev # evs)) s
      = kbd_interrupts il (map (\<lambda>(key, pressed). scan_byte key pressed) evs) ?s"
    by (simp add: kbd_interrupts_def deliver_append ev)
  ultimately show ?case using Cons.IH [of ?s] Cons.prems by (simp add: ev)
qed (simp add: kbd_interrupts_def)

text \<open>
  C12. The keyboard loses and invents nothing: when the probe succeeded, and the input layer honours
  the keys the driver announced in \<open>keybit\<close>, then for every sequence of key presses and releases with
  scan codes below 128 the keys from 1 to 127 the input layer has down after one interrupt per byte
  are exactly those that are down; the code 0, \<open>KEY_RESERVED\<close>, which the driver took out of \<open>keybit\<close>,
  never counts.
\<close>

theorem kbd_tracks_keys:
  assumes "opencores_kbd_probe e = (tr, kbd, 0)" and "honours_keybit (kb_keybit kbd) il"
    and "\<forall>(key, pressed) \<in> set evs. key < 128"
  shows "il_down il (kbd_interrupts il (map (\<lambda>(key, pressed). scan_byte key pressed) evs) s)
    = fold apply_key (filter (\<lambda>(key, pressed). key \<noteq> KEY_RESERVED) evs) (il_down il s)"
  using assms(2,3) probe_keybit [OF assms(1)] by (simp add: interrupts_track)

text \<open>A set of keys as an input layer.\<close>

definition key_set :: "nat set input_layer" where
  "key_set = \<lparr>il_report_key = (\<lambda>key v down. if 1 \<le> key \<and> key \<le> 127 then if v \<noteq> 0 then insert key down else down - {key} else down),
     il_sync = (\<lambda>down. down), il_down = (\<lambda>down. down)\<rparr>"

definition kbd_found :: kbd_env where
  "kbd_found = \<lparr>ke_has_res = True, ke_irq = 5, ke_kzalloc = True, ke_input = True, ke_region = True,
     ke_ioremap = True, ke_request_irq = 0, ke_register = 0\<rparr>"

theorem kbd_tracks_keys_witness:
  "il_down key_set (kbd_interrupts key_set
     (map (\<lambda>(key, pressed). scan_byte key pressed) [(30, True), (0, True), (42, True), (30, False)]) {}) = {42}"
proof -
  obtain tr kbd where p: "opencores_kbd_probe kbd_found = (tr, kbd, 0)"
    by (simp add: opencores_kbd_probe_def kbd_found_def)
  have "honours_keybit (kb_keybit kbd) key_set"
    unfolding probe_keybit [OF p] by (auto simp: honours_keybit_def key_set_def)
  note run = kbd_tracks_keys [OF p this, of "[(30, True), (0, True), (42, True), (30, False)]" "{}"]
  have "fold apply_key (filter (\<lambda>(key, pressed). key \<noteq> KEY_RESERVED)
      [(30, True), (0, True), (42, True), (30, False)]) (il_down key_set {}) = {42}"
    by (auto simp: apply_key_def KEY_RESERVED_def key_set_def)
  with run show ?thesis by (simp only: list.set ball_simps prod.case) simp
qed

section \<open>Probe and remove\<close>

interpretation kbd_driver: resource_driver opencores_kbd_probe opencores_kbd_remove "\<lambda>_. True" "\<lambda>_. []"
proof unfold_locales
  fix e tr s and ret :: int
  assume "opencores_kbd_probe e = (tr, s, ret)" "ret \<noteq> 0"
  then show "run_res tr {} = Some (set [])"
    by (auto simp: opencores_kbd_probe_def Let_def kbd_alloc_def err_free_mem_def split: if_splits)
next
  fix e tr s
  assume "opencores_kbd_probe e = (tr, s, 0)"
  then show "run_res (tr @ opencores_kbd_remove s) {} = Some (set [])"
    by (auto simp: opencores_kbd_probe_def Let_def kbd_alloc_def opencores_kbd_remove_def split: if_splits)
qed

end
