(* ===== verification/Virt_Snd.thy ===== *)
theory Virt_Snd
  imports Snd_Stream Resources
begin

text \<open>
  \<open>patches/linux/fsi.c\<close>, the virtual sound device: register access, \<open>virt_pcm_open\<close>,
  \<open>virt_pcm_hw_params\<close>, \<open>virt_pcm_hw_free\<close>, \<open>virt_pcm_pointer\<close>, \<open>virt_pcm_new\<close>, \<open>virt_pcm_free\<close>,
  the DAI operations, \<open>virt_interrupt\<close>, \<open>virt_probe\<close> and \<open>virt_remove\<close>. Registers are numbered by
  words from the base address, as in the other sound driver. Resources the kernel releases by
  itself (\<open>devm_\<close>) are not in the traces. The reference side is \<open>dev_run\<close>, a device that starts
  playing with what its registers hold when 1 is written to register 0.
\<close>

unbundle bit_operations_syntax

section \<open>The code\<close>

definition virt_snd_reg_write :: "nat \<Rightarrow> u32 \<Rightarrow> kcall" where
  "virt_snd_reg_write reg data = IoWrite reg data"

definition virt_snd_reg_read :: "nat \<Rightarrow> kcall" where
  "virt_snd_reg_read reg = IoRead reg"

record virt_snd_master =
  vm_substream :: "snd_pcm_substream option"

definition SNDRV_PCM_INFO_PAUSE :: u32 where "SNDRV_PCM_INFO_PAUSE = 0x80000"

definition virt_pcm_hardware :: snd_pcm_hardware where
  "virt_pcm_hardware =
     \<lparr>hw_info = SNDRV_PCM_INFO_INTERLEAVED OR SNDRV_PCM_INFO_MMAP OR SNDRV_PCM_INFO_MMAP_VALID
        OR SNDRV_PCM_INFO_PAUSE,
      hw_formats = 0, hw_rates = 0, hw_rate_min = 0, hw_rate_max = 0, hw_channels_min = 0,
      hw_channels_max = 0, hw_buffer_bytes_max = 128 * 1024, hw_period_bytes_min = 1 * 1024,
      hw_period_bytes_max = 64 * 1024, hw_periods_min = 1, hw_periods_max = 32, hw_fifo_size = 128\<rparr>"

text \<open>\<open>set_hw\<close> is \<open>snd_soc_set_runtime_hwparams\<close>, \<open>add\<close> what ALSA returns for a constraint.\<close>

definition virt_pcm_open ::
  "(snd_pcm_substream \<Rightarrow> snd_pcm_hardware \<Rightarrow> snd_pcm_substream) \<Rightarrow> (hw_constraint \<Rightarrow> int)
   \<Rightarrow> snd_pcm_substream \<Rightarrow> snd_pcm_substream \<times> int" where
  "virt_pcm_open set_hw add ss = (set_hw ss virt_pcm_hardware, add ConstraintIntegerPeriods)"

definition virt_pcm_hw_params ::
  "(snd_pcm_substream \<Rightarrow> u32 \<Rightarrow> snd_pcm_substream \<times> int) \<Rightarrow> u32 \<Rightarrow> snd_pcm_substream
   \<Rightarrow> snd_pcm_substream \<times> int" where
  "virt_pcm_hw_params malloc_pages buffer_bytes ss = malloc_pages ss buffer_bytes"

definition virt_pcm_hw_free ::
  "(snd_pcm_substream \<Rightarrow> snd_pcm_substream \<times> int) \<Rightarrow> snd_pcm_substream \<Rightarrow> snd_pcm_substream \<times> int" where
  "virt_pcm_hw_free free_pages ss = free_pages ss"

text \<open>The position is what the device reports in register 4.\<close>

definition virt_pcm_pointer :: "(nat \<Rightarrow> u32) \<Rightarrow> kcall list \<times> u32" where
  "virt_pcm_pointer io = ([virt_snd_reg_read 4], io 4)"

definition PREALLOC_BUFFER :: nat where "PREALLOC_BUFFER = 64 * 1024"
definition PREALLOC_BUFFER_MAX :: nat where "PREALLOC_BUFFER_MAX = 64 * 1024"

definition virt_pcm_new :: "(nat \<Rightarrow> nat \<Rightarrow> int) \<Rightarrow> int" where
  "virt_pcm_new preallocate = preallocate PREALLOC_BUFFER PREALLOC_BUFFER_MAX"

fun virt_dai_trigger ::
  "(u32 \<Rightarrow> u32) \<Rightarrow> trigger_cmd \<Rightarrow> snd_pcm_substream \<Rightarrow> virt_snd_master
   \<Rightarrow> virt_snd_master \<times> kcall list \<times> int" where
  "virt_dai_trigger virt_to_phys TRIGGER_START ss master =
     (let rt = ss_runtime ss in
      (master\<lparr>vm_substream := Some ss\<rparr>,
       [virt_snd_reg_write 1 (virt_to_phys (rt_dma_area rt)), virt_snd_reg_write 2 (rt_periods rt),
        virt_snd_reg_write 3 (rt_period_size rt), virt_snd_reg_write 5 (rt_rate rt),
        virt_snd_reg_write 6 (rt_channels rt), virt_snd_reg_write 0 1], 0))"
| "virt_dai_trigger virt_to_phys TRIGGER_STOP ss master = (master, [virt_snd_reg_write 0 0], 0)"
| "virt_dai_trigger virt_to_phys cmd ss master = (master, [], 0)"

definition virt_dai_set_fmt :: "u32 \<Rightarrow> int" where "virt_dai_set_fmt fmt = 0"
definition virt_dai_hw_params :: "snd_pcm_substream \<Rightarrow> int" where "virt_dai_hw_params ss = 0"
definition virt_dai_startup :: "snd_pcm_substream \<Rightarrow> int" where "virt_dai_startup ss = 0"

text \<open>The interrupt is cleared by reading register 0; the second part is the substream whose
  period has elapsed.\<close>

definition virt_interrupt :: "virt_snd_master \<Rightarrow> kcall list \<times> snd_pcm_substream option" where
  "virt_interrupt master = ([virt_snd_reg_read 0, PeriodElapsed], vm_substream master)"

datatype virt_rsrc = SocPlatform | SocComponent

record virt_env =
  ve_has_res :: bool
  ve_get_irq :: int
  ve_kzalloc :: bool
  ve_ioremap :: bool
  ve_request_irq :: "u32 \<Rightarrow> int"
  ve_register_platform :: int
  ve_register_component :: int

text \<open>\<open>irq\<close> is an \<open>unsigned int\<close>.\<close>

definition virt_probe :: "virt_env \<Rightarrow> virt_rsrc rev list \<times> virt_snd_master \<times> int" where
  "virt_probe e =
     (let master = \<lparr>vm_substream = None\<rparr> in
      if \<not> ve_has_res e then ([], master, - EINVAL)
      else let irq = word_of_int (ve_get_irq e) :: u32 in
      if irq < 0 then ([], master, - EINVAL)
      else if \<not> ve_kzalloc e then ([], master, - ENOMEM)
      else if \<not> ve_ioremap e then ([], master, -6)
      else let ret = ve_request_irq e irq in
      if ret \<noteq> 0 then ([], master, ret)
      else let ret = ve_register_platform e in
      if ret < 0 then ([], master, ret)
      else let ret = ve_register_component e in
      if ret < 0 then ([Acq SocPlatform] @ [Rel SocPlatform], master, ret)
      else ([Acq SocPlatform, Acq SocComponent], master, ret))"

definition virt_remove :: "virt_snd_master \<Rightarrow> virt_rsrc rev list" where
  "virt_remove master = [Rel SocComponent, Rel SocPlatform]"

section \<open>The device\<close>

record vdev =
  vd_regs :: "nat \<rightharpoonup> u32"
  vd_playing :: "(nat \<rightharpoonup> u32) option"

fun dev_run :: "kcall list \<Rightarrow> vdev \<Rightarrow> vdev" where
  "dev_run [] dev = dev"
| "dev_run (IoWrite r v # cs) dev =
     dev_run cs (if r = 0 then dev\<lparr>vd_playing := if v = 0 then None else Some (vd_regs dev)\<rparr>
                 else dev\<lparr>vd_regs := (vd_regs dev)(r \<mapsto> v)\<rparr>)"
| "dev_run (c # cs) dev = dev_run cs dev"

text \<open>What a device that plays a stream must have been told.\<close>

definition plays :: "vdev \<Rightarrow> u32 \<Rightarrow> snd_pcm_runtime \<Rightarrow> bool" where
  "plays dev addr rt \<longleftrightarrow>
     (\<exists>m. vd_playing dev = Some m \<and> m 1 = Some addr \<and> m 2 = Some (rt_periods rt) \<and>
        m 3 = Some (rt_period_size rt) \<and> m 5 = Some (rt_rate rt) \<and> m 6 = Some (rt_channels rt))"

section \<open>Triggers\<close>

text \<open>
  Triggering the virtual device: START leaves it playing the stream's own buffer with the
  stream's periods, rate and channels whatever its registers held before, and remembers the
  stream for the interrupt handler; STOP leaves it silent; but PAUSE, which the driver announces
  among its capabilities, and every other command report success and leave the device as it was.
\<close>

theorem virt_trigger_device:
  "(case virt_dai_trigger v2p cmd ss master of (master', calls, ret) \<Rightarrow> ret = 0 \<and>
     (case cmd of
        TRIGGER_START \<Rightarrow> plays (dev_run calls dev) (v2p (rt_dma_area (ss_runtime ss))) (ss_runtime ss) \<and>
          snd (virt_interrupt master') = Some ss
      | TRIGGER_STOP \<Rightarrow> vd_playing (dev_run calls dev) = None
      | _ \<Rightarrow> dev_run calls dev = dev)) \<and>
   hw_info virt_pcm_hardware AND SNDRV_PCM_INFO_PAUSE \<noteq> 0"
proof
  show "case virt_dai_trigger v2p cmd ss master of (master', calls, ret) \<Rightarrow> ret = 0 \<and>
     (case cmd of
        TRIGGER_START \<Rightarrow> plays (dev_run calls dev) (v2p (rt_dma_area (ss_runtime ss))) (ss_runtime ss) \<and>
          snd (virt_interrupt master') = Some ss
      | TRIGGER_STOP \<Rightarrow> vd_playing (dev_run calls dev) = None
      | _ \<Rightarrow> dev_run calls dev = dev)"
    by (cases cmd) (simp_all add: Let_def virt_snd_reg_write_def virt_interrupt_def plays_def)
qed (simp add: virt_pcm_hardware_def info_flags SNDRV_PCM_INFO_PAUSE_def)

text \<open>
  \<open>virt_probe\<close> cannot notice a missing interrupt: its error test compares an unsigned number
  with 0, so for a negative answer of \<open>platform_get_irq\<close> it goes on and requests the interrupt of
  the wrapped number, and succeeds if the kernel grants that.
\<close>

theorem virt_probe_ignores_missing_irq:
  assumes "ve_has_res e" and "ve_get_irq e < 0" and "ve_kzalloc e" and "ve_ioremap e"
    and "ve_request_irq e (word_of_int (ve_get_irq e)) = 0"
    and "ve_register_platform e = 0" and "ve_register_component e = 0"
  shows "snd (snd (virt_probe e)) = 0"
  using assms by (simp add: virt_probe_def Let_def)

theorem virt_probe_ignores_missing_irq_witness:
  "snd (snd (virt_probe \<lparr>ve_has_res = True, ve_get_irq = -6, ve_kzalloc = True, ve_ioremap = True,
     ve_request_irq = (\<lambda>_. 0), ve_register_platform = 0, ve_register_component = 0\<rparr>)) = 0"
  by (rule virt_probe_ignores_missing_irq) simp_all

interpretation virt_driver: resource_driver virt_probe virt_remove
  "\<lambda>e. ve_register_component e \<le> 0" "\<lambda>_. []"
proof unfold_locales
  fix e tr s and ret :: int
  assume "ve_register_component e \<le> 0" "virt_probe e = (tr, s, ret)" "ret \<noteq> 0"
  then show "run_res tr {} = Some (set [])"
    by (auto simp: virt_probe_def Let_def EINVAL_def ENOMEM_def split: if_splits)
next
  fix e tr s
  assume "ve_register_component e \<le> 0" "virt_probe e = (tr, s, 0)"
  then show "run_res (tr @ virt_remove s) {} = Some (set [])"
    by (auto simp: virt_probe_def Let_def virt_remove_def EINVAL_def ENOMEM_def split: if_splits)
qed

end
