(* ===== verification/Fb_Pixel.thy ===== *)
theory Fb_Pixel
  imports Prelude
begin

text \<open>
  Pixels of \<open>patches/code/fbview/framebuffer.c\<close>: \<open>fb_set_pixel\<close> and \<open>fb_get_pixel\<close>. A pixmap is a
  list of bytes and a pixel an offset into it; a write or read outside the list is \<open>Fault\<close>. The
  locale \<open>pixel_codec\<close> is what the rest of the viewer relies on: a pixel reads back as its colour
  rounded to the mode, and writing one pixel leaves the others alone. It holds for the one- and
  two-byte modes.
\<close>

unbundle bit_operations_syntax

section \<open>The code\<close>

type_synonym fb_pixel = "8 word"
type_synonym rgb = "8 word \<times> 8 word \<times> 8 word"

definition pixel_1 :: "rgb \<Rightarrow> fb_pixel" where
  "pixel_1 = (\<lambda>(R, G, B). (0xe0 AND R) OR (0x1c AND drop_bit 3 G) OR (0x03 AND drop_bit 6 B))"

definition pixel_2_hi :: "rgb \<Rightarrow> fb_pixel" where
  "pixel_2_hi = (\<lambda>(R, G, B). 0x80 OR (0x7c AND drop_bit 1 B) OR (0x03 AND drop_bit 6 G))"

definition pixel_2_lo :: "rgb \<Rightarrow> fb_pixel" where
  "pixel_2_lo = (\<lambda>(R, G, B). (0xe0 AND push_bit 2 G) OR (0x1f AND drop_bit 3 R))"

definition fb_set_pixel :: "nat \<Rightarrow> fb_pixel list \<Rightarrow> nat \<Rightarrow> rgb \<Rightarrow> fb_pixel list res" where
  "fb_set_pixel pixelsize m dest c =
     (if pixelsize = 1 then poke m dest (pixel_1 c)
      else if pixelsize = 2 then
        res_bind (poke m (dest + 1) (pixel_2_hi c)) (\<lambda>m. poke m dest (pixel_2_lo c))
      else if pixelsize = 3 \<or> pixelsize = 4 then
        res_bind (poke m (dest + 3) (snd (snd c))) (\<lambda>m.
        res_bind (poke m (dest + 2) (fst (snd c))) (\<lambda>m. poke m (dest + 1) (fst c)))
      else Inr m)"

definition colour_1 :: "fb_pixel \<Rightarrow> rgb" where
  "colour_1 d = (d AND 0xe0, push_bit 3 (d AND 0x1c), push_bit 6 (d AND 0x03))"

definition colour_2 :: "fb_pixel \<Rightarrow> fb_pixel \<Rightarrow> rgb" where
  "colour_2 lo hi =
     (push_bit 3 (lo AND 0x1f), push_bit 6 (hi AND 0x03) OR drop_bit 2 (lo AND 0xe0),
      push_bit 1 (hi AND 0x7c))"

text \<open>\<open>c0\<close> is what \<open>R\<close>, \<open>G\<close> and \<open>B\<close> held before the call.\<close>

definition fb_get_pixel :: "nat \<Rightarrow> fb_pixel list \<Rightarrow> nat \<Rightarrow> rgb \<Rightarrow> rgb res" where
  "fb_get_pixel pixelsize m dest c0 =
     (if pixelsize = 1 then res_bind (peek m dest) (\<lambda>d. Inr (colour_1 d))
      else if pixelsize = 2 then
        res_bind (peek m dest) (\<lambda>lo. res_bind (peek m (dest + 1)) (\<lambda>hi. Inr (colour_2 lo hi)))
      else if pixelsize = 3 \<or> pixelsize = 4 then
        res_bind (peek m dest) (\<lambda>B. res_bind (peek m (dest + 1)) (\<lambda>G.
        res_bind (peek m (dest + 2)) (\<lambda>R. Inr (R, G, B))))
      else Inr c0)"

section \<open>The contract of a pixel format\<close>

locale pixel_codec =
  fixes size :: nat
    and set_px :: "fb_pixel list \<Rightarrow> nat \<Rightarrow> rgb \<Rightarrow> fb_pixel list res"
    and get_px :: "fb_pixel list \<Rightarrow> nat \<Rightarrow> rgb res"
    and quant :: "rgb \<Rightarrow> rgb"
  assumes size_pos: "0 < size"
    and set_ok: "a + size \<le> length m \<Longrightarrow> \<exists>m'. set_px m a c = Inr m' \<and> length m' = length m"
    and get_set: "set_px m a c = Inr m' \<Longrightarrow> get_px m' a = Inr (quant c)"
    and get_other: "set_px m a c = Inr m' \<Longrightarrow> b + size \<le> a \<or> a + size \<le> b \<Longrightarrow> get_px m' b = get_px m b"
    and quant_quant: "quant (quant c) = quant c"
begin

lemma pixels_apart: "i \<noteq> j \<Longrightarrow> i * size + size \<le> j * size \<or> j * size + size \<le> i * size"
proof -
  assume "i \<noteq> j"
  then consider "i + 1 \<le> j" | "j + 1 \<le> i" by linarith
  then show ?thesis
  proof cases
    case 1
    then have "(i + 1) * size \<le> j * size" by (rule mult_le_mono1)
    then show ?thesis by (simp add: add_mult_distrib)
  next
    case 2
    then have "(j + 1) * size \<le> i * size" by (rule mult_le_mono1)
    then show ?thesis by (simp add: add_mult_distrib)
  qed
qed

text \<open>Painting pixels one after another: every pixel painted last with a colour reads back as that
  colour, rounded, and all others are as before.\<close>

lemma paint:
  assumes "\<And>i c. (i, c) \<in> set ps \<Longrightarrow> i < n" and "n * size \<le> length m"
  shows "\<exists>m'. fold_res (\<lambda>(i, c) m. set_px m (i * size) c) ps m = Inr m' \<and> length m' = length m \<and>
    (\<forall>j. get_px m' (j * size) = (case map_of (rev ps) j of
       Some c \<Rightarrow> Inr (quant c) | None \<Rightarrow> get_px m (j * size)))"
  using assms(1)
proof (induction ps rule: rev_induct)
  case (snoc p ps)
  obtain i c where p: "p = (i, c)" by (cases p)
  have bound: "i < n" if "(i, c) \<in> set ps" for i c using snoc.prems [of i c] that by simp
  obtain m' where
    m': "fold_res (\<lambda>(i, c) m. set_px m (i * size) c) ps m = Inr m'" "length m' = length m"
      "\<And>j. get_px m' (j * size) = (case map_of (rev ps) j of
         Some c \<Rightarrow> Inr (quant c) | None \<Rightarrow> get_px m (j * size))" using snoc.IH bound by blast
  have "i + 1 \<le> n" using snoc.prems [of i c] p by simp
  then have "(i + 1) * size \<le> n * size" by (rule mult_le_mono1)
  then have "i * size + size \<le> length m'" using assms(2) m'(2) by (simp add: add_mult_distrib)
  from set_ok [OF this] obtain m'' where m'': "set_px m' (i * size) c = Inr m''" "length m'' = length m'"
    by blast
  have "get_px m'' (j * size) = (if j = i then Inr (quant c) else get_px m' (j * size))" for j
    using get_set [OF m''(1)] get_other [OF m''(1)] pixels_apart [of j i] by auto
  then show ?case using m' m'' p by (simp add: fold_res_append)
qed simp

end

section \<open>The one- and two-byte modes\<close>

definition quant_1 :: "rgb \<Rightarrow> rgb" where
  "quant_1 = (\<lambda>(R, G, B). (R AND 0xe0, G AND 0xe0, B AND 0xc0))"

definition quant_2 :: "rgb \<Rightarrow> rgb" where
  "quant_2 = (\<lambda>(R, G, B). (R AND 0xf8, G AND 0xf8, B AND 0xf8))"

lemma byte_eqI: "(\<And>i. i \<in> {0, 1, 2, 3, 4, 5, 6, 7} \<Longrightarrow> bit v i = bit w i) \<Longrightarrow> v = w" for v w :: "8 word"
proof (rule bit_word_eqI)
  fix i
  assume eq: "\<And>i. i \<in> {0, 1, 2, 3, 4, 5, 6, 7} \<Longrightarrow> bit v i = bit w i" and "i < LENGTH(8)"
  then have "i < 8" by simp
  then have "i = 0 \<or> i = 1 \<or> i = 2 \<or> i = 3 \<or> i = 4 \<or> i = 5 \<or> i = 6 \<or> i = 7" by arith
  then show "bit v i = bit w i" using eq by auto
qed

lemma colour_pixel_1: "colour_1 (pixel_1 c) = quant_1 c"
proof (cases c)
  case (fields R G B)
  have "pixel_1 c AND 0xe0 = R AND 0xe0" "push_bit 3 (pixel_1 c AND 0x1c) = G AND 0xe0"
    "push_bit 6 (pixel_1 c AND 0x03) = B AND 0xc0"
    unfolding fields pixel_1_def prod.case by (rule byte_eqI; auto simp: bit_simps)+
  then show ?thesis by (simp add: colour_1_def quant_1_def fields)
qed

lemma colour_pixel_2: "colour_2 (pixel_2_lo c) (pixel_2_hi c) = quant_2 c"
proof (cases c)
  case (fields R G B)
  have "push_bit 3 (pixel_2_lo c AND 0x1f) = R AND 0xf8"
    "push_bit 6 (pixel_2_hi c AND 0x03) OR drop_bit 2 (pixel_2_lo c AND 0xe0) = G AND 0xf8"
    unfolding fields pixel_2_lo_def pixel_2_hi_def prod.case by (rule byte_eqI; auto simp: bit_simps)+
  moreover have "push_bit 1 (pixel_2_hi c AND 0x7c) = B AND 0xf8"
    unfolding fields pixel_2_hi_def prod.case
    by (rule byte_eqI, simp only: bit_push_bit_iff) (auto simp: bit_simps)
  ultimately show ?thesis by (simp add: colour_2_def quant_2_def fields)
qed

lemma quant_colour_1: "quant_1 (colour_1 d) = colour_1 d"
proof -
  have "push_bit 3 (d AND 0x1c) AND 0xe0 = push_bit 3 (d AND 0x1c)" "push_bit 6 (d AND 0x03) AND 0xc0 = push_bit 6 (d AND 0x03)"
    by (rule byte_eqI; auto simp: bit_simps)+
  then show ?thesis by (simp add: quant_1_def colour_1_def and.assoc)
qed

lemma quant_colour_2: "quant_2 (colour_2 lo hi) = colour_2 lo hi"
proof -
  have "push_bit 3 (lo AND 0x1f) AND 0xf8 = push_bit 3 (lo AND 0x1f)"
    "(push_bit 6 (hi AND 0x03) OR drop_bit 2 (lo AND 0xe0)) AND 0xf8 = push_bit 6 (hi AND 0x03) OR drop_bit 2 (lo AND 0xe0)"
    by (rule byte_eqI; auto simp: bit_simps)+
  moreover have "push_bit 1 (hi AND 0x7c) AND 0xf8 = push_bit 1 (hi AND 0x7c)"
    by (rule byte_eqI, simp only: bit_push_bit_iff bit_and_iff) (auto simp: bit_simps)
  ultimately show ?thesis by (simp only: quant_2_def colour_2_def prod.case)
qed

lemma quant_1_idem: "quant_1 (quant_1 c) = quant_1 c"
  by (cases c) (simp add: quant_1_def and.assoc)

lemma quant_2_idem: "quant_2 (quant_2 c) = quant_2 c"
  by (cases c) (simp add: quant_2_def and.assoc)

interpretation mode_1: pixel_codec 1 "fb_set_pixel 1" "\<lambda>m a. fb_get_pixel 1 m a (0, 0, 0)" quant_1
  by unfold_locales (auto simp: fb_set_pixel_def fb_get_pixel_def poke_def peek_def colour_pixel_1
      quant_1_idem split: if_splits)

interpretation mode_2: pixel_codec 2 "fb_set_pixel 2" "\<lambda>m a. fb_get_pixel 2 m a (0, 0, 0)" quant_2
  by unfold_locales (auto simp: fb_set_pixel_def fb_get_pixel_def poke_def peek_def colour_pixel_2
      quant_2_idem nth_list_update split: if_splits)

text \<open>
  Painting pixels in the one- and two-byte modes: writing any list of pixels into a pixmap that
  has room for them never leaves it, and afterwards every pixel reads back as the last colour
  written to it, rounded to the 3-3-2 or the 5-5-5 bits of the mode, and as before if none was.
\<close>

theorem paint_pixels:
  assumes "\<forall>(i, c) \<in> set ps. i < n" and "n * k \<le> length m"
    and "k = 1 \<and> q = quant_1 \<or> k = 2 \<and> q = quant_2"
  shows "\<exists>m'. fold_res (\<lambda>(i, c) m. fb_set_pixel k m (i * k) c) ps m = Inr m' \<and> length m' = length m \<and>
    (\<forall>j. fb_get_pixel k m' (j * k) (0, 0, 0) = (case map_of (rev ps) j of
       Some c \<Rightarrow> Inr (q c) | None \<Rightarrow> fb_get_pixel k m (j * k) (0, 0, 0)))"
proof -
  have bound: "i < n" if "(i, c) \<in> set ps" for i c using assms(1) that by auto
  from assms(3) show ?thesis
  proof (elim disjE conjE)
    assume k: "k = 1" "q = quant_1"
    show ?thesis unfolding k by (rule mode_1.paint [OF bound]) (use assms(2) k in auto)
  next
    assume k: "k = 2" "q = quant_2"
    show ?thesis unfolding k by (rule mode_2.paint [OF bound]) (use assms(2) k in auto)
  qed
qed

theorem paint_pixels_witness:
  "\<exists>m'. fold_res (\<lambda>(i, c) m. fb_set_pixel 2 m (i * 2) c) [(1, 255, 128, 7)] [0, 0, 0, 0] = Inr m' \<and>
     fb_get_pixel 2 m' 2 (0, 0, 0) = Inr (248, 128, 0)"
proof -
  have "\<exists>m'. fold_res (\<lambda>(i, c) m. fb_set_pixel 2 m (i * 2) c) [(1, 255, 128, 7)] [0, 0, 0, 0] = Inr m' \<and>
      length m' = length [0, 0, 0, 0 :: fb_pixel] \<and>
      (\<forall>j. fb_get_pixel 2 m' (j * 2) (0, 0, 0) = (case map_of (rev [(1, 255, 128, 7)]) j of
         Some c \<Rightarrow> Inr (quant_2 c) | None \<Rightarrow> fb_get_pixel 2 [0, 0, 0, 0] (j * 2) (0, 0, 0)))"
    by (rule paint_pixels [where n = 2]) simp_all
  then obtain m' where
    m': "fold_res (\<lambda>(i, c) m. fb_set_pixel 2 m (i * 2) c) [(1, 255, 128, 7)] [0, 0, 0, 0] = Inr m'"
    and "fb_get_pixel 2 m' (1 * 2) (0, 0, 0) = (case map_of (rev [(1 :: nat, 255, 128, 7)]) 1 of
         Some c \<Rightarrow> Inr (quant_2 c) | None \<Rightarrow> fb_get_pixel 2 [0, 0, 0, 0] (1 * 2) (0, 0, 0))" by blast
  then have "fb_get_pixel 2 m' 2 (0, 0, 0) = Inr (248, 128, 0)" by (simp add: quant_2_def)
  with m' show ?thesis by blast
qed

text \<open>
  In the three- and four-byte modes the two functions disagree on where a pixel is: a colour
  written is not the colour read, and the last pixel of a three-byte pixmap is written past its end.
\<close>

lemma true_colour_modes_disagree:
  "fb_set_pixel 4 [0, 0, 0, 0] 0 (10, 20, 30) = Inr [0, 10, 20, 30]"
  "fb_get_pixel 4 [0, 10, 20, 30] 0 (0, 0, 0) = Inr (20, 10, 0)"
  "fb_set_pixel 3 [0, 0, 0] 0 (10, 20, 30) = Inl Fault"
  by (simp_all add: fb_set_pixel_def fb_get_pixel_def poke_def peek_def)

end
