(* ===== verification/Fb_Grid.thy ===== *)
theory Fb_Grid
  imports Fb_Pixel
begin

text \<open>
  Filling a pixmap row by row, which every decoder of the image viewer does: the rows may come in any
  order, as long as each comes once. Rests on the contract \<open>pixel_codec\<close> of the pixel formats.
\<close>

lemma pixel_in_row:
  assumes "i < w" and "j < h" and "w * h * k \<le> (len :: nat)"
  shows "(i + j * w) * k + k \<le> len"
proof -
  have "i + j * w + 1 \<le> w + j * w" using assms(1) by simp
  also have "\<dots> = (j + 1) * w" by simp
  also have "\<dots> \<le> h * w" using assms(2) by (intro mult_le_mono1) simp
  finally have "(i + j * w + 1) * k \<le> h * w * k" by (rule mult_le_mono1)
  then show ?thesis using assms(3) by (simp add: add_mult_distrib mult.commute mult.left_commute)
qed

text \<open>The pixels of the rows \<open>js\<close> of an image of width \<open>w\<close>, with their colours.\<close>

definition grid :: "(nat \<Rightarrow> rgb) \<Rightarrow> nat \<Rightarrow> nat list \<Rightarrow> (nat \<times> rgb) list" where
  "grid c w js = concat (map (\<lambda>j. map (\<lambda>i. (i + j * w, c (i + j * w))) [0..<w]) js)"

lemma fold_grid:
  "fold_res (\<lambda>(i, c) m. fb_set_pixel k m (i * k) c) (grid c w js) m
   = fold_res (\<lambda>j. fold_res (\<lambda>i m. fb_set_pixel k m ((i + j * w) * k) (c (i + j * w))) [0..<w]) js m"
  unfolding grid_def fold_res_concat fold_res_map prod.case ..

lemma grid_colour:
  assumes "(n, d) \<in> set (grid c w js)" and "set js \<subseteq> {..<h}"
  shows "d = c n \<and> n < w * h"
proof -
  obtain i j where "i < w" "j \<in> set js" "n = i + j * w" "d = c n" using assms(1) by (auto simp: grid_def)
  moreover have "j < h" using assms(2) \<open>j \<in> set js\<close> by auto
  ultimately show ?thesis using pixel_in_row [of i w j h 1 "w * h"] by simp
qed

lemma grid_complete:
  assumes "n < w * h" and "{..<h} \<subseteq> set js"
  shows "(n, c n) \<in> set (grid c w js)"
proof -
  have "0 < w" using assms by (cases w) auto
  then have "n mod w < w" "n div w \<in> set js" "n = n mod w + n div w * w"
    using assms by (auto simp: less_mult_imp_div_less mult.commute)
  then show ?thesis by (auto simp: grid_def intro!: bexI [of _ "n div w"] image_eqI [of _ _ "n mod w"])
qed

lemma map_of_grid:
  assumes "n < w * h" and "set js = {..<h}"
  shows "map_of (rev (grid c w js)) n = Some (c n)"
proof -
  have "n \<in> fst ` set (rev (grid c w js))" using grid_complete [of n w h js c] assms
    by (intro image_eqI [of _ _ "(n, c n)"]) simp_all
  then obtain d where "map_of (rev (grid c w js)) n = Some d" by (metis domD dom_map_of_conv_image_fst)
  moreover from this have "(n, d) \<in> set (grid c w js)" by (auto dest: map_of_SomeD)
  then have "d = c n" using grid_colour [of n d c w js h] assms(2) by simp
  ultimately show ?thesis by simp
qed

text \<open>The rounding of a colour in the mode with \<open>k\<close> bytes.\<close>

definition quant :: "nat \<Rightarrow> rgb \<Rightarrow> rgb" where
  "quant k = (if k = 1 then quant_1 else quant_2)"

text \<open>A colour read from a pixmap is one of the mode.\<close>

lemma quant_get:
  assumes "k \<in> {1, 2}" and "fb_get_pixel k pix a c0 = Inr c"
  shows "quant k c = c"
  using assms by (auto simp: fb_get_pixel_def peek_def quant_def quant_colour_1 quant_colour_2 split: if_splits)

lemma paint_grid:
  assumes "k \<in> {1, 2}" and "length m = w * h * k" and "set js = {..<h}"
  shows "\<exists>m'. fold_res (\<lambda>j. fold_res (\<lambda>i m. fb_set_pixel k m ((i + j * w) * k) (c (i + j * w))) [0..<w]) js m = Inr m' \<and>
    length m' = length m \<and> (\<forall>n < w * h. fb_get_pixel k m' (n * k) (0, 0, 0) = Inr (quant k (c n)))"
proof -
  have bound: "i < w * h" if "(i, d) \<in> set (grid c w js)" for i d
    using grid_colour [OF that, of h] assms(3) by simp
  have room: "w * h * k \<le> length m" using assms(2) by simp
  note stored = map_of_grid [OF _ assms(3), of _ w c]
  consider "k = 1" | "k = 2" using assms(1) by blast
  then show ?thesis
    unfolding fold_grid [symmetric]
  proof cases
    case 1
    then show "\<exists>m'. fold_res (\<lambda>(i, c) m. fb_set_pixel k m (i * k) c) (grid c w js) m = Inr m' \<and> length m' = length m \<and>
      (\<forall>n < w * h. fb_get_pixel k m' (n * k) (0, 0, 0) = Inr (quant k (c n)))"
      using mode_1.paint [OF bound room [unfolded 1]] stored unfolding 1 quant_def by fastforce
  next
    case 2
    then show "\<exists>m'. fold_res (\<lambda>(i, c) m. fb_set_pixel k m (i * k) c) (grid c w js) m = Inr m' \<and> length m' = length m \<and>
      (\<forall>n < w * h. fb_get_pixel k m' (n * k) (0, 0, 0) = Inr (quant k (c n)))"
      using mode_2.paint [OF bound room [unfolded 2]] stored unfolding 2 quant_def by fastforce
  qed
qed

lemma set_upt_lessThan: "set [0..<n] = {..<n}" "set (rev [0..<n]) = {..<n}"
  by auto

text \<open>The loop of a decoder that gets its rows from the top, with the colour \<open>c y x\<close> at each place.\<close>

lemma paint_rows:
  assumes "k \<in> {1, 2}" and "length m = w * h * k"
  obtains pix where
    "fold_res (\<lambda>j. fold_res (\<lambda>i m. fb_set_pixel k m ((i + j * w) * k) (c j i)) [0..<w]) [0..<h] m = Inr pix"
    "length pix = length m"
    "\<And>x y. x < w \<Longrightarrow> y < h \<Longrightarrow> fb_get_pixel k pix ((x + y * w) * k) (0, 0, 0) = Inr (quant k (c y x))"
proof -
  let ?c = "\<lambda>n. c (n div w) (n mod w)"
  have index: "(x + y * w) div w = y" "(x + y * w) mod w = x" if "x < w" for x y
    using that by simp_all
  obtain pix where pix:
    "fold_res (\<lambda>j. fold_res (\<lambda>i m. fb_set_pixel k m ((i + j * w) * k) (?c (i + j * w))) [0..<w]) [0..<h] m = Inr pix"
    "length pix = length m" "\<forall>n < w * h. fb_get_pixel k pix (n * k) (0, 0, 0) = Inr (quant k (?c n))"
    using paint_grid [OF assms set_upt_lessThan(1), of ?c] by blast
  have "fold_res (\<lambda>j. fold_res (\<lambda>i m. fb_set_pixel k m ((i + j * w) * k) (c j i)) [0..<w]) [0..<h] m = Inr pix"
    unfolding pix(1) [symmetric] by (intro fold_res_cong refl) (simp add: index)
  moreover have "fb_get_pixel k pix ((x + y * w) * k) (0, 0, 0) = Inr (quant k (c y x))" if "x < w" "y < h" for x y
    using pix(3) pixel_in_row [OF that, of 1 "w * h"] index [OF that(1)] by simp
  ultimately show thesis using that pix(2) by blast
qed

end
