(* ===== verification/Fb_Screen.thy ===== *)
theory Fb_Screen
  imports Fb_Grid
begin

text \<open>
  The screen of \<open>patches/code/fbview/framebuffer.c\<close>: \<open>generate_palette\<close>, \<open>get_palette\<close>,
  \<open>set_palette\<close>, \<open>fb_init\<close>, \<open>fb_uninit\<close>, \<open>fb_clear_screen\<close> and \<open>fb_pixmap_render\<close>. The device is a
  parameter: what \<open>open\<close>, the \<open>ioctl\<close>s and \<open>mmap\<close> return, the mode and the colour map. What the
  code does to it is a list of calls. A palette is a function from colour numbers to red, green and
  blue, of which the first \<open>fb_palette_colors\<close> count.
\<close>

unbundle bit_operations_syntax

section \<open>Palettes\<close>

type_synonym palette = "nat \<Rightarrow> nat \<times> nat \<times> nat"

text \<open>\<open>1 << bits_per_pixel\<close> on \<open>int\<close>.\<close>

definition fb_palette_colors :: "nat \<Rightarrow> nat res" where
  "fb_palette_colors bpp = (if bpp < 31 then Inr (2 ^ bpp) else Inl Fault)"

text \<open>\<open>generate_palette\<close>: the entry of colour \<open>a\<close>; the members are \<open>unsigned short\<close>s.\<close>

definition generate_palette :: "nat \<Rightarrow> palette" where
  "generate_palette bpp a =
     (if bpp = 4 then
        (if a AND 8 \<noteq> 0 then 65535 else 0, (drop_bit 1 a AND 3) * (65535 div 3),
         if a AND 1 \<noteq> 0 then 65535 else 0)
      else if bpp = 8 then
        ((drop_bit 5 a AND 7) * (65535 div 7), (drop_bit 2 a AND 7) * (65535 div 7),
         (a AND 3) * (65535 div 3))
      else if bpp = 16 then
        (let v = ((a AND 31) * 255 div 31) * 257 in (v, v, v))
      else if bpp = 24 then
        (let v = ((a AND 31) * 255 div 32) * 257 in (v, ((a AND 63) * 255 div 64) * 257, v))
      else (let v = a * 257 mod 2 ^ 16 in (v, v, v)))"

datatype fb_call = FbOpen | FbMmap nat | FbPutCmap nat palette | FbMunmap nat | FbClose

definition set_palette :: "nat \<Rightarrow> bool \<Rightarrow> palette \<Rightarrow> fb_call list res" where
  "set_palette bpp malloc_ok pal =
     res_bind (fb_palette_colors bpp) (\<lambda>n. if malloc_ok then Inr [FbPutCmap n pal] else Inl Fault)"

definition get_palette :: "nat \<Rightarrow> bool \<Rightarrow> palette \<Rightarrow> palette res" where
  "get_palette bpp malloc_ok cmap =
     res_bind (fb_palette_colors bpp) (\<lambda>n. if malloc_ok then Inr cmap else Inl Fault)"

section \<open>Opening and closing the device\<close>

record fb_env =
  fe_open :: int
  fe_get_var :: int
  fe_put_var :: int
  fe_xres :: nat
  fe_yres :: nat
  fe_bpp :: nat
  fe_mmap :: int
  fe_cmap :: palette
  fe_malloc :: bool

record fb_state =
  fb_pixelsize :: nat
  fb_buffer_size :: nat
  fb_line_size :: nat
  fb_xres :: nat
  fb_yres :: nat
  fb_bpp :: nat
  fb_have_cmap :: bool
  fb_old_palette :: palette

definition pixelsize_of :: "nat \<Rightarrow> nat option" where
  "pixelsize_of bpp =
     (if bpp = 4 \<or> bpp = 8 then Some 1 else if bpp = 5 \<or> bpp = 15 \<or> bpp = 16 then Some 2
      else if bpp = 24 then Some 3 else if bpp = 32 then Some 4 else None)"

text \<open>\<open>fb_init\<close>: the return value, the calls and, after success, the globals. \<open>open\<close> and
  \<open>mmap\<close> report failure with -1, which the tests for 0 let through.\<close>

definition fb_init :: "fb_env \<Rightarrow> (int \<times> fb_call list \<times> fb_state option) res" where
  "fb_init e =
     (if fe_open e = 0 then Inr (1, [FbOpen], None)
      else if fe_get_var e \<noteq> 0 then Inr (2, [FbOpen, FbClose], None)
      else if fe_put_var e \<noteq> 0 then Inr (3, [FbOpen, FbClose], None)
      else case pixelsize_of (fe_bpp e) of
        None \<Rightarrow> Inr (3, [FbOpen], None)
      | Some ps \<Rightarrow>
        let size = (fe_xres e * fe_yres e * fe_bpp e mod 2 ^ 32) div 8 in
        if fe_mmap e = 0 then Inr (4, [FbOpen, FbMmap size, FbClose], None)
        else if fe_bpp e < 2 ^ 24 then
          res_bind (get_palette (fe_bpp e) (fe_malloc e) (fe_cmap e)) (\<lambda>old.
          res_bind (set_palette (fe_bpp e) (fe_malloc e) (generate_palette (fe_bpp e))) (\<lambda>calls.
            Inr (0, [FbOpen, FbMmap size] @ calls,
                 Some \<lparr>fb_pixelsize = ps, fb_buffer_size = size, fb_line_size = fe_xres e * ps mod 2 ^ 32,
                       fb_xres = fe_xres e mod 2 ^ 16, fb_yres = fe_yres e mod 2 ^ 16, fb_bpp = fe_bpp e,
                       fb_have_cmap = True, fb_old_palette = old\<rparr>)))
        else Inr (0, [FbOpen, FbMmap size],
                  Some \<lparr>fb_pixelsize = ps, fb_buffer_size = size, fb_line_size = fe_xres e * ps mod 2 ^ 32,
                        fb_xres = fe_xres e mod 2 ^ 16, fb_yres = fe_yres e mod 2 ^ 16, fb_bpp = fe_bpp e,
                        fb_have_cmap = False, fb_old_palette = fe_cmap e\<rparr>))"

definition fb_uninit :: "bool \<Rightarrow> fb_state \<Rightarrow> (int \<times> fb_call list) res" where
  "fb_uninit malloc_ok s =
     res_bind (if fb_have_cmap s then set_palette (fb_bpp s) malloc_ok (fb_old_palette s) else Inr [])
       (\<lambda>calls. Inr (0, [FbMunmap (fb_buffer_size s)] @ calls @ [FbClose]))"

section \<open>Drawing\<close>

definition fb_clear_screen :: "fb_state \<Rightarrow> fb_pixel list \<Rightarrow> fb_pixel list res" where
  "fb_clear_screen s screen =
     (if fb_buffer_size s \<le> length screen
      then Inr (replicate (fb_buffer_size s) 0 @ drop (fb_buffer_size s) screen) else Inl Fault)"

definition memcpy_at ::
  "fb_pixel list \<Rightarrow> nat \<Rightarrow> fb_pixel list \<Rightarrow> nat \<Rightarrow> nat \<Rightarrow> fb_pixel list res" where
  "memcpy_at dst d src s n =
     (if d + n \<le> length dst \<and> s + n \<le> length src
      then Inr (take d dst @ take n (drop s src) @ drop (d + n) dst) else Inl Fault)"

definition fb_pixmap_render ::
  "fb_state \<Rightarrow> fb_pixel list \<Rightarrow> fb_pixel list \<Rightarrow> nat \<Rightarrow> nat \<Rightarrow> nat \<Rightarrow> nat \<Rightarrow> fb_pixel list res" where
  "fb_pixmap_render s screen fb_pixmap width height pos_x pos_y =
     (let bmp_line_size = width * fb_pixelsize s;
          fb_line_size = fb_xres s * fb_pixelsize s;
          tmp_bmp = pos_y * bmp_line_size mod 2 ^ 32 + pos_x * fb_pixelsize s;
          copy_mem_size = (if fb_xres s > width then bmp_line_size else fb_line_size);
          max_j = (if fb_yres s > height then height else fb_yres s) in
      fold_res (\<lambda>j scr. memcpy_at scr (j * fb_line_size) fb_pixmap (tmp_bmp + j * bmp_line_size) copy_mem_size)
        [0..<max_j] screen)"

section \<open>Rendering\<close>

lemma memcpy_at_nth:
  assumes "memcpy_at dst d src s n = Inr m" "k < length dst"
  shows "m ! k = (if d \<le> k \<and> k < d + n then src ! (s + (k - d)) else dst ! k)" and "length m = length dst"
proof -
  have fit: "d + n \<le> length dst" "s + n \<le> length src"
    and m: "m = take d dst @ take n (drop s src) @ drop (d + n) dst"
    using assms(1) by (auto simp: memcpy_at_def split: if_splits)
  have len: "length (take d dst) = d" "length (take n (drop s src)) = n" using fit by auto
  show "m ! k = (if d \<le> k \<and> k < d + n then src ! (s + (k - d)) else dst ! k)"
    unfolding m nth_append len using fit assms(2) by auto
  show "length m = length dst" unfolding m using fit by simp
qed

lemma copy_rows:
  assumes "L \<le> length scr div fls" "0 < fls" "n \<le> fls" "\<And>j. j < L \<Longrightarrow> st + j * bls + n \<le> length pix"
  shows "\<exists>scr'. fold_res (\<lambda>j scr. memcpy_at scr (j * fls) pix (st + j * bls) n) [0..<L] scr = Inr scr' \<and>
    length scr' = length scr \<and>
    (\<forall>k < length scr. scr' ! k = (if k div fls < L \<and> k mod fls < n
       then pix ! (st + k div fls * bls + k mod fls) else scr ! k))"
  using assms(1,4)
proof (induction L)
  case (Suc L)
  from Suc obtain scr' where
    scr': "fold_res (\<lambda>j scr. memcpy_at scr (j * fls) pix (st + j * bls) n) [0..<L] scr = Inr scr'"
      "length scr' = length scr"
      "\<And>k. k < length scr \<Longrightarrow> scr' ! k = (if k div fls < L \<and> k mod fls < n
         then pix ! (st + k div fls * bls + k mod fls) else scr ! k)" by auto
  have "Suc L * fls \<le> length scr"
    using Suc.prems(1) assms(2) by (metis div_times_less_eq_dividend le_trans mult_le_mono1)
  then have fit: "L * fls + n \<le> length scr'" using assms(3) scr'(2) by simp
  then obtain scr'' where cp: "memcpy_at scr' (L * fls) pix (st + L * bls) n = Inr scr''"
    using Suc.prems(2) [of L] by (simp add: memcpy_at_def)
  have row: "L * fls \<le> k \<and> k < L * fls + n \<longleftrightarrow> k div fls = L \<and> k mod fls < n" for k
  proof
    assume "L * fls \<le> k \<and> k < L * fls + n"
    then have "k = L * fls + (k - L * fls)" "k - L * fls < n" by auto
    then show "k div fls = L \<and> k mod fls < n"
      using assms(3) by (metis add.commute div_mult_self3 assms(2) div_less less_le_trans mod_less
          mod_mult_self3 nat_less_le add_0)
  next
    assume "k div fls = L \<and> k mod fls < n"
    then show "L * fls \<le> k \<and> k < L * fls + n" using div_mult_mod_eq [of k fls] by auto
  qed
  have "scr'' ! k = (if k div fls < Suc L \<and> k mod fls < n
      then pix ! (st + k div fls * bls + k mod fls) else scr ! k)" if "k < length scr" for k
  proof (cases "k div fls = L \<and> k mod fls < n")
    case True
    then have "k - L * fls = k mod fls" using div_mult_mod_eq [of k fls] by auto
    then show ?thesis using True memcpy_at_nth(1) [OF cp] row [of k] that scr'(2) by auto
  next
    case False
    then have "scr'' ! k = scr' ! k" using memcpy_at_nth(1) [OF cp] row [of k] that scr'(2) by auto
    then show ?thesis using False scr'(3) [OF that] by (auto simp: less_Suc_eq)
  qed
  then show ?case
    using scr'(1,2) cp fit memcpy_at_nth(2) [OF cp] by (auto simp: fold_res_append memcpy_at_def split: if_splits)
qed simp

lemma visible_rows:
  assumes "height * (width * ps) \<le> length pix" and "pos_x + min width xres \<le> width"
    and "pos_y + min height yres \<le> height" and "j < min height yres"
  shows "pos_y * (width * ps) + pos_x * ps + j * (width * ps) + min width xres * ps \<le> length pix"
proof -
  have "(pos_x + min width xres) * ps \<le> width * ps" using assms(2) by (intro mult_le_mono1) simp
  then have "pos_x * ps + min width xres * ps \<le> width * ps" by (simp only: add_mult_distrib)
  moreover have "(pos_y + j + 1) * (width * ps) \<le> height * (width * ps)"
    using assms(3,4) by (intro mult_le_mono1) linarith
  then have "pos_y * (width * ps) + j * (width * ps) + width * ps \<le> height * (width * ps)"
    by (simp only: add_mult_distrib mult_1)
  ultimately show ?thesis using assms(1) by linarith
qed

lemma memcpy_at_total:
  "length dst = len \<Longrightarrow> d + n \<le> len \<Longrightarrow> s + n \<le> length src \<Longrightarrow> \<exists>m. memcpy_at dst d src s n = Inr m \<and> length m = len"
  by (auto simp: memcpy_at_def)

lemma fb_pixmap_render_total:
  assumes "fb_yres s * (fb_xres s * fb_pixelsize s) \<le> length screen"
    and "height * (width * fb_pixelsize s) \<le> length pix" and "length pix < 2 ^ 32"
    and "pos_x + min width (fb_xres s) \<le> width" and "pos_y + min height (fb_yres s) \<le> height"
  shows "\<exists>screen'. fb_pixmap_render s screen pix width height pos_x pos_y = Inr screen' \<and> length screen' = length screen"
proof -
  let ?ps = "fb_pixelsize s" and ?w = "min width (fb_xres s)" and ?h = "min height (fb_yres s)"
  let ?bls = "width * ?ps" and ?fls = "fb_xres s * ?ps"
  have "pos_y * ?bls \<le> height * ?bls" using assms(5) by (intro mult_le_mono1) simp
  then have "pos_y * ?bls < 2 ^ 32" using assms(2,3) by linarith
  then have st: "pos_y * ?bls mod 2 ^ 32 = pos_y * ?bls" by simp
  have n: "(if fb_xres s > width then ?bls else ?fls) = ?w * ?ps"
    and h: "(if fb_yres s > height then height else fb_yres s) = ?h" by (simp_all add: min_def)
  have row: "j * ?fls + ?w * ?ps \<le> length screen" if "j < ?h" for j
  proof -
    have "(j + 1) * ?fls \<le> fb_yres s * ?fls" using that by (intro mult_le_mono1) simp
    moreover have "?w * ?ps \<le> ?fls" by simp
    ultimately show ?thesis using assms(1) by (simp only: add_mult_distrib mult_1)
  qed
  show ?thesis
    unfolding fb_pixmap_render_def Let_def st n h
    by (rule fold_res_total)
      (use row visible_rows [OF assms(2,4,5)] in \<open>auto intro!: memcpy_at_total\<close>)
qed

lemma fb_pixmap_render_bytes:
  assumes "0 < fb_pixelsize s" and "0 < fb_xres s"
    and "fb_yres s * (fb_xres s * fb_pixelsize s) \<le> length screen"
    and "height * (width * fb_pixelsize s) \<le> length pix" and "length pix < 2 ^ 32"
    and "pos_x + min width (fb_xres s) \<le> width" and "pos_y + min height (fb_yres s) \<le> height"
  shows "\<exists>screen'. fb_pixmap_render s screen pix width height pos_x pos_y = Inr screen' \<and>
    length screen' = length screen \<and>
    (\<forall>k < length screen. let line = fb_xres s * fb_pixelsize s; row = k div line; col = k mod line in
       screen' ! k =
         (if row < min height (fb_yres s) \<and> col < min width (fb_xres s) * fb_pixelsize s
          then pix ! ((pos_y + row) * (width * fb_pixelsize s) + (pos_x * fb_pixelsize s + col))
          else screen ! k))"
proof -
  let ?ps = "fb_pixelsize s" and ?w = "min width (fb_xres s)" and ?h = "min height (fb_yres s)"
  let ?bls = "width * ?ps" and ?fls = "fb_xres s * ?ps"
  let ?st = "pos_y * ?bls + pos_x * ?ps"
  have "pos_y * ?bls \<le> height * ?bls" using assms(7) by (intro mult_le_mono1) simp
  then have "pos_y * ?bls < 2 ^ 32" using assms(4,5) by linarith
  then have st: "pos_y * ?bls mod 2 ^ 32 = pos_y * ?bls" by simp
  have fls: "0 < ?fls" using assms(1,2) by simp
  have "?h * ?fls \<le> fb_yres s * ?fls" by (intro mult_le_mono1) simp
  then have "?h * ?fls \<le> length screen" using assms(3) by (rule order.trans)
  then have L: "?h \<le> length screen div ?fls" using less_eq_div_iff_mult_less_eq [OF fls] by simp
  have n: "(if fb_xres s > width then ?bls else ?fls) = ?w * ?ps" by (simp add: min_def)
  note rows = visible_rows [OF assms(4,6,7)]
  have "?w * ?ps \<le> ?fls" by simp
  from copy_rows [OF L fls this rows] obtain screen' where
    scr: "fold_res (\<lambda>j scr. memcpy_at scr (j * ?fls) pix (?st + j * ?bls) (?w * ?ps)) [0..<?h] screen = Inr screen'"
      "length screen' = length screen"
      "\<forall>k < length screen. screen' ! k = (if k div ?fls < ?h \<and> k mod ?fls < ?w * ?ps
         then pix ! (?st + k div ?fls * ?bls + k mod ?fls) else screen ! k)" by auto
  have h: "(if fb_yres s > height then height else fb_yres s) = ?h" by (simp add: min_def)
  have "fb_pixmap_render s screen pix width height pos_x pos_y = Inr screen'"
    unfolding fb_pixmap_render_def Let_def st n h using scr(1) by simp
  moreover have idx: "?st + r * ?bls + c = (pos_y + r) * ?bls + (pos_x * ?ps + c)" for r c
    by (simp add: add_mult_distrib)
  ultimately show ?thesis using scr(2) scr(3) [unfolded idx] unfolding Let_def by blast
qed

text \<open>The same for whole pixels.\<close>

lemma get_pixel_bytes:
  assumes "k \<in> {1, 2}" and "a + k \<le> length m" and "b + k \<le> length m'" and "\<And>i. i < k \<Longrightarrow> m ! (a + i) = m' ! (b + i)"
  shows "fb_get_pixel k m a c = fb_get_pixel k m' b c"
proof -
  consider "k = 1" | "k = 2" using assms(1) by blast
  then show ?thesis
  proof cases
    case 1
    then show ?thesis using assms(2,3) assms(4) [of 0] by (simp add: fb_get_pixel_def peek_def)
  next
    case 2
    then show ?thesis using assms(2,3) assms(4) [of 0] assms(4) [of 1] by (simp add: fb_get_pixel_def peek_def)
  qed
qed

lemma pixel_byte_index:
  assumes "x < w" and "i < (k :: nat)"
  shows "((x + y * w) * k + i) div (w * k) = y" and "((x + y * w) * k + i) mod (w * k) = x * k + i"
proof -
  have "(x + 1) * k \<le> w * k" using assms(1) by (intro mult_le_mono1) simp
  then have less: "x * k + i < w * k" using assms(2) by simp
  then have nz: "w * k \<noteq> 0" by linarith
  have eq: "(x + y * w) * k + i = (x * k + i) + y * (w * k)" by (simp add: add_mult_distrib mult.assoc)
  show "((x + y * w) * k + i) div (w * k) = y" unfolding eq div_mult_self1 [OF nz] using less by simp
  show "((x + y * w) * k + i) mod (w * k) = x * k + i" unfolding eq mod_mult_self1 using less by simp
qed

lemma fb_pixmap_render_pixels:
  assumes "fb_pixelsize s \<in> {1, 2}" and "0 < fb_xres s"
    and "fb_yres s * (fb_xres s * fb_pixelsize s) \<le> length screen"
    and "height * (width * fb_pixelsize s) \<le> length pix" and "length pix < 2 ^ 32"
    and "pos_x + min width (fb_xres s) \<le> width" and "pos_y + min height (fb_yres s) \<le> height"
    and "x < fb_xres s" and "y < fb_yres s"
    and run: "fb_pixmap_render s screen pix width height pos_x pos_y = Inr screen'"
  shows "fb_get_pixel (fb_pixelsize s) screen' ((x + y * fb_xres s) * fb_pixelsize s) c =
    (if x < width \<and> y < height
     then fb_get_pixel (fb_pixelsize s) pix ((pos_x + x + (pos_y + y) * width) * fb_pixelsize s) c
     else fb_get_pixel (fb_pixelsize s) screen ((x + y * fb_xres s) * fb_pixelsize s) c)"
proof -
  let ?k = "fb_pixelsize s" and ?line = "fb_xres s * fb_pixelsize s" and ?a = "(x + y * fb_xres s) * fb_pixelsize s"
  have k: "0 < ?k" using assms(1) by auto
  from fb_pixmap_render_bytes [OF k assms(2-7)] run have len: "length screen' = length screen"
    and bytes: "\<And>n. n < length screen \<Longrightarrow> screen' ! n =
         (if n div ?line < min height (fb_yres s) \<and> n mod ?line < min width (fb_xres s) * ?k
          then pix ! ((pos_y + n div ?line) * (width * ?k) + (pos_x * ?k + n mod ?line)) else screen ! n)"
    by (auto simp: Let_def)
  have "?a + ?k \<le> fb_yres s * ?line"
    using pixel_in_row [OF assms(8,9), of ?k "fb_xres s * fb_yres s * ?k"] by (simp add: mult.commute mult.left_commute)
  then have inside: "?a + ?k \<le> length screen" using assms(3) by (rule order_trans)
  have col: "x * ?k + i < min width (fb_xres s) * ?k \<longleftrightarrow> x < width" if "i < ?k" for i
  proof -
    have "x * ?k + i < n * ?k \<longleftrightarrow> x < n" for n
      using that by (metis add.commute div_less_iff_less_mult div_mult_self3 k less_nat_zero_code div_less add_0)
    then show ?thesis using assms(8) by simp
  qed
  have byte: "screen' ! (?a + i) = (if y < height \<and> x < width
      then pix ! ((pos_x + x + (pos_y + y) * width) * ?k + i) else screen ! (?a + i))" if "i < ?k" for i
    using bytes [of "?a + i"] pixel_byte_index [OF assms(8) that, of y] col [OF that] inside that assms(9)
    by (simp add: add_mult_distrib mult.assoc add.assoc add.commute add.left_commute)
  show ?thesis
  proof (cases "x < width \<and> y < height")
    case True
    then have "pos_x + x < width" "pos_y + y < height" using assms(6-9) by (auto simp: min_def split: if_splits)
    from pixel_in_row [OF this, of ?k "length pix"] assms(4)
    have fit: "(pos_x + x + (pos_y + y) * width) * ?k + ?k \<le> length pix" by (simp add: mult.commute mult.left_commute)
    have "fb_get_pixel ?k screen' ?a c = fb_get_pixel ?k pix ((pos_x + x + (pos_y + y) * width) * ?k) c"
      using True byte inside len by (intro get_pixel_bytes [OF assms(1) _ fit]) simp_all
    then show ?thesis using True by simp
  next
    case False
    then have "fb_get_pixel ?k screen' ?a c = fb_get_pixel ?k screen ?a c"
      using byte inside len by (intro get_pixel_bytes [OF assms(1)]) auto
    then show ?thesis unfolding if_not_P [OF False] .
  qed
qed

definition sample_fb :: fb_state where
  "sample_fb = \<lparr>fb_pixelsize = 1, fb_buffer_size = 4, fb_line_size = 2, fb_xres = 2, fb_yres = 2, fb_bpp = 8,
     fb_have_cmap = True, fb_old_palette = (\<lambda>_. (0, 0, 0))\<rparr>"

section \<open>Palettes\<close>

lemma pixel_1_bits:
  "drop_bit 5 (pixel_1 (R, G, B)) AND 7 = drop_bit 5 R"
  "drop_bit 2 (pixel_1 (R, G, B)) AND 7 = drop_bit 5 G"
  "pixel_1 (R, G, B) AND 3 = drop_bit 6 B"
  unfolding pixel_1_def prod.case by (rule byte_eqI; auto simp: bit_simps dest: bit_imp_le_length)+

lemma pixel_1_fields:
  "drop_bit 5 (unat (pixel_1 (R, G, B))) AND 7 = unat R div 32"
  "drop_bit 2 (unat (pixel_1 (R, G, B))) AND 7 = unat G div 32"
  "unat (pixel_1 (R, G, B)) AND 3 = unat B div 64"
  using arg_cong [OF pixel_1_bits(1), of unat R G B] arg_cong [OF pixel_1_bits(2), of unat R G B]
    arg_cong [OF pixel_1_bits(3), of unat R G B]
  by (simp_all add: unsigned_and_eq drop_bit_eq_div unat_div_distrib)

text \<open>
  In the 8-bit mode the palette and the pixel format agree: the palette that \<open>fb_init\<close> installs
  shows the byte \<open>fb_set_pixel\<close> writes for a colour as that colour, up to less than an eighth of the
  full scale in red and green and less than a quarter in blue.
\<close>

theorem palette_matches_pixels:
  "case generate_palette 8 (unat (pixel_1 (R, G, B))) of (r, g, b) \<Rightarrow>
     \<bar>int r - 257 * int (unat R)\<bar> < 8192 \<and> \<bar>int g - 257 * int (unat G)\<bar> < 8192 \<and>
     \<bar>int b - 257 * int (unat B)\<bar> < 16384"
proof -
  have bound: "unat v < 256" for v :: "8 word" using unsigned_less [of v] by simp
  have eighth: "\<bar>int (x div 32 * 9362) - 257 * int x\<bar> < 8192" if "x < 256" for x :: nat
  proof -
    have "32 * (x div 32) + x mod 32 = x" "x mod 32 < 32" "x div 32 < 8" using that by auto
    then show ?thesis by (simp add: abs_less_iff del: mult_div_mod_eq) linarith
  qed
  have quarter: "\<bar>int (x div 64 * 21845) - 257 * int x\<bar> < 16384" if "x < 256" for x :: nat
  proof -
    have "64 * (x div 64) + x mod 64 = x" "x mod 64 < 64" "x div 64 < 4" using that by auto
    then show ?thesis by (simp add: abs_less_iff del: mult_div_mod_eq) linarith
  qed
  show ?thesis
    using eighth [OF bound [of R]] eighth [OF bound [of G]] quarter [OF bound [of B]]
    by (simp add: generate_palette_def pixel_1_fields)
qed

text \<open>The colour map of the device after a sequence of calls.\<close>

fun cmap_after :: "fb_call list \<Rightarrow> palette \<Rightarrow> palette" where
  "cmap_after [] m = m"
| "cmap_after (FbPutCmap n pal # cs) m = cmap_after cs (\<lambda>a. if a < n then pal a else m a)"
| "cmap_after (c # cs) m = cmap_after cs m"

text \<open>A run of the viewer gives the console its colours back.\<close>

lemma palette_restored:
  assumes "fb_init e = Inr (0, calls, Some s)" and "fb_uninit True s = Inr (0, calls')"
  shows "cmap_after (calls @ calls') (fe_cmap e) = fe_cmap e"
  using assms
  by (auto simp: fb_init_def fb_uninit_def get_palette_def set_palette_def res_simps Let_def
      split: if_splits option.splits intro!: ext)

end
