(* ===== verification/Bmp.thy ===== *)
theory Bmp
  imports Fb_Grid "HOL-Library.Monad_Syntax"
begin

text \<open>
  The BMP codec \<open>patches/code/fbview/ds_bmp.c\<close>: \<open>bmp2fb_pixmap\<close> and \<open>fb_pixmap2bmp\<close>. A file is its
  list of bytes, read at a position. The fields are read and written with \<open>fread\<close> and \<open>fwrite\<close> of
  the variable's memory, so the byte order of the machine is the argument \<open>big\<close>; \<open>size_t\<close> and \<open>long\<close>
  have 32 bits, as on the target. The counters \<open>i\<close> and \<open>j\<close> are the 16-bit signed words of the source,
  compared with 32-bit unsigned ones. \<open>fopen\<close>, \<open>malloc\<close> and the success of each \<open>fwrite\<close> are
  arguments.
\<close>

section \<open>Loops with a \<open>Sint16\<close> counter\<close>

text \<open>\<open>for (i = i0; i < n; i++)\<close> with \<open>Sint16 i\<close> and \<open>Uint32 n\<close>: \<open>i\<close> is sign-extended for the
  comparison. It ends at -1 at the latest.\<close>

function for_up :: "32 word \<Rightarrow> (16 word \<Rightarrow> 's \<Rightarrow> 's res) \<Rightarrow> 16 word \<Rightarrow> 's \<Rightarrow> 's res" where
  "for_up n f i s = (if signed i < n then res_bind (f i s) (for_up n f (i + 1)) else Inr s)"
  by auto

text \<open>\<open>for (j = j0; j >= 0; j--)\<close> with \<open>Sint16 j\<close>.\<close>

function for_down :: "(16 word \<Rightarrow> 's \<Rightarrow> 's res) \<Rightarrow> 16 word \<Rightarrow> 's \<Rightarrow> 's res" where
  "for_down f j s = (if 0 \<le> sint j then res_bind (f j s) (for_down f (j - 1)) else Inr s)"
  by auto

lemma signed_all_ones: "signed (- 1 :: 16 word) = (- 1 :: 32 word)"
  by simp

termination for_up
proof (relation "measure (\<lambda>(n, f, i, s). 2 ^ 16 - unat i)")
  fix n :: "32 word" and f :: "16 word \<Rightarrow> 's \<Rightarrow> 's res" and i :: "16 word" and s x :: 's
  assume lt: "signed i < n"
  have "i \<noteq> - 1"
  proof
    assume "i = - 1"
    then show False using lt word_order.extremum_strict [of n] by simp
  qed
  then have "unat (i + 1) = unat i + 1" by (metis add.commute add_eq_0_iff2 unatSuc Suc_eq_plus1)
  moreover have "unat i < 2 ^ 16" using unsigned_less [of i] by simp
  ultimately show "((n, f, i + 1, x), (n, f, i, s)) \<in> measure (\<lambda>(n, f, i, s). 2 ^ 16 - unat i)" by simp
qed simp

termination for_down
proof (relation "measure (\<lambda>(f, j, s). nat (sint j + 1))")
  fix f :: "16 word \<Rightarrow> 's \<Rightarrow> 's res" and j :: "16 word" and s x :: 's
  assume "0 \<le> sint j"
  moreover have "sint (j - 1) = sint j - 1" if "0 \<le> sint j"
    using that sint_lt [of j] by (simp add: sint_sbintrunc' sint_word_ariths signed_take_bit_int_eq_self)
  ultimately show "((f, j - 1, x), (f, j, s)) \<in> measure (\<lambda>(f, j, s). nat (sint j + 1))" by simp
qed simp

declare for_up.simps [simp del] for_down.simps [simp del]

section \<open>Files\<close>

type_synonym bytes = "fb_pixel list"

fun le_value :: "bytes \<Rightarrow> nat" where
  "le_value [] = 0"
| "le_value (b # bs) = unat b + 256 * le_value bs"

fun le_bytes :: "nat \<Rightarrow> nat \<Rightarrow> bytes" where
  "le_bytes 0 v = []"
| "le_bytes (Suc n) v = of_nat v # le_bytes n (v div 256)"

text \<open>The memory of a variable, in the byte order of the machine.\<close>

definition word_bytes :: "bool \<Rightarrow> 'a::len word \<Rightarrow> bytes" where
  "word_bytes big w =
     (let bs = le_bytes (LENGTH('a) div 8) (unat w) in if big then rev bs else bs)"

definition bytes_word :: "bool \<Rightarrow> bytes \<Rightarrow> 'a::len word" where
  "bytes_word big bs = of_nat (le_value (if big then rev bs else bs))"

text \<open>\<open>fread (&v, sizeof (v), 1, fp)\<close>: the variable and the new position, or failure.\<close>

definition fread_word :: "bool \<Rightarrow> bytes \<Rightarrow> nat \<Rightarrow> ('a::len word \<times> nat) option" where
  "fread_word big f pos =
     (let n = LENGTH('a) div 8 in
      if pos + n \<le> length f then Some (bytes_word big (take n (drop pos f)), pos + n) else None)"

text \<open>\<open>fgetc\<close> stored in a byte: \<open>EOF\<close>, -1, becomes 255.\<close>

definition fgetc :: "bytes \<Rightarrow> nat \<Rightarrow> fb_pixel \<times> nat" where
  "fgetc f pos = (if pos < length f then (f ! pos, pos + 1) else (255, pos))"

text \<open>\<open>fseek (fp, off, SEEK_SET)\<close> with a 32-bit \<open>long\<close>: a negative offset is refused.\<close>

definition fseek_set :: "nat \<Rightarrow> 32 word \<Rightarrow> nat" where
  "fseek_set pos off = (if sint off < 0 then pos else unat off)"

section \<open>Headers\<close>

record bitmap_file_header =
  bf_type :: "16 word"
  bf_size :: "32 word"
  bf_reserved1 :: "16 word"
  bf_reserved2 :: "16 word"
  bf_data_offset :: "32 word"

record bitmap_info_header =
  bi_size :: "32 word"
  bi_width :: "32 word"
  bi_height :: "32 word"
  bi_planes :: "16 word"
  bi_bpp :: "16 word"
  bi_compression :: "32 word"
  bi_data_size :: "32 word"
  bi_pixels_per_meter_X :: "32 word"
  bi_pixels_per_meter_Y :: "32 word"
  bi_colour_count :: "32 word"
  bi_colour_used :: "32 word"

definition read_file_header :: "bool \<Rightarrow> bytes \<Rightarrow> nat \<Rightarrow> (bitmap_file_header \<times> nat) option" where
  "read_file_header big f p = do {
     (ty, p) \<leftarrow> fread_word big f p;
     (sz, p) \<leftarrow> fread_word big f p;
     (r1, p) \<leftarrow> fread_word big f p;
     (r2, p) \<leftarrow> fread_word big f p;
     (off, p) \<leftarrow> fread_word big f p;
     Some (\<lparr>bf_type = ty, bf_size = sz, bf_reserved1 = r1, bf_reserved2 = r2, bf_data_offset = off\<rparr>, p)
   }"

definition read_info_header :: "bool \<Rightarrow> bytes \<Rightarrow> nat \<Rightarrow> (bitmap_info_header \<times> nat) option" where
  "read_info_header big f p = do {
     (sz, p) \<leftarrow> fread_word big f p;
     (w, p) \<leftarrow> fread_word big f p;
     (h, p) \<leftarrow> fread_word big f p;
     (planes, p) \<leftarrow> fread_word big f p;
     (bpp, p) \<leftarrow> fread_word big f p;
     (compr, p) \<leftarrow> fread_word big f p;
     (dsz, p) \<leftarrow> fread_word big f p;
     (px, p) \<leftarrow> fread_word big f p;
     (py, p) \<leftarrow> fread_word big f p;
     (cc, p) \<leftarrow> fread_word big f p;
     (cu, p) \<leftarrow> fread_word big f p;
     Some (\<lparr>bi_size = sz, bi_width = w, bi_height = h, bi_planes = planes, bi_bpp = bpp, bi_compression = compr,
            bi_data_size = dsz, bi_pixels_per_meter_X = px, bi_pixels_per_meter_Y = py, bi_colour_count = cc,
            bi_colour_used = cu\<rparr>, p)
   }"

definition MEMSIZE :: "32 word" where
  "MEMSIZE = 1024 * 1024 * 4"

definition FB_BPP :: "32 word" where
  "FB_BPP = 8"

section \<open>Loading\<close>

text \<open>The caller's variables \<open>*fb_pixmap\<close> (\<open>None\<close> for \<open>NULL\<close>), \<open>*w\<close> and \<open>*h\<close>.\<close>

record image =
  im_pixmap :: "fb_pixel list option"
  im_w :: "16 word"
  im_h :: "16 word"

definition read_pixel :: "16 word \<Rightarrow> bytes \<Rightarrow> nat \<Rightarrow> rgb \<times> nat" where
  "read_pixel bpp f p =
     (let (B, p) = fgetc f p; (G, p) = fgetc f p; (R, p) = fgetc f p in
      if bpp = 32 then ((R, G, B), snd (fgetc f p)) else ((R, G, B), p))"

definition pixel_offset :: "nat \<Rightarrow> 32 word \<Rightarrow> 16 word \<Rightarrow> 16 word \<Rightarrow> nat" where
  "pixel_offset pixelsize width j i = unat ((signed i + signed j * width) * (of_nat pixelsize :: 32 word))"

definition read_row ::
  "nat \<Rightarrow> bitmap_info_header \<Rightarrow> bytes \<Rightarrow> 16 word \<Rightarrow> nat \<times> fb_pixel list \<Rightarrow> (nat \<times> fb_pixel list) res" where
  "read_row pixelsize info f j s =
     res_bind (for_up (bi_width info) (\<lambda>i (p, pix).
         let (c, p) = read_pixel (bi_bpp info) f p in
         res_bind (fb_set_pixel pixelsize pix (pixel_offset pixelsize (bi_width info) j i) c) (\<lambda>pix.
           Inr (p, pix))) 0 s)
       (\<lambda>(p, pix). Inr (((\<lambda>p. snd (fgetc f p)) ^^ unat (bi_width info mod 4)) p, pix))"

text \<open>The result: the return value, whether the file was closed, and the caller's variables.\<close>

definition bmp2fb_pixmap ::
  "bool \<Rightarrow> nat \<Rightarrow> (nat \<Rightarrow> fb_pixel list option) \<Rightarrow> bytes option \<Rightarrow> image \<Rightarrow> (int \<times> bool \<times> image) res" where
  "bmp2fb_pixmap big pixelsize malloc fopened im =
     (case fopened of
        None \<Rightarrow> Inr (1, False, im)
      | Some f \<Rightarrow>
     (case read_file_header big f 0 of
        None \<Rightarrow> Inr (1, True, im)
      | Some (header, p) \<Rightarrow>
      if bf_type header \<noteq> 0x4d42 then Inr (1, True, im)
      else
     (case read_info_header big f p of
        None \<Rightarrow> Inr (1, True, im)
      | Some (info, p) \<Rightarrow>
      if bi_compression info \<noteq> 0 then Inr (1, True, im)
      else if bi_width info * bi_height info * FB_BPP div 8 > MEMSIZE then Inr (1, True, im)
      else if bi_bpp info \<noteq> 24 \<and> bi_bpp info \<noteq> 32 then Inr (1, True, im)
      else
        let p = fseek_set p (bf_data_offset header);
            im = im\<lparr>im_w := ucast (bi_width info), im_h := ucast (bi_height info),
              im_pixmap := malloc (unat (bi_width info * bi_height info * of_nat pixelsize))\<rparr> in
        case im_pixmap im of
          None \<Rightarrow> Inr (1, True, im)
        | Some pix \<Rightarrow>
          res_bind (for_down (read_row pixelsize info f) (ucast (bi_height info - 1)) (p, pix)) (\<lambda>(p, pix).
            Inr (0, False, im\<lparr>im_pixmap := Some pix\<rparr>)))))"

section \<open>Saving\<close>

definition new_file_header :: "16 word \<Rightarrow> 16 word \<Rightarrow> bitmap_file_header" where
  "new_file_header w h =
     (let bits_per_row = (ucast w * 3) mod 4 + ucast w * 3 in
      \<lparr>bf_type = 0x4d42, bf_size = bits_per_row * ucast h + 0x36, bf_reserved1 = 0, bf_reserved2 = 0,
       bf_data_offset = 0x0036\<rparr>)"

definition new_info_header :: "16 word \<Rightarrow> 16 word \<Rightarrow> bitmap_info_header" where
  "new_info_header w h =
     (let bits_per_row = (ucast w * 3) mod 4 + ucast w * 3 in
      \<lparr>bi_size = 0x0028, bi_width = ucast w, bi_height = ucast h, bi_planes = 1, bi_bpp = 24, bi_compression = 0,
       bi_data_size = bits_per_row * ucast h, bi_pixels_per_meter_X = 0x0b13, bi_pixels_per_meter_Y = 0x0b13,
       bi_colour_count = 0, bi_colour_used = 0\<rparr>)"

text \<open>The fields in the order of the \<open>fwrite\<close> calls.\<close>

definition file_header_fields :: "bool \<Rightarrow> bitmap_file_header \<Rightarrow> bytes list" where
  "file_header_fields big hdr =
     [word_bytes big (bf_type hdr), word_bytes big (bf_size hdr), word_bytes big (bf_reserved1 hdr),
      word_bytes big (bf_reserved2 hdr), word_bytes big (bf_data_offset hdr)]"

definition info_header_fields :: "bool \<Rightarrow> bitmap_info_header \<Rightarrow> bytes list" where
  "info_header_fields big info =
     [word_bytes big (bi_size info), word_bytes big (bi_width info), word_bytes big (bi_height info),
      word_bytes big (bi_planes info), word_bytes big (bi_bpp info), word_bytes big (bi_compression info),
      word_bytes big (bi_data_size info), word_bytes big (bi_pixels_per_meter_X info),
      word_bytes big (bi_pixels_per_meter_Y info), word_bytes big (bi_colour_count info),
      word_bytes big (bi_colour_used info)]"

text \<open>\<open>!fwrite (...) || !fwrite (...) || ...\<close>: \<open>fw k\<close> tells whether call number \<open>k\<close> succeeds. The
  result is whether all did, and what is in the file.\<close>

fun fwrite_all :: "(nat \<Rightarrow> bool) \<Rightarrow> nat \<Rightarrow> bytes list \<Rightarrow> bytes \<Rightarrow> bool \<times> bytes" where
  "fwrite_all fw k [] out = (True, out)"
| "fwrite_all fw k (b # bs) out = (if fw k then fwrite_all fw (k + 1) bs (out @ b) else (False, out))"

definition write_row ::
  "nat \<Rightarrow> bitmap_info_header \<Rightarrow> fb_pixel list \<Rightarrow> 16 word \<Rightarrow> bytes \<Rightarrow> bytes res" where
  "write_row pixelsize info pix j out =
     res_bind (for_up (bi_width info) (\<lambda>i out.
         res_bind (fb_get_pixel pixelsize pix (pixel_offset pixelsize (bi_width info) j i) (0, 0, 0)) (\<lambda>(R, G, B).
           Inr (out @ [B, G, R]))) 0 out)
       (\<lambda>out. Inr (out @ replicate (unat (bi_width info mod 4)) 0))"

text \<open>The result: the return value, whether the file was closed, and its content if it was opened.\<close>

definition fb_pixmap2bmp ::
  "bool \<Rightarrow> nat \<Rightarrow> bool \<Rightarrow> (nat \<Rightarrow> bool) \<Rightarrow> fb_pixel list \<Rightarrow> 16 word \<Rightarrow> 16 word \<Rightarrow> (int \<times> bool \<times> bytes option) res" where
  "fb_pixmap2bmp big pixelsize opens fw pix w h =
     (if \<not> opens then Inr (- 1, False, None)
      else
        let header = new_file_header w h; info = new_info_header w h;
            (ok, out) = fwrite_all fw 0 (file_header_fields big header) [] in
        if \<not> ok then Inr (1, True, Some out)
        else let (ok, out) = fwrite_all fw 5 (info_header_fields big info) out in
        if \<not> ok then Inr (1, True, Some out)
        else res_bind (for_down (write_row pixelsize info pix) (ucast (bi_height info - 1)) out) (\<lambda>out.
          Inr (0, False, Some out)))"

section \<open>Loops over small images\<close>

text \<open>With at most \<open>2 ^ 15\<close> columns or rows the 16-bit counters do what they seem to do.\<close>

lemma signed_small: "n < 2 ^ 15 \<Longrightarrow> signed (of_nat n :: 16 word) = (of_nat n :: 32 word)"
  by (simp add: signed_of_nat signed_take_bit_int_eq_self)

lemma unat_small: "n < 2 ^ 32 \<Longrightarrow> unat (of_nat n :: 32 word) = n"
  by (simp add: unsigned_of_nat take_bit_nat_eq_self)

lemma for_up_stops:
  assumes "unat n \<le> 2 ^ 15"
  shows "\<not> signed (of_nat (unat n) :: 16 word) < (n :: 32 word)"
proof (cases "unat n < 2 ^ 15")
  case True
  then have "signed (of_nat (unat n) :: 16 word) = (of_nat (unat n) :: 32 word)" by (rule signed_small)
  then show ?thesis using word_eq_of_nat [of n "unat n"] by simp
next
  case False
  then have n: "unat n = 32768" using assms by simp
  then have "n = 32768" using word_eq_of_nat by fastforce
  then show ?thesis unfolding n by simp
qed

lemma for_up_fold:
  assumes "unat n \<le> 2 ^ 15" and "a \<le> unat n"
  shows "for_up n f (of_nat a) s = fold_res (\<lambda>i. f (of_nat i)) [a..<unat n] s"
  using assms(2)
proof (induction "unat n - a" arbitrary: a s)
  case 0
  then have "a = unat n" by simp
  then show ?case using for_up_stops [OF assms(1)] by (simp add: for_up.simps)
next
  case (Suc k)
  then have a: "a < unat n" by simp
  then have "signed (of_nat a :: 16 word) < n"
    using assms(1) by (simp add: signed_small word_less_nat_alt unat_small)
  then have "for_up n f (of_nat a) s = res_bind (f (of_nat a) s) (for_up n f (of_nat (Suc a)))"
    by (subst for_up.simps) (simp add: add.commute)
  also have "\<dots> = res_bind (f (of_nat a) s) (fold_res (\<lambda>i. f (of_nat i)) [Suc a..<unat n])"
  proof -
    have "for_up n f (of_nat (Suc a)) t = fold_res (\<lambda>i. f (of_nat i)) [Suc a..<unat n] t" for t
      using Suc a by (intro Suc.hyps(1)) simp_all
    then show ?thesis by presburger
  qed
  finally show ?case using a by (simp add: upt_conv_Cons)
qed

lemma for_down_fold:
  assumes "n \<le> 2 ^ 15"
  shows "for_down f (of_nat n - 1) s = fold_res (\<lambda>j. f (of_nat j)) (rev [0..<n]) s"
  using assms
proof (induction n arbitrary: s)
  case 0
  then show ?case by (simp add: for_down.simps)
next
  case (Suc n)
  have "sint (of_nat n :: 16 word) = int n"
    using Suc.prems by (simp add: signed_of_nat signed_take_bit_int_eq_self)
  then have "for_down f (of_nat (Suc n) - 1) s = res_bind (f (of_nat n) s) (for_down f (of_nat n - 1))"
    by (subst for_down.simps) simp
  moreover have "for_down f (of_nat n - 1) = fold_res (\<lambda>j. f (of_nat j)) (rev [0..<n])"
    using Suc by (intro ext) simp
  ultimately show ?case by simp
qed

end
