(* ===== verification/Bmp_Correct.thy ===== *)
theory Bmp_Correct
  imports Bmp
begin

text \<open>
  What the BMP codec guarantees: the fields written are the fields read, in either byte order; an
  image saved and loaded again has the same size and the same colours; and what the loader refuses.
\<close>

section \<open>Fields\<close>

lemma length_le_bytes [simp]: "length (le_bytes n v) = n"
  by (induction n arbitrary: v) simp_all

lemma le_value_bytes: "v < 256 ^ n \<Longrightarrow> le_value (le_bytes n v) = v"
proof (induction n arbitrary: v)
  case (Suc n)
  then have "le_value (le_bytes n (v div 256)) = v div 256" by (intro Suc.IH) (simp add: less_mult_imp_div_less mult.commute)
  then show ?case by (simp add: unsigned_of_nat take_bit_eq_mod)
qed simp

lemma length_word_bytes [simp]: "length (word_bytes big (w :: 'a::len word)) = LENGTH('a) div 8"
  by (simp add: word_bytes_def Let_def)

lemma bytes_word_bytes:
  assumes "8 * (LENGTH('a) div 8) = LENGTH('a::len)"
  shows "bytes_word big (word_bytes big w) = (w :: 'a word)"
proof -
  have "(256 :: nat) ^ (LENGTH('a) div 8) = 2 ^ (8 * (LENGTH('a) div 8))" by (simp add: power_mult)
  then have "(256 :: nat) ^ (LENGTH('a) div 8) = 2 ^ LENGTH('a)" unfolding assms .
  then have "unat w < 256 ^ (LENGTH('a) div 8)" using unsigned_less [of w] by simp
  then show ?thesis by (simp add: bytes_word_def word_bytes_def Let_def le_value_bytes)
qed

lemma fread_word_at:
  fixes w :: "'a::len word"
  assumes "drop p f = word_bytes big w @ rest" and "8 * (LENGTH('a) div 8) = LENGTH('a)"
    and "0 < LENGTH('a) div 8"
  shows "fread_word big f p = Some (w, p + LENGTH('a) div 8)" and "drop (p + LENGTH('a) div 8) f = rest"
proof -
  let ?n = "LENGTH('a) div 8"
  have "length f - p = ?n + length rest" using arg_cong [OF assms(1), of length] by simp
  then have "p + ?n \<le> length f" using assms(3) by linarith
  then show "fread_word big f p = Some (w, p + ?n)"
    using assms(1) bytes_word_bytes [OF assms(2)] by (simp add: fread_word_def Let_def)
  show "drop (p + ?n) f = rest"
    using arg_cong [OF assms(1), of "drop ?n"] by (simp add: add.commute)
qed

lemma fread_16:
  assumes "drop p f = word_bytes big (w :: 16 word) @ rest"
  shows "fread_word big f p = Some (w, p + 2)" and "drop (p + 2) f = rest"
  using fread_word_at [OF assms] by simp_all

lemma fread_32:
  assumes "drop p f = word_bytes big (w :: 32 word) @ rest"
  shows "fread_word big f p = Some (w, p + 4)" and "drop (p + 4) f = rest"
  using fread_word_at [OF assms] by simp_all

lemma read_file_header_at:
  assumes "drop p f = concat (file_header_fields big hdr) @ rest"
  shows "read_file_header big f p = Some (hdr, p + 14)" and "drop (p + 14) f = rest"
proof -
  have "drop p f = word_bytes big (bf_type hdr) @ word_bytes big (bf_size hdr) @ word_bytes big (bf_reserved1 hdr)
      @ word_bytes big (bf_reserved2 hdr) @ word_bytes big (bf_data_offset hdr) @ rest"
    using assms by (simp add: file_header_fields_def)
  note 1 = fread_16 [OF this]
  note 2 = fread_32 [OF 1(2)]
  note 3 = fread_16 [OF 2(2)]
  note 4 = fread_16 [OF 3(2)]
  note 5 = fread_32 [OF 4(2)]
  show "read_file_header big f p = Some (hdr, p + 14)"
    unfolding read_file_header_def using 1(1) 2(1) 3(1) 4(1) 5(1) by simp
  show "drop (p + 14) f = rest" using 5(2) by (simp add: add.commute)
qed

lemma read_info_header_at:
  assumes "drop p f = concat (info_header_fields big info) @ rest"
  shows "read_info_header big f p = Some (info, p + 40)" and "drop (p + 40) f = rest"
proof -
  have "drop p f = word_bytes big (bi_size info) @ word_bytes big (bi_width info) @ word_bytes big (bi_height info)
      @ word_bytes big (bi_planes info) @ word_bytes big (bi_bpp info) @ word_bytes big (bi_compression info)
      @ word_bytes big (bi_data_size info) @ word_bytes big (bi_pixels_per_meter_X info)
      @ word_bytes big (bi_pixels_per_meter_Y info) @ word_bytes big (bi_colour_count info)
      @ word_bytes big (bi_colour_used info) @ rest"
    using assms by (simp add: info_header_fields_def)
  note 1 = fread_32 [OF this]
  note 2 = fread_32 [OF 1(2)]
  note 3 = fread_32 [OF 2(2)]
  note 4 = fread_16 [OF 3(2)]
  note 5 = fread_16 [OF 4(2)]
  note 6 = fread_32 [OF 5(2)]
  note 7 = fread_32 [OF 6(2)]
  note 8 = fread_32 [OF 7(2)]
  note 9 = fread_32 [OF 8(2)]
  note 10 = fread_32 [OF 9(2)]
  note 11 = fread_32 [OF 10(2)]
  show "read_info_header big f p = Some (info, p + 40)"
    unfolding read_info_header_def
    using 1(1) 2(1) 3(1) 4(1) 5(1) 6(1) 7(1) 8(1) 9(1) 10(1) 11(1) by simp
  show "drop (p + 40) f = rest" using 11(2) by (simp add: add.commute)
qed

lemma fwrite_all_ok: "(\<And>i. fw i) \<Longrightarrow> fwrite_all fw k bs out = (True, out @ concat bs)"
  by (induction bs arbitrary: k out) simp_all

section \<open>Saving\<close>

definition px :: "nat \<Rightarrow> fb_pixel list \<Rightarrow> nat \<Rightarrow> rgb" where
  "px k pix n = projr (fb_get_pixel k pix (n * k) (0, 0, 0))"

definition bgr :: "rgb \<Rightarrow> bytes" where
  "bgr = (\<lambda>(R, G, B). [B, G, R])"

definition row_bytes :: "nat \<Rightarrow> fb_pixel list \<Rightarrow> nat \<Rightarrow> nat \<Rightarrow> bytes" where
  "row_bytes k pix w j = concat (map (\<lambda>i. bgr (px k pix (i + j * w))) [0..<w]) @ replicate (w mod 4) 0"

definition bmp_file :: "bool \<Rightarrow> nat \<Rightarrow> fb_pixel list \<Rightarrow> 16 word \<Rightarrow> 16 word \<Rightarrow> bytes" where
  "bmp_file big k pix w h =
     concat (file_header_fields big (new_file_header w h)) @ concat (info_header_fields big (new_info_header w h))
     @ concat (map (row_bytes k pix (unat w)) (rev [0..<unat h]))"

lemma get_pixel_px:
  "k \<in> {1, 2} \<Longrightarrow> n * k + k \<le> length pix \<Longrightarrow> fb_get_pixel k pix (n * k) (0, 0, 0) = Inr (px k pix n)"
  by (auto simp: fb_get_pixel_def peek_def px_def)

lemma pixel_offset_small:
  assumes "i < unat width" and "unat width \<le> 2 ^ 15" and "j < 2 ^ 15" and "(i + j * unat width) * k < 2 ^ 32" "0 < k"
  shows "pixel_offset k width (of_nat j) (of_nat i) = (i + j * unat width) * k"
proof -
  have "width = of_nat (unat width)" by simp
  then have "pixel_offset k width (of_nat j) (of_nat i) = unat (of_nat ((i + j * unat width) * k) :: 32 word)"
    using assms(1-3) unfolding pixel_offset_def by (simp add: signed_small)
  then show ?thesis using unat_small [OF assms(4)] by simp
qed

lemma fold_res_output: "fold_res (\<lambda>i out. Inr (out @ g i)) xs out = Inr (out @ concat (map g xs))"
  by (induction xs arbitrary: out) simp_all

lemma unat_mod_4: "unat (w mod 4 :: 32 word) = unat w mod 4"
  by (simp add: unat_mod_distrib)

lemma unat_ucast_16: "unat (ucast (w :: 16 word) :: 32 word) = unat w"
  by (simp add: unsigned_ucast_eq take_bit_nat_eq_self order.strict_trans [OF unsigned_less])

lemma write_row_bytes:
  assumes "k \<in> {1, 2}" and "unat (bi_width info) = w" and "w \<le> 2 ^ 15" and "h \<le> 2 ^ 15" and "j < h"
    and "w * h * k \<le> length pix" and "w * h * k < 2 ^ 32"
  shows "write_row k info pix (of_nat j) out = Inr (out @ row_bytes k pix w j)"
proof -
  have px: "fb_get_pixel k pix (pixel_offset k (bi_width info) (of_nat j) (of_nat i)) (0, 0, 0)
      = Inr (px k pix (i + j * w))" if "i < w" for i
  proof -
    have "(i + j * w) * k + k \<le> w * h * k" using pixel_in_row [OF that assms(5) order_refl] .
    then have "(i + j * w) * k < 2 ^ 32" using assms(1,7) by auto
    then show ?thesis
      using that assms(1-6) pixel_in_row [OF that assms(5,6)]
      by (subst pixel_offset_small) (auto intro: get_pixel_px)
  qed
  have zero: "for_up (bi_width info) f 0 out = fold_res (\<lambda>i. f (of_nat i)) [0..<w] out" for f and out :: bytes
    using for_up_fold [of "bi_width info" 0 f out] assms(2,3) by simp
  have row: "fold_res (\<lambda>i out. res_bind (fb_get_pixel k pix (pixel_offset k (bi_width info) (of_nat j) (of_nat i)) (0, 0, 0))
         (\<lambda>(R, G, B). Inr (out @ [B, G, R]))) [0..<w] out
      = fold_res (\<lambda>i out. Inr (out @ bgr (px k pix (i + j * w)))) [0..<w] out"
    by (rule fold_res_cong) (simp_all add: px bgr_def case_prod_beta)
  show ?thesis
    unfolding write_row_def zero row fold_res_output by (simp add: row_bytes_def unat_mod_4 assms(2))
qed

lemma rows_offset: "ucast (ucast h - 1 :: 32 word) = (of_nat (unat h) - 1 :: 16 word)" for h :: "16 word"
proof -
  have "take_bit 16 (take_bit 16 k - 1) = take_bit 16 (k - 1)" for k :: int
    using take_bit_diff [of 16 k 1] by simp
  then have "ucast (ucast h - 1 :: 32 word) = h - 1" by transfer simp
  then show ?thesis by simp
qed

lemma fb_pixmap2bmp_file:
  assumes "k \<in> {1, 2}" and "unat w \<le> 2 ^ 15" and "unat h \<le> 2 ^ 15" and "unat w * unat h * k \<le> length pix"
    and "unat w * unat h * k < 2 ^ 32" and "\<And>i. fw i"
  shows "fb_pixmap2bmp big k True fw pix w h = Inr (0, False, Some (bmp_file big k pix w h))"
proof -
  let ?info = "new_info_header w h"
  have width: "unat (bi_width ?info) = unat w" by (simp add: new_info_header_def Let_def unat_ucast_16)
  have height: "ucast (bi_height ?info - 1) = (of_nat (unat h) - 1 :: 16 word)"
    by (simp add: new_info_header_def Let_def rows_offset)
  have rows: "for_down (write_row k ?info pix) (ucast (bi_height ?info - 1)) out
      = Inr (out @ concat (map (row_bytes k pix (unat w)) (rev [0..<unat h])))" for out
  proof -
    have "fold_res (\<lambda>j. write_row k ?info pix (of_nat j)) (rev [0..<unat h]) out
        = fold_res (\<lambda>j out. Inr (out @ row_bytes k pix (unat w) j)) (rev [0..<unat h]) out"
      by (rule fold_res_cong) (auto intro!: write_row_bytes [OF assms(1) width assms(2,3) _ assms(4,5)])
    then show ?thesis unfolding height for_down_fold [OF assms(3)] fold_res_output .
  qed
  show ?thesis
    unfolding fb_pixmap2bmp_def by (simp add: fwrite_all_ok assms(6) rows bmp_file_def Let_def)
qed

section \<open>Loading\<close>

lemma fgetc_at:
  assumes "drop p f = b # rest"
  shows "fgetc f p = (b, p + 1)" and "drop (p + 1) f = rest"
proof -
  have "p < length f" using assms by (metis drop_all leI list.distinct(1))
  then show "fgetc f p = (b, p + 1)" using assms by (simp add: fgetc_def nth_via_drop)
  show "drop (p + 1) f = rest" using assms by (metis Suc_eq_plus1 drop_Suc list.sel(3) tl_drop)
qed

lemma read_pixel_at:
  assumes "drop p f = bgr c @ rest"
  shows "read_pixel 24 f p = (c, p + 3)" and "drop (p + 3) f = rest"
proof -
  obtain R G B where c: "c = (R, G, B)" by (cases c)
  have "drop p f = B # G # R # rest" using assms by (simp add: bgr_def c)
  note 1 = fgetc_at [OF this]
  note 2 = fgetc_at [OF 1(2)]
  note 3 = fgetc_at [OF 2(2)]
  show "read_pixel 24 f p = (c, p + 3)" using 1(1) 2(1) 3(1) by (simp add: read_pixel_def c)
  show "drop (p + 3) f = rest" using 3(2) by (simp add: numeral_3_eq_3)
qed

lemma skip_at:
  "drop p f = xs @ rest \<Longrightarrow> ((\<lambda>p. snd (fgetc f p)) ^^ length xs) p = p + length xs"
proof (induction xs arbitrary: p)
  case (Cons x xs)
  then have "drop p f = x # xs @ rest" by simp
  note step = fgetc_at [OF this]
  show ?case using Cons.IH [OF step(2)] step(1) by (simp add: funpow_Suc_right del: funpow.simps(2))
qed simp

lemma read_pixels_at:
  assumes "drop p f = concat (map (\<lambda>i. bgr (c i)) is) @ rest"
  shows "fold_res (\<lambda>i (p, pix). let (c, p) = read_pixel 24 f p in
       res_bind (fb_set_pixel k pix (off i) c) (\<lambda>pix. Inr (p, pix))) is (p, m)
     = res_bind (fold_res (\<lambda>i m. fb_set_pixel k m (off i) (c i)) is m) (\<lambda>m. Inr (p + 3 * length is, m))"
  using assms
proof (induction "is" arbitrary: p m)
  case (Cons i "is")
  then have "drop p f = bgr (c i) @ concat (map (\<lambda>i. bgr (c i)) is) @ rest" by simp
  note step = read_pixel_at [OF this]
  show ?case
    by (cases "fb_set_pixel k m (off i) (c i)") (simp_all add: step(1) Cons.IH [OF step(2), unfolded Let_def] add.assoc)
qed simp

lemma length_pixel_bytes: "length (concat (map (\<lambda>i. bgr (c i)) is)) = 3 * length is"
  by (induction "is") (simp_all add: bgr_def case_prod_beta)

lemma read_row_at:
  assumes "drop p f = row_bytes k pix w j @ rest" and "k \<in> {1, 2}" and "bi_bpp info = 24"
    and "unat (bi_width info) = w" and "w \<le> 2 ^ 15" and "h \<le> 2 ^ 15" and "j < h" and "w * h * k < 2 ^ 32"
  shows "read_row k info f (of_nat j) (p, m)
     = res_bind (fold_res (\<lambda>i m. fb_set_pixel k m ((i + j * w) * k) (px k pix (i + j * w))) [0..<w] m)
         (\<lambda>m. Inr (p + length (row_bytes k pix w j), m))"
proof -
  let ?data = "concat (map (\<lambda>i. bgr (px k pix (i + j * w))) [0..<w])"
  have off: "pixel_offset k (bi_width info) (of_nat j) (of_nat i) = (i + j * w) * k" if "i < w" for i
  proof -
    have "(i + j * w) * k + k \<le> w * h * k" using pixel_in_row [OF that assms(7) order_refl] .
    then have "(i + j * w) * k < 2 ^ 32" using assms(2,8) by auto
    then show ?thesis using that assms by (subst pixel_offset_small) auto
  qed
  have data: "drop p f = ?data @ replicate (w mod 4) 0 @ rest" using assms(1) by (simp add: row_bytes_def)
  have pad: "drop (p + 3 * w) f = replicate (w mod 4) 0 @ rest"
    using arg_cong [OF data, of "drop (3 * w)"] length_pixel_bytes [of "\<lambda>i. px k pix (i + j * w)" "[0..<w]"]
    by (simp add: add.commute)
  have zero: "for_up (bi_width info) g 0 s = fold_res (\<lambda>i. g (of_nat i)) [0..<w] s" for g and s :: "nat \<times> fb_pixel list"
    using for_up_fold [of "bi_width info" 0 g s] assms(4,5) by simp
  have row: "fold_res (\<lambda>i (p, pix). let (c, p) = read_pixel 24 f p in
         res_bind (fb_set_pixel k pix (pixel_offset k (bi_width info) (of_nat j) (of_nat i)) c) (\<lambda>pix. Inr (p, pix)))
        [0..<w] (p, m)
      = res_bind (fold_res (\<lambda>i m. fb_set_pixel k m ((i + j * w) * k) (px k pix (i + j * w))) [0..<w] m)
         (\<lambda>m. Inr (p + 3 * w, m))"
  proof -
    have "fold_res (\<lambda>i m. fb_set_pixel k m (pixel_offset k (bi_width info) (of_nat j) (of_nat i)) (px k pix (i + j * w))) [0..<w] m
        = fold_res (\<lambda>i m. fb_set_pixel k m ((i + j * w) * k) (px k pix (i + j * w))) [0..<w] m"
      by (rule fold_res_cong) (simp_all add: off)
    then show ?thesis unfolding read_pixels_at [OF data] by simp
  qed
  have len: "length (row_bytes k pix w j) = 3 * w + w mod 4"
    using length_pixel_bytes [of "\<lambda>i. px k pix (i + j * w)" "[0..<w]"] by (simp add: row_bytes_def)
  show ?thesis
    unfolding read_row_def zero assms(3) row res_bind_assoc len
    using skip_at [OF pad] by (simp add: unat_mod_4 assms(4) add.assoc)
qed

lemma read_rows_at:
  assumes "drop p f = concat (map (row_bytes k pix w) js) @ rest" and "\<forall>j\<in>set js. j < h" and "k \<in> {1, 2}"
    and "bi_bpp info = 24" and "unat (bi_width info) = w" and "w \<le> 2 ^ 15" and "h \<le> 2 ^ 15" and "w * h * k < 2 ^ 32"
  shows "\<exists>p'. fold_res (\<lambda>j. read_row k info f (of_nat j)) js (p, m)
     = res_bind (fold_res (\<lambda>j. fold_res (\<lambda>i m. fb_set_pixel k m ((i + j * w) * k) (px k pix (i + j * w))) [0..<w]) js m)
         (\<lambda>m. Inr (p', m))"
  using assms(1,2)
proof (induction js arbitrary: p m)
  case (Cons j js)
  let ?row = "\<lambda>j. fold_res (\<lambda>i m. fb_set_pixel k m ((i + j * w) * k) (px k pix (i + j * w))) [0..<w]"
  have "drop p f = row_bytes k pix w j @ concat (map (row_bytes k pix w) js) @ rest" using Cons.prems(1) by simp
  note row = read_row_at [OF this assms(3-7) _ assms(8), of m]
  have rest: "drop (p + length (row_bytes k pix w j)) f = concat (map (row_bytes k pix w) js) @ rest"
    using arg_cong [OF Cons.prems(1), of "drop (length (row_bytes k pix w j))"] by (simp add: add.commute)
  show ?case
  proof (cases "?row j m")
    case (Inl e)
    then show ?thesis using row Cons.prems(2) by simp
  next
    case (Inr m')
    then show ?thesis using row Cons.prems(2) Cons.IH [OF rest, of m'] by simp
  qed
qed simp

section \<open>Saving and loading\<close>

lemma quant_px:
  assumes "k \<in> {1, 2}" and "n * k + k \<le> length pix"
  shows "quant k (px k pix n) = px k pix n"
  using assms by (auto simp: px_def fb_get_pixel_def peek_def quant_def quant_colour_1 quant_colour_2)

lemma bmp_file_headers:
  "read_file_header big (bmp_file big k pix w h) 0 = Some (new_file_header w h, 14)"
  "read_info_header big (bmp_file big k pix w h) 14 = Some (new_info_header w h, 54)"
  "drop 54 (bmp_file big k pix w h) = concat (map (row_bytes k pix (unat w)) (rev [0..<unat h]))"
proof -
  let ?f = "bmp_file big k pix w h"
  have "drop 0 ?f = concat (file_header_fields big (new_file_header w h)) @
      (concat (info_header_fields big (new_info_header w h)) @ concat (map (row_bytes k pix (unat w)) (rev [0..<unat h])))"
    by (simp add: bmp_file_def)
  note hdr = read_file_header_at [OF this, unfolded add_0]
  note info = read_info_header_at [OF hdr(2)]
  show "read_file_header big ?f 0 = Some (new_file_header w h, 14)" by (rule hdr(1))
  show "read_info_header big ?f 14 = Some (new_info_header w h, 54)" using info(1) by simp
  show "drop 54 ?f = concat (map (row_bytes k pix (unat w)) (rev [0..<unat h]))" using info(2) by simp
qed

lemma small_pixmap:
  assumes "(n :: nat) \<le> 2 ^ 22"
  shows "n * 8 < 2 ^ 32" and "k \<in> {1, 2} \<Longrightarrow> n * k < 2 ^ 32"
  using assms by auto

lemma load_bmp_file:
  assumes "k \<in> {1, 2}" and "unat w \<le> 2 ^ 15" and "unat h \<le> 2 ^ 15" and "unat w * unat h \<le> 2 ^ 22"
    and "malloc (unat w * unat h * k) = Some m"
  shows "bmp2fb_pixmap big k malloc (Some (bmp_file big k pix w h)) im =
    res_bind (fold_res (\<lambda>j. fold_res (\<lambda>i m. fb_set_pixel k m ((i + j * unat w) * k) (px k pix (i + j * unat w))) [0..<unat w])
        (rev [0..<unat h]) m) (\<lambda>m.
      Inr (0, False, im\<lparr>im_w := w, im_h := h, im_pixmap := Some m\<rparr>))"
proof -
  let ?f = "bmp_file big k pix w h" and ?hdr = "new_file_header w h" and ?info = "new_info_header w h"
  let ?W = "unat w" and ?H = "unat h"
  let ?data = "concat (map (row_bytes k pix ?W) (rev [0..<?H]))"
  note hdr = bmp_file_headers(1) [of big k pix w h] and info = bmp_file_headers(2) [of big k pix w h]
  have data: "drop 54 ?f = ?data @ []" using bmp_file_headers(3) by simp
  have width: "bi_width ?info = of_nat ?W" "unat (bi_width ?info) = ?W"
    and height: "bi_height ?info = of_nat ?H"
    and fields: "bf_type ?hdr = 0x4d42" "bi_compression ?info = 0" "bi_bpp ?info = 24" "bf_data_offset ?hdr = 54"
    by (simp_all add: new_info_header_def new_file_header_def Let_def unat_ucast_16)
  have wh: "ucast (bi_width ?info) = w" "ucast (bi_height ?info) = h"
    by (simp_all add: new_info_header_def Let_def unsigned_ucast_eq take_bit_word_eq_self)
  have "unat (of_nat (?W * ?H * 8) :: 32 word) = ?W * ?H * 8" using small_pixmap(1) [OF assms(4)] by (rule unat_small)
  then have "unat (of_nat (?W * ?H * 8) div 8 :: 32 word) = ?W * ?H * 8 div unat (8 :: 32 word)"
    by (simp only: unat_div_distrib)
  also have "\<dots> = ?W * ?H" by simp
  finally have "unat (of_nat (?W * ?H * 8) div 8 :: 32 word) = ?W * ?H" .
  moreover have "bi_width ?info * bi_height ?info * FB_BPP = of_nat (?W * ?H * 8)"
    unfolding width(1) height FB_BPP_def by simp
  ultimately have mem: "\<not> bi_width ?info * bi_height ?info * FB_BPP div 8 > MEMSIZE"
    using assms(4) by (simp add: MEMSIZE_def word_less_nat_alt)
  have small: "?W * ?H * k < 2 ^ 32" using small_pixmap(2) [OF assms(4,1)] .
  have "bi_width ?info * bi_height ?info * of_nat k = of_nat (?W * ?H * k)"
    unfolding width(1) height by simp
  then have size: "unat (bi_width ?info * bi_height ?info * of_nat k) = ?W * ?H * k"
    using unat_small [OF small] by simp
  have rows: "ucast (bi_height ?info - 1) = (of_nat ?H - 1 :: 16 word)"
    by (simp add: new_info_header_def Let_def rows_offset)
  obtain p' where loop: "for_down (read_row k ?info ?f) (ucast (bi_height ?info - 1)) (54, m)
     = res_bind (fold_res (\<lambda>j. fold_res (\<lambda>i m. fb_set_pixel k m ((i + j * ?W) * k) (px k pix (i + j * ?W))) [0..<?W])
         (rev [0..<?H]) m) (\<lambda>m. Inr (p', m))"
    unfolding rows for_down_fold [OF assms(3)]
    using read_rows_at [OF data _ assms(1) fields(3) width(2) assms(2,3) small, of m] by auto
  show ?thesis
    unfolding bmp2fb_pixmap_def option.case hdr info prod.case
    using mem loop by (simp add: fields size wh assms(5) res_bind_assoc fseek_set_def Let_def)
qed

lemma load_saved_bmp:
  assumes "k \<in> {1, 2}" and "unat w \<le> 2 ^ 15" and "unat h \<le> 2 ^ 15" and "unat w * unat h \<le> 2 ^ 22"
    and "unat w * unat h * k \<le> length pix"
    and "malloc (unat w * unat h * k) = Some m" and "length m = unat w * unat h * k"
  shows "\<exists>new. bmp2fb_pixmap big k malloc (Some (bmp_file big k pix w h)) im
      = Inr (0, False, \<lparr>im_pixmap = Some new, im_w = w, im_h = h\<rparr>) \<and>
    length new = unat w * unat h * k \<and>
    (\<forall>n < unat w * unat h. fb_get_pixel k new (n * k) (0, 0, 0) = fb_get_pixel k pix (n * k) (0, 0, 0))"
proof -
  obtain new where new:
    "fold_res (\<lambda>j. fold_res (\<lambda>i m. fb_set_pixel k m ((i + j * unat w) * k) (px k pix (i + j * unat w))) [0..<unat w])
        (rev [0..<unat h]) m = Inr new"
    "length new = length m"
    "\<forall>n < unat w * unat h. fb_get_pixel k new (n * k) (0, 0, 0) = Inr (quant k (px k pix n))"
    using paint_grid [OF assms(1,7) set_upt_lessThan(2), of "px k pix"] by blast
  have colour: "fb_get_pixel k new (n * k) (0, 0, 0) = fb_get_pixel k pix (n * k) (0, 0, 0)" if "n < unat w * unat h" for n
  proof -
    have "(n + 1) * k \<le> unat w * unat h * k" using that by (intro mult_le_mono1) simp
    then have "n * k + k \<le> length pix" using assms(5) by simp
    then show ?thesis using new(3) that quant_px [OF assms(1)] get_pixel_px [OF assms(1)] by simp
  qed
  have "bmp2fb_pixmap big k malloc (Some (bmp_file big k pix w h)) im
      = Inr (0, False, \<lparr>im_pixmap = Some new, im_w = w, im_h = h\<rparr>)"
    using load_bmp_file [where big = big and pix = pix and im = im and malloc = malloc, OF assms(1-4,6)] new(1) by simp
  then show ?thesis using new(2) colour assms(7) by auto
qed

text \<open>
  C8. Round trip of the BMP codec: an image of at most 32768 columns and rows and 4 MB, in the one-
  or two-byte mode, is saved completely, and loading the file on the same machine, whatever its byte
  order, succeeds with the same width and height and a pixmap in which every pixel has the colour it
  had in the saved one.
\<close>

theorem bmp_roundtrip:
  assumes "k \<in> {1, 2}" and "unat w \<le> 2 ^ 15" and "unat h \<le> 2 ^ 15" and "unat w * unat h \<le> 2 ^ 22"
    and "unat w * unat h * k \<le> length pix" and "\<And>i. fw i"
    and "malloc (unat w * unat h * k) = Some m" and "length m = unat w * unat h * k"
  shows "\<exists>bmp new.
    fb_pixmap2bmp big k True fw pix w h = Inr (0, False, Some bmp) \<and>
    bmp2fb_pixmap big k malloc (Some bmp) im = Inr (0, False, \<lparr>im_pixmap = Some new, im_w = w, im_h = h\<rparr>) \<and>
    length new = unat w * unat h * k \<and>
    (\<forall>n < unat w * unat h. fb_get_pixel k new (n * k) (0, 0, 0) = fb_get_pixel k pix (n * k) (0, 0, 0))"
proof -
  have small: "unat w * unat h * k < 2 ^ 32" using small_pixmap(2) [OF assms(4,1)] .
  have "fb_pixmap2bmp big k True fw pix w h = Inr (0, False, Some (bmp_file big k pix w h))"
    using fb_pixmap2bmp_file [OF assms(1-3,5) small assms(6)] .
  then show ?thesis using load_saved_bmp [where malloc = malloc, OF assms(1-5,7,8), of big im] by auto
qed

theorem bmp_roundtrip_witness:
  "\<exists>bmp new.
    fb_pixmap2bmp True 1 True (\<lambda>_. True) [1, 2, 3, 4, 5, 6] 3 2 = Inr (0, False, Some bmp) \<and>
    bmp2fb_pixmap True 1 (\<lambda>n. Some (replicate n 0)) (Some bmp) \<lparr>im_pixmap = None, im_w = 0, im_h = 0\<rparr>
      = Inr (0, False, \<lparr>im_pixmap = Some new, im_w = 3, im_h = 2\<rparr>) \<and>
    fb_get_pixel 1 new 4 (0, 0, 0) = Inr (0, 32, 64)"
proof -
  let ?pix = "[1, 2, 3, 4, 5, 6] :: fb_pixel list" and ?m = "\<lambda>n. Some (replicate n 0) :: fb_pixel list option"
  have "\<exists>bmp new.
    fb_pixmap2bmp True 1 True (\<lambda>_. True) ?pix 3 2 = Inr (0, False, Some bmp) \<and>
    bmp2fb_pixmap True 1 ?m (Some bmp) \<lparr>im_pixmap = None, im_w = 0, im_h = 0\<rparr>
      = Inr (0, False, \<lparr>im_pixmap = Some new, im_w = 3, im_h = 2\<rparr>) \<and>
    length new = unat (3 :: 16 word) * unat (2 :: 16 word) * 1 \<and>
    (\<forall>n < unat (3 :: 16 word) * unat (2 :: 16 word).
       fb_get_pixel 1 new (n * 1) (0, 0, 0) = fb_get_pixel 1 ?pix (n * 1) (0, 0, 0))"
    by (rule bmp_roundtrip [where m = "replicate 6 0"]) (simp_all only: length_replicate, simp_all)
  then obtain bmp new where run:
    "fb_pixmap2bmp True 1 True (\<lambda>_. True) ?pix 3 2 = Inr (0, False, Some bmp)"
    "bmp2fb_pixmap True 1 ?m (Some bmp) \<lparr>im_pixmap = None, im_w = 0, im_h = 0\<rparr>
      = Inr (0, False, \<lparr>im_pixmap = Some new, im_w = 3, im_h = 2\<rparr>)"
    and px: "\<forall>n < unat (3 :: 16 word) * unat (2 :: 16 word).
       fb_get_pixel 1 new (n * 1) (0, 0, 0) = fb_get_pixel 1 ?pix (n * 1) (0, 0, 0)" by blast
  have "fb_get_pixel 1 new 4 (0, 0, 0) = Inr (0, 32, 64)"
    using px [rule_format, of 4] by (simp add: fb_get_pixel_def peek_def colour_1_def)
  with run show ?thesis by blast
qed

end
