(* ===== verification/Bmp_Safe.thy ===== *)
theory Bmp_Safe
  imports Bmp_Correct
begin

text \<open>
  What \<open>bmp2fb_pixmap\<close> does with any file: when the size in the header does not overflow 32 bits it
  never writes outside the pixmap and closes the file exactly when it fails; a size that overflows
  makes it write outside; and a big-endian machine refuses every file that starts with the letters
  \<open>BM\<close>.
\<close>

section \<open>Loops that cannot fail\<close>

lemma for_up_total:
  assumes "\<And>i s. signed i < n \<Longrightarrow> P s \<Longrightarrow> \<exists>t. f i s = Inr t \<and> P t" and "P s"
  shows "\<exists>t. for_up n f i s = Inr t \<and> P t"
  using assms
proof (induction n f i s rule: for_up.induct)
  case (1 n f i s)
  show ?case
  proof (cases "signed i < n")
    case True
    with "1.prems" obtain t where t: "f i s = Inr t" "P t" by blast
    from "1.IH" [OF True t(1) "1.prems"(1) t(2)] show ?thesis by (subst for_up.simps) (simp add: True t(1))
  next
    case False
    then show ?thesis using "1.prems"(2) by (subst for_up.simps) simp
  qed
qed

lemma sint_pred: "0 \<le> sint j \<Longrightarrow> sint (j - 1) = sint j - 1" for j :: "16 word"
  using sint_lt [of j] by (simp add: sint_word_ariths signed_take_bit_int_eq_self)

lemma for_down_total:
  assumes "\<And>j s. 0 \<le> sint j \<Longrightarrow> sint j < b \<Longrightarrow> P s \<Longrightarrow> \<exists>t. f j s = Inr t \<and> P t" and "sint j < b" and "P s"
  shows "\<exists>t. for_down f j s = Inr t \<and> P t"
  using assms
proof (induction f j s rule: for_down.induct)
  case (1 f j s)
  show ?case
  proof (cases "0 \<le> sint j")
    case True
    with "1.prems" obtain t where t: "f j s = Inr t" "P t" by blast
    have "sint (j - 1) < b" using sint_pred [OF True] "1.prems"(2) by simp
    from "1.IH" [OF True t(1) "1.prems"(1) this t(2)] show ?thesis
      by (subst for_down.simps) (simp add: True t(1))
  next
    case False
    then show ?thesis using "1.prems"(3) by (subst for_down.simps) simp
  qed
qed

section \<open>Offsets\<close>

lemma pixel_offset_inside:
  assumes "signed i < w" and "0 \<le> sint j" and "sint j < int (unat h)" and "unat w * unat h * k < 2 ^ 32"
    and "0 < k"
  shows "pixel_offset k w j i + k \<le> unat w * unat h * (k :: nat)"
proof -
  let ?i = "unat (signed i :: 32 word)"
  have i: "?i < unat w" using assms(1) by (simp add: word_less_nat_alt)
  have "signed j = (of_int (sint j) :: 32 word)" by simp
  then have j: "signed j = (of_nat (nat (sint j)) :: 32 word)" using assms(2) by simp
  have "nat (sint j) < unat h" using assms(2,3) by linarith
  then have "(nat (sint j) + 1) * unat w \<le> unat h * unat w" by (intro mult_le_mono1) simp
  then have "?i + nat (sint j) * unat w + 1 \<le> unat w * unat h" using i by (simp add: mult.commute)
  then have "(?i + nat (sint j) * unat w + 1) * k \<le> unat w * unat h * k" by (rule mult_le_mono1)
  then have le: "(?i + nat (sint j) * unat w) * k + k \<le> unat w * unat h * k" by simp
  have "pixel_offset k w j i = unat (of_nat ((?i + nat (sint j) * unat w) * k) :: 32 word)"
    unfolding pixel_offset_def j by simp
  also have "\<dots> = (?i + nat (sint j) * unat w) * k" using le assms(4,5) by (intro unat_small) linarith
  finally show ?thesis using le by simp
qed

lemma set_pixel_inside:
  assumes "k \<in> {1, 2}" and "a + k \<le> length m"
  shows "\<exists>m'. fb_set_pixel k m a c = Inr m' \<and> length m' = length m"
  using assms by (auto simp: fb_set_pixel_def poke_def)

lemma read_row_total:
  assumes "k \<in> {1, 2}" and "0 \<le> sint j" and "sint j < int (unat (bi_height info))"
    and "unat (bi_width info) * unat (bi_height info) * k < 2 ^ 32"
    and "length (snd s) = unat (bi_width info) * unat (bi_height info) * k"
  shows "\<exists>t. read_row k info f j s = Inr t \<and> length (snd t) = length (snd s)"
proof -
  let ?n = "unat (bi_width info) * unat (bi_height info) * k"
  have "\<exists>t. for_up (bi_width info) (\<lambda>i (p, pix).
         let (c, p) = read_pixel (bi_bpp info) f p in
         res_bind (fb_set_pixel k pix (pixel_offset k (bi_width info) j i) c) (\<lambda>pix.
           Inr (p, pix))) 0 s = Inr t \<and> length (snd t) = ?n"
  proof (rule for_up_total)
    fix i :: "16 word" and s :: "nat \<times> fb_pixel list"
    assume i: "signed i < bi_width info" and s: "length (snd s) = ?n"
    obtain p pix where sp: "s = (p, pix)" by (cases s)
    obtain c p' where rd: "read_pixel (bi_bpp info) f p = (c, p')" by (cases "read_pixel (bi_bpp info) f p")
    have "pixel_offset k (bi_width info) j i + k \<le> length pix"
      using pixel_offset_inside [OF i assms(2,3,4)] assms(1) s sp by auto
    from set_pixel_inside [OF assms(1) this, of c] obtain pix' where
      "fb_set_pixel k pix (pixel_offset k (bi_width info) j i) c = Inr pix'" "length pix' = length pix" by blast
    then show "\<exists>t. (case s of (p, pix) \<Rightarrow> let (c, p) = read_pixel (bi_bpp info) f p in
         res_bind (fb_set_pixel k pix (pixel_offset k (bi_width info) j i) c) (\<lambda>pix. Inr (p, pix))) = Inr t \<and>
         length (snd t) = ?n" using s sp by (simp add: rd)
  qed (rule assms(5))
  then show ?thesis using assms(5) by (auto simp: read_row_def case_prod_beta)
qed

lemma small_product: "n < 2 ^ 29 \<Longrightarrow> k \<in> {1, 2} \<Longrightarrow> n * k < 2 ^ 32" for n k :: nat
  by auto

lemma first_row: "sint (ucast (h - 1) :: 16 word) < int (unat (h :: 32 word))"
proof (cases "h = 0")
  case False
  then have "unat (h - 1) = unat h - 1" "0 < unat h"
    by (simp_all add: unat_minus_one unat_gt_0)
  moreover have "unat (ucast (h - 1) :: 16 word) \<le> unat (h - 1)"
    by (simp add: unsigned_ucast_eq take_bit_eq_mod)
  moreover have "sint (ucast (h - 1) :: 16 word) \<le> int (unat (ucast (h - 1) :: 16 word))"
    using order.trans [OF _ uint_ge_0, of "- 32768" "ucast (h - 1) :: 16 word"]
    unfolding sint_uint uint_nat by (simp add: signed_take_bit_int_less_eq_self_iff)
  ultimately show ?thesis by linarith
next
  case True
  have "ucast (- 1 :: 32 word) = (- 1 :: 16 word)" by (rule bit_word_eqI) (simp add: bit_unsigned_iff)
  then show ?thesis using True by simp
qed

section \<open>Any file\<close>

lemma fread_word_pos: "fread_word big f p = Some (w :: 'a::len word, q) \<Longrightarrow> q = p + LENGTH('a) div 8"
  by (auto simp: fread_word_def Let_def split: if_splits)

lemma read_file_header_pos: "read_file_header big f 0 = Some (hdr, p) \<Longrightarrow> p = 14"
  by (auto simp: read_file_header_def Option.bind_eq_Some_conv dest!: fread_word_pos)

text \<open>With a size that does not overflow, the size passed to \<open>malloc\<close> is the true one and all rows
  stay inside.\<close>

lemma pixmap_size:
  assumes "k \<in> {1, 2}" and "unat w * unat h < 2 ^ 29"
  shows "unat (w * h * of_nat k :: 32 word) = unat w * unat h * k"
proof -
  have "w * h * of_nat k = of_nat (unat w * unat h * k)" by simp
  then show ?thesis using unat_small [OF small_product [OF assms(2,1)]] by (simp only:)
qed

lemma read_rows_total:
  assumes "k \<in> {1, 2}" and "unat (bi_width info) * unat (bi_height info) < 2 ^ 29"
    and "length pix = unat (bi_width info) * unat (bi_height info) * k"
  shows "\<exists>t. for_down (read_row k info f) (ucast (bi_height info - 1)) (p, pix) = Inr t \<and>
    length (snd t) = unat (bi_width info) * unat (bi_height info) * k"
  by (rule for_down_total [where b = "int (unat (bi_height info))"])
    (use read_row_total [OF assms(1) _ _ small_product [OF assms(2,1)]] first_row assms(3) in auto)

lemma read_file_header_type:
  "read_file_header big f 0 = Some (hdr, p) \<Longrightarrow> \<exists>q. fread_word big f 0 = Some (bf_type hdr, q)"
  by (auto simp: read_file_header_def Option.bind_eq_Some_conv)

text \<open>
  C18. Safety of the BMP loader: for every content of the file whose header states a number of pixels
  below \<open>2 ^ 29\<close>, in the one- and two-byte modes, \<open>bmp2fb_pixmap\<close> returns without touching memory
  outside the pixmap it allocated; it fails with 1, having closed the file, or succeeds with a
  pixmap that is large enough for the width and height it reports, leaving the file open.
\<close>

theorem bmp_load_safe:
  assumes "k \<in> {1, 2}" and "\<And>n m. malloc n = Some m \<Longrightarrow> length m = n"
    and "\<And>info p. read_info_header big f 14 = Some (info, p) \<Longrightarrow> unat (bi_width info) * unat (bi_height info) < 2 ^ 29"
  shows "(\<exists>im'. bmp2fb_pixmap big k malloc (Some f) im = Inr (1, True, im')) \<or>
    (\<exists>im' pix. bmp2fb_pixmap big k malloc (Some f) im = Inr (0, False, im') \<and> im_pixmap im' = Some pix \<and>
       unat (im_w im') * unat (im_h im') * k \<le> length pix)"
proof (cases "read_file_header big f 0")
  case None
  then show ?thesis by (simp add: bmp2fb_pixmap_def)
next
  case (Some hp)
  then obtain hdr where hdr: "read_file_header big f 0 = Some (hdr, 14)"
    by (metis read_file_header_pos surj_pair)
  show ?thesis
  proof (cases "read_info_header big f 14")
    case None
    then show ?thesis by (simp add: bmp2fb_pixmap_def hdr)
  next
    case (Some ip)
    then obtain info p where info: "read_info_header big f 14 = Some (info, p)" by (cases ip) simp
    let ?n = "unat (bi_width info) * unat (bi_height info)"
    have n: "?n < 2 ^ 29" by (rule assms(3) [OF info])
    note size = pixmap_size [OF assms(1) n] and load = read_rows_total [OF assms(1) n]
    have trunc: "unat (ucast (w :: 32 word) :: 16 word) \<le> unat w" for w
      by (simp add: unsigned_ucast_eq take_bit_eq_mod)
    have room: "unat (ucast (bi_width info) :: 16 word) * unat (ucast (bi_height info) :: 16 word) * k \<le> ?n * k"
      by (intro mult_le_mono1 mult_le_mono trunc)
    show ?thesis
    proof (cases "malloc (?n * k)")
      case None
      then show ?thesis by (simp add: bmp2fb_pixmap_def hdr info size)
    next
      case (Some pix)
      obtain t where "for_down (read_row k info f) (ucast (bi_height info - 1)) (fseek_set p (bf_data_offset hdr), pix) = Inr t"
        "length (snd t) = ?n * k" using load assms(2) [OF Some] by blast
      then show ?thesis using room Some by (simp add: bmp2fb_pixmap_def hdr info size case_prod_beta Let_def)
    qed
  qed
qed

theorem bmp_load_safe_witness:
  "let f = bmp_file False 2 [1, 2, 3, 4] 2 1 in
   (\<exists>im'. bmp2fb_pixmap False 2 (\<lambda>n. Some (replicate n 0)) (Some f) \<lparr>im_pixmap = None, im_w = 0, im_h = 0\<rparr> = Inr (1, True, im')) \<or>
   (\<exists>im' pix. bmp2fb_pixmap False 2 (\<lambda>n. Some (replicate n 0)) (Some f) \<lparr>im_pixmap = None, im_w = 0, im_h = 0\<rparr>
       = Inr (0, False, im') \<and> im_pixmap im' = Some pix \<and> unat (im_w im') * unat (im_h im') * 2 \<le> length pix)"
proof -
  have "unat (bi_width info) * unat (bi_height info) < 2 ^ 29"
    if "read_info_header False (bmp_file False 2 [1, 2, 3, 4] 2 1) 14 = Some (info, p)" for info p
    using that by (auto simp: bmp_file_headers(2) new_info_header_def)
  then show ?thesis unfolding Let_def by (intro bmp_load_safe) auto
qed

text \<open>A header whose size wraps around to nothing passes the test against \<open>MEMSIZE\<close>, and the first
  pixel is written far outside the empty pixmap.\<close>

definition overflow_info :: bitmap_info_header where
  "overflow_info = \<lparr>bi_size = 40, bi_width = 0x20000, bi_height = 0x8000, bi_planes = 1, bi_bpp = 24, bi_compression = 0,
     bi_data_size = 0, bi_pixels_per_meter_X = 0, bi_pixels_per_meter_Y = 0, bi_colour_count = 0, bi_colour_used = 0\<rparr>"

lemma bmp_size_overflow_faults:
  assumes "read_file_header big f 0 = Some (hdr, 14)" and "bf_type hdr = 0x4d42"
    and "read_info_header big f 14 = Some (overflow_info, p)" and "malloc 0 = Some []"
  shows "bmp2fb_pixmap big 1 malloc (Some f) im = Inl Fault"
proof -
  have "for_down (read_row 1 overflow_info f) 0x7fff (q, []) = Inl Fault" for q
  proof -
    have "read_row 1 overflow_info f 0x7fff (q, []) = Inl Fault"
      unfolding read_row_def
      by (subst for_up.simps) (simp add: overflow_info_def case_prod_beta fb_set_pixel_def poke_def)
    then show ?thesis by (subst for_down.simps) simp
  qed
  then show ?thesis
    using assms by (simp add: bmp2fb_pixmap_def overflow_info_def FB_BPP_def MEMSIZE_def Let_def)
qed

text \<open>The letters \<open>BM\<close> that start every BMP file are the number the code compares with only on a
  little-endian machine.\<close>

lemma bmp_big_endian_refuses:
  assumes "f = 0x42 # 0x4d # rest"
  shows "bmp2fb_pixmap True k malloc (Some f) im = Inr (1, True, im)"
proof (cases "read_file_header True f 0")
  case None
  then show ?thesis by (simp add: bmp2fb_pixmap_def)
next
  case (Some hp)
  then obtain hdr p where hp: "read_file_header True f 0 = Some (hdr, p)" by (cases hp) simp
  have "fread_word True f 0 = Some (0x424d :: 16 word, 2)"
    unfolding assms fread_word_def Let_def by (simp add: bytes_word_def)
  then have "bf_type hdr = 0x424d" using read_file_header_type [OF hp] by simp
  then show ?thesis by (simp add: bmp2fb_pixmap_def hp)
qed

end
