(* ===== verification/Bitmap.thy ===== *)
theory Bitmap
  imports Fb_Screen Bmp_Safe
begin

text \<open>
  The interactive bitmap viewer \<open>patches/code/fbview/bitmap.c\<close>: \<open>bitmap_load\<close>, \<open>bitmap_render\<close> and
  \<open>bitmap_play\<close>. \<open>fb_setpixel\<close>, the keyboard functions, the key codes and \<open>JUMP_SIZE\<close> come from headers
  that are not in the repository and are arguments: the key codes a record, the keyboard the list of
  the characters \<open>readch\<close> returns, one for each turn of the loop in which \<open>kbhit\<close> is 0; a loop that is
  not left when they are used up is \<open>Diverges\<close>. The globals \<open>position_x\<close> and \<open>position_y\<close>, which no code
  resets, are passed in and out of \<open>bitmap_play\<close> as a pair.
\<close>

section \<open>Loading\<close>

definition bitmap_row ::
  "nat \<Rightarrow> (fb_pixel list \<Rightarrow> nat \<Rightarrow> rgb \<Rightarrow> fb_pixel list res) \<Rightarrow> bitmap_info_header \<Rightarrow> bytes \<Rightarrow> 16 word \<Rightarrow>
   nat \<times> fb_pixel list \<Rightarrow> (nat \<times> fb_pixel list) res" where
  "bitmap_row pixelsize fb_setpixel info f j s =
     res_bind (for_up (bi_width info) (\<lambda>i (p, buf).
         let (c, p) = read_pixel (bi_bpp info) f p in
         res_bind (fb_setpixel buf (pixel_offset pixelsize (bi_width info) j i) c) (\<lambda>buf. Inr (p, buf))) 0 s)
       (\<lambda>(p, buf). Inr (((\<lambda>p. snd (fgetc f p)) ^^ unat (bi_width info mod 4)) p, buf))"

text \<open>The result: \<open>None\<close> for \<open>NULL\<close>, or the buffer with the global \<open>bmp_info\<close>, which nobody reads
  after a failure; and whether the file was closed.\<close>

definition bitmap_load ::
  "bool \<Rightarrow> nat \<Rightarrow> (fb_pixel list \<Rightarrow> nat \<Rightarrow> rgb \<Rightarrow> fb_pixel list res) \<Rightarrow> (nat \<Rightarrow> fb_pixel list option) \<Rightarrow>
   bytes option \<Rightarrow> (bool \<times> (bitmap_info_header \<times> fb_pixel list) option) res" where
  "bitmap_load big pixelsize fb_setpixel malloc fopened =
     (case fopened of
        None \<Rightarrow> Inr (False, None)
      | Some f \<Rightarrow>
     (case read_file_header big f 0 of
        None \<Rightarrow> Inr (True, None)
      | Some (header, p) \<Rightarrow>
      if bf_type header \<noteq> 0x4d42 then Inr (True, None)
      else
     (case read_info_header big f p of
        None \<Rightarrow> Inr (True, None)
      | Some (info, p) \<Rightarrow>
      if bi_compression info \<noteq> 0 then Inr (True, None)
      else if bi_width info * bi_height info * FB_BPP div 8 > MEMSIZE then Inr (True, None)
      else if bi_bpp info \<noteq> 24 \<and> bi_bpp info \<noteq> 32 then Inr (True, None)
      else
        case malloc (unat (bi_width info * bi_height info * of_nat pixelsize)) of
          None \<Rightarrow> Inr (True, None)
        | Some buf \<Rightarrow>
          res_bind (for_down (bitmap_row pixelsize fb_setpixel info f) (ucast (bi_height info - 1))
              (fseek_set p (bf_data_offset header), buf)) (\<lambda>(p, buf).
            Inr (False, Some (info, buf))))))"

section \<open>Rendering\<close>

definition bitmap_render ::
  "fb_state \<Rightarrow> bitmap_info_header \<Rightarrow> 16 word \<Rightarrow> 16 word \<Rightarrow> fb_pixel list \<Rightarrow> fb_pixel list \<Rightarrow> fb_pixel list res" where
  "bitmap_render s info position_x position_y buf screen =
     (let bmp_line_size = unat (bi_width info * of_nat (fb_pixelsize s));
          fb_line_size = fb_xres s * fb_pixelsize s;
          tmp_bmp = unat position_y * bmp_line_size mod 2 ^ 32 + unat position_x * fb_pixelsize s;
          copy_mem_size = (if fb_xres s > unat (bi_width info) then bmp_line_size else fb_line_size);
          max_j = (if fb_yres s > unat (bi_height info) then unat (bi_height info) else fb_yres s) in
      fold_res (\<lambda>j scr. memcpy_at scr (j * fb_line_size) buf (tmp_bmp + j * bmp_line_size) copy_mem_size)
        [0..<max_j] screen)"

section \<open>The viewer\<close>

record keymap =
  KEY_ESC :: int
  KEY_UP :: int
  KEY_DOWN :: int
  KEY_LEFT :: int
  KEY_RIGHT :: int
  JUMP_SIZE :: "16 word"

text \<open>What one character does to \<open>position_x\<close> and \<open>position_y\<close>: four tests one after another. The sums
  with \<open>bi_height\<close> and \<open>bi_width\<close> are 32-bit unsigned.\<close>

definition scroll_key ::
  "keymap \<Rightarrow> fb_state \<Rightarrow> bitmap_info_header \<Rightarrow> int \<Rightarrow> 16 word \<times> 16 word \<Rightarrow> 16 word \<times> 16 word" where
  "scroll_key km s info ch pos =
     (let (x, y) = pos;
          y = (if ch = KEY_UP km \<and> y \<ge> JUMP_SIZE km then y - JUMP_SIZE km else y);
          y = (if ch = KEY_DOWN km \<and> of_nat (fb_yres s) \<le> bi_height info - ucast y - ucast (JUMP_SIZE km)
               then y + JUMP_SIZE km else y);
          x = (if ch = KEY_LEFT km \<and> x \<ge> JUMP_SIZE km then x - JUMP_SIZE km else x);
          x = (if ch = KEY_RIGHT km \<and> of_nat (fb_xres s) \<le> bi_width info - ucast x - ucast (JUMP_SIZE km)
               then x + JUMP_SIZE km else x) in
      (x, y))"

fun key_loop ::
  "keymap \<Rightarrow> fb_state \<Rightarrow> bitmap_info_header \<Rightarrow> fb_pixel list \<Rightarrow> int list \<Rightarrow> 16 word \<times> 16 word \<Rightarrow> fb_pixel list \<Rightarrow>
   ((16 word \<times> 16 word) \<times> fb_pixel list) res" where
  "key_loop km s info buf [] pos screen = Inl Diverges"
| "key_loop km s info buf (ch # keys) pos screen =
     (if ch = KEY_ESC km then Inr (pos, screen)
      else let pos = scroll_key km s info ch pos in
        res_bind (bitmap_render s info (fst pos) (snd pos) buf screen) (key_loop km s info buf keys pos))"

text \<open>The result: the return value, the calls of the device, the position and the screen. The screen is
  the memory that \<open>mmap\<close> maps.\<close>

definition bitmap_play ::
  "keymap \<Rightarrow> bool \<Rightarrow> fb_env \<Rightarrow> (nat \<Rightarrow> fb_pixel list \<Rightarrow> nat \<Rightarrow> rgb \<Rightarrow> fb_pixel list res) \<Rightarrow> (nat \<Rightarrow> fb_pixel list option) \<Rightarrow>
   bytes option \<Rightarrow> int list \<Rightarrow> 16 word \<times> 16 word \<Rightarrow> fb_pixel list \<Rightarrow>
   (int \<times> fb_call list \<times> (16 word \<times> 16 word) \<times> fb_pixel list) res" where
  "bitmap_play km big e fb_setpixel malloc fopened keys pos screen =
     res_bind (fb_init e) (\<lambda>(err, calls, st).
       case (err = 0, st) of
         (True, Some s) \<Rightarrow>
           res_bind (bitmap_load big (fb_pixelsize s) (fb_setpixel (fb_pixelsize s)) malloc fopened) (\<lambda>(closed, loaded).
             case loaded of
               None \<Rightarrow> res_bind (fb_uninit (fe_malloc e) s) (\<lambda>(_, uncalls). Inr (1, calls @ uncalls, pos, screen))
             | Some (info, buf) \<Rightarrow>
               res_bind (fb_clear_screen s screen) (\<lambda>screen.
               res_bind (bitmap_render s info (fst pos) (snd pos) buf screen) (\<lambda>screen.
               res_bind (key_loop km s info buf keys pos screen) (\<lambda>(pos, screen).
               res_bind (fb_clear_screen s screen) (\<lambda>screen.
               res_bind (fb_uninit (fe_malloc e) s) (\<lambda>(_, uncalls).
                 Inr (0, calls @ uncalls, pos, screen)))))))
       | _ \<Rightarrow> Inr (2, calls, pos, screen))"

section \<open>Scrolling\<close>

text \<open>The visible part lies in the image.\<close>

definition in_view :: "fb_state \<Rightarrow> bitmap_info_header \<Rightarrow> 16 word \<times> 16 word \<Rightarrow> bool" where
  "in_view s info pos \<longleftrightarrow>
     unat (fst pos) + min (unat (bi_width info)) (fb_xres s) \<le> unat (bi_width info) \<and>
     unat (snd pos) + min (unat (bi_height info)) (fb_yres s) \<le> unat (bi_height info)"

lemma scroll_back: "(j :: 16 word) \<le> y \<Longrightarrow> unat y + m \<le> n \<Longrightarrow> unat (y - j) + m \<le> n"
  by (simp add: unat_sub word_le_nat_alt)

lemma scroll_on:
  fixes y j :: "16 word" and h :: "32 word"
  assumes "unat y + min (unat h) res \<le> unat h" and "unat j \<le> min (unat h) res" and "res < 2 ^ 16"
    and "of_nat res \<le> h - ucast y - ucast j"
  shows "unat (y + j) + min (unat h) res \<le> unat h"
proof -
  have "unat y + unat j \<le> unat h" using assms(1,2) by linarith
  then have "unat (h - ucast y - ucast j) = unat h - unat y - unat j"
    by (simp add: unat_sub word_le_nat_alt unat_ucast_16)
  then have "res \<le> unat h - unat y - unat j"
    using assms(3,4) by (simp add: word_le_nat_alt unat_small)
  moreover have "unat (y + j) \<le> unat y + unat j" by (simp add: unat_word_ariths)
  ultimately show ?thesis using assms(1,2) by linarith
qed

lemma scroll_axis:
  fixes y j :: "16 word" and h :: "32 word"
  assumes "unat y + min (unat h) res \<le> unat h" and "unat j \<le> min (unat h) res" and "res < 2 ^ 16"
    and "y1 = (if back \<and> y \<ge> j then y - j else y)"
    and "y2 = (if on \<and> of_nat res \<le> h - ucast y1 - ucast j then y1 + j else y1)"
  shows "unat y2 + min (unat h) res \<le> unat h"
proof -
  have "unat y1 + min (unat h) res \<le> unat h" using assms(1,4) scroll_back [of j y] by simp
  then show ?thesis using assms(2,3,5) scroll_on [of y1 h res j] by simp
qed

lemma scroll_key_in_view:
  assumes "in_view s info pos" and "unat (JUMP_SIZE km) \<le> min (unat (bi_width info)) (fb_xres s)"
    and "unat (JUMP_SIZE km) \<le> min (unat (bi_height info)) (fb_yres s)" and "fb_xres s < 2 ^ 16" and "fb_yres s < 2 ^ 16"
  shows "in_view s info (scroll_key km s info ch pos)"
proof -
  obtain x y where pos: "pos = (x, y)" by (cases pos)
  show ?thesis
    unfolding in_view_def scroll_key_def pos Let_def prod.case fst_conv snd_conv
    using assms(1) [unfolded in_view_def pos fst_conv snd_conv] assms(2-5)
    by (intro conjI scroll_axis [OF _ _ _ refl refl]) (elim conjE, assumption)+
qed

section \<open>Playing a bitmap\<close>

lemma bitmap_render_eq:
  assumes "unat (bi_width info) * fb_pixelsize s < 2 ^ 32"
  shows "bitmap_render s info x y buf screen
    = fb_pixmap_render s screen buf (unat (bi_width info)) (unat (bi_height info)) (unat x) (unat y)"
proof -
  have "bi_width info * of_nat (fb_pixelsize s) = of_nat (unat (bi_width info) * fb_pixelsize s)" by simp
  then have "unat (bi_width info * of_nat (fb_pixelsize s)) = unat (bi_width info) * fb_pixelsize s"
    using unat_small [OF assms] by (simp only:)
  then show ?thesis unfolding bitmap_render_def fb_pixmap_render_def by simp
qed

text \<open>Screen and image as the viewer relies on them.\<close>

definition viewable :: "keymap \<Rightarrow> fb_state \<Rightarrow> bitmap_info_header \<Rightarrow> fb_pixel list \<Rightarrow> nat \<Rightarrow> bool" where
  "viewable km s info buf len \<longleftrightarrow>
     fb_yres s * (fb_xres s * fb_pixelsize s) \<le> len \<and> fb_xres s < 2 ^ 16 \<and> fb_yres s < 2 ^ 16 \<and>
     unat (bi_height info) * (unat (bi_width info) * fb_pixelsize s) \<le> length buf \<and> length buf < 2 ^ 32 \<and>
     unat (bi_width info) * fb_pixelsize s < 2 ^ 32 \<and>
     unat (JUMP_SIZE km) \<le> min (unat (bi_width info)) (fb_xres s) \<and>
     unat (JUMP_SIZE km) \<le> min (unat (bi_height info)) (fb_yres s)"

lemma bitmap_render_total:
  assumes "viewable km s info buf (length screen)" and "in_view s info pos"
  shows "\<exists>screen'. bitmap_render s info (fst pos) (snd pos) buf screen = Inr screen' \<and> length screen' = length screen"
  using assms bitmap_render_eq [of info s "fst pos" "snd pos" buf screen]
    fb_pixmap_render_total [of s screen "unat (bi_height info)" "unat (bi_width info)" buf "unat (fst pos)" "unat (snd pos)"]
  by (simp add: viewable_def in_view_def)

lemma key_loop_returns:
  assumes "viewable km s info buf (length screen)" and "in_view s info pos" and "KEY_ESC km \<in> set keys"
  shows "\<exists>pos' screen'. key_loop km s info buf keys pos screen = Inr (pos', screen') \<and>
    in_view s info pos' \<and> length screen' = length screen"
  using assms
proof (induction keys arbitrary: pos screen)
  case (Cons ch keys)
  show ?case
  proof (cases "ch = KEY_ESC km")
    case False
    let ?pos = "scroll_key km s info ch pos"
    have view: "in_view s info ?pos"
      using Cons.prems(1) by (intro scroll_key_in_view [OF Cons.prems(2)]) (simp_all add: viewable_def)
    from bitmap_render_total [OF Cons.prems(1) view] obtain screen' where
      scr: "bitmap_render s info (fst ?pos) (snd ?pos) buf screen = Inr screen'" "length screen' = length screen" by blast
    have "KEY_ESC km \<in> set keys" using Cons.prems(3) False by auto
    with Cons.IH [OF _ view, of screen'] Cons.prems(1) scr show ?thesis using False by simp
  qed (use Cons.prems(2) in simp)
qed simp

section \<open>Loading any file\<close>

text \<open>All that is known of \<open>fb_setpixel\<close>: it stores a pixel of \<open>k\<close> bytes, and where they lie inside the buffer
  it returns.\<close>

definition sets_inside :: "nat \<Rightarrow> (fb_pixel list \<Rightarrow> nat \<Rightarrow> rgb \<Rightarrow> fb_pixel list res) \<Rightarrow> bool" where
  "sets_inside k fb_setpixel \<longleftrightarrow>
     (\<forall>buf a c. a + k \<le> length buf \<longrightarrow> (\<exists>buf'. fb_setpixel buf a c = Inr buf' \<and> length buf' = length buf))"

lemma small_pixels: "n < 2 ^ 29 \<Longrightarrow> k \<le> 4 \<Longrightarrow> n * k < 2 ^ 32" for n k :: nat
  using mult_le_mono [of n "2 ^ 29 - 1" k 4] by simp

lemma buffer_size:
  assumes "unat w * unat h < 2 ^ 29" and "k \<le> 4"
  shows "unat (w * h * of_nat k :: 32 word) = unat w * unat h * k"
proof -
  have "w * h * of_nat k = of_nat (unat w * unat h * k)" by simp
  then show ?thesis using unat_small [OF small_pixels [OF assms]] by (simp only:)
qed

lemma bitmap_row_total:
  assumes "sets_inside k fb_setpixel" and "0 < k" and "0 \<le> sint j" and "sint j < int (unat (bi_height info))"
    and "unat (bi_width info) * unat (bi_height info) * k < 2 ^ 32"
    and "length (snd s) = unat (bi_width info) * unat (bi_height info) * k"
  shows "\<exists>t. bitmap_row k fb_setpixel info f j s = Inr t \<and> length (snd t) = length (snd s)"
proof -
  let ?n = "unat (bi_width info) * unat (bi_height info) * k"
  let ?step = "\<lambda>i (p, buf). let (c, p) = read_pixel (bi_bpp info) f p in
         res_bind (fb_setpixel buf (pixel_offset k (bi_width info) j i) c) (\<lambda>buf. Inr (p, buf))"
  have "\<exists>t. for_up (bi_width info) ?step 0 s = Inr t \<and> length (snd t) = ?n"
  proof (rule for_up_total)
    fix i :: "16 word" and s :: "nat \<times> fb_pixel list"
    assume i: "signed i < bi_width info" and s: "length (snd s) = ?n"
    obtain p buf where sp: "s = (p, buf)" by (cases s)
    obtain c p' where rd: "read_pixel (bi_bpp info) f p = (c, p')" by (cases "read_pixel (bi_bpp info) f p")
    have "pixel_offset k (bi_width info) j i + k \<le> length buf"
      using pixel_offset_inside [OF i assms(3,4,5,2)] s sp by simp
    then obtain buf' where "fb_setpixel buf (pixel_offset k (bi_width info) j i) c = Inr buf'" "length buf' = length buf"
      using assms(1) unfolding sets_inside_def by blast
    then show "\<exists>t. ?step i s = Inr t \<and> length (snd t) = ?n" using s sp by (simp add: rd)
  qed (rule assms(6))
  then show ?thesis using assms(6) by (auto simp: bitmap_row_def case_prod_beta)
qed

lemma bitmap_rows_total:
  assumes "sets_inside k fb_setpixel" and "0 < k" and "k \<le> 4"
    and "unat (bi_width info) * unat (bi_height info) < 2 ^ 29"
    and "length buf = unat (bi_width info) * unat (bi_height info) * k"
  shows "\<exists>t. for_down (bitmap_row k fb_setpixel info f) (ucast (bi_height info - 1)) (p, buf) = Inr t \<and>
    length (snd t) = unat (bi_width info) * unat (bi_height info) * k"
  by (rule for_down_total [where b = "int (unat (bi_height info))"])
    (use bitmap_row_total [OF assms(1,2) _ _ small_pixels [OF assms(4,3)]] first_row assms(5) in auto)

text \<open>The files the viewer takes: a BMP signature, no compression, 24 or 32 bits, a size within the limit, and
  memory for it.\<close>

definition bitmap_accepted :: "bool \<Rightarrow> nat \<Rightarrow> (nat \<Rightarrow> fb_pixel list option) \<Rightarrow> bytes \<Rightarrow> bool" where
  "bitmap_accepted big k malloc f \<longleftrightarrow>
     (case (read_file_header big f 0, read_info_header big f 14) of
        (Some (header, _), Some (info, _)) \<Rightarrow>
          bf_type header = 0x4d42 \<and> bi_compression info = 0 \<and> bi_bpp info \<in> {24, 32} \<and>
          bi_width info * bi_height info * FB_BPP div 8 \<le> MEMSIZE \<and>
          malloc (unat (bi_width info) * unat (bi_height info) * k) \<noteq> None
      | _ \<Rightarrow> False)"

lemma bitmap_load_any:
  assumes "sets_inside k fb_setpixel" and "0 < k" and "k \<le> 4" and "\<And>n m. malloc n = Some m \<Longrightarrow> length m = n"
    and "\<And>info p. read_info_header big f 14 = Some (info, p) \<Longrightarrow> unat (bi_width info) * unat (bi_height info) < 2 ^ 29"
  shows "if bitmap_accepted big k malloc f
    then \<exists>info p buf. bitmap_load big k fb_setpixel malloc (Some f) = Inr (False, Some (info, buf)) \<and>
       read_info_header big f 14 = Some (info, p) \<and> length buf = unat (bi_width info) * unat (bi_height info) * k
    else bitmap_load big k fb_setpixel malloc (Some f) = Inr (True, None)"
proof (cases "\<exists>hdr info p. read_file_header big f 0 = Some (hdr, 14) \<and> read_info_header big f 14 = Some (info, p)")
  case True
  then obtain hdr info p where rd: "read_file_header big f 0 = Some (hdr, 14)" "read_info_header big f 14 = Some (info, p)"
    by blast
  note n = assms(5) [OF rd(2)]
  note size = buffer_size [OF n assms(3)] and load = bitmap_rows_total [OF assms(1-3) n]
  show ?thesis
  proof (cases "malloc (unat (bi_width info) * unat (bi_height info) * k)")
    case None
    then show ?thesis by (simp add: bitmap_load_def bitmap_accepted_def rd size)
  next
    case (Some buf)
    from load [OF assms(4) [OF Some], of f "fseek_set p (bf_data_offset hdr)"] obtain q buf' where
      "for_down (bitmap_row k fb_setpixel info f) (ucast (bi_height info - 1)) (fseek_set p (bf_data_offset hdr), buf) = Inr (q, buf')"
      "length buf' = unat (bi_width info) * unat (bi_height info) * k" by auto
    then show ?thesis using Some by (auto simp: bitmap_load_def bitmap_accepted_def rd size)
  qed
next
  case False
  then show ?thesis
    by (auto simp: bitmap_load_def bitmap_accepted_def split: option.splits dest: read_file_header_pos)
qed

section \<open>Playing any file\<close>

lemma fb_init_opened:
  assumes "fb_init e = Inr (0, calls, Some s)" and "fe_malloc e"
  shows "fb_xres s < 2 ^ 16" and "fb_yres s < 2 ^ 16"
    and "\<exists>uncalls. fb_uninit True s = Inr (0, uncalls @ [FbClose])"
    and "0 < fb_pixelsize s" and "fb_pixelsize s \<le> 4"
  using assms
  by (auto simp: fb_init_def pixelsize_of_def fb_uninit_def set_palette_def get_palette_def res_simps Let_def
      split: if_splits option.splits)

lemma clear_screen_all: "length screen = fb_buffer_size s \<Longrightarrow> fb_clear_screen s screen = Inr (replicate (length screen) 0)"
  by (simp add: fb_clear_screen_def)

lemma viewable_image:
  assumes "unat (bi_width info) * unat (bi_height info) < 2 ^ 29" and "0 < unat (bi_height info)"
    and "length buf = unat (bi_width info) * unat (bi_height info) * fb_pixelsize s" and "fb_pixelsize s \<le> 4"
    and "fb_yres s * (fb_xres s * fb_pixelsize s) \<le> len" and "fb_xres s < 2 ^ 16" and "fb_yres s < 2 ^ 16"
    and "unat (JUMP_SIZE km) \<le> min (unat (bi_width info)) (fb_xres s)"
    and "unat (JUMP_SIZE km) \<le> min (unat (bi_height info)) (fb_yres s)"
  shows "viewable km s info buf len"
proof -
  have "unat (bi_width info) * 1 \<le> unat (bi_width info) * unat (bi_height info)"
    using assms(2) by (intro mult_le_mono2) simp
  then have "unat (bi_width info) < 2 ^ 29" using assms(1) by linarith
  then have "unat (bi_width info) * fb_pixelsize s < 2 ^ 32" using assms(4) by (rule small_pixels)
  moreover have "length buf < 2 ^ 32" using small_pixels [OF assms(1,4)] assms(3) by simp
  ultimately show ?thesis using assms(3,5-9) by (simp add: viewable_def mult.commute mult.left_commute)
qed

text \<open>The position of a larger image, left by an earlier call, can lie below a smaller one: showing that
  reads behind the image.\<close>

lemma stale_position_faults:
  assumes "unat (bi_height info) < unat y + min (unat (bi_height info)) (fb_yres s)"
    and "0 < min (unat (bi_height info)) (fb_yres s)" and "0 < min (unat (bi_width info)) (fb_xres s)" and "0 < fb_pixelsize s"
    and "length buf = unat (bi_height info) * (unat (bi_width info) * fb_pixelsize s)"
    and "unat y * (unat (bi_width info) * fb_pixelsize s) < 2 ^ 32" and "unat (bi_width info) * fb_pixelsize s < 2 ^ 32"
  shows "bitmap_render s info x y buf screen = Inl Fault"
proof -
  let ?line = "unat (bi_width info) * fb_pixelsize s" and ?h = "min (unat (bi_height info)) (fb_yres s)"
  have "bi_width info * of_nat (fb_pixelsize s) = of_nat ?line" by simp
  then have line: "unat (bi_width info * of_nat (fb_pixelsize s)) = ?line" using unat_small [OF assms(7)] by (simp only:)
  let ?n = "if fb_xres s > unat (bi_width info) then ?line else fb_xres s * fb_pixelsize s"
  have n: "0 < ?n" using assms(3,4) by (cases "fb_xres s > unat (bi_width info)") auto
  have "unat (bi_height info) \<le> unat y + (?h - 1)" using assms(1,2) by linarith
  then have "length buf \<le> (unat y + (?h - 1)) * ?line" unfolding assms(5) by (rule mult_le_mono1)
  then have out: "\<not> unat y * ?line + unat x * fb_pixelsize s + (?h - 1) * ?line + ?n \<le> length buf"
    using n by (simp add: algebra_simps)
  have max_j: "(if fb_yres s > unat (bi_height info) then unat (bi_height info) else fb_yres s) = ?h" by (simp add: min_def)
  show ?thesis
    unfolding bitmap_render_def Let_def line max_j mod_less [OF assms(6)]
    by (rule fold_res_fault [where P = "\<lambda>_. True" and ?x0.0 = "?h - 1"])
      (use assms(2) out in \<open>auto simp: memcpy_at_def simp del: add_le_cancel_left\<close>)
qed

text \<open>
  C17. The interactive viewer comes to an end: on an open device, whatever the file, if the size in its
  header is not too large and not below the scroll step, and the position left by an earlier call shows
  a part of the image (the position of the first call, (0, 0), always does), then once the user presses
  escape, after any other keys, \<open>bitmap_play\<close> returns, never having read or written outside image and
  screen. It returns 0 and a black screen exactly for the files \<open>bitmap_accepted\<close> describes, with the position
  still in the image, and for every other file 1 with screen and position untouched; in both cases the
  device is closed and its colours are restored.
\<close>

theorem bitmap_play_returns:
  assumes "fb_init e = Inr (0, calls, Some s)" and "fe_malloc e"
    and "length screen = fb_buffer_size s" and "fb_yres s * (fb_xres s * fb_pixelsize s) \<le> length screen"
    and "\<And>n m. malloc n = Some m \<Longrightarrow> length m = n" and "sets_inside (fb_pixelsize s) (fb_setpixel (fb_pixelsize s))"
    and "\<And>info p. read_info_header big f 14 = Some (info, p) \<Longrightarrow>
      unat (bi_width info) * unat (bi_height info) < 2 ^ 29 \<and> 0 < unat (bi_height info) \<and>
      unat (JUMP_SIZE km) \<le> min (unat (bi_width info)) (fb_xres s) \<and>
      unat (JUMP_SIZE km) \<le> min (unat (bi_height info)) (fb_yres s) \<and> in_view s info pos"
    and "KEY_ESC km \<in> set keys"
  shows "\<exists>calls' pos'.
    bitmap_play km big e fb_setpixel malloc (Some f) keys pos screen =
      Inr (if bitmap_accepted big (fb_pixelsize s) malloc f then (0, calls', pos', replicate (length screen) 0)
           else (1, calls', pos, screen)) \<and>
    (\<forall>info p. read_info_header big f 14 = Some (info, p) \<longrightarrow> in_view s info pos') \<and>
    cmap_after calls' (fe_cmap e) = fe_cmap e \<and> last calls' = FbClose"
proof -
  let ?k = "fb_pixelsize s"
  note opened = fb_init_opened [OF assms(1,2)]
  obtain uncalls where un: "fb_uninit True s = Inr (0, uncalls @ [FbClose])" using opened(3) by blast
  have restored: "cmap_after (calls @ uncalls @ [FbClose]) (fe_cmap e) = fe_cmap e"
    using palette_restored [OF assms(1) un] .
  have hdr: "unat (bi_width info) * unat (bi_height info) < 2 ^ 29" if "read_info_header big f 14 = Some (info, p)" for info p
    using assms(7) [OF that] by simp
  let ?load = "bitmap_load big ?k (fb_setpixel ?k) malloc (Some f)"
  have load: "if bitmap_accepted big ?k malloc f
    then \<exists>info p buf. ?load = Inr (False, Some (info, buf)) \<and> read_info_header big f 14 = Some (info, p) \<and>
       length buf = unat (bi_width info) * unat (bi_height info) * ?k
    else ?load = Inr (True, None)"
    by (rule bitmap_load_any [OF assms(6) opened(4,5)]) (erule assms(5), erule hdr)
  show ?thesis
  proof (cases "bitmap_accepted big ?k malloc f")
    case False
    then have "bitmap_play km big e fb_setpixel malloc (Some f) keys pos screen
        = Inr (1, calls @ uncalls @ [FbClose], pos, screen)"
      using load assms(1,2) un by (simp add: bitmap_play_def)
    then show ?thesis using False restored assms(7) by (intro exI [of _ "calls @ uncalls @ [FbClose]"] exI [of _ pos]) auto
  next
    case True
    then obtain info p buf where 2: "?load = Inr (False, Some (info, buf))"
      "read_info_header big f 14 = Some (info, p)" "length buf = unat (bi_width info) * unat (bi_height info) * ?k"
      using load by auto
    have view: "viewable km s info buf (length screen)"
      using assms(4) assms(7) [OF 2(2)] opened 2(3) by (intro viewable_image) auto
    have start: "in_view s info pos" using assms(7) [OF 2(2)] by simp
    let ?blank = "replicate (length screen) 0"
    have "viewable km s info buf (length ?blank)" using view by simp
    from bitmap_render_total [OF this start] obtain screen1 where
      scr1: "bitmap_render s info (fst pos) (snd pos) buf ?blank = Inr screen1" "length screen1 = length screen" by auto
    with view have "viewable km s info buf (length screen1)" by simp
    from key_loop_returns [OF this start assms(8)] obtain pos' screen2 where
      scr2: "key_loop km s info buf keys pos screen1 = Inr (pos', screen2)" "in_view s info pos'"
        "length screen2 = length screen"
      using scr1(2) by auto
    have clear: "fb_clear_screen s screen = Inr ?blank" "fb_clear_screen s screen2 = Inr ?blank"
      using clear_screen_all [OF assms(3)] clear_screen_all [of screen2 s] scr2(3) assms(3) by simp_all
    have "bitmap_play km big e fb_setpixel malloc (Some f) keys pos screen
        = Inr (0, calls @ uncalls @ [FbClose], pos', ?blank)"
      using assms(1,2) un 2(1) clear scr1(1) scr2(1) by (simp add: bitmap_play_def)
    then show ?thesis using True restored scr2(2) 2(2)
      by (intro exI [of _ "calls @ uncalls @ [FbClose]"] exI [of _ pos']) auto
  qed
qed

definition sample_keys :: keymap where
  "sample_keys = \<lparr>KEY_ESC = 27, KEY_UP = 65, KEY_DOWN = 66, KEY_LEFT = 68, KEY_RIGHT = 67, JUMP_SIZE = 2\<rparr>"

definition sample_env :: fb_env where
  "sample_env = \<lparr>fe_open = 3, fe_get_var = 0, fe_put_var = 0, fe_xres = 2, fe_yres = 2, fe_bpp = 8, fe_mmap = 4096,
     fe_cmap = (\<lambda>_. (0, 0, 0)), fe_malloc = True\<rparr>"

definition sample_bmp :: bytes where
  "sample_bmp = bmp_file False 1 [1, 2, 3, 4, 5, 6, 7, 8, 9, 10, 11, 12] 3 4"

definition sample_malloc :: "nat \<Rightarrow> fb_pixel list option" where
  "sample_malloc n = Some (replicate n 0)"

theorem bitmap_play_returns_witness:
  "\<exists>calls' pos'. bitmap_play sample_keys False sample_env fb_set_pixel sample_malloc
      (Some sample_bmp) [66, 67, 27] (0, 2) [9, 9, 9, 9] = Inr (0, calls', pos', [0, 0, 0, 0])"
proof -
  let ?s = "sample_fb\<lparr>fb_old_palette := fe_cmap sample_env\<rparr>"
  have init: "fb_init sample_env = Inr (0, [FbOpen, FbMmap 4, FbPutCmap 256 (generate_palette 8)], Some ?s)"
    by (simp add: fb_init_def sample_env_def sample_fb_def pixelsize_of_def get_palette_def set_palette_def fb_palette_colors_def)
  have inside: "sets_inside (Suc 0) (fb_set_pixel (Suc 0))"
    using set_pixel_inside [of 1] by (simp add: sets_inside_def)
  note headers = bmp_file_headers [of False 1 "[1, 2, 3, 4, 5, 6, 7, 8, 9, 10, 11, 12]" 3 4, folded sample_bmp_def]
  have "bitmap_accepted False 1 sample_malloc sample_bmp"
    by (simp add: bitmap_accepted_def headers new_info_header_def new_file_header_def sample_malloc_def FB_BPP_def MEMSIZE_def)
  moreover have "\<exists>calls' pos'. bitmap_play sample_keys False sample_env fb_set_pixel sample_malloc
      (Some sample_bmp) [66, 67, 27] (0, 2) [9, 9, 9, 9] =
      Inr (if bitmap_accepted False (fb_pixelsize ?s) sample_malloc sample_bmp
           then (0, calls', pos', replicate (length [9, 9, 9, 9 :: fb_pixel]) 0) else (1, calls', (0, 2), [9, 9, 9, 9])) \<and>
    (\<forall>info p. read_info_header False sample_bmp 14 = Some (info, p) \<longrightarrow> in_view ?s info pos') \<and>
    cmap_after calls' (fe_cmap sample_env) = fe_cmap sample_env \<and> last calls' = FbClose"
    by (rule bitmap_play_returns [OF init])
      (auto simp: inside sample_fb_def sample_env_def sample_keys_def sample_malloc_def headers(2) new_info_header_def
        in_view_def)
  ultimately show ?thesis by (auto simp: sample_fb_def)
qed

end
