(* ===== verification/Jpeg.thy ===== *)
theory Jpeg
  imports Bmp
begin

text \<open>
  \<open>jpeg2fb_pixmap\<close> of \<open>patches/code/fbview/ds_jpeg.c\<close>. The JPEG library is an argument: from the bytes
  of a file it delivers the size and the RGB scan lines, or it meets an error, in which case it calls
  \<open>error_exit\<close>. The program sets that pointer to \<open>NULL\<close>, so an error is \<open>Fault\<close> and the branch after
  \<open>setjmp\<close> is never taken.
\<close>

record jpeg_image =
  output_width :: nat
  output_height :: nat
  sample :: "nat \<Rightarrow> nat \<Rightarrow> rgb"

text \<open>The result: the return value, whether the file was closed, and the caller's variables. The
  size given to \<open>malloc\<close> is an \<open>int\<close>.\<close>

definition jpeg2fb_pixmap ::
  "nat \<Rightarrow> (nat \<Rightarrow> fb_pixel list option) \<Rightarrow> (bytes \<Rightarrow> jpeg_image option) \<Rightarrow> bytes option \<Rightarrow> image \<Rightarrow>
   (int \<times> bool \<times> image) res" where
  "jpeg2fb_pixmap pixelsize malloc libjpeg fopened im =
     (case fopened of
        None \<Rightarrow> Inr (1, False, im)
      | Some f \<Rightarrow>
     (case libjpeg f of
        None \<Rightarrow> Inl Fault
      | Some cinfo \<Rightarrow>
        let im = im\<lparr>im_w := of_nat (output_width cinfo), im_h := of_nat (output_height cinfo)\<rparr>;
            w = unat (im_w im); size = w * unat (im_h im) * pixelsize in
        if 2 ^ 31 \<le> size then Inl Fault
        else case malloc size of
          None \<Rightarrow> Inr (1, True, im\<lparr>im_pixmap := None\<rparr>)
        | Some pix \<Rightarrow>
          res_bind (fold_res (\<lambda>j. fold_res (\<lambda>i pix.
                fb_set_pixel pixelsize pix ((i + j * w) * pixelsize) (sample cinfo j i)) [0..<output_width cinfo])
              [0..<output_height cinfo] pix) (\<lambda>pix.
            Inr (0, True, im\<lparr>im_pixmap := Some pix\<rparr>))))"

text \<open>
  The JPEG reader delivers the picture: for every image the library decodes, of less than
  65536 columns and rows and less than 2 GB, in the one- and two-byte modes, \<open>jpeg2fb_pixmap\<close> succeeds,
  closes the file, reports the size of the image, and the pixmap holds the colour of every pixel
  rounded to the mode.
\<close>

theorem jpeg_load_pixels:
  assumes "k \<in> {1, 2}" and "libjpeg f = Some cinfo" and "output_width cinfo < 2 ^ 16" and "output_height cinfo < 2 ^ 16"
    and "output_width cinfo * output_height cinfo * k < 2 ^ 31"
    and "malloc (output_width cinfo * output_height cinfo * k) = Some m"
    and "length m = output_width cinfo * output_height cinfo * k"
  shows "\<exists>pix. jpeg2fb_pixmap k malloc libjpeg (Some f) im
      = Inr (0, True, \<lparr>im_pixmap = Some pix, im_w = of_nat (output_width cinfo), im_h = of_nat (output_height cinfo)\<rparr>) \<and>
    length pix = output_width cinfo * output_height cinfo * k \<and>
    (\<forall>x < output_width cinfo. \<forall>y < output_height cinfo.
       fb_get_pixel k pix ((x + y * output_width cinfo) * k) (0, 0, 0) = Inr (quant k (sample cinfo y x)))"
proof -
  let ?w = "output_width cinfo" and ?h = "output_height cinfo"
  have wh: "unat (of_nat ?w :: 16 word) = ?w" "unat (of_nat ?h :: 16 word) = ?h"
    using assms(3,4) by (simp_all add: unsigned_of_nat take_bit_nat_eq_self)
  obtain pix where rows:
    "fold_res (\<lambda>j. fold_res (\<lambda>i m. fb_set_pixel k m ((i + j * ?w) * k) (sample cinfo j i)) [0..<?w]) [0..<?h] m = Inr pix"
    and pix: "length pix = length m"
    "\<And>x y. x < ?w \<Longrightarrow> y < ?h \<Longrightarrow> fb_get_pixel k pix ((x + y * ?w) * k) (0, 0, 0) = Inr (quant k (sample cinfo y x))"
    using paint_rows [OF assms(1,7)] by blast
  have "jpeg2fb_pixmap k malloc libjpeg (Some f) im
      = Inr (0, True, \<lparr>im_pixmap = Some pix, im_w = of_nat ?w, im_h = of_nat ?h\<rparr>)"
    using assms(2,5,6) rows by (simp add: jpeg2fb_pixmap_def wh Let_def)
  then show ?thesis using pix assms(7) by auto
qed

definition sample_jpeg :: jpeg_image where
  "sample_jpeg = \<lparr>output_width = 2, output_height = 1, sample = (\<lambda>j i. (of_nat (100 * i), 200, 7))\<rparr>"

theorem jpeg_load_pixels_witness:
  "\<exists>pix. jpeg2fb_pixmap 2 (\<lambda>n. Some (replicate n 0)) (\<lambda>_. Some sample_jpeg) (Some []) \<lparr>im_pixmap = None, im_w = 0, im_h = 0\<rparr>
      = Inr (0, True, \<lparr>im_pixmap = Some pix, im_w = 2, im_h = 1\<rparr>) \<and>
    fb_get_pixel 2 pix 2 (0, 0, 0) = Inr (96, 200, 0)"
proof -
  have "\<exists>pix. jpeg2fb_pixmap 2 (\<lambda>n. Some (replicate n 0)) (\<lambda>_. Some sample_jpeg) (Some []) \<lparr>im_pixmap = None, im_w = 0, im_h = 0\<rparr>
      = Inr (0, True, \<lparr>im_pixmap = Some pix, im_w = of_nat (output_width sample_jpeg), im_h = of_nat (output_height sample_jpeg)\<rparr>) \<and>
    length pix = output_width sample_jpeg * output_height sample_jpeg * 2 \<and>
    (\<forall>x < output_width sample_jpeg. \<forall>y < output_height sample_jpeg.
       fb_get_pixel 2 pix ((x + y * output_width sample_jpeg) * 2) (0, 0, 0) = Inr (quant 2 (sample sample_jpeg y x)))"
    by (rule jpeg_load_pixels [where m = "replicate 4 0"]) (simp_all only: length_replicate, simp_all add: sample_jpeg_def)
  then obtain pix where run:
    "jpeg2fb_pixmap 2 (\<lambda>n. Some (replicate n 0)) (\<lambda>_. Some sample_jpeg) (Some []) \<lparr>im_pixmap = None, im_w = 0, im_h = 0\<rparr>
      = Inr (0, True, \<lparr>im_pixmap = Some pix, im_w = 2, im_h = 1\<rparr>)"
    and px: "\<forall>x < 2. fb_get_pixel 2 pix (x * 2) (0, 0, 0) = Inr (quant 2 (of_nat (100 * x), 200, 7))"
    by (auto simp: sample_jpeg_def)
  have "fb_get_pixel 2 pix 2 (0, 0, 0) = Inr (96, 200, 0)"
    using px [rule_format, of 1] by (simp add: quant_def quant_2_def)
  with run show ?thesis by blast
qed

end
