(* ===== verification/Fb_Pixmap.thy ===== *)
theory Fb_Pixmap
  imports Fb_Pixel
begin

text \<open>
  \<open>fb_pixmap_rotate\<close> of \<open>patches/code/fbview/pixmap.c\<close>. The new pixmap is what \<open>malloc\<close> returned, an
  argument of the right length with unspecified content. An index is the pixel's number; the
  rotation by 0 and a failed allocation leave everything alone, and an angle that is none of the
  three leaves the new size uninitialised, which is \<open>Fault\<close>.
\<close>

section \<open>The code\<close>

fun rotate_size :: "nat \<Rightarrow> nat \<Rightarrow> nat \<Rightarrow> (nat \<times> nat) option" where
  "rotate_size rot w h =
     (if rot = 90 \<or> rot = 270 then Some (h, w) else if rot = 180 then Some (w, h) else None)"

text \<open>The pixels in the order of the two loops: their old and their new number.\<close>

definition rotate_moves :: "nat \<Rightarrow> nat \<Rightarrow> nat \<Rightarrow> (nat \<times> nat) list" where
  "rotate_moves rot nw nh =
     (if rot = 90 then concat (map (\<lambda>j. map (\<lambda>i. (i + j * nh, nw - j + i * nw)) [0..<nh]) [0..<nw])
      else if rot = 180 then
        concat (map (\<lambda>j. map (\<lambda>i. (i + j * nw, nw - i + (nh - j) * nw)) [0..<nw]) [0..<nh])
      else concat (map (\<lambda>j. map (\<lambda>i. (i + j * nh, j + (nh - i) * nw)) [0..<nh]) [0..<nw]))"

definition move_pixel ::
  "nat \<Rightarrow> fb_pixel list \<Rightarrow> nat \<times> nat \<Rightarrow> fb_pixel list \<Rightarrow> fb_pixel list res" where
  "move_pixel pixelsize pix = (\<lambda>(src, dst) new.
     res_bind (fb_get_pixel pixelsize pix (src * pixelsize) (0, 0, 0)) (\<lambda>c.
       fb_set_pixel pixelsize new (dst * pixelsize) c))"

definition fb_pixmap_rotate ::
  "nat \<Rightarrow> fb_pixel list option \<Rightarrow> fb_pixel list \<Rightarrow> nat \<Rightarrow> nat \<Rightarrow> nat \<Rightarrow> (fb_pixel list \<times> nat \<times> nat) res" where
  "fb_pixmap_rotate pixelsize malloced pix w h rot =
     (if rot = 0 then Inr (pix, w, h)
      else case malloced of
        None \<Rightarrow> Inr (pix, w, h)
      | Some new \<Rightarrow>
        (case rotate_size rot w h of
           None \<Rightarrow> Inl Fault
         | Some (nw, nh) \<Rightarrow>
             res_bind (fold_res (move_pixel pixelsize pix) (rotate_moves rot nw nh) new) (\<lambda>new.
               Inr (new, nw, nh))))"

section \<open>Every rotation writes outside the new pixmap\<close>

lemma set_pixel_cases:
  assumes "k \<in> {1, 2}"
  shows "fb_set_pixel k m a c = (if a + k \<le> length m then fb_set_pixel k m a c else Inl Fault)"
    and "fb_set_pixel k m a c = Inr m' \<Longrightarrow> length m' = length m"
  using assms by (auto simp: fb_set_pixel_def poke_def split: if_splits)

lemma get_pixel_cases:
  assumes "k \<in> {1, 2}"
  shows "fb_get_pixel k pix a c0 = Inl Fault \<or> (\<exists>c. fb_get_pixel k pix a c0 = Inr c)"
  using assms by (auto simp: fb_get_pixel_def peek_def simp del: split_paired_Ex)

lemma move_pixel_step:
  assumes "k \<in> {1, 2}" and "length new = n"
  shows "move_pixel k pix mv new = Inl Fault \<or> (\<exists>t. move_pixel k pix mv new = Inr t \<and> length t = n)"
proof -
  obtain a b where mv: "mv = (a, b)" by (cases mv)
  note get = get_pixel_cases [OF assms(1), of pix "a * k" "(0, 0, 0)"]
  have "fb_set_pixel k new (b * k) c = Inl Fault \<or> (\<exists>t. fb_set_pixel k new (b * k) c = Inr t)" for c
    using assms(1) by (auto simp: fb_set_pixel_def poke_def)
  with get set_pixel_cases(2) [OF assms(1)] assms(2) show ?thesis
    unfolding mv move_pixel_def prod.case by (metis res_bind.simps)
qed

lemma move_pixel_outside:
  assumes "k \<in> {1, 2}" and "length new = n * k" and "n \<le> b"
  shows "move_pixel k pix (a, b) new = Inl Fault"
proof -
  have "n * k \<le> b * k" using assms(3) by (rule mult_le_mono1)
  then have "\<not> b * k + k \<le> length new" using assms(1,2) by auto
  then have "fb_set_pixel k new (b * k) c = Inl Fault" for c
    using set_pixel_cases(1) [OF assms(1), of new "b * k" c] by simp
  then show ?thesis
    using get_pixel_cases [OF assms(1), of pix "a * k" "(0, 0, 0)"] unfolding move_pixel_def prod.case by auto
qed

lemma rotate_moves_outside:
  assumes "rot \<in> {90, 180, 270}" and "0 < nw" and "0 < nh"
  shows "\<exists>a b. (a, b) \<in> set (rotate_moves rot nw nh) \<and> nw * nh \<le> b"
proof -
  consider "rot = 90" | "rot = 180" | "rot = 270" using assms(1) by blast
  then show ?thesis
  proof cases
    case 1
    have "((nh - 1) + 0 * nh, nw - 0 + (nh - 1) * nw) \<in> set (rotate_moves rot nw nh)"
    proof -
      have "(nh - 1 + 0 * nh, nw - 0 + (nh - 1) * nw) \<in> set (map (\<lambda>i. (i + 0 * nh, nw - 0 + i * nw)) [0..<nh])"
        using assms(3) by auto
      moreover have "0 \<in> set [0..<nw]" using assms(2) by simp
      moreover have "rotate_moves rot nw nh
          = concat (map (\<lambda>j. map (\<lambda>i. (i + j * nh, nw - j + i * nw)) [0..<nh]) [0..<nw])"
        using 1 by (simp add: rotate_moves_def)
      ultimately show ?thesis by (auto intro!: bexI [of _ 0])
    qed
    moreover have "nw - 0 + (nh - 1) * nw = nw * nh" using assms(3) by (simp add: mult.commute mult_eq_if)
    ultimately show ?thesis by (metis order_refl)
  next
    case 2
    have "(0 + 0 * nw, nw - 0 + (nh - 0) * nw) \<in> set (rotate_moves rot nw nh)"
      using 2 assms(2,3) by (auto simp: rotate_moves_def image_iff intro!: bexI [of _ 0])
    moreover have "nw * nh \<le> nw - 0 + (nh - 0) * nw" by (simp add: mult.commute)
    ultimately show ?thesis by blast
  next
    case 3
    have "(0 + 0 * nh, 0 + (nh - 0) * nw) \<in> set (rotate_moves rot nw nh)"
      using 3 assms(2,3) by (auto simp: rotate_moves_def image_iff intro!: bexI [of _ 0])
    moreover have "nw * nh \<le> 0 + (nh - 0) * nw" by (simp add: mult.commute)
    ultimately show ?thesis by blast
  qed
qed

text \<open>
  C39. Rotating any image that is not empty by 90, 180 or 270 degrees writes a pixel past the end of
  the new pixmap: the mirrored coordinate is computed as the size minus the index, without the 1
  that would keep it below the size.
\<close>

theorem fb_pixmap_rotate_faults:
  assumes "rot \<in> {90, 180, 270}" and "0 < w" and "0 < h" and "k \<in> {1, 2}"
    and "length new = w * h * k"
  shows "fb_pixmap_rotate k (Some new) pix w h rot = Inl Fault"
proof -
  obtain nw nh where size: "rotate_size rot w h = Some (nw, nh)" "0 < nw" "0 < nh" "nw * nh = w * h"
    using assms(1-3) by (auto simp: mult.commute)
  obtain a b where out: "(a, b) \<in> set (rotate_moves rot nw nh)" "w * h \<le> b"
    using rotate_moves_outside [OF assms(1) size(2,3)] size(4) by auto
  have "fold_res (move_pixel k pix) (rotate_moves rot nw nh) new = Inl Fault"
  proof (rule fold_res_fault [where P = "\<lambda>s. length s = w * h * k" and ?x0.0 = "(a, b)"])
    show "(a, b) \<in> set (rotate_moves rot nw nh)" by (rule out)
    show "move_pixel k pix (a, b) s = Inl Fault" if "length s = w * h * k" for s
      by (rule move_pixel_outside [OF assms(4) that out(2)])
  qed (use move_pixel_step [OF assms(4)] assms(5) in blast)+
  then show ?thesis using size(1) assms(1) unfolding fb_pixmap_rotate_def by auto
qed

theorem fb_pixmap_rotate_faults_witness:
  "fb_pixmap_rotate 1 (Some [0, 0]) [1, 2] 2 1 90 = Inl Fault"
  by (rule fb_pixmap_rotate_faults) simp_all

end
