(* ===== verification/C_Float.thy ===== *)
theory C_Float
  imports Complex_Main "HOL-Library.Log_Nat"
begin

text \<open>
  The floating point of C that the image viewer uses: \<open>float\<close> is IEEE binary32 and \<open>double\<close> binary64,
  every operation rounds to the nearest value of its type with ties to even, and there is no excess
  precision. A finite number is its rational value, so the two zeros are one; that is no loss,
  because the viewer never divides by a negative zero. The locale \<open>float_rounding\<close> is what the proofs
  use of rounding: its results are floating-point numbers, it keeps those, and it is monotone.
\<close>

section \<open>Rounding\<close>

text \<open>A format has \<open>p\<close> bits of significand and the least exponent \<open>- m\<close>.\<close>

definition round_half_even :: "rat \<Rightarrow> int" where
  "round_half_even q =
     (let f = \<lfloor>q\<rfloor>; d = q - of_int f in
      if d < 1 / 2 \<or> d = 1 / 2 \<and> even f then f else f + 1)"

definition ulp_exp :: "nat \<Rightarrow> nat \<Rightarrow> rat \<Rightarrow> nat" where
  "ulp_exp p m a = floorlog 2 (nat \<lfloor>a * 2 ^ m\<rfloor>) - p"

definition round_mag :: "nat \<Rightarrow> nat \<Rightarrow> rat \<Rightarrow> rat" where
  "round_mag p m a =
     (let u = 2 ^ ulp_exp p m a / 2 ^ m in of_int (round_half_even (a / u)) * u)"

definition round_rat :: "nat \<Rightarrow> nat \<Rightarrow> rat \<Rightarrow> rat" where
  "round_rat p m q = (if q < 0 then - round_mag p m (- q) else round_mag p m q)"

abbreviation round32 :: "rat \<Rightarrow> rat" where
  "round32 \<equiv> round_rat 24 149"

abbreviation round64 :: "rat \<Rightarrow> rat" where
  "round64 \<equiv> round_rat 53 1074"

definition is_float :: "nat \<Rightarrow> nat \<Rightarrow> rat \<Rightarrow> bool" where
  "is_float p m x \<longleftrightarrow> (\<exists>k e. x = of_int k * (2 ^ e / 2 ^ m) \<and> \<bar>k\<bar> \<le> 2 ^ p)"

text \<open>The exponent is the least one with which \<open>p\<close> bits reach the number.\<close>

lemma ulp_exp_upper:
  assumes "0 \<le> a"
  shows "a < 2 ^ p * (2 ^ ulp_exp p m a / 2 ^ m)"
proof -
  let ?n = "nat \<lfloor>a * 2 ^ m\<rfloor>"
  have "?n < 2 ^ floorlog 2 ?n" using floorlog_bounds [of ?n 2] by (cases "?n = 0") auto
  also have "\<dots> \<le> 2 ^ (p + ulp_exp p m a)" unfolding ulp_exp_def by (intro power_increasing) auto
  finally have "int ?n < int (2 ^ (p + ulp_exp p m a))" by (simp only: of_nat_less_iff)
  then have "\<lfloor>a * 2 ^ m\<rfloor> < 2 ^ (p + ulp_exp p m a)" using assms by simp
  then have "a * 2 ^ m < 2 ^ p * 2 ^ ulp_exp p m a" by (simp add: floor_less_iff power_add)
  then show ?thesis by (simp add: pos_less_divide_eq)
qed

lemma ulp_exp_lower:
  assumes "0 \<le> a" and "0 < p" and "0 < ulp_exp p m a"
  shows "2 ^ (p - 1) * (2 ^ ulp_exp p m a / 2 ^ m) \<le> a"
proof -
  let ?n = "nat \<lfloor>a * 2 ^ m\<rfloor>"
  have "0 < ?n" using assms(3) by (cases "?n = 0") (auto simp: ulp_exp_def floorlog_def)
  then have "2 ^ (floorlog 2 ?n - 1) \<le> ?n" using floorlog_bounds [of ?n 2] by simp
  moreover have "floorlog 2 ?n - 1 = p - 1 + ulp_exp p m a" using assms(2,3) by (simp add: ulp_exp_def)
  ultimately have "int (2 ^ (p - 1 + ulp_exp p m a)) \<le> int ?n" by (simp only: of_nat_le_iff)
  then have "2 ^ (p - 1 + ulp_exp p m a) \<le> \<lfloor>a * 2 ^ m\<rfloor>" using assms(1) by simp
  then have "2 ^ (p - 1) * 2 ^ ulp_exp p m a \<le> a * 2 ^ m" by (simp add: le_floor_iff power_add)
  then show ?thesis by (simp add: pos_divide_le_eq)
qed

section \<open>The contract\<close>

locale float_rounding =
  fixes rnd :: "rat \<Rightarrow> rat" and p m :: nat
  assumes float: "is_float p m (rnd q)"
    and exact: "is_float p m x \<Longrightarrow> rnd x = x"
    and mono: "q \<le> r \<Longrightarrow> rnd q \<le> rnd r"
    and precision_pos: "0 < p"
begin

lemma ge_float: "is_float p m a \<Longrightarrow> a \<le> q \<Longrightarrow> a \<le> rnd q"
  using mono [of a q] exact [of a] by simp

lemma le_float: "is_float p m b \<Longrightarrow> q \<le> b \<Longrightarrow> rnd q \<le> b"
  using mono [of q b] exact [of b] by simp

lemma between: "is_float p m a \<Longrightarrow> is_float p m b \<Longrightarrow> a \<le> q \<Longrightarrow> q \<le> b \<Longrightarrow> a \<le> rnd q \<and> rnd q \<le> b"
  using ge_float le_float by blast

text \<open>Whole numbers that fit into the significand are floating-point numbers.\<close>

lemma float_int: "\<bar>n\<bar> \<le> 2 ^ p \<Longrightarrow> is_float p m (of_int n)"
  unfolding is_float_def by (intro exI [of _ n] exI [of _ m]) simp

lemma rnd_int: "\<bar>n\<bar> \<le> 2 ^ p \<Longrightarrow> rnd (of_int n) = of_int n"
  using exact float_int by blast

lemma rnd_0: "rnd 0 = 0"
  using rnd_int [of 0] by simp

lemma rnd_1: "rnd 1 = 1"
  using rnd_int [of 1] by simp

text \<open>A step of the last place bounds the error.\<close>

lemma near_grid:
  assumes "\<bar>q\<bar> \<le> 2 ^ p * (2 ^ e / 2 ^ m)"
  shows "q - 2 ^ e / 2 ^ m < rnd q \<and> rnd q < q + 2 ^ e / 2 ^ m"
proof -
  let ?u = "2 ^ e / 2 ^ m :: rat"
  have u: "0 < ?u" by simp
  have "\<bar>q / ?u\<bar> = \<bar>q\<bar> / ?u" by (simp add: abs_mult)
  also have "\<dots> \<le> 2 ^ p" using assms u by (subst pos_divide_le_eq) simp_all
  finally have "\<bar>q / ?u\<bar> \<le> of_int (2 ^ p)" by (simp only: of_int_power of_int_numeral)
  then have "q / ?u \<le> of_int (2 ^ p)" "of_int (- (2 ^ p)) \<le> q / ?u" by (simp_all only: abs_le_iff of_int_minus) linarith+
  then have "\<lfloor>q / ?u\<rfloor> \<le> 2 ^ p" "\<lceil>q / ?u\<rceil> \<le> 2 ^ p" "- (2 ^ p) \<le> \<lfloor>q / ?u\<rfloor>" "- (2 ^ p) \<le> \<lceil>q / ?u\<rceil>"
    by (simp_all only: ceiling_le_iff le_floor_iff) (metis floor_mono floor_of_int, metis ceiling_mono ceiling_of_int)
  then have "\<bar>\<lfloor>q / ?u\<rfloor>\<bar> \<le> 2 ^ p" "\<bar>\<lceil>q / ?u\<rceil>\<bar> \<le> 2 ^ p" by linarith+
  then have f: "is_float p m (of_int \<lfloor>q / ?u\<rfloor> * ?u)" "is_float p m (of_int \<lceil>q / ?u\<rceil> * ?u)"
    unfolding is_float_def by blast+
  have down: "of_int \<lfloor>q / ?u\<rfloor> * ?u \<le> q" "q - ?u < of_int \<lfloor>q / ?u\<rfloor> * ?u"
  proof -
    have "of_int \<lfloor>q / ?u\<rfloor> \<le> q / ?u" by simp
    then show "of_int \<lfloor>q / ?u\<rfloor> * ?u \<le> q" using u by (simp only: pos_le_divide_eq)
    have "q / ?u < of_int \<lfloor>q / ?u\<rfloor> + 1" by linarith
    then have "q < (of_int \<lfloor>q / ?u\<rfloor> + 1) * ?u" using u by (simp only: pos_divide_less_eq)
    then show "q - ?u < of_int \<lfloor>q / ?u\<rfloor> * ?u" by (simp only: distrib_right)
  qed
  have up: "q \<le> of_int \<lceil>q / ?u\<rceil> * ?u" "of_int \<lceil>q / ?u\<rceil> * ?u < q + ?u"
  proof -
    have "q / ?u \<le> of_int \<lceil>q / ?u\<rceil>" by simp
    then show "q \<le> of_int \<lceil>q / ?u\<rceil> * ?u" using u by (simp only: pos_divide_le_eq)
    have "of_int \<lceil>q / ?u\<rceil> - 1 < q / ?u" by linarith
    then have "(of_int \<lceil>q / ?u\<rceil> - 1) * ?u < q" using u by (simp only: pos_less_divide_eq)
    then show "of_int \<lceil>q / ?u\<rceil> * ?u < q + ?u" by (simp only: left_diff_distrib)
  qed
  show ?thesis using between [OF f down(1) up(1)] down(2) up(2) by linarith
qed

text \<open>Above the subnormal numbers the relative error is less than a step of the last place.\<close>

lemma relative_error:
  assumes "2 ^ (p - 1) / 2 ^ m \<le> q"
  shows "q * (1 - 2 / 2 ^ p) < rnd q \<and> rnd q < q * (1 + 2 / 2 ^ p)"
proof -
  have pos: "0 < q" using assms by (rule less_le_trans [rotated]) simp
  define u where "u = (2 ^ ulp_exp p m q / 2 ^ m :: rat)"
  have pp: "2 ^ p = 2 * 2 ^ (p - 1)" for x :: rat using precision_pos by (metis Suc_diff_1 power_Suc)
  have "2 ^ (p - 1) * u \<le> q"
    using assms ulp_exp_lower [of q p m] pos precision_pos by (cases "ulp_exp p m q") (auto simp: u_def)
  then have "u \<le> q * (2 / 2 ^ p)" by (simp add: pp pos_le_divide_eq mult.commute)
  moreover have "q - u < rnd q \<and> rnd q < q + u"
    using near_grid [of q "ulp_exp p m q"] ulp_exp_upper [of q p m] pos by (simp add: u_def less_imp_le)
  moreover have "q * (1 - d) = q - q * d" "q * (1 + d) = q + q * d" for d
    by (simp_all only: right_diff_distrib distrib_left mult_1_right)
  ultimately show ?thesis by (simp only:) linarith
qed

end

section \<open>Round to nearest, ties to even\<close>

lemma round_half_even_int [simp]: "round_half_even (of_int k) = k"
  by (simp add: round_half_even_def)

lemma round_half_even_near:
  assumes "of_int k - 1 / 2 < q" and "q < of_int k + 1 / 2"
  shows "round_half_even q = k"
proof (cases "of_int k \<le> q")
  case True
  then have "\<lfloor>q\<rfloor> = k" using assms(2) by (intro floor_unique) simp_all
  then show ?thesis using assms(2) by (simp add: round_half_even_def)
next
  case False
  then have "\<lfloor>q\<rfloor> = k - 1" using assms(1) by (intro floor_unique) simp_all
  then show ?thesis using assms(1) by (simp add: round_half_even_def)
qed

lemma round_half_even_bounds: "\<lfloor>q\<rfloor> \<le> round_half_even q \<and> round_half_even q \<le> \<lfloor>q\<rfloor> + 1"
  by (simp add: round_half_even_def Let_def)

lemma round_half_even_mono:
  assumes "q \<le> r"
  shows "round_half_even q \<le> round_half_even r"
proof (cases "\<lfloor>q\<rfloor> = \<lfloor>r\<rfloor>")
  case True
  then show ?thesis using assms by (auto simp: round_half_even_def Let_def)
next
  case False
  then have "\<lfloor>q\<rfloor> + 1 \<le> \<lfloor>r\<rfloor>" using floor_mono [OF assms] by simp
  then show ?thesis using round_half_even_bounds [of q] round_half_even_bounds [of r] by linarith
qed

lemma round_half_even_ge: "of_int k \<le> q \<Longrightarrow> k \<le> round_half_even q"
  using round_half_even_mono [of "of_int k" q] by simp

lemma round_half_even_le: "q \<le> of_int k \<Longrightarrow> round_half_even q \<le> k"
  using round_half_even_mono [of q "of_int k"] by simp

lemma ulp_exp_mono:
  assumes "0 \<le> q" and "q \<le> r"
  shows "ulp_exp p m q \<le> ulp_exp p m r"
proof -
  have "\<lfloor>q * 2 ^ m\<rfloor> \<le> \<lfloor>r * 2 ^ m\<rfloor>" using assms by (intro floor_mono mult_right_mono) simp_all
  then show ?thesis unfolding ulp_exp_def by (intro diff_le_mono floorlog_mono nat_mono)
qed

lemma round_mag_range:
  assumes "0 \<le> a"
  shows "0 \<le> round_half_even (a / (2 ^ ulp_exp p m a / 2 ^ m)) \<and> round_half_even (a / (2 ^ ulp_exp p m a / 2 ^ m)) \<le> 2 ^ p"
proof -
  let ?u = "2 ^ ulp_exp p m a / 2 ^ m :: rat"
  have "a / ?u \<le> of_int (2 ^ p)" using ulp_exp_upper [OF assms, of p m] by (subst pos_divide_le_eq) (simp_all add: less_imp_le)
  moreover have "of_int 0 \<le> a / ?u" using assms by simp
  ultimately show ?thesis using round_half_even_ge round_half_even_le by blast
qed

lemma round_mag_float:
  assumes "0 \<le> a"
  shows "is_float p m (round_mag p m a)"
  unfolding is_float_def round_mag_def Let_def
  using round_mag_range [OF assms, of p m] by (metis abs_of_nonneg)

lemma round_mag_mono:
  assumes "0 \<le> q" and "q \<le> r" and "0 < p"
  shows "round_mag p m q \<le> round_mag p m r"
proof -
  define u where "u a = (2 ^ ulp_exp p m a / 2 ^ m :: rat)" for a
  have u: "0 < u a" for a by (simp add: u_def)
  have mag: "round_mag p m a = of_int (round_half_even (a / u a)) * u a" for a by (simp add: round_mag_def u_def Let_def)
  consider "ulp_exp p m q = ulp_exp p m r" | "ulp_exp p m q < ulp_exp p m r"
    using ulp_exp_mono [OF assms(1,2), of p m] by linarith
  then show ?thesis
  proof cases
    case 1
    then have same: "u q = u r" by (simp add: u_def)
    have "round_half_even (q / u r) \<le> round_half_even (r / u r)"
      using assms(2) u [of r] by (intro round_half_even_mono divide_right_mono) simp_all
    then show ?thesis unfolding mag same using u [of r] by (intro mult_right_mono) simp_all
  next
    case 2
    then have "2 * u q \<le> u r"
      using power_increasing [of "Suc (ulp_exp p m q)" "ulp_exp p m r" "2 :: rat"] by (simp add: u_def divide_right_mono)
    moreover have "(2 :: rat) ^ p = 2 ^ (p - 1) * 2" using assms(3) by (metis Suc_diff_1 mult.commute power_Suc)
    ultimately have step: "2 ^ p * u q \<le> 2 ^ (p - 1) * u r" by (simp add: mult.assoc mult_left_mono)
    have "round_half_even (q / u q) \<le> 2 ^ p" using round_mag_range [OF assms(1)] by (simp add: u_def)
    then have "(of_int (round_half_even (q / u q)) :: rat) \<le> of_int (2 ^ p)" by (simp only: of_int_le_iff)
    then have below: "round_mag p m q \<le> 2 ^ p * u q" unfolding mag using u [of q] by (intro mult_right_mono) simp_all
    have "2 ^ (p - 1) * u r \<le> r" using 2 assms ulp_exp_lower [of r p m] by (simp add: u_def)
    then have "of_int (2 ^ (p - 1)) \<le> r / u r" using u [of r] by (subst pos_le_divide_eq) simp_all
    then have "(of_int (2 ^ (p - 1)) :: rat) \<le> of_int (round_half_even (r / u r))"
      unfolding of_int_le_iff by (rule round_half_even_ge)
    then have "2 ^ (p - 1) * u r \<le> round_mag p m r" unfolding mag using u [of r] by (intro mult_right_mono) simp_all
    with step below show ?thesis by linarith
  qed
qed

text \<open>A floating-point number is a multiple of its own last place.\<close>

lemma float_multiple:
  assumes "0 \<le> x" and "0 < p" and "is_float p m x"
  shows "\<exists>n. x = of_int n * (2 ^ ulp_exp p m x / 2 ^ m)"
proof -
  let ?E = "ulp_exp p m x"
  obtain k e where x: "x = of_int k * (2 ^ e / 2 ^ m)" and k: "\<bar>k\<bar> \<le> 2 ^ p" using assms(3) by (auto simp: is_float_def)
  show ?thesis
  proof (cases "?E \<le> e")
    case True
    then have "(2 :: rat) ^ e = 2 ^ (e - ?E) * 2 ^ ?E" by (simp flip: power_add)
    then have "x = of_int (k * 2 ^ (e - ?E)) * (2 ^ ?E / 2 ^ m)" using x by simp
    then show ?thesis by blast
  next
    case False
    then have low: "2 ^ (p - 1) * (2 ^ ?E / 2 ^ m) \<le> x" using assms(1,2) by (intro ulp_exp_lower) simp_all
    have "k \<le> 2 ^ p" using k by simp
    then have "(of_int k :: rat) \<le> of_int (2 ^ p)" by (simp only: of_int_le_iff)
    then have up: "x \<le> 2 ^ p * (2 ^ e / 2 ^ m)" unfolding x by (intro mult_right_mono) simp_all
    have pp: "(2 :: rat) ^ p = 2 ^ (p - 1) * 2" using assms(2) by (metis Suc_diff_1 mult.commute power_Suc)
    have "(2 :: rat) * 2 ^ e \<le> 2 ^ ?E" using False power_increasing [of "Suc e" ?E "2 :: rat"] by simp
    then have "2 ^ (p - 1) * (2 * 2 ^ e / 2 ^ m) \<le> 2 ^ (p - 1) * (2 ^ ?E / 2 ^ m :: rat)"
      by (intro mult_left_mono divide_right_mono) simp_all
    with low up have "x = 2 ^ (p - 1) * (2 ^ ?E / 2 ^ m)" by (simp add: pp)
    then have "x = of_int (2 ^ (p - 1)) * (2 ^ ?E / 2 ^ m)" by simp
    then show ?thesis by blast
  qed
qed

lemma round_mag_exact:
  assumes "0 \<le> x" and "0 < p" and "is_float p m x"
  shows "round_mag p m x = x"
proof -
  obtain n where "x = of_int n * (2 ^ ulp_exp p m x / 2 ^ m)" using float_multiple [OF assms] by blast
  moreover from this have "x / (2 ^ ulp_exp p m x / 2 ^ m) = of_int n" by (metis nonzero_mult_div_cancel_right divide_eq_0_iff power_not_zero zero_neq_numeral)
  ultimately show ?thesis by (simp add: round_mag_def Let_def)
qed

lemma is_float_uminus: "is_float p m (- x) \<longleftrightarrow> is_float p m x"
proof -
  have "is_float p m (- x)" if x: "is_float p m x" for x
  proof -
    obtain k e where "x = of_int k * (2 ^ e / 2 ^ m)" "\<bar>k\<bar> \<le> 2 ^ p" using x by (auto simp: is_float_def)
    then have "- x = of_int (- k) * (2 ^ e / 2 ^ m)" "\<bar>- k\<bar> \<le> 2 ^ p" by simp_all
    then show ?thesis unfolding is_float_def by blast
  qed
  from this [of x] this [of "- x"] show ?thesis by auto
qed

lemma round_mag_nonneg: "0 \<le> a \<Longrightarrow> 0 \<le> round_mag p m a"
  using round_mag_range [of a p m] by (simp add: round_mag_def Let_def)

lemma float_rounding_round_rat:
  assumes "0 < p"
  shows "float_rounding (round_rat p m) p m"
proof
  show "is_float p m (round_rat p m q)" for q
    using round_mag_float [of q p m] round_mag_float [of "- q" p m] by (simp add: round_rat_def is_float_uminus)
  show "round_rat p m x = x" if "is_float p m x" for x
    using that round_mag_exact [of x p m] round_mag_exact [of "- x" p m] assms by (simp add: round_rat_def is_float_uminus)
  show "round_rat p m q \<le> round_rat p m r" if "q \<le> r" for q r
  proof -
    consider "r < 0" | "q < 0" "0 \<le> r" | "0 \<le> q" using that by linarith
    then show ?thesis
    proof cases
      case 1
      then show ?thesis using round_mag_mono [of "- r" "- q" p m] that assms by (simp add: round_rat_def)
    next
      case 2
      then show ?thesis using round_mag_nonneg [of "- q" p m] round_mag_nonneg [of r p m] by (simp add: round_rat_def)
    next
      case 3
      then show ?thesis using round_mag_mono [of q r p m] that assms by (simp add: round_rat_def)
    qed
  qed
qed (rule assms)

interpretation single: float_rounding round32 24 149
  by (rule float_rounding_round_rat) simp

interpretation double: float_rounding round64 53 1074
  by (rule float_rounding_round_rat) simp

text \<open>The value, from the place of its last bit.\<close>

lemma ulp_exp_eq:
  assumes "2 ^ (p - 1) * (2 ^ e / 2 ^ m) \<le> a" and "a < 2 ^ p * (2 ^ e / 2 ^ m)" and "0 < p"
  shows "ulp_exp p m a = e"
proof -
  have "0 \<le> a" using assms(1) by (rule order_trans [rotated]) simp
  have low: "2 ^ (p - 1 + e) \<le> a * 2 ^ m" using assms(1) by (simp add: pos_divide_le_eq power_add)
  have up: "a * 2 ^ m < 2 ^ (p + e)" using assms(2) by (simp add: pos_less_divide_eq power_add)
  have "int (2 ^ (p - 1 + e)) \<le> \<lfloor>a * 2 ^ m\<rfloor>" using low by (simp add: le_floor_iff)
  then have "2 ^ (p - 1 + e) \<le> nat \<lfloor>a * 2 ^ m\<rfloor>" by (simp only: le_nat_iff)
  moreover have "\<lfloor>a * 2 ^ m\<rfloor> < int (2 ^ (p + e))" using up by (simp add: floor_less_iff)
  then have "nat \<lfloor>a * 2 ^ m\<rfloor> < 2 ^ (p + e)" using nat_less_iff \<open>0 \<le> a\<close> by simp
  ultimately have "floorlog 2 (nat \<lfloor>a * 2 ^ m\<rfloor>) = p + e"
    using floorlog_geI [of 2 "p + e" "nat \<lfloor>a * 2 ^ m\<rfloor>"] floorlog_leI [of "nat \<lfloor>a * 2 ^ m\<rfloor>" 2 "p + e"] assms(3) by simp
  then show ?thesis by (simp add: ulp_exp_def)
qed

lemma round_rat_eq:
  assumes "2 ^ (p - 1) * (2 ^ e / 2 ^ m) \<le> a" and "a < 2 ^ p * (2 ^ e / 2 ^ m)" and "0 < p"
  shows "round_rat p m a = of_int (round_half_even (a / (2 ^ e / 2 ^ m))) * (2 ^ e / 2 ^ m)"
proof -
  have "0 \<le> a" using assms(1) by (rule order_trans [rotated]) simp
  then show ?thesis using ulp_exp_eq [OF assms] by (simp add: round_rat_def round_mag_def Let_def)
qed

section \<open>The operations of C\<close>

text \<open>\<open>Inf True\<close> is minus infinity.\<close>

datatype c_float = Fin rat | Inf bool | NaN

definition to_float :: "rat \<Rightarrow> c_float" where
  "to_float q = (let r = round32 q in if 2 ^ 128 \<le> \<bar>r\<bar> then Inf (q < 0) else Fin r)"

text \<open>Conversions: from a whole number, and from \<open>double\<close>.\<close>

definition float_of :: "int \<Rightarrow> c_float" where
  "float_of n = to_float (of_int n)"

fun narrow :: "c_float \<Rightarrow> c_float" where
  "narrow (Fin q) = to_float q"
| "narrow x = x"

fun fadd :: "c_float \<Rightarrow> c_float \<Rightarrow> c_float" where
  "fadd (Fin a) (Fin b) = to_float (a + b)"
| "fadd (Inf s) (Fin b) = Inf s"
| "fadd (Fin a) (Inf s) = Inf s"
| "fadd (Inf s) (Inf t) = (if s = t then Inf s else NaN)"
| "fadd _ _ = NaN"

fun fneg :: "c_float \<Rightarrow> c_float" where
  "fneg (Fin a) = Fin (- a)"
| "fneg (Inf s) = Inf (\<not> s)"
| "fneg NaN = NaN"

definition fsub :: "c_float \<Rightarrow> c_float \<Rightarrow> c_float" where
  "fsub x y = fadd x (fneg y)"

fun fmul :: "c_float \<Rightarrow> c_float \<Rightarrow> c_float" where
  "fmul (Fin a) (Fin b) = to_float (a * b)"
| "fmul (Inf s) (Fin b) = (if b = 0 then NaN else Inf (s \<noteq> (b < 0)))"
| "fmul (Fin a) (Inf s) = (if a = 0 then NaN else Inf (s \<noteq> (a < 0)))"
| "fmul (Inf s) (Inf t) = Inf (s \<noteq> t)"
| "fmul _ _ = NaN"

fun fdiv :: "c_float \<Rightarrow> c_float \<Rightarrow> c_float" where
  "fdiv (Fin a) (Fin b) = (if b = 0 then if a = 0 then NaN else Inf (a < 0) else to_float (a / b))"
| "fdiv (Inf s) (Fin b) = Inf (s \<noteq> (b < 0))"
| "fdiv (Fin a) (Inf s) = Fin 0"
| "fdiv _ _ = NaN"

text \<open>A comparison with a NaN is false.\<close>

fun fless :: "c_float \<Rightarrow> c_float \<Rightarrow> bool" where
  "fless (Fin a) (Fin b) \<longleftrightarrow> a < b"
| "fless (Inf s) (Fin b) \<longleftrightarrow> s"
| "fless (Fin a) (Inf s) \<longleftrightarrow> \<not> s"
| "fless (Inf s) (Inf t) \<longleftrightarrow> s \<and> \<not> t"
| "fless _ _ \<longleftrightarrow> False"

text \<open>The conversion to an unsigned type of \<open>n\<close> values drops the fraction and is undefined
  (\<open>None\<close>) when the value does not fit.\<close>

fun trunc_below :: "nat \<Rightarrow> c_float \<Rightarrow> nat option" where
  "trunc_below n (Fin q) = (if - 1 < q \<and> q < of_nat n then Some (nat \<lfloor>q\<rfloor>) else None)"
| "trunc_below n _ = None"

text \<open>The conversion to \<open>int\<close>, also towards 0.\<close>

fun trunc_int :: "c_float \<Rightarrow> int option" where
  "trunc_int (Fin q) =
     (let n = (if q < 0 then \<lceil>q\<rceil> else \<lfloor>q\<rfloor>) in if - (2 ^ 31) \<le> n \<and> n < 2 ^ 31 then Some n else None)"
| "trunc_int _ = None"

fun ffloor :: "c_float \<Rightarrow> c_float" where
  "ffloor (Fin q) = Fin (of_int \<lfloor>q\<rfloor>)"
| "ffloor x = x"

lemma to_float_small:
  assumes "\<bar>q\<bar> \<le> 2 ^ 24"
  shows "to_float q = Fin (round32 q)"
proof -
  have "- (2 ^ 24) \<le> q" "q \<le> 2 ^ 24" using assms by linarith+
  then have "- (2 ^ 24) \<le> round32 q" "round32 q \<le> 2 ^ 24"
    using single.mono [of "of_int (- (2 ^ 24))" q] single.mono [of q "of_int (2 ^ 24)"]
      single.rnd_int [of "- (2 ^ 24)"] single.rnd_int [of "2 ^ 24"] by simp_all
  then have "\<bar>round32 q\<bar> < 2 ^ 128" by (simp add: abs_less_iff)
  then show ?thesis by (simp add: to_float_def)
qed

lemma float_of_small: "\<bar>n\<bar> \<le> 2 ^ 24 \<Longrightarrow> float_of n = Fin (of_int n)"
  using to_float_small [of "of_int n"] single.rnd_int [of n] unfolding float_of_def by (simp flip: of_int_abs)

end
