(* ===== verification/Fb_Scale.thy ===== *)
theory Fb_Scale
  imports Fb_Grid C_Float
begin

text \<open>
  \<open>fb_pixmap_scale\<close> of \<open>patches/code/fbview/pixmap.c\<close>, the bilinear scaling of an image. \<open>malloc\<close> is an
  argument; offsets are computed in \<open>int\<close>, so one of \<open>2 ^ 31\<close> or more is \<open>Fault\<close>, as is the conversion
  to an unsigned type of a floating-point value that does not fit.
\<close>

section \<open>The code\<close>

definition to_uint16 :: "c_float \<Rightarrow> nat res" where
  "to_uint16 x = opt_res (trunc_below 65536 x)"

definition to_uint8 :: "c_float \<Rightarrow> 8 word res" where
  "to_uint8 x = res_bind (opt_res (trunc_below 256 x)) (\<lambda>n. Inr (of_nat n))"

text \<open>The offset of the pixel \<open>(x, y)\<close> in an image of width \<open>w\<close>.\<close>

definition int_offset :: "nat \<Rightarrow> nat \<Rightarrow> nat \<Rightarrow> nat \<Rightarrow> nat res" where
  "int_offset pixelsize w x y =
     (if (x + y * w) * pixelsize < 2 ^ 31 then Inr ((x + y * w) * pixelsize) else Inl Fault)"

definition get_at :: "nat \<Rightarrow> fb_pixel list \<Rightarrow> nat \<Rightarrow> nat \<Rightarrow> nat \<Rightarrow> rgb res" where
  "get_at pixelsize pix w x y =
     res_bind (int_offset pixelsize w x y) (\<lambda>a. fb_get_pixel pixelsize pix a (0, 0, 0))"

text \<open>One channel of the four neighbours: along the rows, then between the rows.\<close>

definition lerp :: "c_float \<Rightarrow> nat \<Rightarrow> 8 word \<Rightarrow> 8 word \<Rightarrow> c_float" where
  "lerp x x1 p q = fadd (float_of (uint p)) (fmul (fsub x (float_of (int x1))) (float_of (uint q - uint p)))"

definition blend :: "c_float \<Rightarrow> nat \<Rightarrow> c_float \<Rightarrow> nat \<Rightarrow> 8 word \<Rightarrow> 8 word \<Rightarrow> 8 word \<Rightarrow> 8 word \<Rightarrow> 8 word res" where
  "blend x x1 y y1 p1 p2 p3 p4 =
     (let f12 = lerp x x1 p1 p2; f34 = lerp x x1 p3 p4 in
      to_uint8 (fadd f12 (fmul (fsub y (float_of (int y1))) (fsub f34 f12))))"

definition next_index :: "nat \<Rightarrow> nat \<Rightarrow> nat" where
  "next_index n a = (if n \<le> a + 1 then a else a + 1)"

text \<open>The body of the inner loop, for the new pixel \<open>(i, j)\<close>; \<open>y\<close>, \<open>y1\<close> and \<open>y2\<close> come from the outer one.\<close>

definition scaled_colour ::
  "nat \<Rightarrow> fb_pixel list \<Rightarrow> nat \<Rightarrow> c_float \<Rightarrow> c_float \<Rightarrow> nat \<Rightarrow> nat \<Rightarrow> nat \<Rightarrow> rgb res" where
  "scaled_colour pixelsize pix w scale y y1 y2 i =
     (let x = fdiv (float_of (int i)) scale in
      res_bind (to_uint16 (ffloor x)) (\<lambda>x1.
      let x2 = next_index w x1 in
      res_bind (get_at pixelsize pix w x1 y1) (\<lambda>(p1R, p1G, p1B).
      res_bind (get_at pixelsize pix w x2 y1) (\<lambda>(p2R, p2G, p2B).
      res_bind (get_at pixelsize pix w x1 y2) (\<lambda>(p3R, p3G, p3B).
      res_bind (get_at pixelsize pix w x2 y2) (\<lambda>(p4R, p4G, p4B).
      res_bind (blend x x1 y y1 p1R p2R p3R p4R) (\<lambda>new_R.
      res_bind (blend x x1 y y1 p1G p2G p3G p4G) (\<lambda>new_G.
      res_bind (blend x x1 y y1 p1B p2B p3B p4B) (\<lambda>new_B.
        Inr (new_R, new_G, new_B))))))))))"

definition scale_pixel ::
  "nat \<Rightarrow> fb_pixel list \<Rightarrow> nat \<Rightarrow> nat \<Rightarrow> c_float \<Rightarrow> c_float \<Rightarrow> nat \<Rightarrow> nat \<Rightarrow> nat \<Rightarrow> nat \<Rightarrow>
   fb_pixel list \<Rightarrow> fb_pixel list res" where
  "scale_pixel pixelsize pix w nw scale y y1 y2 j i new =
     res_bind (scaled_colour pixelsize pix w scale y y1 y2 i) (\<lambda>c.
     res_bind (int_offset pixelsize nw i j) (\<lambda>a. fb_set_pixel pixelsize new a c))"

text \<open>The body of the outer loop.\<close>

definition scale_row ::
  "nat \<Rightarrow> fb_pixel list \<Rightarrow> nat \<Rightarrow> nat \<Rightarrow> nat \<Rightarrow> c_float \<Rightarrow> nat \<Rightarrow> fb_pixel list \<Rightarrow> fb_pixel list res" where
  "scale_row pixelsize pix w h nw scale j new =
     (let y = fdiv (float_of (int j)) scale in
      res_bind (to_uint16 (ffloor y)) (\<lambda>y1.
      let y2 = next_index h y1 in
      fold_res (scale_pixel pixelsize pix w nw scale y y1 y2 j) [0..<nw] new))"

definition fb_pixmap_scale ::
  "nat \<Rightarrow> (nat \<Rightarrow> fb_pixel list option) \<Rightarrow> fb_pixel list \<Rightarrow> nat \<Rightarrow> nat \<Rightarrow> c_float \<Rightarrow> (fb_pixel list \<times> nat \<times> nat) res" where
  "fb_pixmap_scale pixelsize malloc pix w h scale =
     res_bind (to_uint16 (fmul (float_of (int w)) scale)) (\<lambda>nw.
     res_bind (to_uint16 (fmul (float_of (int h)) scale)) (\<lambda>nh.
     if 2 ^ 31 \<le> nw * nh * pixelsize then Inl Fault
     else case malloc (nw * nh * pixelsize) of
       None \<Rightarrow> Inr (pix, w, h)
     | Some new \<Rightarrow>
         res_bind (fold_res (scale_row pixelsize pix w h nw scale) [0..<nh] new) (\<lambda>new. Inr (new, nw, nh))))"

section \<open>Where the new pixels come from\<close>

locale scaling = float_rounding rnd 24 149 for rnd
begin

lemma above_half_step: "rnd q \<ge> 1 \<Longrightarrow> 2 ^ (24 - 1) / 2 ^ 149 \<le> q"
proof (rule ccontr)
  assume "1 \<le> rnd q" "\<not> 2 ^ (24 - 1) / 2 ^ 149 \<le> q"
  then have "q \<le> 1 / 2" by simp
  moreover have "is_float 24 149 (1 / 2)" unfolding is_float_def by (intro exI [of _ 1] exI [of _ 148]) simp
  ultimately have "rnd q \<le> 1 / 2" using le_float by blast
  with \<open>1 \<le> rnd q\<close> show False by simp
qed

text \<open>Dividing an index of the new image by the scale gives one of the old image, in spite of rounding.\<close>

lemma source_below:
  assumes "0 < s" and "0 < n" and "n < 65536" and "of_nat j + 1 \<le> rnd (of_nat n * s)" and "rnd (of_nat n * s) < 65536"
  shows "0 \<le> rnd (of_nat j / s) \<and> rnd (of_nat j / s) < of_nat n"
proof (cases "j = 0")
  case True
  then show ?thesis using assms(2) by (simp add: rnd_0)
next
  case False
  define P where "P = of_nat n * s"
  have "1 \<le> rnd P" using assms(4) by (simp add: P_def)
  then have err: "P * (1 - 2 / 2 ^ 24) < rnd P" "rnd P < P * (1 + 2 / 2 ^ 24)"
    using relative_error [OF above_half_step] by blast+
  then have P: "0 < P" "P < 65537" using assms(1,2,5) by (simp_all add: P_def)
  have j: "of_nat j < P * (1 + 2 / 2 ^ 24) - 1" using err(2) assms(4) by (simp add: P_def)
  have s: "s = P / of_nat n" using assms(2) by (simp add: P_def)
  have "s \<le> P" using assms(1,2) unfolding P_def by simp
  then have "s < 65537" using P by simp
  have "1 / 65537 \<le> of_nat j / s"
    using False assms(1) \<open>s < 65537\<close> by (intro frac_le) simp_all
  then have "2 ^ (24 - 1) / 2 ^ 149 \<le> of_nat j / s" by (rule order_trans [rotated]) simp
  then have "rnd (of_nat j / s) < of_nat j / s * (1 + 2 / 2 ^ 24)" using relative_error by blast
  also have "\<dots> \<le> of_nat n"
  proof -
    have "of_nat j * (1 + 2 / 2 ^ 24) \<le> P" using j P by simp
    then show ?thesis using assms(1) by (simp add: pos_divide_le_eq P_def)
  qed
  finally show ?thesis using ge_float [of 0 "of_nat j / s"] float_int [of 0] assms(1) by simp
qed

text \<open>The difference of a whole number and a floating-point number that is not less is exact.\<close>

lemma float_int_minus:
  assumes "is_float 24 149 x" and "of_int n \<le> x" and "0 \<le> n" and "x \<le> 2 ^ 24"
  shows "is_float 24 149 (of_int n - x)"
proof -
  obtain k e where x: "x = of_int k * (2 ^ e / 2 ^ 149)" and k: "\<bar>k\<bar> \<le> 2 ^ 24" using assms(1) by (auto simp: is_float_def)
  show ?thesis
  proof (cases "e \<le> 149")
    case True
    let ?d = "149 - e"
    have unit: "2 ^ e / 2 ^ 149 = (1 :: rat) / 2 ^ ?d" using True by (simp add: power_diff)
    have "of_int (n * 2 ^ ?d) \<le> (of_int k :: rat)" using assms(2) unfolding x unit by (simp add: pos_le_divide_eq)
    then have "n * 2 ^ ?d \<le> k" by (simp only: of_int_le_iff)
    moreover have "0 \<le> n * 2 ^ ?d" using assms(3) by simp
    ultimately have "\<bar>n * 2 ^ ?d - k\<bar> \<le> 2 ^ 24" using k by linarith
    moreover have "of_int n - x = of_int (n * 2 ^ ?d - k) * (2 ^ e / 2 ^ 149)" unfolding x unit by (simp add: diff_divide_distrib)
    ultimately show ?thesis unfolding is_float_def by blast
  next
    case False
    then have "(2 :: rat) ^ e = 2 ^ (e - 149) * 2 ^ 149" by (simp only: power_add [symmetric]) simp
    then have "2 ^ e / 2 ^ 149 = (of_int (2 ^ (e - 149)) :: rat)" by simp
    then have whole: "x = of_int (k * 2 ^ (e - 149))" using x by simp
    have "n \<le> k * 2 ^ (e - 149)" using assms(2) unfolding whole by (simp only: of_int_le_iff)
    moreover have "(of_int (k * 2 ^ (e - 149)) :: rat) \<le> of_int (2 ^ 24)" using assms(4) whole by simp
    then have "k * 2 ^ (e - 149) \<le> 2 ^ 24" by (simp only: of_int_le_iff)
    ultimately have "\<bar>n - k * 2 ^ (e - 149)\<bar> \<le> 2 ^ 24" using assms(3) by linarith
    then have "is_float 24 149 (of_int (n - k * 2 ^ (e - 149)))" by (rule float_int)
    then show ?thesis using whole by simp
  qed
qed

lemma rnd_unit: "0 \<le> t \<Longrightarrow> t \<le> 1 \<Longrightarrow> 0 \<le> rnd t \<and> rnd t \<le> 1"
  using mono [of 0 t] mono [of t 1] rnd_0 rnd_1 by simp

text \<open>A step towards a whole number stays on this side of it.\<close>

lemma unit_mult:
  assumes "0 \<le> t" and "t \<le> (1 :: rat)"
  shows "min 0 d \<le> t * d" and "t * d \<le> max 0 d"
proof -
  consider "0 \<le> d" | "d \<le> 0" by linarith
  then have "min 0 d \<le> t * d \<and> t * d \<le> max 0 d"
  proof cases
    case 1
    then have "0 \<le> t * d" "t * d \<le> 1 * d" using assms by (simp, intro mult_right_mono)
    then show ?thesis using 1 by simp
  next
    case 2
    then have "t * d \<le> 0" "1 * d \<le> t * d" using assms by (simp add: mult_nonneg_nonpos, intro mult_right_mono_neg)
    then show ?thesis using 2 by simp
  qed
  then show "min 0 d \<le> t * d" "t * d \<le> max 0 d" by simp_all
qed

lemma lerp_between:
  assumes "0 \<le> t" and "t \<le> 1" and "lo \<le> p" "lo \<le> q" "p \<le> hi" "q \<le> hi" and "0 \<le> lo" "hi \<le> 255"
  shows "of_int lo \<le> rnd (of_int p + rnd (t * of_int (q - p))) \<and> rnd (of_int p + rnd (t * of_int (q - p))) \<le> of_int hi"
proof -
  let ?d = "rnd (t * of_int (q - p))"
  have "of_int (lo - p) \<le> (of_int (q - p) :: rat)" "(of_int (q - p) :: rat) \<le> of_int (hi - p)"
    "of_int (lo - p) \<le> (0 :: rat)" "(0 :: rat) \<le> of_int (hi - p)"
    using assms(3-6) by (simp_all only: of_int_le_iff of_int_le_0_iff of_int_0_le_iff)
  then have "of_int (lo - p) \<le> t * of_int (q - p)" "t * of_int (q - p) \<le> of_int (hi - p)"
    using unit_mult [OF assms(1,2), of "of_int (q - p)"] by linarith+
  moreover have "\<bar>lo - p\<bar> \<le> 2 ^ 24" "\<bar>hi - p\<bar> \<le> 2 ^ 24" using assms(3-8) by (simp_all add: abs_le_iff)
  ultimately have "of_int (lo - p) \<le> ?d" "?d \<le> of_int (hi - p)" using between float_int by blast+
  then have "of_int lo \<le> of_int p + ?d" "of_int p + ?d \<le> of_int hi" by simp_all
  moreover have "is_float 24 149 (of_int lo)" "is_float 24 149 (of_int hi)"
    using assms(3-8) by (auto intro!: float_int)
  ultimately show ?thesis using between by blast
qed

text \<open>Between the rows the end points are rounded already; the result can pass the greater one by
  less than 1, which the conversion to a byte drops.\<close>

lemma lerp_rows:
  assumes "0 \<le> t" and "t \<le> 1" and "is_float 24 149 a" and "of_int lo \<le> a" "of_int lo \<le> b" "a \<le> of_int hi" "b \<le> of_int hi"
    and "0 \<le> lo" and "hi \<le> 255"
  shows "of_int lo \<le> rnd (a + rnd (t * rnd (b - a))) \<and> rnd (a + rnd (t * rnd (b - a))) < of_int hi + 1"
proof -
  let ?g = "rnd (b - a)" and ?u = "2 ^ 133 / 2 ^ 149 :: rat"
  have hi: "(of_int hi :: rat) \<le> 255" "(of_int lo :: rat) \<le> of_int hi" "(0 :: rat) \<le> of_int lo"
    using assms(4,6,8,9) by simp_all
  have low: "is_float 24 149 (of_int lo - a)" using assms(3,4,6,8,9) hi by (intro float_int_minus) simp_all
  then have "of_int lo - a \<le> ?g" using assms(5) by (intro ge_float) simp_all
  then have "of_int lo - a \<le> t * ?g" using unit_mult(1) [OF assms(1,2), of ?g] assms(4) by linarith
  with low have "of_int lo - a \<le> rnd (t * ?g)" by (rule ge_float)
  moreover have "is_float 24 149 (of_int lo)" using hi assms(8) by (intro float_int) simp
  ultimately have lower: "of_int lo \<le> rnd (a + rnd (t * ?g))" by (intro ge_float) linarith+
  have u: "?u = 1 / 65536" by simp
  have "rnd (of_int hi - a) < of_int hi - a + ?u" using near_grid [of "of_int hi - a" 133] assms(4,6) hi by simp
  moreover have "?g \<le> rnd (of_int hi - a)" using assms(7) by (intro mono) simp
  ultimately have "?g \<le> of_int hi - a + ?u" by linarith
  then have "t * ?g \<le> of_int hi - a + ?u" using unit_mult(2) [OF assms(1,2), of ?g] assms(6) u by linarith
  then have "rnd (t * ?g) \<le> rnd (of_int hi - a + ?u)" by (rule mono)
  moreover have "rnd (of_int hi - a + ?u) < of_int hi - a + ?u + ?u"
    using near_grid [of "of_int hi - a + ?u" 133] assms(4,6) hi by simp
  ultimately have "a + rnd (t * ?g) \<le> of_int hi + 1 / 2" using u by linarith
  moreover have "is_float 24 149 (of_int hi + 1 / 2)"
    unfolding is_float_def using hi assms(9)
    by (intro exI [of _ "2 * hi + 1"] exI [of _ 148]) (simp add: abs_le_iff field_simps)
  ultimately have "rnd (a + rnd (t * ?g)) \<le> of_int hi + 1 / 2" by (intro le_float)
  with lower show ?thesis by linarith
qed

end

interpretation scale32: scaling round32
  by unfold_locales

section \<open>One new pixel\<close>

lemma byte_range: "0 \<le> uint p \<and> uint p \<le> 255" for p :: "8 word"
  using uint_lt2p [of p] uint_ge_0 [of p] by simp

lemma byte_diff: "\<bar>uint q - uint p\<bar> \<le> 255" for p q :: "8 word"
  using byte_range [of p] byte_range [of q] by linarith

lemma float_byte: "float_of (uint p) = Fin (of_int (uint p))" "float_of (uint q - uint p) = Fin (of_int (uint q - uint p))"
  for p q :: "8 word"
proof -
  have "\<bar>uint p\<bar> \<le> 2 ^ 24" using byte_range [of p] by simp
  then show "float_of (uint p) = Fin (of_int (uint p))" by (rule float_of_small)
  have "\<bar>uint q - uint p\<bar> \<le> 2 ^ 24" using byte_diff [of q p] by simp
  then show "float_of (uint q - uint p) = Fin (of_int (uint q - uint p))" by (rule float_of_small)
qed

text \<open>The fraction of a coordinate.\<close>

definition fraction :: "rat \<Rightarrow> rat" where
  "fraction q = round32 (q - of_int \<lfloor>q\<rfloor>)"

lemma fraction_unit: "0 \<le> fraction q \<and> fraction q \<le> 1"
  unfolding fraction_def by (rule scale32.rnd_unit) linarith+

lemma fsub_fraction:
  assumes "0 \<le> q" and "q < 65536"
  shows "fsub (Fin q) (float_of (int (nat \<lfloor>q\<rfloor>))) = Fin (fraction q)"
proof -
  have "0 \<le> \<lfloor>q\<rfloor>" "\<lfloor>q\<rfloor> < 65536" using assms by (simp_all add: floor_less_iff)
  then have "float_of (int (nat \<lfloor>q\<rfloor>)) = Fin (of_int \<lfloor>q\<rfloor>)" using float_of_small [of "\<lfloor>q\<rfloor>"] by simp
  moreover have "\<bar>q - of_int \<lfloor>q\<rfloor>\<bar> \<le> 2 ^ 24" by (rule abs_leI; simp; linarith)
  ultimately show ?thesis using to_float_small by (simp add: fsub_def fraction_def)
qed

definition mix :: "rat \<Rightarrow> 8 word \<Rightarrow> 8 word \<Rightarrow> rat" where
  "mix t p q = round32 (of_int (uint p) + round32 (t * of_int (uint q - uint p)))"

lemma mix_between:
  assumes "0 \<le> t" and "t \<le> 1" and "lo \<le> uint p" "lo \<le> uint q" "uint p \<le> hi" "uint q \<le> hi" and "0 \<le> lo" "hi \<le> 255"
  shows "of_int lo \<le> mix t p q \<and> mix t p q \<le> of_int hi"
  unfolding mix_def by (rule scale32.lerp_between [OF assms])

lemma sum_small: "0 \<le> a \<Longrightarrow> a \<le> 255 \<Longrightarrow> - 255 \<le> r \<Longrightarrow> r \<le> 255 \<Longrightarrow> \<bar>a + r\<bar> \<le> 2 ^ 24" for a r :: rat
  by (simp add: abs_le_iff)

lemma round32_small:
  assumes "- 255 \<le> q" and "q \<le> 255"
  shows "\<bar>q\<bar> \<le> 2 ^ 24" "- 255 \<le> round32 q" "round32 q \<le> 255"
  using assms single.mono [of "- 255" q] single.mono [of q 255] single.rnd_int [of "- 255"] single.rnd_int [of 255]
  by (simp_all add: abs_le_iff)

lemma lerp_mix:
  assumes "0 \<le> q" and "q < 65536"
  shows "lerp (Fin q) (nat \<lfloor>q\<rfloor>) a b = Fin (mix (fraction q) a b)"
proof -
  let ?t = "fraction q" and ?d = "of_int (uint b - uint a) :: rat"
  have d: "\<bar>?d\<bar> \<le> 255" using byte_diff [of b a] by (simp only: of_int_abs [symmetric] of_int_le_numeral_iff)
  then have "- 255 \<le> ?t * ?d" "?t * ?d \<le> 255" using scale32.unit_mult [of ?t ?d] fraction_unit [of q] by linarith+
  note prod = round32_small [OF this]
  have "(of_int (uint a) :: rat) \<le> 255" "(0 :: rat) \<le> of_int (uint a)"
    using byte_range [of a] by (simp_all only: of_int_le_numeral_iff of_int_0_le_iff)
  then have "\<bar>of_int (uint a) + round32 (?t * ?d)\<bar> \<le> 2 ^ 24" using prod(2,3) by (intro sum_small)
  then show ?thesis
    unfolding lerp_def fsub_fraction [OF assms] float_byte fmul.simps to_float_small [OF prod(1)] fadd.simps mix_def
    by (rule to_float_small)
qed

lemma blend_value:
  assumes "0 \<le> x" "x < 65536" and "0 \<le> y" "y < 65536"
  shows "blend (Fin x) (nat \<lfloor>x\<rfloor>) (Fin y) (nat \<lfloor>y\<rfloor>) p1 p2 p3 p4
    = (let a = mix (fraction x) p1 p2; b = mix (fraction x) p3 p4 in
       to_uint8 (Fin (round32 (a + round32 (fraction y * round32 (b - a))))))"
proof -
  let ?t = "fraction y"
  define a b where "a = mix (fraction x) p1 p2" and "b = mix (fraction x) p3 p4"
  have t: "0 \<le> ?t" "?t \<le> 1" using fraction_unit by simp_all
  have "of_int 0 \<le> mix (fraction x) p q \<and> mix (fraction x) p q \<le> of_int 255" for p q
    using fraction_unit [of x] byte_range by (intro mix_between) simp_all
  then have ab: "0 \<le> a" "a \<le> 255" "0 \<le> b" "b \<le> 255" unfolding a_def b_def by simp_all
  then have "- 255 \<le> b - a" "b - a \<le> 255" by linarith+
  note diff = round32_small [OF this]
  have "- 255 \<le> ?t * round32 (b - a)" "?t * round32 (b - a) \<le> 255"
    using scale32.unit_mult [OF t, of "round32 (b - a)"] diff(2,3) by linarith+
  note prod = round32_small [OF this]
  note total = sum_small [OF ab(1,2) prod(2,3)]
  have "fadd (Fin a) (fmul (Fin ?t) (fsub (Fin b) (Fin a))) = Fin (round32 (a + round32 (?t * round32 (b - a))))"
    unfolding fsub_def fneg.simps fadd.simps diff_conv_add_uminus [symmetric] to_float_small [OF diff(1)] fmul.simps
      to_float_small [OF prod(1)] to_float_small [OF total] ..
  then show ?thesis
    unfolding blend_def lerp_mix [OF assms(1,2)] fsub_fraction [OF assms(3,4)] Let_def a_def b_def by simp
qed

lemma blend_between:
  assumes "0 \<le> x" "x < 65536" and "0 \<le> y" "y < 65536" and "0 \<le> lo" "hi \<le> 255"
    and "\<And>p. p \<in> {p1, p2, p3, p4} \<Longrightarrow> lo \<le> uint p \<and> uint p \<le> hi"
  shows "\<exists>v. blend (Fin x) (nat \<lfloor>x\<rfloor>) (Fin y) (nat \<lfloor>y\<rfloor>) p1 p2 p3 p4 = Inr v \<and> lo \<le> uint v \<and> uint v \<le> hi"
proof -
  let ?t = "fraction y"
  define a b where "a = mix (fraction x) p1 p2" and "b = mix (fraction x) p3 p4"
  have t: "0 \<le> ?t" "?t \<le> 1" using fraction_unit by simp_all
  have ab: "of_int lo \<le> a" "a \<le> of_int hi" "of_int lo \<le> b" "b \<le> of_int hi"
    using mix_between [of "fraction x" lo p1 p2 hi] mix_between [of "fraction x" lo p3 p4 hi] fraction_unit [of x] assms(5-7)
    unfolding a_def b_def by simp_all
  have "is_float 24 149 a" unfolding a_def mix_def by (rule single.float)
  note rows = scale32.lerp_rows [OF t this ab(1,3,2,4) assms(5,6)]
  define v where "v = round32 (a + round32 (?t * round32 (b - a)))"
  have hi: "(of_int hi :: rat) \<le> 255" "(0 :: rat) \<le> of_int lo" using assms(5,6) by simp_all
  have v: "of_int lo \<le> v" "v < of_int hi + 1" using rows by (simp_all add: v_def)
  have f: "lo \<le> \<lfloor>v\<rfloor>" "\<lfloor>v\<rfloor> \<le> hi" using v by (simp_all add: le_floor_iff floor_le_iff)
  have "blend (Fin x) (nat \<lfloor>x\<rfloor>) (Fin y) (nat \<lfloor>y\<rfloor>) p1 p2 p3 p4 = to_uint8 (Fin v)"
    unfolding blend_value [OF assms(1-4)] Let_def a_def [symmetric] b_def [symmetric] v_def ..
  also have "\<dots> = Inr (of_nat (nat \<lfloor>v\<rfloor>))" using v hi by (simp add: to_uint8_def)
  finally have result: "blend (Fin x) (nat \<lfloor>x\<rfloor>) (Fin y) (nat \<lfloor>y\<rfloor>) p1 p2 p3 p4 = Inr (of_nat (nat \<lfloor>v\<rfloor>))" .
  have "nat \<lfloor>v\<rfloor> < 2 ^ LENGTH(8)" using f assms(6) by simp
  then have "uint (of_nat (nat \<lfloor>v\<rfloor>) :: 8 word) = int (nat \<lfloor>v\<rfloor>)" by (simp only: unsigned_of_nat take_bit_nat_eq_self)
  also have "\<dots> = \<lfloor>v\<rfloor>" using order_trans [OF assms(5) f(1)] by (rule nat_0_le)
  finally show ?thesis using result f by (intro exI [of _ "of_nat (nat \<lfloor>v\<rfloor>)"]) simp
qed

text \<open>Each channel of a colour lies between those of the given colours.\<close>

definition channel_within :: "(rgb \<Rightarrow> 8 word) \<Rightarrow> rgb \<Rightarrow> rgb list \<Rightarrow> bool" where
  "channel_within f c cs \<longleftrightarrow> list_ex (\<lambda>a. f a \<le> f c) cs \<and> list_ex (\<lambda>b. f c \<le> f b) cs"

definition colour_within :: "rgb \<Rightarrow> rgb list \<Rightarrow> bool" where
  "colour_within c cs \<longleftrightarrow> channel_within fst c cs \<and> channel_within (fst \<circ> snd) c cs \<and> channel_within (snd \<circ> snd) c cs"

lemma blend_within:
  assumes "0 \<le> x" "x < 65536" and "0 \<le> y" "y < 65536"
  shows "\<exists>v. blend (Fin x) (nat \<lfloor>x\<rfloor>) (Fin y) (nat \<lfloor>y\<rfloor>) p1 p2 p3 p4 = Inr v \<and>
    list_ex (\<lambda>a. a \<le> v) [p1, p2, p3, p4] \<and> list_ex (\<lambda>b. v \<le> b) [p1, p2, p3, p4]"
proof -
  let ?ps = "{p1, p2, p3, p4}"
  define lo hi where "lo = Min (uint ` ?ps)" and "hi = Max (uint ` ?ps)"
  have lo: "lo \<in> uint ` ?ps" unfolding lo_def by (rule Min_in) simp_all
  have hi: "hi \<in> uint ` ?ps" unfolding hi_def by (rule Max_in) simp_all
  have bound: "lo \<le> uint p \<and> uint p \<le> hi" if "p \<in> ?ps" for p
    unfolding lo_def hi_def using that by (intro conjI Min_le Max_ge imageI) simp_all
  have "0 \<le> lo" "hi \<le> 255" using lo hi byte_range by blast+
  from blend_between [OF assms this bound] obtain v where
    v: "blend (Fin x) (nat \<lfloor>x\<rfloor>) (Fin y) (nat \<lfloor>y\<rfloor>) p1 p2 p3 p4 = Inr v" "lo \<le> uint v" "uint v \<le> hi" by blast
  obtain a where "a \<in> ?ps" "a \<le> v" using lo v(2) by (auto simp only: image_iff word_le_def)
  moreover obtain b where "b \<in> ?ps" "v \<le> b" using hi v(3) by (auto simp only: image_iff word_le_def)
  ultimately show ?thesis using v(1) by auto
qed

lemma blend_channel:
  assumes "0 \<le> x" "x < 65536" and "0 \<le> y" "y < 65536"
  shows "\<exists>v. blend (Fin x) (nat \<lfloor>x\<rfloor>) (Fin y) (nat \<lfloor>y\<rfloor>) (f c1) (f c2) (f c3) (f c4) = Inr v \<and>
    (\<forall>c. f c = v \<longrightarrow> channel_within f c [c1, c2, c3, c4])"
  using blend_within [OF assms, of "f c1" "f c2" "f c3" "f c4"] unfolding channel_within_def by auto

lemma get_pixel_ok: "k \<in> {1, 2} \<Longrightarrow> a + k \<le> length pix \<Longrightarrow> \<exists>c. fb_get_pixel k pix a c0 = Inr c"
  by (auto simp: fb_get_pixel_def peek_def simp del: split_paired_Ex)

lemma get_at_ok:
  assumes "k \<in> {1, 2}" and "w * h * k \<le> length pix" and "w * h * k < 2 ^ 31" and "x < w" and "y < h"
  shows "\<exists>c. fb_get_pixel k pix ((x + y * w) * k) (0, 0, 0) = Inr c \<and> get_at k pix w x y = Inr c"
proof -
  have "(x + y * w) * k + k \<le> w * h * k" using pixel_in_row [OF assms(4,5) order_refl] .
  moreover from this have "int_offset k w x y = Inr ((x + y * w) * k)" using assms(1,3) by (auto simp: int_offset_def)
  ultimately show ?thesis using get_pixel_ok [OF assms(1), of "(x + y * w) * k" pix "(0, 0, 0)"] assms(2) by (simp add: get_at_def)
qed

lemma next_index_less: "a < n \<Longrightarrow> next_index n a < n"
  by (simp add: next_index_def)

text \<open>The old coordinate of a new one.\<close>

definition source :: "rat \<Rightarrow> nat \<Rightarrow> rat" where
  "source s i = round32 (of_nat i / s)"

lemma source_range:
  assumes "0 < s" and "n < 65536" and "round32 (of_nat n * s) < 65536" and "i < nat \<lfloor>round32 (of_nat n * s)\<rfloor>"
  shows "0 \<le> source s i" "source s i < of_nat n" "nat \<lfloor>source s i\<rfloor> < n"
    and "fdiv (float_of (int i)) (Fin s) = Fin (source s i)" "to_uint16 (ffloor (Fin (source s i))) = Inr (nat \<lfloor>source s i\<rfloor>)"
proof -
  let ?P = "round32 (of_nat n * s)"
  have "int i + 1 \<le> \<lfloor>?P\<rfloor>" using assms(4) by linarith
  then have i: "of_nat i + 1 \<le> ?P" by (simp add: le_floor_iff)
  then have "0 < n" using single.rnd_0 by (cases n) auto
  note range = scale32.source_below [OF assms(1) this assms(2) i assms(3)]
  then show src: "0 \<le> source s i" "source s i < of_nat n" by (simp_all add: source_def)
  then have fl: "0 \<le> \<lfloor>source s i\<rfloor>" "\<lfloor>source s i\<rfloor> < int n" by (simp_all add: floor_less_iff)
  then show "nat \<lfloor>source s i\<rfloor> < n" by linarith
  have n: "(of_nat n :: rat) < 65536" using assms(2) by simp
  have "(of_nat i :: rat) < 65536" using i assms(3) by linarith
  then have "\<bar>int i\<bar> \<le> 2 ^ 24" by simp
  then have "float_of (int i) = Fin (of_nat i)" using float_of_small [of "int i"] by simp
  moreover have "to_float (of_nat i / s) = Fin (source s i)"
    using src n by (simp add: to_float_def source_def)
  ultimately show "fdiv (float_of (int i)) (Fin s) = Fin (source s i)" using assms(1) by simp
  have "(0 :: rat) \<le> of_int \<lfloor>source s i\<rfloor>" using fl(1) by simp
  then have "- 1 < (of_int \<lfloor>source s i\<rfloor> :: rat)" "source s i < 65536" using src n by linarith+
  then show "to_uint16 (ffloor (Fin (source s i))) = Inr (nat \<lfloor>source s i\<rfloor>)" by (simp add: to_uint16_def)
qed

text \<open>The colours of the four pixels around the point \<open>(x, y)\<close> of the old image.\<close>

definition neighbours :: "nat \<Rightarrow> fb_pixel list \<Rightarrow> nat \<Rightarrow> nat \<Rightarrow> rat \<Rightarrow> rat \<Rightarrow> rgb res list" where
  "neighbours k pix w h x y =
     (let x1 = nat \<lfloor>x\<rfloor>; y1 = nat \<lfloor>y\<rfloor>; x2 = next_index w x1; y2 = next_index h y1 in
      map (\<lambda>(a, b). fb_get_pixel k pix ((a + b * w) * k) (0, 0, 0)) [(x1, y1), (x2, y1), (x1, y2), (x2, y2)])"

lemma scaled_colour_ok:
  assumes "k \<in> {1, 2}" and "w * h * k \<le> length pix" and "w * h * k < 2 ^ 31" and "w < 65536" and "h < 65536" and "0 < s"
    and "round32 (of_nat w * s) < 65536" and "i < nat \<lfloor>round32 (of_nat w * s)\<rfloor>"
    and "0 \<le> y" and "y < of_nat h" and "nat \<lfloor>y\<rfloor> < h"
  shows "\<exists>c cs. scaled_colour k pix w (Fin s) (Fin y) (nat \<lfloor>y\<rfloor>) (next_index h (nat \<lfloor>y\<rfloor>)) i = Inr c \<and>
    map Inr cs = neighbours k pix w h (source s i) y \<and> colour_within c cs"
proof -
  note src = source_range [OF assms(6,4,7,8)]
  let ?x = "source s i"
  let ?x1 = "nat \<lfloor>?x\<rfloor>" and ?y1 = "nat \<lfloor>y\<rfloor>"
  have x: "0 \<le> ?x" "?x < 65536" using src(1,2) assms(4) by (simp_all add: less_trans)
  have y: "0 \<le> y" "y < 65536" using assms(5,9,10) by (simp_all add: less_trans)
  note get = get_at_ok [OF assms(1-3)] and inside = src(3) next_index_less [OF src(3)] assms(11) next_index_less [OF assms(11)]
  obtain c1 c2 c3 c4 where
    c: "fb_get_pixel k pix ((?x1 + ?y1 * w) * k) (0, 0, 0) = Inr c1" "get_at k pix w ?x1 ?y1 = Inr c1"
      "fb_get_pixel k pix ((next_index w ?x1 + ?y1 * w) * k) (0, 0, 0) = Inr c2" "get_at k pix w (next_index w ?x1) ?y1 = Inr c2"
      "fb_get_pixel k pix ((?x1 + next_index h ?y1 * w) * k) (0, 0, 0) = Inr c3" "get_at k pix w ?x1 (next_index h ?y1) = Inr c3"
      "fb_get_pixel k pix ((next_index w ?x1 + next_index h ?y1 * w) * k) (0, 0, 0) = Inr c4"
      "get_at k pix w (next_index w ?x1) (next_index h ?y1) = Inr c4"
    using get [OF inside(1,3)] get [OF inside(2,3)] get [OF inside(1,4)] get [OF inside(2,4)] by blast
  have nb: "map Inr [c1, c2, c3, c4] = neighbours k pix w h ?x y" by (simp add: neighbours_def Let_def c)
  note blended = blend_channel [OF x y, of _ c1 c2 c3 c4]
  obtain vR where R: "blend (Fin ?x) ?x1 (Fin y) ?y1 (fst c1) (fst c2) (fst c3) (fst c4) = Inr vR"
    "\<And>c. fst c = vR \<Longrightarrow> channel_within fst c [c1, c2, c3, c4]" using blended [of fst] by blast
  obtain vG where G: "blend (Fin ?x) ?x1 (Fin y) ?y1 (fst (snd c1)) (fst (snd c2)) (fst (snd c3)) (fst (snd c4)) = Inr vG"
    "\<And>c. (fst \<circ> snd) c = vG \<Longrightarrow> channel_within (fst \<circ> snd) c [c1, c2, c3, c4]"
    using blended [of "fst \<circ> snd"] unfolding comp_apply by blast
  obtain vB where B: "blend (Fin ?x) ?x1 (Fin y) ?y1 (snd (snd c1)) (snd (snd c2)) (snd (snd c3)) (snd (snd c4)) = Inr vB"
    "\<And>c. (snd \<circ> snd) c = vB \<Longrightarrow> channel_within (snd \<circ> snd) c [c1, c2, c3, c4]"
    using blended [of "snd \<circ> snd"] unfolding comp_apply by blast
  have within: "colour_within (vR, vG, vB) [c1, c2, c3, c4]"
    unfolding colour_within_def by (intro conjI R(2) G(2) B(2)) simp_all
  have "scaled_colour k pix w (Fin s) (Fin y) ?y1 (next_index h ?y1) i = Inr (vR, vG, vB)"
    unfolding scaled_colour_def src(4) Let_def by (simp add: src(5) c R(1) G(1) B(1) case_prod_beta del: ffloor.simps)
  then show ?thesis using nb within by blast
qed

end
