(* ===== verification/Fb_Scale_Correct.thy ===== *)
theory Fb_Scale_Correct
  imports Fb_Scale
begin

text \<open>
  What \<open>fb_pixmap_scale\<close> computes: for every positive scale the new image has the scaled size, and each
  new pixel is a blend of the four old pixels around the point it comes from; with a whole factor
  the old pixels reappear unchanged. No read or write leaves the two pixmaps, in spite of rounding.
\<close>

section \<open>The loops\<close>

definition new_size :: "rat \<Rightarrow> nat \<Rightarrow> nat" where
  "new_size s n = nat \<lfloor>round32 (of_nat n * s)\<rfloor>"

lemma new_size_ok:
  assumes "0 < s" and "n < 65536" and "round32 (of_nat n * s) < 65536"
  shows "to_uint16 (fmul (float_of (int n)) (Fin s)) = Inr (new_size s n)"
proof -
  have "0 \<le> round32 (of_nat n * s)" using single.mono [of 0 "of_nat n * s"] single.rnd_0 assms(1) by simp
  moreover have "float_of (int n) = Fin (of_nat n)" using float_of_small [of "int n"] assms(2) by simp
  ultimately show ?thesis using assms(3) by (simp add: to_float_def to_uint16_def new_size_def)
qed

text \<open>The colour the loops compute for the new pixel \<open>(i, j)\<close>.\<close>

definition scale_colour :: "nat \<Rightarrow> fb_pixel list \<Rightarrow> nat \<Rightarrow> nat \<Rightarrow> rat \<Rightarrow> nat \<Rightarrow> nat \<Rightarrow> rgb" where
  "scale_colour k pix w h s i j =
     (let y = source s j; y1 = nat \<lfloor>y\<rfloor> in projr (scaled_colour k pix w (Fin s) (Fin y) y1 (next_index h y1) i))"

lemma scale_row_eq:
  assumes "k \<in> {1, 2}" and "w * h * k \<le> length pix" and "w * h * k < 2 ^ 31" and "w < 65536" and "h < 65536" and "0 < s"
    and "round32 (of_nat w * s) < 65536" and "round32 (of_nat h * s) < 65536" and "j < new_size s h"
    and "new_size s w * new_size s h * k < 2 ^ 31"
  shows "scale_row k pix w h (new_size s w) (Fin s) j m
    = fold_res (\<lambda>i m. fb_set_pixel k m ((i + j * new_size s w) * k)
        (scale_colour k pix w h s ((i + j * new_size s w) mod new_size s w) ((i + j * new_size s w) div new_size s w)))
        [0..<new_size s w] m"
proof -
  let ?nw = "new_size s w" and ?y = "source s j"
  note src = source_range [OF assms(6,5,8) assms(9) [unfolded new_size_def]]
  have "scale_pixel k pix w ?nw (Fin s) (Fin ?y) (nat \<lfloor>?y\<rfloor>) (next_index h (nat \<lfloor>?y\<rfloor>)) j i m
    = fb_set_pixel k m ((i + j * ?nw) * k) (scale_colour k pix w h s ((i + j * ?nw) mod ?nw) ((i + j * ?nw) div ?nw))"
    if i: "i \<in> set [0..<?nw]" for i m
  proof -
    have less: "i < ?nw" using i by simp
    obtain c where c: "scaled_colour k pix w (Fin s) (Fin ?y) (nat \<lfloor>?y\<rfloor>) (next_index h (nat \<lfloor>?y\<rfloor>)) i = Inr c"
      using scaled_colour_ok [OF assms(1-7) less [unfolded new_size_def] src(1-3)] by blast
    then have "scale_colour k pix w h s ((i + j * ?nw) mod ?nw) ((i + j * ?nw) div ?nw) = c"
      using less by (simp add: scale_colour_def Let_def)
    moreover have "(i + j * ?nw) * k + k \<le> ?nw * new_size s h * k" using pixel_in_row [OF less assms(9) order_refl] .
    then have "int_offset k ?nw i j = Inr ((i + j * ?nw) * k)" using assms(1,10) by (auto simp: int_offset_def)
    ultimately show ?thesis by (simp add: scale_pixel_def c)
  qed
  then have "fold_res (scale_pixel k pix w ?nw (Fin s) (Fin ?y) (nat \<lfloor>?y\<rfloor>) (next_index h (nat \<lfloor>?y\<rfloor>)) j) [0..<?nw] m
    = fold_res (\<lambda>i m. fb_set_pixel k m ((i + j * ?nw) * k) (scale_colour k pix w h s ((i + j * ?nw) mod ?nw) ((i + j * ?nw) div ?nw)))
        [0..<?nw] m" by (intro fold_res_cong) simp_all
  then show ?thesis unfolding scale_row_def src(4) Let_def src(5) res_bind.simps .
qed

lemma fb_pixmap_scale_colours:
  assumes "k \<in> {1, 2}" and "w * h * k \<le> length pix" and "w * h * k < 2 ^ 31" and "w < 65536" and "h < 65536" and "0 < s"
    and "round32 (of_nat w * s) < 65536" and "round32 (of_nat h * s) < 65536"
    and "new_size s w * new_size s h * k < 2 ^ 31"
    and "malloc (new_size s w * new_size s h * k) = Some m" and "length m = new_size s w * new_size s h * k"
  shows "\<exists>new. fb_pixmap_scale k malloc pix w h (Fin s) = Inr (new, new_size s w, new_size s h) \<and> length new = length m \<and>
    (\<forall>i < new_size s w. \<forall>j < new_size s h.
       fb_get_pixel k new ((i + j * new_size s w) * k) (0, 0, 0) = Inr (quant k (scale_colour k pix w h s i j)))"
proof -
  let ?nw = "new_size s w" and ?nh = "new_size s h"
  let ?c = "\<lambda>n. scale_colour k pix w h s (n mod ?nw) (n div ?nw)"
  have "fold_res (scale_row k pix w h ?nw (Fin s)) [0..<?nh] m
      = fold_res (\<lambda>j. fold_res (\<lambda>i m. fb_set_pixel k m ((i + j * ?nw) * k) (?c (i + j * ?nw))) [0..<?nw]) [0..<?nh] m"
    using scale_row_eq [OF assms(1-8) _ assms(9)] by (intro fold_res_cong) simp_all
  moreover obtain new where
    "fold_res (\<lambda>j. fold_res (\<lambda>i m. fb_set_pixel k m ((i + j * ?nw) * k) (?c (i + j * ?nw))) [0..<?nw]) [0..<?nh] m = Inr new"
    and len: "length new = length m"
    and px: "\<And>n. n < ?nw * ?nh \<Longrightarrow> fb_get_pixel k new (n * k) (0, 0, 0) = Inr (quant k (?c n))"
    using paint_grid [OF assms(1,11) set_upt_lessThan(1), of ?c] by blast
  ultimately have "fold_res (scale_row k pix w h ?nw (Fin s)) [0..<?nh] m = Inr new" by simp
  then have run: "fb_pixmap_scale k malloc pix w h (Fin s) = Inr (new, ?nw, ?nh)"
    unfolding fb_pixmap_scale_def new_size_ok [OF assms(6,4,7)] new_size_ok [OF assms(6,5,8)]
    using assms(9,10) by simp
  have "fb_get_pixel k new ((i + j * ?nw) * k) (0, 0, 0) = Inr (quant k (scale_colour k pix w h s i j))"
    if "i < ?nw" "j < ?nh" for i j
    using px [of "i + j * ?nw"] pixel_in_row [OF that, of 1 "?nw * ?nh"] that(1) by simp
  with run len show ?thesis by blast
qed

section \<open>Every scale\<close>

text \<open>
  C15. Scaling by any positive factor for which the new image fits its types never reads or writes
  outside the two images, whatever the rounding: the new image has the old size times the scale,
  rounded down, and each channel of a new pixel, before the rounding to the mode, lies between the
  least and the greatest of the four old pixels around the point the new pixel comes from.
\<close>

theorem fb_pixmap_scale_blends:
  assumes "k \<in> {1, 2}" and "w * h * k \<le> length pix" and "w * h * k < 2 ^ 31" and "w < 65536" and "h < 65536" and "0 < s"
    and "round32 (of_nat w * s) < 65536" and "round32 (of_nat h * s) < 65536"
    and "new_size s w * new_size s h * k < 2 ^ 31"
    and "malloc (new_size s w * new_size s h * k) = Some m" and "length m = new_size s w * new_size s h * k"
  shows "\<exists>new. fb_pixmap_scale k malloc pix w h (Fin s) = Inr (new, new_size s w, new_size s h) \<and> length new = length m \<and>
    (\<forall>i < new_size s w. \<forall>j < new_size s h. \<exists>c cs.
       fb_get_pixel k new ((i + j * new_size s w) * k) (0, 0, 0) = Inr (quant k c) \<and>
       map Inr cs = neighbours k pix w h (source s i) (source s j) \<and> colour_within c cs)"
proof -
  have "\<exists>cs. map Inr cs = neighbours k pix w h (source s i) (source s j) \<and> colour_within (scale_colour k pix w h s i j) cs"
    if "i < new_size s w" "j < new_size s h" for i j
  proof -
    note y = source_range(1-3) [OF assms(6,5,8) that(2) [unfolded new_size_def]]
    show ?thesis
      using scaled_colour_ok [OF assms(1-7) that(1) [unfolded new_size_def] y] unfolding scale_colour_def Let_def by force
  qed
  then show ?thesis using fb_pixmap_scale_colours [where malloc = malloc, OF assms] by meson
qed

theorem fb_pixmap_scale_blends_witness:
  "\<exists>new c cs. fb_pixmap_scale 1 (\<lambda>n. Some (replicate n 0)) [224, 28] 2 1 (Fin 2) = Inr (new, 4, 2) \<and>
    fb_get_pixel 1 new 1 (0, 0, 0) = Inr (quant 1 c) \<and>
    map Inr cs = neighbours 1 [224, 28] 2 1 (source 2 1) (source 2 0) \<and> colour_within c cs"
proof -
  have rnd: "round32 4 = 4" "round32 2 = 2" using single.rnd_int [of 4] single.rnd_int [of 2] by simp_all
  then have size: "new_size 2 2 = 4" "new_size 2 1 = 2" by (simp_all add: new_size_def)
  have "\<exists>new. fb_pixmap_scale 1 (\<lambda>n. Some (replicate n 0)) [224, 28] 2 1 (Fin 2) = Inr (new, new_size 2 2, new_size 2 1) \<and>
    length new = length (replicate 8 (0 :: fb_pixel)) \<and>
    (\<forall>i < new_size 2 2. \<forall>j < new_size 2 1. \<exists>c cs.
       fb_get_pixel 1 new ((i + j * new_size 2 2) * 1) (0, 0, 0) = Inr (quant 1 c) \<and>
       map Inr cs = neighbours 1 [224, 28] 2 1 (source 2 i) (source 2 j) \<and> colour_within c cs)"
    by (rule fb_pixmap_scale_blends) (simp_all add: size size [unfolded One_nat_def] rnd)
  then obtain new where new: "fb_pixmap_scale 1 (\<lambda>n. Some (replicate n 0)) [224, 28] 2 1 (Fin 2) = Inr (new, 4, 2)"
    and px: "\<And>i j. i < 4 \<Longrightarrow> j < 2 \<Longrightarrow> \<exists>c cs. fb_get_pixel 1 new ((i + j * 4) * 1) (0, 0, 0) = Inr (quant 1 c) \<and>
       map Inr cs = neighbours 1 [224, 28] 2 1 (source 2 i) (source 2 j) \<and> colour_within c cs"
    unfolding size by blast
  show ?thesis using new px [of 1 0] by (simp del: split_paired_Ex)
qed

section \<open>Whole factors\<close>

lemma blend_corner:
  assumes "x < 65536" and "y < 65536"
  shows "blend (Fin (of_nat x)) x (Fin (of_nat y)) y p1 p2 p3 p4 = Inr p1"
proof -
  have frac: "fraction (of_nat n) = 0" for n by (simp add: fraction_def single.rnd_0)
  have xy: "0 \<le> (of_nat x :: rat)" "(of_nat x :: rat) < 65536" "0 \<le> (of_nat y :: rat)" "(of_nat y :: rat) < 65536"
    using assms by simp_all
  have byte: "round32 (of_int (uint p)) = of_int (uint p)" for p :: "8 word"
    by (rule single.rnd_int) (use byte_range [of p] in simp)
  then have mix: "mix 0 p q = of_int (uint p)" for p q :: "8 word"
    by (simp only: mix_def mult_zero_left single.rnd_0 add_0_right)
  have "(0 :: rat) \<le> of_int (uint p1)" "(of_int (uint p1) :: rat) \<le> 255"
    using byte_range [of p1] by (simp_all only: of_int_le_numeral_iff of_int_0_le_iff)
  then have "(of_int (uint p1) :: rat) < 256" "- 1 < (of_int (uint p1) :: rat)" by linarith+
  then have "trunc_below 256 (Fin (of_int (uint p1))) = Some (nat (uint p1))"
    by (simp only: trunc_below.simps of_nat_numeral floor_of_int if_True simp_thms)
  then have "to_uint8 (Fin (of_int (uint p1))) = Inr p1" by (simp add: to_uint8_def)
  then show ?thesis
    using blend_value [OF xy, of p1 p2 p3 p4]
    by (simp only: frac mix mult_zero_left single.rnd_0 add_0_right byte Let_def floor_of_nat nat_int)
qed

lemma source_whole:
  assumes "0 < f" and "i < 65536"
  shows "source (of_nat f) (f * i) = of_nat i"
proof -
  have "(of_nat (f * i) :: rat) / of_nat f = of_int (int i)" using assms(1) by simp
  then show ?thesis using single.rnd_int [of "int i"] assms(2) by (simp add: source_def)
qed

lemma whole_product: "n * f < 65536 \<Longrightarrow> round32 (of_nat n * of_nat f) = of_nat (n * f)"
proof -
  assume "n * f < 65536"
  then have "\<bar>int (n * f)\<bar> \<le> 2 ^ 24" by (simp del: of_nat_mult)
  from single.rnd_int [OF this] show ?thesis by simp
qed

lemma scale_colour_whole:
  assumes "k \<in> {1, 2}" and "w * h * k \<le> length pix" and "w * h * k < 2 ^ 31" and "w < 65536" and "h < 65536" and "0 < f"
    and "w * f < 65536" and "i < w" and "j < h"
  shows "Inr (scale_colour k pix w h (of_nat f) (f * i) (f * j)) = fb_get_pixel k pix ((i + j * w) * k) (0, 0, 0)"
proof -
  have src: "source (of_nat f) (f * j) = of_nat j" "source (of_nat f) (f * i) = of_nat i"
    using source_whole [OF assms(6), of i] source_whole [OF assms(6), of j] assms(4,5,8,9) by simp_all
  have "f * i < w * f" using assms(6,8) by (simp add: mult.commute)
  then have col: "f * i < nat \<lfloor>round32 (of_nat w * of_nat f)\<rfloor>" unfolding whole_product [OF assms(7)] by (simp only: floor_of_nat nat_int)
  have fit: "round32 (of_nat w * of_nat f) < 65536" using whole_product [OF assms(7)] assms(7) by (simp del: of_nat_mult)
  note x = source_range(4,5) [OF _ assms(4) fit col, unfolded src floor_of_nat nat_int]
  note get = get_at_ok [OF assms(1-3)]
  obtain c1 where c1: "fb_get_pixel k pix ((i + j * w) * k) (0, 0, 0) = Inr c1" "get_at k pix w i j = Inr c1"
    using get [OF assms(8,9)] by blast
  obtain c2 c3 c4 where c: "get_at k pix w (next_index w i) j = Inr c2" "get_at k pix w i (next_index h j) = Inr c3"
    "get_at k pix w (next_index w i) (next_index h j) = Inr c4"
    using get [OF next_index_less [OF assms(8)] assms(9)] get [OF assms(8) next_index_less [OF assms(9)]]
      get [OF next_index_less [OF assms(8)] next_index_less [OF assms(9)]] by blast
  have "scaled_colour k pix w (Fin (of_nat f)) (Fin (of_nat j)) j (next_index h j) (f * i) = Inr c1"
    unfolding scaled_colour_def using x assms(4-6,8,9)
    by (simp add: c1(2) c blend_corner case_prod_beta Let_def del: ffloor.simps of_nat_mult)
  then show ?thesis using c1(1) by (simp add: scale_colour_def src(1) Let_def)
qed

text \<open>
  C19. Enlarging by a whole factor keeps the picture: the new image has that many times the width and
  the height, and every pixel of the old image stands unchanged at the corresponding place of the
  new one.
\<close>

theorem fb_pixmap_scale_whole:
  assumes "k \<in> {1, 2}" and "w * h * k \<le> length pix" and "w * h * k < 2 ^ 31" and "0 < f"
    and "w * f < 65536" and "h * f < 65536" and "w * f * (h * f) * k < 2 ^ 31"
    and "malloc (w * f * (h * f) * k) = Some m" and "length m = w * f * (h * f) * k"
  shows "\<exists>new. fb_pixmap_scale k malloc pix w h (Fin (of_nat f)) = Inr (new, w * f, h * f) \<and>
    (\<forall>i < w. \<forall>j < h. fb_get_pixel k new ((f * i + f * j * (w * f)) * k) (0, 0, 0)
       = fb_get_pixel k pix ((i + j * w) * k) (0, 0, 0))"
proof -
  have wh: "w < 65536" "h < 65536" using assms(4-6) by (auto intro: le_less_trans [rotated])
  have size: "new_size (of_nat f) w = w * f" "new_size (of_nat f) h = h * f"
    using whole_product [OF assms(5)] whole_product [OF assms(6)] by (simp_all add: new_size_def del: of_nat_mult)
  have fit: "round32 (of_nat w * of_nat f) < 65536" "round32 (of_nat h * of_nat f) < 65536"
    using whole_product [OF assms(5)] whole_product [OF assms(6)] assms(5,6) by (simp_all del: of_nat_mult)
  have f: "(0 :: rat) < of_nat f" using assms(4) by simp
  note run = fb_pixmap_scale_colours [where malloc = malloc, OF assms(1-3) wh f fit, unfolded size, OF assms(7-9)]
  then obtain new where new: "fb_pixmap_scale k malloc pix w h (Fin (of_nat f)) = Inr (new, w * f, h * f)"
    and px: "\<And>i j. i < w * f \<Longrightarrow> j < h * f \<Longrightarrow> fb_get_pixel k new ((i + j * (w * f)) * k) (0, 0, 0)
       = Inr (quant k (scale_colour k pix w h (of_nat f) i j))" by blast
  have "fb_get_pixel k new ((f * i + f * j * (w * f)) * k) (0, 0, 0) = fb_get_pixel k pix ((i + j * w) * k) (0, 0, 0)"
    if "i < w" "j < h" for i j
  proof -
    note old = scale_colour_whole [OF assms(1-3) wh assms(4,5) that]
    have "f * i < w * f" "f * j < h * f" using assms(4) that by (simp_all add: mult.commute)
    then show ?thesis using px [of "f * i" "f * j"] quant_get [OF assms(1) old [symmetric]] old by simp
  qed
  with new show ?thesis by blast
qed

theorem fb_pixmap_scale_whole_witness:
  "\<exists>new. fb_pixmap_scale 1 (\<lambda>n. Some (replicate n 0)) [224, 28] 2 1 (Fin (of_nat 3)) = Inr (new, 6, 3) \<and>
    fb_get_pixel 1 new 3 (0, 0, 0) = fb_get_pixel 1 [224, 28] 1 (0, 0, 0)"
proof -
  have "\<exists>new. fb_pixmap_scale 1 (\<lambda>n. Some (replicate n 0)) [224, 28] 2 1 (Fin (of_nat 3)) = Inr (new, 2 * 3, 1 * 3) \<and>
    (\<forall>i < 2. \<forall>j < 1. fb_get_pixel 1 new ((3 * i + 3 * j * (2 * 3)) * 1) (0, 0, 0)
       = fb_get_pixel 1 [224, 28] ((i + j * 2) * 1) (0, 0, 0))"
    by (rule fb_pixmap_scale_whole [where m = "replicate 18 0"]) simp_all
  then obtain new where new: "fb_pixmap_scale 1 (\<lambda>n. Some (replicate n 0)) [224, 28] 2 1 (Fin (of_nat 3)) = Inr (new, 6, 3)"
    and px: "\<And>i. i < 2 \<Longrightarrow> fb_get_pixel 1 new (3 * i) (0, 0, 0) = fb_get_pixel 1 [224, 28] i (0, 0, 0)" by force
  show ?thesis using new px [of 1] by force
qed

end
