(* ===== verification/C_Atof.thy ===== *)
theory C_Atof
  imports C_Float Tar_Header
begin

text \<open>
  \<open>atof\<close> of the C library: white space, a sign, and then a decimal or hexadecimal number with an
  optional exponent, infinity or NaN; anything else is 0. The value is rounded to \<open>double\<close>; the
  behaviour is undefined when it is too large.
\<close>

definition toupper :: "char \<Rightarrow> char" where
  "toupper c = (let d = (of_char c :: nat) in if 97 \<le> d \<and> d \<le> 122 then char_of (d - 32) else c)"

definition digit_of :: "nat \<Rightarrow> char \<Rightarrow> nat option" where
  "digit_of b c =
     (let d = (of_char (toupper c) :: nat);
          v = (if 48 \<le> d \<and> d \<le> 57 then Some (d - 48) else if 65 \<le> d \<and> d \<le> 70 then Some (d - 55) else None) in
      case v of Some n \<Rightarrow> if n < b then v else None | None \<Rightarrow> None)"

fun digits :: "nat \<Rightarrow> string \<Rightarrow> nat list \<times> string" where
  "digits b [] = ([], [])"
| "digits b (c # cs) =
     (case digit_of b c of
        None \<Rightarrow> ([], c # cs)
      | Some d \<Rightarrow> (let (ds, rest) = digits b cs in (d # ds, rest)))"

definition number_of :: "nat \<Rightarrow> nat list \<Rightarrow> nat" where
  "number_of b ds = foldl (\<lambda>v d. b * v + d) 0 ds"

text \<open>The exponent after the mark \<open>e\<close> or \<open>p\<close>; without a digit it is not one.\<close>

definition exponent_at :: "char \<Rightarrow> string \<Rightarrow> int" where
  "exponent_at e s =
     (case s of
        [] \<Rightarrow> 0
      | c # cs \<Rightarrow>
        if toupper c = e then
          (case cs of
             [] \<Rightarrow> 0
           | d # ds \<Rightarrow>
             if d = CHR ''-'' then - int (number_of 10 (fst (digits 10 ds)))
             else if d = CHR ''+'' then int (number_of 10 (fst (digits 10 ds)))
             else int (number_of 10 (fst (digits 10 cs))))
        else 0)"

text \<open>Digits in base \<open>b\<close>, with a fraction, and an exponent of base \<open>x\<close>.\<close>

definition number_at :: "nat \<Rightarrow> nat \<Rightarrow> char \<Rightarrow> string \<Rightarrow> rat option" where
  "number_at b x e s =
     (let (whole, rest) = digits b s;
          (frac, rest) = (case rest of c # cs \<Rightarrow> if c = CHR ''.'' then digits b cs else ([], rest) | [] \<Rightarrow> ([], []));
          v = of_nat (number_of b (whole @ frac)) / of_nat b ^ length frac;
          n = exponent_at e rest in
      if whole @ frac = [] then None
      else Some (if n < 0 then v / of_nat x ^ nat (- n) else v * of_nat x ^ nat n))"

definition unsigned_value :: "string \<Rightarrow> c_float" where
  "unsigned_value s =
     (let u = map toupper s in
      if take 3 u = ''INF'' then Inf False
      else if take 3 u = ''NAN'' then NaN
      else case (if take 2 u = ''0X'' then number_at 16 2 (CHR ''P'') (drop 2 s) else None) of
        Some v \<Rightarrow> Fin v
      | None \<Rightarrow> Fin (case number_at 10 10 (CHR ''E'') s of Some v \<Rightarrow> v | None \<Rightarrow> 0))"

definition to_double :: "c_float \<Rightarrow> c_float res" where
  "to_double x =
     (case x of
        Fin q \<Rightarrow> let r = round64 q in if 2 ^ 1024 \<le> \<bar>r\<bar> then Inl Fault else Inr (Fin r)
      | _ \<Rightarrow> Inr x)"

definition atof :: "string \<Rightarrow> c_float res" where
  "atof s =
     to_double (case dropWhile is_space s of
         [] \<Rightarrow> Fin 0
       | c # cs \<Rightarrow> if c = CHR ''-'' then fneg (unsigned_value cs)
                   else if c = CHR ''+'' then unsigned_value cs else unsigned_value (c # cs))"

lemma atof_samples:
  "unsigned_value ''2.50x'' = Fin (5 / 2)" "unsigned_value ''.5e-1'' = Fin (1 / 20)" "unsigned_value ''0x1.8p2'' = Fin 6"
  "unsigned_value ''Infinity'' = Inf False" "unsigned_value ''e5'' = Fin 0" "unsigned_value ''3e'' = Fin 3"
  by (simp_all add: unsigned_value_def number_at_def digit_of_def toupper_def number_of_def exponent_at_def char_of_def bit_0 Let_def)

end
