(* ===== verification/Fbview.thy ===== *)
theory Fbview
  imports Bitmap Jpeg Fb_Pixmap Fb_Scale_Correct C_Atof
begin

text \<open>
  The command line and the main program of the viewer, \<open>patches/code/fbview/fbview.c\<close>:
  \<open>decode_params\<close> and \<open>main\<close>. \<open>malloc\<close> for strings is the argument \<open>mok\<close>, which tells for a size whether
  it succeeds. Printing is not modelled.
\<close>

section \<open>Configuration\<close>

datatype codec = BMP | JPEG

record fbview_cfg =
  cf_filename :: "string option"
  cf_dump :: "string option"
  cf_codec :: "codec option"
  cf_quiet :: bool
  cf_scale :: c_float
  cf_rotate :: "16 word"
  cf_autoscale :: bool
  cf_no_gpm :: bool

definition fbview_defaults :: "fbview_cfg" where
  "fbview_defaults = \<lparr>cf_filename = None, cf_dump = None, cf_codec = None, cf_quiet = False, cf_scale = Fin 1,
     cf_rotate = 0, cf_autoscale = False, cf_no_gpm = True\<rparr>"

text \<open>\<open>atoi\<close>: undefined when the value is not an \<open>int\<close>.\<close>

fun dec_value :: "string \<Rightarrow> int \<Rightarrow> int" where
  "dec_value [] v = v"
| "dec_value (c # cs) v =
     (let d = (of_char c :: nat) in if 48 \<le> d \<and> d \<le> 57 then dec_value cs (10 * v + int (d - 48)) else v)"

definition atoi :: "string \<Rightarrow> int res" where
  "atoi s =
     (let v = (case dropWhile is_space s of
          [] \<Rightarrow> 0
        | c # cs \<Rightarrow> if c = CHR ''-'' then - dec_value cs 0
                    else if c = CHR ''+'' then dec_value cs 0 else dec_value (c # cs) 0) in
      if - (2 ^ 31) \<le> v \<and> v < 2 ^ 31 then Inr v else Inl Fault)"

text \<open>\<open>rotate\<close> is a \<open>Sint16\<close>; \<open>%\<close> takes the sign of the dividend. \<open>None\<close> is the error return.\<close>

definition c_mod :: "int \<Rightarrow> int \<Rightarrow> int" where
  "c_mod a b = sgn a * (\<bar>a\<bar> mod b)"

definition normal_rotation :: "int \<Rightarrow> 16 word option" where
  "normal_rotation v =
     (let r = (of_int v :: 16 word);
          r = (if sint r < 0 then of_int (- sint r + 180) else r);
          r = (of_int (c_mod (sint r) 360) :: 16 word) in
      if c_mod (sint r) 90 \<noteq> 0 then None else Some r)"

text \<open>\<open>scale\<close> is a \<open>float\<close>, compared with the constants 0.01 and 10.00 of type \<open>double\<close>.\<close>

definition scale_min :: rat where
  "scale_min = round64 (1 / 100)"

definition scale_in_range :: "c_float \<Rightarrow> bool" where
  "scale_in_range x \<longleftrightarrow> \<not> (fless x (Fin scale_min) \<or> fless (Fin 10) x)"

section \<open>\<open>decode_params\<close>\<close>

text \<open>The counter is a \<open>char\<close>, which is signed: at 128 it becomes negative and indexes before
  \<open>argv\<close>. The body of the loop for the argument \<open>a\<close>, number \<open>i\<close>, with those after it: \<open>Inr None\<close> is the error
  return, otherwise the number of further arguments it used.\<close>

definition decode_value ::
  "nat \<Rightarrow> string list \<Rightarrow> (string \<Rightarrow> fbview_cfg option res) \<Rightarrow> (nat \<times> fbview_cfg) option res" where
  "decode_value i rest f =
     (case rest of
        [] \<Rightarrow> Inr None
      | v # _ \<Rightarrow> if 127 < i + 1 then Inl Fault else res_bind (f v) (\<lambda>r. Inr (map_option (Pair 1) r)))"

definition decode_arg ::
  "(nat \<Rightarrow> bool) \<Rightarrow> nat \<Rightarrow> string \<Rightarrow> string list \<Rightarrow> fbview_cfg \<Rightarrow> (nat \<times> fbview_cfg) option res" where
  "decode_arg mok i a rest c =
     (if a \<in> {''--help'', ''-help'', ''-h'', ''--h''} then Inr None
      else if a \<in> {''--scale'', ''-s''} then
        decode_value i rest (\<lambda>v. res_bind (atof v) (\<lambda>d.
          let scale = narrow d in Inr (if scale_in_range scale then Some (c\<lparr>cf_scale := scale\<rparr>) else None)))
      else if a \<in> {''--autoscale'', ''-a''} then Inr (Some (0, c\<lparr>cf_autoscale := True\<rparr>))
      else if a \<in> {''--rotate'', ''-r''} then
        decode_value i rest (\<lambda>v. res_bind (atoi v) (\<lambda>r.
          Inr (map_option (\<lambda>r. c\<lparr>cf_rotate := r\<rparr>) (normal_rotation r))))
      else if a \<in> {''--dump'', ''-d''} then
        decode_value i rest (\<lambda>v. Inr (if mok (length v + 1) then Some (c\<lparr>cf_dump := Some v\<rparr>) else None))
      else if a \<in> {''--quiet'', ''-q''} then Inr (Some (0, c\<lparr>cf_quiet := True, cf_no_gpm := True\<rparr>))
      else Inr (if mok (length a + 1) then Some (0, c\<lparr>cf_filename := Some a\<rparr>) else None))"

function decode_args ::
  "(nat \<Rightarrow> bool) \<Rightarrow> nat \<Rightarrow> string list \<Rightarrow> fbview_cfg \<Rightarrow> fbview_cfg option res" where
  "decode_args mok i args c =
     (if 127 < i then Inl Fault
      else case args of
        [] \<Rightarrow> Inr (Some c)
      | a # rest \<Rightarrow>
        res_bind (decode_arg mok i a rest c) (\<lambda>r. case r of
          None \<Rightarrow> Inr None
        | Some (n, c) \<Rightarrow> decode_args mok (i + 1 + n) (drop n rest) c))"
  by auto

termination decode_args
  by (relation "measure (\<lambda>(mok, i, args, c). length args)") auto

declare decode_args.simps [simp del]

text \<open>\<open>strrchr (s, '.')\<close>, without the dot.\<close>

definition extension_of :: "string \<Rightarrow> string option" where
  "extension_of s =
     (if CHR ''.'' \<in> set s then Some (rev (takeWhile (\<lambda>c. c \<noteq> CHR ''.'') (rev s))) else None)"

definition codec_of :: "string \<Rightarrow> codec option" where
  "codec_of ext =
     (if ext = ''BMP'' then Some BMP else if ext = ''JPG'' \<or> ext = ''JPEG'' then Some JPEG else None)"

text \<open>\<open>decode_params\<close>: \<open>Inr None\<close> is the return value 1. The loop over the extension uses the same
  \<open>char\<close> counter.\<close>

definition decode_params :: "(nat \<Rightarrow> bool) \<Rightarrow> string list \<Rightarrow> fbview_cfg option res" where
  "decode_params mok args =
     res_bind (decode_args mok 1 args (fbview_defaults)) (\<lambda>r.
       case r of
         None \<Rightarrow> Inr None
       | Some c \<Rightarrow>
      (case cf_filename c of
         None \<Rightarrow> Inr None
       | Some fn \<Rightarrow>
      (case extension_of fn of
         None \<Rightarrow> Inr None
       | Some ext \<Rightarrow>
         if \<not> mok (length ext + 1) then Inr None
         else if 127 < length ext then Inl Fault
         else (case codec_of (map toupper ext) of
             None \<Rightarrow> Inr None
           | Some cd \<Rightarrow> Inr (Some (c\<lparr>cf_codec := Some cd\<rparr>))))))"

section \<open>\<open>main\<close>\<close>

text \<open>What a run leaves behind: the return value, the calls of the device, the content of the dump
  file when one was written, and the screen. In quiet mode the device is never opened and the
  globals keep their initial values: two bytes per pixel and everything else 0.\<close>

record fbview_run =
  fr_ret :: int
  fr_calls :: "fb_call list"
  fr_dump :: "bytes option"
  fr_screen :: "fb_pixel list"

definition fb_initial :: fb_state where
  "fb_initial = \<lparr>fb_pixelsize = 2, fb_buffer_size = 0, fb_line_size = 0, fb_xres = 0, fb_yres = 0, fb_bpp = 0,
     fb_have_cmap = False, fb_old_palette = (\<lambda>_. (0, 0, 0))\<rparr>"

text \<open>The scale that fits the image to the screen.\<close>

definition autoscale_value :: "nat \<Rightarrow> nat \<Rightarrow> nat \<Rightarrow> nat \<Rightarrow> c_float" where
  "autoscale_value xres yres width height =
     (if fless (fdiv (float_of (int width)) (float_of (int height))) (fdiv (float_of (int xres)) (float_of (int yres)))
      then fdiv (float_of (int yres)) (float_of (int height))
      else fdiv (float_of (int xres)) (float_of (int width)))"

text \<open>The manipulations, in order; the dump is written with the file operations \<open>opens\<close> and \<open>fw\<close>.
  \<open>rotate\<close> is passed as a \<open>Uint16\<close>, and the sizes come back as such.\<close>

definition manipulate ::
  "fbview_cfg \<Rightarrow> fb_state \<Rightarrow> (nat \<Rightarrow> fb_pixel list option) \<Rightarrow> fb_pixel list \<Rightarrow> 16 word \<Rightarrow> 16 word \<Rightarrow>
   (fb_pixel list \<times> 16 word \<times> 16 word) res" where
  "manipulate c s malloc pix w h =
     (let scale = (if cf_autoscale c then autoscale_value (fb_xres s) (fb_yres s) (unat w) (unat h) else cf_scale c) in
      res_bind (if scale = Fin 1 then Inr (pix, w, h)
          else res_bind (fb_pixmap_scale (fb_pixelsize s) malloc pix (unat w) (unat h) scale) (\<lambda>(pix, nw, nh).
            Inr (pix, of_nat nw, of_nat nh))) (\<lambda>(pix, w, h).
        if cf_rotate c = 0 then Inr (pix, w, h)
        else res_bind (fb_pixmap_rotate (fb_pixelsize s) (malloc (unat w * unat h * fb_pixelsize s)) pix (unat w) (unat h)
               (unat (cf_rotate c))) (\<lambda>(pix, nw, nh). Inr (pix, of_nat nw, of_nat nh))))"

definition fbview_main ::
  "(nat \<Rightarrow> bool) \<Rightarrow> bool \<Rightarrow> fb_env \<Rightarrow> (nat \<Rightarrow> fb_pixel list option) \<Rightarrow> (bytes \<Rightarrow> jpeg_image option) \<Rightarrow>
   (string \<Rightarrow> bytes option) \<Rightarrow> (string \<Rightarrow> bool) \<Rightarrow> (nat \<Rightarrow> bool) \<Rightarrow> image \<Rightarrow> string list \<Rightarrow> fb_pixel list \<Rightarrow> fbview_run res" where
  "fbview_main mok big e malloc libjpeg files opens fw im0 args screen =
     res_bind (decode_params mok args) (\<lambda>r.
       case r of
         None \<Rightarrow> Inr \<lparr>fr_ret = 1, fr_calls = [], fr_dump = None, fr_screen = screen\<rparr>
       | Some c \<Rightarrow>
         res_bind (if cf_quiet c then Inr (0, [], Some fb_initial) else fb_init e) (\<lambda>(err, calls, st).
           case (err = 0, st) of
             (True, Some s) \<Rightarrow>
               let fopened = files (the (cf_filename c)) in
               res_bind (case cf_codec c of
                   Some JPEG \<Rightarrow> jpeg2fb_pixmap (fb_pixelsize s) malloc libjpeg fopened (im0\<lparr>im_pixmap := None\<rparr>)
                 | _ \<Rightarrow> bmp2fb_pixmap big (fb_pixelsize s) malloc fopened (im0\<lparr>im_pixmap := None\<rparr>)) (\<lambda>(ret, _, im).
                 case (ret = 0, im_pixmap im) of
                   (True, Some pix) \<Rightarrow>
                     res_bind (manipulate c s malloc pix (im_w im) (im_h im)) (\<lambda>(pix, w, h).
                     res_bind (case cf_dump c of
                         None \<Rightarrow> Inr None
                       | Some d \<Rightarrow> res_bind (fb_pixmap2bmp big (fb_pixelsize s) (opens d) fw pix w h) (\<lambda>(_, _, out). Inr out)) (\<lambda>dump.
                     res_bind (fb_clear_screen s screen) (\<lambda>screen.
                     res_bind (fb_pixmap_render s screen pix (unat w) (unat h) 0 0) (\<lambda>screen.
                       Inr \<lparr>fr_ret = 0, fr_calls = calls, fr_dump = dump, fr_screen = screen\<rparr>))))
                 | _ \<Rightarrow>
                     res_bind (if cf_quiet c then Inr (0, []) else fb_uninit (fe_malloc e) s) (\<lambda>(_, uncalls).
                       Inr \<lparr>fr_ret = 1, fr_calls = calls @ uncalls, fr_dump = None, fr_screen = screen\<rparr>))
           | _ \<Rightarrow> Inr \<lparr>fr_ret = 1, fr_calls = calls, fr_dump = None, fr_screen = screen\<rparr>))"

section \<open>What \<open>decode_params\<close> accepts\<close>

definition rotation_ok :: "16 word \<Rightarrow> bool" where
  "rotation_ok r \<longleftrightarrow> c_mod (sint r) 90 = 0 \<and> \<bar>sint r\<bar> < 360"

lemma c_mod_bound: "0 < b \<Longrightarrow> \<bar>c_mod a b\<bar> < b"
  by (auto simp: c_mod_def abs_mult sgn_if)

lemma normal_rotation_ok: "normal_rotation v = Some r \<Longrightarrow> rotation_ok r"
proof -
  assume r: "normal_rotation v = Some r"
  have small: "sint (of_int x :: 16 word) = x" if "\<bar>x\<bar> < 360" for x
    using that by (simp add: signed_of_int signed_take_bit_int_eq_self abs_less_iff)
  define t where "t = (let r = (of_int v :: 16 word) in if sint r < 0 then of_int (- sint r + 180) else r)"
  have t: "r = of_int (c_mod (sint t) 360)" "c_mod (sint r) 90 = 0"
    using r by (simp_all add: normal_rotation_def t_def Let_def split: if_splits)
  then show ?thesis using small [OF c_mod_bound [of 360 "sint t"]] c_mod_bound [of 360 "sint t"] by (simp add: rotation_ok_def)
qed

text \<open>Numbers that are not negative or fit after the addition of 180: the angle modulo 360, except that
  a negative multiple of 180 is turned by half a turn too much.\<close>

lemma rotation_half_turn_lost: "normal_rotation (- 180) = Some 0" "normal_rotation (- 360) = Some 180"
  "normal_rotation (- 90) = Some 270" "normal_rotation 450 = Some 90"
  by (simp_all add: normal_rotation_def c_mod_def Let_def)

text \<open>What a configuration of the viewer has to satisfy.\<close>

definition cfg_args_ok :: "fbview_cfg \<Rightarrow> bool" where
  "cfg_args_ok c \<longleftrightarrow> scale_in_range (cf_scale c) \<and> rotation_ok (cf_rotate c) \<and>
     cf_codec c = None \<and> cf_no_gpm c"

lemma decode_arg_ok:
  assumes "decode_arg mok i a rest c = Inr (Some (n, c'))" and "cfg_args_ok c"
  shows "cfg_args_ok c'"
proof -
  note step = assms(1) [unfolded decode_arg_def]
  have same: "cfg_args_ok (c\<lparr>cf_autoscale := True\<rparr>)" "cfg_args_ok (c\<lparr>cf_quiet := True, cf_no_gpm := True\<rparr>)"
    "cfg_args_ok (c\<lparr>cf_filename := Some v\<rparr>)" "cfg_args_ok (c\<lparr>cf_dump := Some v\<rparr>)"
    "scale_in_range x \<Longrightarrow> cfg_args_ok (c\<lparr>cf_scale := x\<rparr>)" "rotation_ok r \<Longrightarrow> cfg_args_ok (c\<lparr>cf_rotate := r\<rparr>)" for v x r
    using assms(2) by (simp_all add: cfg_args_ok_def)
  show ?thesis
    using step same normal_rotation_ok
    by (simp only: split: if_split_asm)
      (auto simp: decode_value_def res_simps Let_def simp del: insert_iff del: insertE insertCI split: if_splits list.splits)
qed

lemma decode_args_ok:
  "decode_args mok i args c = Inr (Some c') \<Longrightarrow> cfg_args_ok c \<Longrightarrow> cfg_args_ok c'"
proof (induction mok i args c rule: decode_args.induct)
  case (1 mok i args c)
  have i: "\<not> 127 < i" using "1.prems"(1) by (subst (asm) decode_args.simps) (simp split: if_splits)
  show ?case
  proof (cases args)
    case Nil
    then show ?thesis using "1.prems" by (simp add: decode_args.simps [of mok i] split: if_splits)
  next
    case (Cons a rest)
    then obtain n c'' where step: "decode_arg mok i a rest c = Inr (Some (n, c''))"
      "decode_args mok (i + 1 + n) (drop n rest) c'' = Inr (Some c')"
      using "1.prems"(1) i by (subst (asm) decode_args.simps) (auto simp: res_simps split: option.splits)
    show ?thesis
      using "1.IH" [OF i Cons step(1) refl refl step(2) decode_arg_ok [OF step(1) "1.prems"(2)]] .
  qed
qed

lemma rotation_ok_cases: "rotation_ok r \<Longrightarrow> sint r \<in> {- 270, - 180, - 90, 0, 90, 180, 270}"
proof -
  assume "rotation_ok r"
  then have "\<bar>sint r\<bar> mod 90 = 0" "\<bar>sint r\<bar> < 360" by (auto simp: rotation_ok_def c_mod_def sgn_if split: if_splits)
  then have "\<bar>sint r\<bar> \<in> {0, 90, 180, 270}" by auto
  then show ?thesis by (auto simp: abs_if split: if_splits)
qed

lemma scale_min_eq: "scale_min = 5764607523034235 / 2 ^ 59"
proof -
  have u: "2 ^ 1015 / 2 ^ 1074 = (1 :: rat) / 2 ^ 59" by simp
  have "round64 (1 / 100) = of_int (round_half_even ((1 / 100) / (1 / 2 ^ 59))) * (1 / 2 ^ 59)"
    by (rule round_rat_eq [of 53 1015 1074 "1 / 100", unfolded u]) simp_all
  also have "round_half_even ((1 / 100) / (1 / 2 ^ 59)) = 5764607523034235" by (rule round_half_even_near) simp_all
  finally show ?thesis unfolding scale_min_def by simp
qed

lemma scale_in_range_cases:
  assumes "scale_in_range x"
  shows "x = NaN \<or> (\<exists>q. x = Fin q \<and> 1 / 100 \<le> q \<and> q \<le> 10)"
proof (cases x)
  case (Fin q)
  then show ?thesis using assms by (simp add: scale_in_range_def scale_min_eq)
next
  case (Inf b)
  then show ?thesis using assms by (cases b) (simp_all add: scale_in_range_def)
qed simp

lemma defaults_ok: "cfg_args_ok (fbview_defaults)"
  by (simp add: cfg_args_ok_def fbview_defaults_def rotation_ok_def c_mod_def scale_in_range_def scale_min_eq)

text \<open>
  C37. What \<open>decode_params\<close> accepts is well-formed: there is a file name, the codec is the one its
  extension names in any mixture of upper and lower case, the rotation is a multiple of a quarter turn
  below a full one, and the scale is between 0.01 and 10, or not a number.
\<close>

theorem decode_params_typed:
  assumes "decode_params mok args = Inr (Some c)"
  shows "\<exists>fn ext cd. cf_filename c = Some fn \<and> extension_of fn = Some ext \<and>
    codec_of (map toupper ext) = Some cd \<and> cf_codec c = Some cd \<and>
    sint (cf_rotate c) \<in> {- 270, - 180, - 90, 0, 90, 180, 270} \<and>
    (cf_scale c = NaN \<or> (\<exists>q. cf_scale c = Fin q \<and> 1 / 100 \<le> q \<and> q \<le> 10))"
proof -
  note run = assms [unfolded decode_params_def]
  obtain c0 where args: "decode_args mok 1 args (fbview_defaults) = Inr (Some c0)"
    using run by (cases "decode_args mok 1 args (fbview_defaults)") (auto split: option.split_asm)
  obtain fn where fn: "cf_filename c0 = Some fn" using run args by (cases "cf_filename c0") auto
  obtain ext where ext: "extension_of fn = Some ext" using run args fn by (cases "extension_of fn") auto
  obtain cd where cd: "codec_of (map toupper ext) = Some cd"
    using run args fn ext by (cases "codec_of (map toupper ext)") (auto split: if_splits)
  have c: "c = c0\<lparr>cf_codec := Some cd\<rparr>" using run args fn ext cd by (auto split: if_splits)
  note name = fn ext cd
  have "cfg_args_ok c0" using decode_args_ok [OF args defaults_ok] .
  then show ?thesis
    using name c rotation_ok_cases [of "cf_rotate c0"] scale_in_range_cases [of "cf_scale c0"] by (simp add: cfg_args_ok_def)
qed

lemma decode_sample:
  "decode_params (\<lambda>_. True) [''-r'', ''450'', ''a.Bmp'']
   = Inr (Some (fbview_defaults \<lparr>cf_rotate := 90, cf_filename := Some ''a.Bmp'', cf_codec := Some BMP\<rparr>))"
  by (simp add: decode_params_def decode_args.simps decode_arg_def decode_value_def atoi_def is_space_def
      rotation_half_turn_lost fbview_defaults_def extension_of_def codec_of_def toupper_def char_of_def bit_0)

theorem decode_params_typed_witness:
  "\<exists>c fn ext cd. decode_params (\<lambda>_. True) [''-r'', ''450'', ''a.Bmp''] = Inr (Some c) \<and>
    cf_filename c = Some fn \<and> extension_of fn = Some ext \<and> codec_of (map toupper ext) = Some cd \<and>
    cf_codec c = Some cd \<and> sint (cf_rotate c) \<in> {- 270, - 180, - 90, 0, 90, 180, 270}"
  using decode_params_typed [OF decode_sample] decode_sample by blast

section \<open>Showing an image\<close>

definition option_names :: "string set" where
  "option_names = {''--help'', ''-help'', ''-h'', ''--h'', ''--scale'', ''-s'', ''--autoscale'', ''-a'', ''--rotate'', ''-r'',
     ''--dump'', ''-d'', ''--quiet'', ''-q''}"

lemma decode_name:
  assumes "fn \<notin> option_names" and "extension_of fn = Some ext" and "length ext \<le> 127"
    and "codec_of (map toupper ext) = Some cd" and "\<And>n. mok n"
  shows "decode_params mok [fn] = Inr (Some (fbview_defaults\<lparr>cf_filename := Some fn, cf_codec := Some cd\<rparr>))"
proof -
  have "decode_arg mok 1 fn [] (fbview_defaults) = Inr (Some (0, fbview_defaults\<lparr>cf_filename := Some fn\<rparr>))"
    using assms(1,5) by (auto simp: decode_arg_def option_names_def)
  then have "decode_args mok 1 [fn] (fbview_defaults) = Inr (Some (fbview_defaults\<lparr>cf_filename := Some fn\<rparr>))"
    by (simp add: decode_args.simps)
  then show ?thesis using assms(2-5) by (simp add: decode_params_def)
qed

lemma get_pixel_black:
  "k \<in> {1, 2} \<Longrightarrow> a + k \<le> n \<Longrightarrow> fb_get_pixel k (replicate n 0) a c = Inr (0, 0, 0)"
  by (auto simp: fb_get_pixel_def peek_def colour_1_def colour_2_def)

text \<open>
  C7. The viewer shows the image: called with the name of a BMP file that holds a saved picture, on a
  device in the one- or two-byte mode, the program ends with 0, and every pixel of the screen has the
  colour of the picture's pixel at that place, and is black where the picture does not reach.
\<close>

theorem fbview_shows_bmp:
  assumes "fn \<notin> option_names" and "extension_of fn = Some ext" and "map toupper ext = ''BMP''" and "\<And>n. mok n"
    and "fb_init e = Inr (0, calls, Some s)" and "fb_pixelsize s \<in> {1, 2}" and "0 < fb_xres s"
    and "length screen = fb_buffer_size s" and "fb_yres s * (fb_xres s * fb_pixelsize s) \<le> length screen"
    and "files fn = Some (bmp_file big (fb_pixelsize s) pix w h)"
    and "unat w \<le> 2 ^ 15" and "unat h \<le> 2 ^ 15" and "unat w * unat h \<le> 2 ^ 22"
    and "unat w * unat h * fb_pixelsize s \<le> length pix"
    and "malloc (unat w * unat h * fb_pixelsize s) = Some m" and "length m = unat w * unat h * fb_pixelsize s"
  shows "\<exists>r. fbview_main mok big e malloc libjpeg files opens fw im0 [fn] screen = Inr r \<and> fr_ret r = 0 \<and>
    length (fr_screen r) = length screen \<and>
    (\<forall>x < fb_xres s. \<forall>y < fb_yres s.
       fb_get_pixel (fb_pixelsize s) (fr_screen r) ((x + y * fb_xres s) * fb_pixelsize s) (0, 0, 0)
       = (if x < unat w \<and> y < unat h
          then fb_get_pixel (fb_pixelsize s) pix ((x + y * unat w) * fb_pixelsize s) (0, 0, 0) else Inr (0, 0, 0)))"
proof -
  let ?k = "fb_pixelsize s" and ?W = "unat w" and ?H = "unat h" and ?blank = "replicate (length screen) 0 :: fb_pixel list"
  let ?c = "fbview_defaults\<lparr>cf_filename := Some fn, cf_codec := Some BMP\<rparr>"
  have "length ext \<le> 127" using arg_cong [OF assms(3), of length] by simp
  then have args: "decode_params mok [fn] = Inr (Some ?c)"
    using assms(1-4) by (intro decode_name) (auto simp: codec_of_def)
  obtain new where new: "bmp2fb_pixmap big ?k malloc (Some (bmp_file big ?k pix w h)) (im0\<lparr>im_pixmap := None\<rparr>)
      = Inr (0, False, \<lparr>im_pixmap = Some new, im_w = w, im_h = h\<rparr>)" "length new = ?W * ?H * ?k"
    "\<And>n. n < ?W * ?H \<Longrightarrow> fb_get_pixel ?k new (n * ?k) (0, 0, 0) = fb_get_pixel ?k pix (n * ?k) (0, 0, 0)"
    using load_saved_bmp [where malloc = malloc, OF assms(6,11-16)] by blast
  have small: "length new < 2 ^ 32" using small_pixmap(2) [OF assms(13,6)] new(2) by simp
  have room: "?H * (?W * ?k) \<le> length new" using new(2) by (simp add: mult.commute mult.left_commute)
  have clear: "fb_clear_screen s screen = Inr ?blank" using clear_screen_all [OF assms(8)] .
  have fit: "fb_yres s * (fb_xres s * ?k) \<le> length ?blank" using assms(9) by simp
  obtain scr where scr: "fb_pixmap_render s ?blank new ?W ?H 0 0 = Inr scr" "length scr = length screen"
    using fb_pixmap_render_total [OF fit room small, of 0 0] by auto
  have shown: "fb_get_pixel ?k scr ((x + y * fb_xres s) * ?k) (0, 0, 0)
      = (if x < ?W \<and> y < ?H then fb_get_pixel ?k pix ((x + y * ?W) * ?k) (0, 0, 0) else Inr (0, 0, 0))"
    if "x < fb_xres s" "y < fb_yres s" for x y
  proof -
    have "(x + y * fb_xres s) * ?k + ?k \<le> fb_xres s * fb_yres s * ?k" using pixel_in_row [OF that order_refl] .
    then have black: "fb_get_pixel ?k ?blank ((x + y * fb_xres s) * ?k) (0, 0, 0) = Inr (0, 0, 0)"
      using assms(6,9) by (intro get_pixel_black) (auto simp: mult.commute mult.left_commute)
    have "x + y * ?W < ?W * ?H" if "x < ?W" "y < ?H" using pixel_in_row [OF that, of 1 "?W * ?H"] by simp
    then show ?thesis
      using fb_pixmap_render_pixels [OF assms(6,7) fit room small _ _ that scr(1), of "(0, 0, 0)"] black new(3) by simp
  qed
  have manip: "manipulate ?c s malloc new w h = Inr (new, w, h)"
    by (simp add: manipulate_def fbview_defaults_def)
  have "fbview_main mok big e malloc libjpeg files opens fw im0 [fn] screen
      = Inr \<lparr>fr_ret = 0, fr_calls = calls, fr_dump = None, fr_screen = scr\<rparr>"
    unfolding fbview_main_def args
    using manip by (simp add: assms(5,10) new(1) clear scr(1) fbview_defaults_def Let_def)
  then show ?thesis using shown scr(2) by auto
qed

theorem fbview_shows_bmp_witness:
  "\<exists>r. fbview_main (\<lambda>_. True) False sample_env (\<lambda>n. Some (replicate n 0)) (\<lambda>_. None)
       (\<lambda>_. Some (bmp_file False 1 [224, 255] 1 2)) (\<lambda>_. False) (\<lambda>_. False) \<lparr>im_pixmap = None, im_w = 0, im_h = 0\<rparr>
       [''a.Bmp''] [9, 9, 9, 9] = Inr r \<and>
    fb_get_pixel 1 (fr_screen r) 0 (0, 0, 0) = Inr (224, 0, 0) \<and> fb_get_pixel 1 (fr_screen r) 3 (0, 0, 0) = Inr (0, 0, 0)"
proof -
  let ?s = "sample_fb\<lparr>fb_old_palette := fe_cmap sample_env\<rparr>"
  let ?main = "fbview_main (\<lambda>_. True) False sample_env (\<lambda>n. Some (replicate n 0)) (\<lambda>_. None)
       (\<lambda>_. Some (bmp_file False 1 [224, 255] 1 2)) (\<lambda>_. False) (\<lambda>_. False) \<lparr>im_pixmap = None, im_w = 0, im_h = 0\<rparr>
       [''a.Bmp''] [9, 9, 9, 9]"
  have init: "fb_init sample_env = Inr (0, [FbOpen, FbMmap 4, FbPutCmap 256 (generate_palette 8)], Some ?s)"
    by (simp add: fb_init_def sample_env_def sample_fb_def pixelsize_of_def get_palette_def set_palette_def fb_palette_colors_def)
  have "\<exists>r. ?main = Inr r \<and> fr_ret r = 0 \<and> length (fr_screen r) = length [9, 9, 9, 9 :: fb_pixel] \<and>
    (\<forall>x < fb_xres ?s. \<forall>y < fb_yres ?s.
       fb_get_pixel (fb_pixelsize ?s) (fr_screen r) ((x + y * fb_xres ?s) * fb_pixelsize ?s) (0, 0, 0)
       = (if x < unat (1 :: 16 word) \<and> y < unat (2 :: 16 word)
          then fb_get_pixel (fb_pixelsize ?s) [224, 255] ((x + y * unat (1 :: 16 word)) * fb_pixelsize ?s) (0, 0, 0) else Inr (0, 0, 0)))"
    by (rule fbview_shows_bmp [OF _ _ _ _ init, where ext = "''Bmp''" and m = "replicate 2 0"])
      (simp_all only: length_replicate, simp_all add: sample_fb_def option_names_def extension_of_def toupper_def char_of_def bit_0)
  then obtain r where r: "?main = Inr r"
    and px: "\<And>x y. x < 2 \<Longrightarrow> y < 2 \<Longrightarrow> fb_get_pixel 1 (fr_screen r) (x + y * 2) (0, 0, 0)
       = (if x < 1 then fb_get_pixel 1 [224, 255] (x + y) (0, 0, 0) else Inr (0, 0, 0))"
    by (auto simp: sample_fb_def)
  have img: "fb_get_pixel 1 [224, 255] 0 (0, 0, 0) = Inr (224, 0, 0)"
    by (simp add: fb_get_pixel_def peek_def colour_1_def)
  have "fb_get_pixel 1 (fr_screen r) 0 (0, 0, 0) = Inr (224, 0, 0)" "fb_get_pixel 1 (fr_screen r) 3 (0, 0, 0) = Inr (0, 0, 0)"
    using px [of 0 0] px [of 1 1] img by (simp_all add: numeral_3_eq_3)
  with r show ?thesis by blast
qed

end
