(* ===== verification/Fbview_Scale.thy ===== *)
theory Fbview_Scale
  imports Fbview
begin

text \<open>
  Scaling from the command line of the viewer: the least scale its help names is refused, and
  \<open>--autoscale\<close> makes an image fit the screen.
\<close>

section \<open>The least scale\<close>

lemma narrow_scale_min: "narrow (Fin scale_min) = Fin (10737418 / 2 ^ 30)"
proof -
  have u: "2 ^ 119 / 2 ^ 149 = (1 :: rat) / 2 ^ 30" by simp
  have "round32 scale_min = of_int (round_half_even (scale_min / (1 / 2 ^ 30))) * (1 / 2 ^ 30)"
    by (rule round_rat_eq [of 24 119 149 scale_min, unfolded u]) (simp_all add: scale_min_eq)
  also have "round_half_even (scale_min / (1 / 2 ^ 30)) = 10737418"
    by (rule round_half_even_near) (simp_all add: scale_min_eq)
  finally show ?thesis by (simp add: to_float_def)
qed

lemma atof_least: "atof ''0.01'' = Inr (Fin scale_min)"
proof -
  have "unsigned_value ''0.01'' = Fin (1 / 100)"
    by (simp add: unsigned_value_def number_at_def digit_of_def toupper_def number_of_def exponent_at_def char_of_def bit_0 Let_def)
  moreover have "dropWhile is_space ''0.01'' = ''0.01''" by (simp add: is_space_def)
  ultimately show ?thesis
    using scale_min_eq by (simp add: atof_def to_double_def flip: scale_min_def)
qed

text \<open>
  The help promises scales from 0.01: the viewer refuses exactly this one, because the nearest
  \<open>float\<close> is less than the \<open>double\<close> it is compared with.
\<close>

theorem least_scale_refused: "decode_params mok (''-s'' # ''0.01'' # rest) = Inr None"
proof -
  have "\<not> scale_in_range (Fin (10737418 / 2 ^ 30))" by (simp add: scale_in_range_def scale_min_eq)
  then have "decode_arg mok 1 ''-s'' (''0.01'' # rest) fbview_defaults = Inr None"
    by (simp add: decode_arg_def decode_value_def atof_least narrow_scale_min del: narrow.simps)
  then show ?thesis by (simp add: decode_params_def decode_args.simps)
qed

text \<open>A comparison with a NaN is false, so \<open>--scale nan\<close> passes the check, and the first conversion in
  \<open>fb_pixmap_scale\<close> is undefined.\<close>

lemma nan_scale_faults: "scale_in_range (narrow NaN) \<and> fb_pixmap_scale k malloc pix w h (narrow NaN) = Inl Fault"
proof -
  have "fmul x NaN = NaN" for x by (cases x) simp_all
  then show ?thesis by (simp add: scale_in_range_def fb_pixmap_scale_def to_uint16_def)
qed

section \<open>Autoscale\<close>

text \<open>In quiet mode the screen has the size 0, so \<open>--autoscale\<close> makes the image empty.\<close>

lemma quiet_autoscale_empty:
  assumes "0 < w" "w < 65536" "0 < h" "h < 65536" and "malloc 0 = Some new"
  shows "autoscale_value 0 0 w h = Fin 0" "fb_pixmap_scale k malloc pix w h (Fin 0) = Inr (new, 0, 0)"
proof -
  have z: "float_of 0 = Fin 0" "to_float 0 = Fin 0" using float_of_small [of 0] by (simp_all add: float_of_def)
  have "float_of (int w) = Fin (of_nat w)" "float_of (int h) = Fin (of_nat h)"
    using float_of_small [of "int w"] float_of_small [of "int h"] assms by simp_all
  with z assms show "autoscale_value 0 0 w h = Fin 0" "fb_pixmap_scale k malloc pix w h (Fin 0) = Inr (new, 0, 0)"
    by (simp_all add: autoscale_value_def fb_pixmap_scale_def to_uint16_def to_float_def single.rnd_0)
qed

text \<open>The relative error of a rounded ratio of image sizes.\<close>

lemma ratio_error:
  assumes "1 / 2 ^ 20 \<le> q"
  shows "q * (1 - 1 / 2 ^ 23) < round32 q" "round32 q < q * (1 + 1 / 2 ^ 23)"
proof -
  have "2 ^ (24 - 1) / 2 ^ 149 \<le> q" using assms by (rule order_trans [rotated]) simp
  from single.relative_error [OF this] show "q * (1 - 1 / 2 ^ 23) < round32 q" "round32 q < q * (1 + 1 / 2 ^ 23)" by simp_all
qed

lemma size_ratio:
  assumes "0 < a" and "a < 65536" and "0 < b" and "b < 65536"
  shows "(1 :: rat) / 2 ^ 16 \<le> of_nat a / of_nat b" "(of_nat a / of_nat b :: rat) \<le> 65536"
    "fdiv (float_of (int a)) (float_of (int b)) = Fin (round32 (of_nat a / of_nat b))"
proof -
  have a: "(1 :: rat) \<le> of_nat a" "(of_nat a :: rat) \<le> 65536" and b: "(1 :: rat) \<le> of_nat b" "(of_nat b :: rat) \<le> 2 ^ 16"
    using assms by simp_all
  then show low: "(1 :: rat) / 2 ^ 16 \<le> of_nat a / of_nat b" by (intro frac_le) simp_all
  show up: "(of_nat a / of_nat b :: rat) \<le> 65536" using a b frac_le [of 65536 "of_nat a" 1 "of_nat b :: rat"] by simp
  have "(0 :: rat) \<le> of_nat a / of_nat b" by simp
  then have "\<bar>of_nat a / of_nat b :: rat\<bar> \<le> 2 ^ 24" using up by simp
  then show "fdiv (float_of (int a)) (float_of (int b)) = Fin (round32 (of_nat a / of_nat b))"
    using to_float_small float_of_small [of "int a"] float_of_small [of "int b"] assms by simp
qed

text \<open>A size times a rounded scale exceeds the wanted size by less than a pixel.\<close>

lemma scaled_size_fits:
  assumes "1 / 2 ^ 16 \<le> r" and "0 < n" and "of_nat n * r \<le> of_nat N * (1 + 1 / 2 ^ 21)" and "N < 65536"
  shows "round32 (of_nat n * round32 r) < of_nat N + 1" "new_size (round32 r) n \<le> N"
proof -
  let ?s = "round32 r"
  have s: "r * (1 - 1 / 2 ^ 23) < ?s" "?s < r * (1 + 1 / 2 ^ 23)" using ratio_error [of r] assms(1) by simp_all
  have n: "(1 :: rat) \<le> of_nat n" "(of_nat N :: rat) < 65536" using assms(2,4) by simp_all
  have pos: "1 / 2 ^ 17 \<le> ?s" using s(1) assms(1) by simp
  then have "0 \<le> ?s" by (rule order_trans [rotated]) simp
  then have "1 * ?s \<le> of_nat n * ?s" using n(1) by (intro mult_right_mono)
  moreover have "(1 :: rat) / 2 ^ 20 \<le> 1 / 2 ^ 17" by simp
  ultimately have low: "1 / 2 ^ 20 \<le> of_nat n * ?s" using pos by linarith
  have "of_nat n * ?s \<le> of_nat n * (r * (1 + 1 / 2 ^ 23))" using s(2) by (intro mult_left_mono) simp_all
  also have "\<dots> = of_nat n * r * (1 + 1 / 2 ^ 23)" by (simp only: mult.assoc)
  also have "\<dots> \<le> of_nat N * (1 + 1 / 2 ^ 21) * (1 + 1 / 2 ^ 23)" using assms(3) by (intro mult_right_mono) simp_all
  finally have "of_nat n * ?s \<le> of_nat N * (1 + 1 / 2 ^ 21) * (1 + 1 / 2 ^ 23)" .
  then have "of_nat n * ?s * (1 + 1 / 2 ^ 23) < of_nat N + 1" using n(2) by simp
  then show less: "round32 (of_nat n * ?s) < of_nat N + 1" using ratio_error(2) [OF low] by linarith
  then have "round32 (of_nat n * ?s) < of_int (int N + 1)" by simp
  then have "\<lfloor>round32 (of_nat n * ?s)\<rfloor> < int N + 1" by (simp only: floor_less_iff)
  then show "new_size ?s n \<le> N" unfolding new_size_def by linarith
qed

lemma autoscale_ratio:
  assumes "0 < X" "X < 65536" "0 < Y" "Y < 65536" and "0 < w" "w < 65536" "0 < h" "h < 65536"
  shows "\<exists>r. autoscale_value X Y w h = Fin (round32 r) \<and> 1 / 2 ^ 16 \<le> r \<and>
    of_nat w * r \<le> of_nat X * (1 + 1 / 2 ^ 21) \<and> of_nat h * r \<le> of_nat Y * (1 + 1 / 2 ^ 21)"
proof -
  define x y a b where "x = (of_nat X :: rat)" and "y = (of_nat Y :: rat)" and "a = (of_nat w :: rat)" and "b = (of_nat h :: rat)"
  note defs = x_def y_def a_def b_def
  have pos: "0 < x" "0 < y" "0 < a" "0 < b" using assms by (simp_all add: defs)
  note ratio = size_ratio [folded defs]
  have wide: "fdiv (float_of (int w)) (float_of (int h)) = Fin (round32 (a / b))"
    "fdiv (float_of (int X)) (float_of (int Y)) = Fin (round32 (x / y))"
    "fdiv (float_of (int Y)) (float_of (int h)) = Fin (round32 (y / b))"
    "fdiv (float_of (int X)) (float_of (int w)) = Fin (round32 (x / a))"
    using size_ratio(3) assms by (simp_all add: defs)
  have low: "1 / 2 ^ 16 \<le> a / b" "1 / 2 ^ 16 \<le> x / y" "1 / 2 ^ 16 \<le> y / b" "1 / 2 ^ 16 \<le> x / a"
    using size_ratio(1) assms by (simp_all add: defs)
  show ?thesis
  proof (cases "round32 (a / b) < round32 (x / y)")
    case True
    then have "a / b < x / y" using single.mono [of "x / y" "a / b"] by (meson not_less)
    then have "a * y < x * b" using pos by (simp add: divide_simps mult.commute)
    then have "a * (y / b) < x" using pos by (simp add: pos_divide_less_eq)
    moreover have "x \<le> x * (1 + 1 / 2 ^ 21)" "y \<le> y * (1 + 1 / 2 ^ 21)" using pos by simp_all
    moreover have "b * (y / b) = y" using pos by simp
    ultimately have "a * (y / b) \<le> x * (1 + 1 / 2 ^ 21)" "b * (y / b) \<le> y * (1 + 1 / 2 ^ 21)" by linarith+
    moreover have "autoscale_value X Y w h = Fin (round32 (y / b))" using True by (simp add: autoscale_value_def wide)
    ultimately show ?thesis using low(3) by (intro exI [of _ "y / b"]) (simp only: defs)
  next
    case False
    then have "round32 (x / y) \<le> round32 (a / b)" by simp
    moreover have "x / y * (1 - 1 / 2 ^ 23) < round32 (x / y)" by (rule ratio_error(1) [OF order_trans [OF _ low(2)]]) simp
    moreover have "round32 (a / b) < a / b * (1 + 1 / 2 ^ 23)" by (rule ratio_error(2) [OF order_trans [OF _ low(1)]]) simp
    ultimately have "x / y * (1 - 1 / 2 ^ 23) < a / b * (1 + 1 / 2 ^ 23)" by linarith
    then have "x * b * (1 - 1 / 2 ^ 23) < a * y * (1 + 1 / 2 ^ 23)" using pos by (simp add: divide_simps mult.commute mult.left_commute)
    then have "x * b * (1 - 1 / 2 ^ 23) / a < y * (1 + 1 / 2 ^ 23)" using pos by (simp add: pos_divide_less_eq mult.commute mult.left_commute)
    then have "b * (x / a) * (1 - 1 / 2 ^ 23) < y * (1 + 1 / 2 ^ 23)" by (simp add: mult.commute)
    then have "b * (x / a) \<le> y * (1 + 1 / 2 ^ 21)" using pos by simp
    moreover have "a * (x / a) \<le> x * (1 + 1 / 2 ^ 21)" using pos by simp
    moreover have "autoscale_value X Y w h = Fin (round32 (x / a))" using False by (simp add: autoscale_value_def wide)
    ultimately show ?thesis using low(4) by (intro exI [of _ "x / a"]) (simp only: defs)
  qed
qed

text \<open>
  C16. With \<open>--autoscale\<close> every image fits the screen: for an image and a screen that are not empty the
  computed scale is a positive number, scaling by it succeeds whenever there is memory, and the new
  image is at most as wide and as high as the screen, in spite of rounding.
\<close>

theorem autoscale_fits:
  assumes "0 < xres" "xres < 65536" "0 < yres" "yres < 65536" and "0 < w" "w < 65536" "0 < h" "h < 65536"
    and "k \<in> {1, 2}" and "w * h * k \<le> length pix" and "w * h * k < 2 ^ 31" and "xres * yres * k < 2 ^ 31"
    and "\<And>n. \<exists>m. malloc n = Some m \<and> length m = n"
  shows "\<exists>s new nw nh. autoscale_value xres yres w h = Fin s \<and> 0 < s \<and>
    fb_pixmap_scale k malloc pix w h (Fin s) = Inr (new, nw, nh) \<and> nw \<le> xres \<and> nh \<le> yres \<and> length new = nw * nh * k"
proof -
  obtain r where r: "autoscale_value xres yres w h = Fin (round32 r)" "1 / 2 ^ 16 \<le> r"
    "of_nat w * r \<le> of_nat xres * (1 + 1 / 2 ^ 21)" "of_nat h * r \<le> of_nat yres * (1 + 1 / 2 ^ 21)"
    using autoscale_ratio [OF assms(1-8)] by blast
  let ?s = "round32 r"
  note fw = scaled_size_fits [OF r(2) assms(5) r(3) assms(2)] and fh = scaled_size_fits [OF r(2) assms(7) r(4) assms(4)]
  have "0 < r * (1 - 1 / 2 ^ 23)" using r(2) by simp
  then have s: "0 < ?s" using ratio_error(1) [of r] r(2) by simp
  have "(of_nat xres + 1 :: rat) \<le> 65536" "(of_nat yres + 1 :: rat) \<le> 65536" using assms(2,4) by simp_all
  then have small: "round32 (of_nat w * ?s) < 65536" "round32 (of_nat h * ?s) < 65536" using fw(1) fh(1) by linarith+
  have "new_size ?s w * new_size ?s h * k \<le> xres * yres * k" using fw(2) fh(2) by (intro mult_le_mono) simp_all
  then have fit: "new_size ?s w * new_size ?s h * k < 2 ^ 31" using assms(12) by (rule le_less_trans)
  obtain m where m: "malloc (new_size ?s w * new_size ?s h * k) = Some m" "length m = new_size ?s w * new_size ?s h * k"
    using assms(13) by blast
  from fb_pixmap_scale_colours [where malloc = malloc, OF assms(9-11,6,8) s small fit m] m(2)
  show ?thesis using r(1) s fw(2) fh(2) by metis
qed

theorem autoscale_fits_witness:
  "\<exists>s new nw nh. autoscale_value 3 4 2 1 = Fin s \<and> 0 < s \<and>
    fb_pixmap_scale 1 (\<lambda>n. Some (replicate n 0)) [224, 28] 2 1 (Fin s) = Inr (new, nw, nh) \<and> nw \<le> 3 \<and> nh \<le> 4 \<and>
    length new = nw * nh * 1"
  by (rule autoscale_fits) simp_all

end
