(* ===== verification/Fb_Device.thy ===== *)
theory Fb_Device
  imports Fb_Screen Resources
begin

text \<open>
  What \<open>patches/code/fbview/framebuffer.c\<close> holds between \<open>fb_init\<close> and \<open>fb_uninit\<close>: the device, the mapped screen
  and the arrays of two palettes, from \<open>alloc_palette\<close> and \<open>free_palette\<close>. The frame buffer is an instance of the contract
  \<open>resource_driver\<close>, with what it leaks written out.
\<close>

section \<open>The code\<close>

datatype palette_var = OldPalette | GlobalPal

datatype palette_array = RedArray | GreenArray | BlueArray

text \<open>An open device is known by its descriptor, a mapping by its address.\<close>

datatype fb_resource = FbDevice int | FbScreen int | FbPalette palette_var palette_array

definition alloc_palette :: "palette_var \<Rightarrow> fb_resource rev list" where
  "alloc_palette pal = [Acq (FbPalette pal RedArray), Acq (FbPalette pal GreenArray), Acq (FbPalette pal BlueArray)]"

definition free_palette :: "palette_var \<Rightarrow> fb_resource rev list" where
  "free_palette pal = [Rel (FbPalette pal RedArray), Rel (FbPalette pal GreenArray), Rel (FbPalette pal BlueArray)]"

text \<open>
  The resources behind the calls of the device, for the globals \<open>fb_dev\<close> and \<open>screen\<close>: \<open>open\<close> and \<open>mmap\<close> that failed
  returned -1 and gave nothing, and closing or unmapping that does nothing.
\<close>

fun call_trace :: "int \<Rightarrow> int \<Rightarrow> fb_call \<Rightarrow> fb_resource rev list" where
  "call_trace fb_dev screen FbOpen = (if fb_dev < 0 then [] else [Acq (FbDevice fb_dev)])"
| "call_trace fb_dev screen (FbMmap n) = (if screen = -1 then [] else [Acq (FbScreen screen)])"
| "call_trace fb_dev screen (FbPutCmap n pal) = []"
| "call_trace fb_dev screen (FbMunmap n) = (if screen = -1 then [] else [Rel (FbScreen screen)])"
| "call_trace fb_dev screen FbClose = (if fb_dev < 0 then [] else [Rel (FbDevice fb_dev)])"

definition device_trace :: "int \<Rightarrow> int \<Rightarrow> fb_call list \<Rightarrow> fb_resource rev list" where
  "device_trace fb_dev screen calls = concat (map (call_trace fb_dev screen) calls)"

text \<open>\<open>fb_init\<close> and \<open>fb_uninit\<close> with their palettes; the state between them is \<open>fb_dev\<close>, \<open>screen\<close> and the rest. The palettes are
  freed before the last call, which closes the device. A program that faults holds nothing any more.\<close>

definition fb_enter :: "fb_env \<Rightarrow> fb_resource rev list \<times> (int \<times> int \<times> fb_state option) \<times> int" where
  "fb_enter e =
     (let fb_dev = fe_open e; screen = fe_mmap e in
      case fb_init e of
        Inl _ \<Rightarrow> ([], (fb_dev, screen, None), 1)
      | Inr (ret, calls, None) \<Rightarrow> (device_trace fb_dev screen calls, (fb_dev, screen, None), ret)
      | Inr (ret, calls, Some s) \<Rightarrow>
          (device_trace fb_dev screen calls @
             (if fb_have_cmap s then alloc_palette OldPalette @ alloc_palette GlobalPal else []),
           (fb_dev, screen, Some s), ret))"

definition fb_leave :: "int \<times> int \<times> fb_state option \<Rightarrow> fb_resource rev list" where
  "fb_leave = (\<lambda>(fb_dev, screen, st).
      case st of
        None \<Rightarrow> []
      | Some s \<Rightarrow>
        case fb_uninit True s of
          Inl _ \<Rightarrow> []
        | Inr (ret, calls) \<Rightarrow>
            device_trace fb_dev screen (butlast calls) @
            (if fb_have_cmap s then free_palette OldPalette @ free_palette GlobalPal else []) @
            device_trace fb_dev screen [last calls])"

section \<open>What is left over\<close>

text \<open>
  What a start leaves behind: the device opened with descriptor 0, which the code takes for a failure; the device of an
  unknown format, which is not closed; and a mapping at address 0, which is taken for a failure too.
\<close>

definition fb_leaks :: "fb_env \<Rightarrow> fb_resource list" where
  "fb_leaks e =
     (if fe_open e = 0 then [FbDevice 0]
      else if fe_get_var e \<noteq> 0 \<or> fe_put_var e \<noteq> 0 then []
      else if pixelsize_of (fe_bpp e) = None then (if fe_open e < 0 then [] else [FbDevice (fe_open e)])
      else if fe_mmap e = 0 then [FbScreen 0] else [])"

lemmas fb_traces = fb_enter_def fb_init_def fb_leaks_def device_trace_def get_palette_def set_palette_def
  fb_palette_colors_def

interpretation fb_device: resource_driver fb_enter fb_leave "\<lambda>_. True" fb_leaks
proof
  fix e tr s ret
  assume "fb_enter e = (tr, s, ret)" and "ret \<noteq> 0"
  then show "run_res tr {} = Some (set (fb_leaks e))"
    by (auto simp: fb_traces Let_def insert_Diff_if split: if_splits option.splits)
next
  fix e tr s
  assume "fb_enter e = (tr, s, 0)"
  then show "run_res (tr @ fb_leave s) {} = Some (set (fb_leaks e))"
    by (auto simp: fb_traces fb_leave_def fb_uninit_def alloc_palette_def free_palette_def insert_Diff_if Let_def
        split: if_splits option.splits)
qed

end
