(* ===== verification/Png.thy ===== *)
theory Png
  imports Bmp Resources
begin

text \<open>
  \<open>png2fb_pixmap\<close> of \<open>patches/code/fbview/ds_png.c\<close>. The PNG library is an argument: whether its two
  structures can be created, and what \<open>png_read_png\<close> makes of the bytes of a file, either the size and
  the rows that \<open>png_get_rows\<close> gives or an error, which jumps back to \<open>setjmp\<close>. The file and the
  structures are resources whose acquisitions and releases are recorded.
\<close>

record png_image =
  png_width :: nat
  png_height :: nat
  png_rows :: "fb_pixel list list"

record png_lib =
  png_create_read_struct :: bool
  png_create_info_struct :: bool
  png_read_png :: "bytes \<Rightarrow> png_image option"

datatype png_resource = PngFile | PngRead | PngInfo

text \<open>The three bytes at \<open>(*pixel) + i * 3\<close>, where \<open>pixel\<close> has advanced to row \<open>j\<close>.\<close>

definition png_sample :: "fb_pixel list list \<Rightarrow> nat \<Rightarrow> nat \<Rightarrow> rgb res" where
  "png_sample rows j i =
     (if j < length rows then
        res_bind (peek (rows ! j) (i * 3)) (\<lambda>R. res_bind (peek (rows ! j) (i * 3 + 1)) (\<lambda>G.
        res_bind (peek (rows ! j) (i * 3 + 2)) (\<lambda>B. Inr (R, G, B))))
      else Inl Fault)"

definition png_paint :: "nat \<Rightarrow> nat \<Rightarrow> nat \<Rightarrow> fb_pixel list list \<Rightarrow> fb_pixel list \<Rightarrow> fb_pixel list res" where
  "png_paint pixelsize w h rows =
     fold_res (\<lambda>j. fold_res (\<lambda>i pix. res_bind (png_sample rows j i)
       (fb_set_pixel pixelsize pix ((i + j * w) * pixelsize))) [0..<w]) [0..<h]"

text \<open>The result: the return value, the trace of the resources, and the caller's variables. The size
  given to \<open>malloc\<close> is an \<open>int\<close>.\<close>

definition png2fb_pixmap ::
  "nat \<Rightarrow> (nat \<Rightarrow> fb_pixel list option) \<Rightarrow> png_lib \<Rightarrow> bytes option \<Rightarrow> image \<Rightarrow>
   (int \<times> png_resource rev list \<times> image) res" where
  "png2fb_pixmap pixelsize malloc lib fopened im =
     (case fopened of
        None \<Rightarrow> Inr (1, [], im)
      | Some f \<Rightarrow>
        if \<not> png_create_read_struct lib then Inr (-1, [Acq PngFile, Rel PngFile], im)
        else if \<not> png_create_info_struct lib then Inr (1, [Acq PngFile, Acq PngRead, Rel PngFile, Rel PngRead], im)
        else let tr = [Acq PngFile, Acq PngRead, Acq PngInfo] in
          case png_read_png lib f of
            None \<Rightarrow> Inr (-1, tr @ [Rel PngRead, Rel PngInfo, Rel PngFile], im)
          | Some info_ptr \<Rightarrow>
            let im = im\<lparr>im_w := of_nat (png_width info_ptr), im_h := of_nat (png_height info_ptr)\<rparr>;
                w = unat (im_w im); h = unat (im_h im); size = w * h * pixelsize in
            if 2 ^ 31 \<le> size then Inl Fault
            else case malloc size of
              None \<Rightarrow> Inr (-1, tr @ [Rel PngFile], im\<lparr>im_pixmap := None\<rparr>)
            | Some pix \<Rightarrow>
              res_bind (png_paint pixelsize w h (png_rows info_ptr) pix) (\<lambda>pix.
                Inr (0, tr @ [Rel PngRead, Rel PngInfo, Rel PngFile], im\<lparr>im_pixmap := Some pix\<rparr>)))"

section \<open>Correctness\<close>

text \<open>The rows of an image with three channels of eight bits.\<close>

definition rgb_rows :: "png_image \<Rightarrow> bool" where
  "rgb_rows p \<longleftrightarrow> length (png_rows p) = png_height p \<and> (\<forall>r \<in> set (png_rows p). length r = 3 * png_width p)"

definition png_colour :: "png_image \<Rightarrow> nat \<Rightarrow> nat \<Rightarrow> rgb" where
  "png_colour p j i = (let r = png_rows p ! j in (r ! (i * 3), r ! (i * 3 + 1), r ! (i * 3 + 2)))"

lemma png_sample_rgb:
  assumes "rgb_rows p" and "j < png_height p" and "i < png_width p"
  shows "png_sample (png_rows p) j i = Inr (png_colour p j i)"
proof -
  have j: "j < length (png_rows p)" using assms(1,2) by (simp add: rgb_rows_def)
  then have "length (png_rows p ! j) = 3 * png_width p" using assms(1) by (simp add: rgb_rows_def)
  then show ?thesis using j assms(3) by (simp add: png_sample_def png_colour_def peek_def Let_def)
qed

lemma png_paint_rgb:
  assumes "rgb_rows p"
  shows "png_paint k (png_width p) (png_height p) (png_rows p) m =
    fold_res (\<lambda>j. fold_res (\<lambda>i m. fb_set_pixel k m ((i + j * png_width p) * k) (png_colour p j i)) [0..<png_width p]) [0..<png_height p] m"
  unfolding png_paint_def by (intro fold_res_cong refl) (simp add: png_sample_rgb assms)

text \<open>
  C24. The PNG reader delivers the picture: for every image of three channels that the library decodes,
  of less than 65536 columns and rows and less than 2 GB, in the one- and two-byte modes, \<open>png2fb_pixmap\<close>
  succeeds, releases what it took, reports the size of the image, and the pixmap holds the colour of every
  pixel rounded to the mode.
\<close>

theorem png_load_pixels:
  assumes "k \<in> {1, 2}" and "png_create_read_struct lib" and "png_create_info_struct lib"
    and "png_read_png lib f = Some p" and "rgb_rows p" and "png_width p < 2 ^ 16" and "png_height p < 2 ^ 16"
    and "png_width p * png_height p * k < 2 ^ 31"
    and "malloc (png_width p * png_height p * k) = Some m" and "length m = png_width p * png_height p * k"
  shows "\<exists>tr pix. png2fb_pixmap k malloc lib (Some f) im
      = Inr (0, tr, \<lparr>im_pixmap = Some pix, im_w = of_nat (png_width p), im_h = of_nat (png_height p)\<rparr>) \<and>
    run_res tr {} = Some {} \<and> length pix = png_width p * png_height p * k \<and>
    (\<forall>x < png_width p. \<forall>y < png_height p.
       fb_get_pixel k pix ((x + y * png_width p) * k) (0, 0, 0) = Inr (quant k (png_colour p y x)))"
proof -
  let ?w = "png_width p" and ?h = "png_height p"
  have wh: "unat (of_nat ?w :: 16 word) = ?w" "unat (of_nat ?h :: 16 word) = ?h"
    using assms(6,7) by (simp_all add: unsigned_of_nat take_bit_nat_eq_self)
  obtain pix where rows: "png_paint k ?w ?h (png_rows p) m = Inr pix" and pix: "length pix = length m"
    "\<And>x y. x < ?w \<Longrightarrow> y < ?h \<Longrightarrow> fb_get_pixel k pix ((x + y * ?w) * k) (0, 0, 0) = Inr (quant k (png_colour p y x))"
    using paint_rows [OF assms(1,10), of "png_colour p"] unfolding png_paint_rgb [OF assms(5)] by blast
  have "png2fb_pixmap k malloc lib (Some f) im = Inr (0, [Acq PngFile, Acq PngRead, Acq PngInfo, Rel PngRead, Rel PngInfo, Rel PngFile],
      \<lparr>im_pixmap = Some pix, im_w = of_nat ?w, im_h = of_nat ?h\<rparr>)"
    using assms(2-4,8,9) rows by (simp add: png2fb_pixmap_def wh Let_def)
  moreover have "run_res [Acq PngFile, Acq PngRead, Acq PngInfo, Rel PngRead, Rel PngInfo, Rel PngFile] {} = Some {}"
    by (simp add: insert_Diff_if)
  ultimately show ?thesis using pix assms(10) by auto
qed

definition sample_png :: png_image where
  "sample_png = \<lparr>png_width = 2, png_height = 1, png_rows = [[0, 200, 7, 100, 200, 7]]\<rparr>"

definition sample_png_lib :: png_lib where
  "sample_png_lib = \<lparr>png_create_read_struct = True, png_create_info_struct = True,
     png_read_png = (\<lambda>f. if f = [] then None else Some sample_png)\<rparr>"

theorem png_load_pixels_witness:
  "\<exists>tr pix. png2fb_pixmap 2 (\<lambda>n. Some (replicate n 0)) sample_png_lib (Some [1]) \<lparr>im_pixmap = None, im_w = 0, im_h = 0\<rparr>
      = Inr (0, tr, \<lparr>im_pixmap = Some pix, im_w = 2, im_h = 1\<rparr>) \<and>
    run_res tr {} = Some {} \<and> fb_get_pixel 2 pix 2 (0, 0, 0) = Inr (96, 200, 0)"
proof -
  have "\<exists>tr pix. png2fb_pixmap 2 (\<lambda>n. Some (replicate n 0)) sample_png_lib (Some [1]) \<lparr>im_pixmap = None, im_w = 0, im_h = 0\<rparr>
      = Inr (0, tr, \<lparr>im_pixmap = Some pix, im_w = of_nat (png_width sample_png), im_h = of_nat (png_height sample_png)\<rparr>) \<and>
    run_res tr {} = Some {} \<and> length pix = png_width sample_png * png_height sample_png * 2 \<and>
    (\<forall>x < png_width sample_png. \<forall>y < png_height sample_png.
       fb_get_pixel 2 pix ((x + y * png_width sample_png) * 2) (0, 0, 0) = Inr (quant 2 (png_colour sample_png y x)))"
    by (rule png_load_pixels [where m = "replicate 4 0"])
      (simp_all only: length_replicate, simp_all add: sample_png_def sample_png_lib_def rgb_rows_def)
  then obtain tr pix where run:
    "png2fb_pixmap 2 (\<lambda>n. Some (replicate n 0)) sample_png_lib (Some [1]) \<lparr>im_pixmap = None, im_w = 0, im_h = 0\<rparr>
      = Inr (0, tr, \<lparr>im_pixmap = Some pix, im_w = 2, im_h = 1\<rparr>)" "run_res tr {} = Some {}"
    and px: "\<forall>x < 2. fb_get_pixel 2 pix (x * 2) (0, 0, 0) = Inr (quant 2 (png_colour sample_png 0 x))"
    by (auto simp: sample_png_def)
  have "fb_get_pixel 2 pix 2 (0, 0, 0) = Inr (96, 200, 0)"
    using px [rule_format, of 1] by (simp add: quant_def quant_2_def png_colour_def sample_png_def)
  with run show ?thesis by blast
qed

lemma run_png_traces:
  "run_res [Acq PngFile, Rel PngFile] {} = Some {}"
  "run_res [Acq PngFile, Acq PngRead, Rel PngFile, Rel PngRead] {} = Some {}"
  "run_res [Acq PngFile, Acq PngRead, Acq PngInfo, Rel PngRead, Rel PngInfo, Rel PngFile] {} = Some {}"
  "run_res [Acq PngFile, Acq PngRead, Acq PngInfo, Rel PngFile] {} = Some {PngRead, PngInfo}"
  by (simp_all add: insert_Diff_if insert_commute)

text \<open>
  Whatever the library and \<open>malloc\<close> answer, a call that returns has released what it took, exactly
  once, and gives a pixmap exactly when it returns 0; the one exception is an image for which there is no
  memory: then the library's structures are lost.
\<close>

theorem png_releases:
  assumes "png2fb_pixmap k malloc lib fopened im = Inr (ret, tr, im')" and "im_pixmap im = None"
  shows "(ret = 0 \<longleftrightarrow> im_pixmap im' \<noteq> None) \<and>
    (run_res tr {} = Some {} \<or>
     run_res tr {} = Some {PngRead, PngInfo} \<and> ret = -1 \<and> malloc (unat (im_w im') * unat (im_h im') * k) = None)"
  using assms by (auto simp: png2fb_pixmap_def run_png_traces Let_def res_simps split: option.splits if_splits)

theorem png_releases_witness:
  "\<exists>tr im'. png2fb_pixmap 2 (\<lambda>_. None) sample_png_lib (Some [1]) \<lparr>im_pixmap = None, im_w = 0, im_h = 0\<rparr> = Inr (-1, tr, im') \<and>
     im_pixmap im' = None"
proof -
  let ?im = "\<lparr>im_pixmap = None, im_w = 2, im_h = 1\<rparr>"
  have run: "png2fb_pixmap 2 (\<lambda>_. None) sample_png_lib (Some [1]) \<lparr>im_pixmap = None, im_w = 0, im_h = 0\<rparr>
      = Inr (-1, [Acq PngFile, Acq PngRead, Acq PngInfo, Rel PngFile], ?im)"
    by (simp add: png2fb_pixmap_def sample_png_lib_def sample_png_def Let_def)
  from png_releases [OF this] have "im_pixmap ?im = None" by simp
  with run show ?thesis by blast
qed

section \<open>Images with one channel\<close>

text \<open>
  Rows with one byte per pixel, which the library gives for grey images and for images with a palette
  because the transformations asked for do not expand them, are read past their end: no such image is
  ever loaded.
\<close>

theorem png_grey_faults:
  assumes "png_create_read_struct lib" and "png_create_info_struct lib" and "png_read_png lib f = Some p"
    and "length (png_rows p) = png_height p" and "\<forall>r \<in> set (png_rows p). length r = png_width p"
    and "0 < png_width p" and "png_width p < 2 ^ 16" and "0 < png_height p" and "png_height p < 2 ^ 16"
    and "malloc (png_width p * png_height p * k) = Some m"
  shows "png2fb_pixmap k malloc lib (Some f) im = Inl Fault"
proof -
  let ?w = "png_width p" and ?h = "png_height p"
  have wh: "unat (of_nat ?w :: 16 word) = ?w" "unat (of_nat ?h :: 16 word) = ?h"
    using assms(7,9) by (simp_all add: unsigned_of_nat take_bit_nat_eq_self)
  let ?step = "\<lambda>j i pix. res_bind (png_sample (png_rows p) j i) (fb_set_pixel k pix ((i + j * ?w) * k))"
  have cases: "?step j i pix = Inl Fault \<or> (\<exists>pix'. ?step j i pix = Inr pix')" for j i pix
    by (auto simp: png_sample_def fb_set_pixel_def peek_def poke_def)
  have "length (png_rows p ! 0) = ?w" using assms(4,5,8) by simp
  then have "png_sample (png_rows p) 0 (?w - 1) = Inl Fault"
    using assms(6) by (auto simp: png_sample_def peek_def)
  then have last: "?step 0 (?w - 1) pix = Inl Fault" for pix by simp
  note row = fold_res_only_faults [of "?step j" for j, OF cases]
  have "fold_res (?step 0) [0..<?w] pix = Inl Fault" for pix
    by (rule fold_res_fault [where P = "\<lambda>_. True" and ?x0.0 = "?w - 1"]) (simp_all only: last, use cases [of 0] assms(6) in auto)
  note first = this
  have "png_paint k ?w ?h (png_rows p) m = Inl Fault"
    unfolding png_paint_def
    by (rule fold_res_fault [where P = "\<lambda>_. True" and ?x0.0 = 0]) (simp_all only: first, use row assms(8) in auto)
  then show ?thesis using assms(1-3,10) by (simp add: png2fb_pixmap_def wh Let_def)
qed

theorem png_grey_faults_witness:
  "png2fb_pixmap 2 (\<lambda>n. Some (replicate n 0))
     \<lparr>png_create_read_struct = True, png_create_info_struct = True,
       png_read_png = (\<lambda>f. Some \<lparr>png_width = 3, png_height = 1, png_rows = [[10, 20, 30]]\<rparr>)\<rparr>
     (Some []) \<lparr>im_pixmap = None, im_w = 0, im_h = 0\<rparr> = Inl Fault"
  by (rule png_grey_faults [where m = "replicate 6 0" and p = "\<lparr>png_width = 3, png_height = 1, png_rows = [[10, 20, 30]]\<rparr>"])
    simp_all

end
