(* ===== verification/Gpm.thy ===== *)
theory Gpm
  imports Resources C_Float
begin

text \<open>
  \<open>patches/code/fbview/ds_gpm.c\<close>: the position of the mouse, from the events of the library \<open>gpm\<close>. The
  library's constant, variables and functions are a record. Each round of the loop of \<open>gpm_is_moved\<close> is one
  answer of \<open>Gpm_GetEvent\<close>, \<open>None\<close> when it leaves the event as it was; the loop ends when \<open>select\<close>
  finds nothing more to read, which is the end of the list. Positions are \<open>int\<close> and far from its limits.
\<close>

unbundle bit_operations_syntax

section \<open>The code\<close>

record gpm_event =
  ev_type :: "32 word"
  ev_x :: int
  ev_y :: int

record gpm_connect =
  eventMask :: "16 word"
  defaultMask :: "16 word"
  minMod :: "16 word"
  maxMod :: "16 word"

record gpm_lib =
  GPM_MOVE :: "32 word"
  Gpm_Open :: "gpm_connect \<Rightarrow> int"
  Gpm_FitEvent :: "gpm_event \<Rightarrow> gpm_event"
  gpm_mx :: int
  gpm_my :: int

record gpm_state =
  gpm_ev :: gpm_event
  curr_x :: int
  curr_y :: int

definition gpm_start :: gpm_state where
  "gpm_start = \<lparr>gpm_ev = \<lparr>ev_type = 0, ev_x = 0, ev_y = 0\<rparr>, curr_x = 1, curr_y = 1\<rparr>"

text \<open>The connection to the mouse daemon, which \<open>gpm_init\<close> opens and \<open>gpm_uninit\<close> closes.\<close>

datatype gpm_resource = GpmConnection

definition gpm_init :: "gpm_lib \<Rightarrow> gpm_resource rev list \<times> gpm_connect \<times> int" where
  "gpm_init lib =
     (let conn = \<lparr>eventMask = ucast (GPM_MOVE lib), defaultMask = 0, minMod = 0, maxMod = NOT 0\<rparr> in
      if Gpm_Open lib conn = -1 then ([], conn, 1) else ([Acq GpmConnection], conn, 0))"

definition gpm_uninit :: "gpm_connect \<Rightarrow> gpm_resource rev list" where
  "gpm_uninit conn = [Rel GpmConnection]"

text \<open>The loop: the last event, \<open>new_x\<close> and \<open>new_y\<close>.\<close>

fun gpm_read :: "gpm_lib \<Rightarrow> gpm_event option list \<Rightarrow> gpm_event \<Rightarrow> int \<Rightarrow> int \<Rightarrow> gpm_event \<times> int \<times> int" where
  "gpm_read lib [] ev new_x new_y = (ev, new_x, new_y)"
| "gpm_read lib (a # as) ev new_x new_y =
     (let ev = Gpm_FitEvent lib (case a of None \<Rightarrow> ev | Some e \<Rightarrow> e) in
      if ev_type ev AND GPM_MOVE lib \<noteq> 0 then gpm_read lib as ev (ev_x ev) (ev_y ev)
      else gpm_read lib as ev new_x new_y)"

definition gpm_is_moved :: "gpm_lib \<Rightarrow> gpm_event option list \<Rightarrow> gpm_state \<Rightarrow> gpm_state \<times> int" where
  "gpm_is_moved lib as s =
     (case gpm_read lib as (gpm_ev s) (curr_x s) (curr_y s) of (ev, new_x, new_y) \<Rightarrow>
        if new_x = curr_x s \<and> new_y = curr_y s then (s\<lparr>gpm_ev := ev\<rparr>, 0)
        else (s\<lparr>gpm_ev := ev, curr_x := new_x, curr_y := new_y\<rparr>, 1))"

definition gpm_get_position :: "gpm_lib \<Rightarrow> gpm_state \<Rightarrow> c_float \<times> c_float" where
  "gpm_get_position lib s =
     (fdiv (float_of (curr_x s - 1)) (float_of (gpm_mx lib - 1)), fdiv (float_of (curr_y s - 1)) (float_of (gpm_my lib - 1)))"

section \<open>The connection\<close>

text \<open>The mouse keeps the contract of the drivers: opened and closed any number of times, nothing is left over.\<close>

interpretation gpm_mouse: resource_driver gpm_init gpm_uninit "\<lambda>_. True" "\<lambda>_. []"
  by unfold_locales (auto simp: gpm_init_def gpm_uninit_def Let_def split: if_splits)

section \<open>Positions\<close>

text \<open>The events of a call after fitting, the first one for the event left by the last call.\<close>

fun fitted :: "gpm_lib \<Rightarrow> gpm_event \<Rightarrow> gpm_event option list \<Rightarrow> gpm_event list" where
  "fitted lib ev [] = []"
| "fitted lib ev (a # as) = (let ev = Gpm_FitEvent lib (case a of None \<Rightarrow> ev | Some e \<Rightarrow> e) in ev # fitted lib ev as)"

text \<open>The place of the last event that reports a move.\<close>

definition moved_to :: "gpm_lib \<Rightarrow> gpm_event list \<Rightarrow> int \<times> int \<Rightarrow> int \<times> int" where
  "moved_to lib evs p = last (p # map (\<lambda>e. (ev_x e, ev_y e)) (filter (\<lambda>e. ev_type e AND GPM_MOVE lib \<noteq> 0) evs))"

lemma gpm_read_moved:
  "gpm_read lib as ev x y = (last (ev # fitted lib ev as), moved_to lib (fitted lib ev as) (x, y))"
  by (induction lib as ev x y rule: gpm_read.induct) (simp_all add: moved_to_def Let_def)

lemma gpm_is_moved_eq:
  "gpm_is_moved lib as s =
    (let p = moved_to lib (fitted lib (gpm_ev s) as) (curr_x s, curr_y s) in
     (\<lparr>gpm_ev = last (gpm_ev s # fitted lib (gpm_ev s) as), curr_x = fst p, curr_y = snd p\<rparr>,
      if p = (curr_x s, curr_y s) then 0 else 1))"
  unfolding gpm_is_moved_def gpm_read_moved by (auto simp: Let_def split: prod.split)

text \<open>\<open>Gpm_FitEvent\<close> moves the position of an event into the screen, which has more than one column
  and row. (Screens have at most some hundred of them.)\<close>

definition fits_screen :: "gpm_lib \<Rightarrow> bool" where
  "fits_screen lib \<longleftrightarrow> 1 < gpm_mx lib \<and> gpm_mx lib \<le> 2 ^ 24 \<and> 1 < gpm_my lib \<and> gpm_my lib \<le> 2 ^ 24 \<and>
     (\<forall>e. 1 \<le> ev_x (Gpm_FitEvent lib e) \<and> ev_x (Gpm_FitEvent lib e) \<le> gpm_mx lib \<and>
          1 \<le> ev_y (Gpm_FitEvent lib e) \<and> ev_y (Gpm_FitEvent lib e) \<le> gpm_my lib)"

definition on_screen :: "gpm_lib \<Rightarrow> int \<times> int \<Rightarrow> bool" where
  "on_screen lib p \<longleftrightarrow> 1 \<le> fst p \<and> fst p \<le> gpm_mx lib \<and> 1 \<le> snd p \<and> snd p \<le> gpm_my lib"

lemma fitted_on_screen:
  "fits_screen lib \<Longrightarrow> e \<in> set (fitted lib ev as) \<Longrightarrow> on_screen lib (ev_x e, ev_y e)"
  by (induction lib ev as rule: fitted.induct) (auto simp: fits_screen_def on_screen_def Let_def)

lemma is_moved_on_screen:
  assumes "fits_screen lib" and "on_screen lib (curr_x s, curr_y s)"
  shows "on_screen lib (curr_x (fst (gpm_is_moved lib as s)), curr_y (fst (gpm_is_moved lib as s)))"
proof -
  let ?ps = "map (\<lambda>e. (ev_x e, ev_y e)) (filter (\<lambda>e. ev_type e AND GPM_MOVE lib \<noteq> 0) (fitted lib (gpm_ev s) as))"
  have "on_screen lib p" if "p \<in> set ((curr_x s, curr_y s) # ?ps)" for p
    using that assms fitted_on_screen [OF assms(1)] by auto
  from this [OF last_in_set] show ?thesis by (simp add: gpm_is_moved_eq moved_to_def Let_def)
qed

text \<open>Any number of calls, each with the events that had arrived.\<close>

definition gpm_poll :: "gpm_lib \<Rightarrow> gpm_event option list list \<Rightarrow> gpm_state \<Rightarrow> gpm_state" where
  "gpm_poll lib = fold (\<lambda>as s. fst (gpm_is_moved lib as s))"

lemma poll_on_screen:
  "fits_screen lib \<Longrightarrow> on_screen lib (curr_x s, curr_y s) \<Longrightarrow> on_screen lib (curr_x (gpm_poll lib calls s), curr_y (gpm_poll lib calls s))"
  by (induction calls arbitrary: s) (simp_all add: gpm_poll_def is_moved_on_screen)

lemma recip_below:
  assumes "1 < m" and "m \<le> 2 ^ 24"
  shows "1 / 2 ^ 24 \<le> (1 / of_int (m - 1) :: rat)"
proof (rule divide_left_mono)
  have "(of_int (m - 1) :: rat) \<le> of_int (2 ^ 24)" using assms(2) by (simp only: of_int_le_iff)
  then show "(of_int (m - 1) :: rat) \<le> 2 ^ 24" by simp
qed (use assms(1) in simp_all)

text \<open>A column as a float: 0 for the first, 1 for the last, and strictly between for the others, in
  spite of rounding.\<close>

lemma fdiv_unit:
  assumes "1 \<le> c" and "c \<le> m" and "1 < m" and "m \<le> 2 ^ 24"
  shows "\<exists>x. fdiv (float_of (c - 1)) (float_of (m - 1)) = Fin x \<and> 0 \<le> x \<and> x \<le> 1 \<and> (x = 0 \<longleftrightarrow> c = 1) \<and> (x = 1 \<longleftrightarrow> c = m)"
proof -
  define q where "q = (of_int (c - 1) / of_int (m - 1) :: rat)"
  have q: "0 \<le> q" "q \<le> 1" using assms by (simp_all add: q_def divide_le_eq_1)
  have "fdiv (float_of (c - 1)) (float_of (m - 1)) = to_float q"
    using assms float_of_small [of "c - 1"] float_of_small [of "m - 1"] by (simp add: q_def)
  also have "\<dots> = Fin (round32 q)" using q by (intro to_float_small) simp
  finally have v: "fdiv (float_of (c - 1)) (float_of (m - 1)) = Fin (round32 q)" .
  have b: "0 \<le> round32 q" "round32 q \<le> 1" using single.mono [OF q(1)] single.mono [OF q(2)] single.rnd_0 single.rnd_1 by simp_all
  note eps = recip_below [OF assms(3,4)]
  have "0 < round32 q" if "c \<noteq> 1"
  proof -
    have "1 / of_int (m - 1) \<le> q" unfolding q_def by (rule divide_right_mono) (use assms that in simp_all)
    moreover have "is_float 24 149 (1 / 2 ^ 24)"
      unfolding is_float_def by (rule exI [of _ 1], rule exI [of _ 125]) simp
    ultimately show ?thesis using single.ge_float [of "1 / 2 ^ 24" q] eps by simp
  qed
  moreover have "round32 q < 1" if "c \<noteq> m"
  proof -
    have "q \<le> of_int (m - 1 - 1) / of_int (m - 1)" unfolding q_def by (rule divide_right_mono) (use assms that in simp_all)
    also have "\<dots> = 1 - 1 / of_int (m - 1)" using assms(3) by (simp add: field_simps)
    also have "\<dots> \<le> 1 - 1 / 2 ^ 24" using eps by simp
    finally have "q \<le> 1 - 1 / 2 ^ 24" .
    moreover have "is_float 24 149 (1 - 1 / 2 ^ 24)"
      unfolding is_float_def by (rule exI [of _ "2 ^ 24 - 1"], rule exI [of _ 125]) simp
    ultimately show ?thesis using single.le_float [of "1 - 1 / 2 ^ 24" q] by simp
  qed
  moreover have "c = 1 \<Longrightarrow> round32 q = 0" "c = m \<Longrightarrow> round32 q = 1"
    using assms(3) by (simp_all add: q_def single.rnd_0 single.rnd_1)
  ultimately show ?thesis using v b by force
qed

text \<open>
  C23. With a library that moves events into the screen, after any number of calls of \<open>gpm_is_moved\<close> the
  position is the place of the last event that reported a move, or where it was; a call returns 1 exactly
  when it changed the position; and \<open>gpm_get_position\<close> gives numbers from 0 to 1, with 0 at
  the left and upper edge only and 1 at the right and lower edge only.
\<close>

theorem gpm_positions:
  assumes "fits_screen lib" and "s = gpm_poll lib calls gpm_start" and run: "gpm_is_moved lib as s = (s', r)"
  shows "(curr_x s', curr_y s') = moved_to lib (fitted lib (gpm_ev s) as) (curr_x s, curr_y s) \<and>
      r = (if (curr_x s', curr_y s') = (curr_x s, curr_y s) then 0 else 1) \<and>
      (\<exists>x y. gpm_get_position lib s' = (Fin x, Fin y) \<and> 0 \<le> x \<and> x \<le> 1 \<and> 0 \<le> y \<and> y \<le> 1 \<and>
         (x = 0 \<longleftrightarrow> curr_x s' = 1) \<and> (x = 1 \<longleftrightarrow> curr_x s' = gpm_mx lib) \<and>
         (y = 0 \<longleftrightarrow> curr_y s' = 1) \<and> (y = 1 \<longleftrightarrow> curr_y s' = gpm_my lib))"
proof -
  have "on_screen lib (curr_x gpm_start, curr_y gpm_start)"
    using assms(1) by (simp add: on_screen_def gpm_start_def fits_screen_def)
  then have "on_screen lib (curr_x s, curr_y s)" unfolding assms(2) by (rule poll_on_screen [OF assms(1)])
  from is_moved_on_screen [OF assms(1) this, of as] have "on_screen lib (curr_x s', curr_y s')" using run by simp
  then have "\<exists>x y. gpm_get_position lib s' = (Fin x, Fin y) \<and> 0 \<le> x \<and> x \<le> 1 \<and> 0 \<le> y \<and> y \<le> 1 \<and>
         (x = 0 \<longleftrightarrow> curr_x s' = 1) \<and> (x = 1 \<longleftrightarrow> curr_x s' = gpm_mx lib) \<and>
         (y = 0 \<longleftrightarrow> curr_y s' = 1) \<and> (y = 1 \<longleftrightarrow> curr_y s' = gpm_my lib)"
    using assms(1) fdiv_unit [of "curr_x s'" "gpm_mx lib"] fdiv_unit [of "curr_y s'" "gpm_my lib"]
    unfolding on_screen_def fits_screen_def gpm_get_position_def by force
  moreover have "(curr_x s', curr_y s') = moved_to lib (fitted lib (gpm_ev s) as) (curr_x s, curr_y s) \<and>
      r = (if (curr_x s', curr_y s') = (curr_x s, curr_y s) then 0 else 1)"
    using run by (cases "moved_to lib (fitted lib (gpm_ev s) as) (curr_x s, curr_y s)") (auto simp: gpm_is_moved_eq Let_def)
  ultimately show ?thesis by blast
qed

text \<open>A text console of 80 columns and 25 rows.\<close>

definition console_gpm :: gpm_lib where
  "console_gpm = \<lparr>GPM_MOVE = 1, Gpm_Open = (\<lambda>_. 3),
     Gpm_FitEvent = (\<lambda>e. e\<lparr>ev_x := max 1 (min 80 (ev_x e)), ev_y := max 1 (min 25 (ev_y e))\<rparr>), gpm_mx = 80, gpm_my = 25\<rparr>"

theorem gpm_positions_witness:
  "\<exists>s' y. gpm_is_moved console_gpm [Some \<lparr>ev_type = 1, ev_x = 90, ev_y = 7\<rparr>, Some \<lparr>ev_type = 4, ev_x = 2, ev_y = 2\<rparr>]
      (gpm_poll console_gpm [] gpm_start) = (s', 1) \<and>
    curr_x s' = 80 \<and> curr_y s' = 7 \<and> gpm_get_position console_gpm s' = (Fin 1, Fin y) \<and> 0 < y \<and> y < 1"
proof -
  let ?as = "[Some \<lparr>ev_type = 1, ev_x = 90, ev_y = 7\<rparr>, Some \<lparr>ev_type = 4, ev_x = 2, ev_y = 2\<rparr>]"
  let ?s = "\<lparr>gpm_ev = \<lparr>ev_type = 4, ev_x = 2, ev_y = 2\<rparr>, curr_x = 80, curr_y = 7\<rparr>"
  have fits: "fits_screen console_gpm" by (simp add: fits_screen_def console_gpm_def)
  have run: "gpm_is_moved console_gpm ?as (gpm_poll console_gpm [] gpm_start) = (?s, 1)"
    by (simp add: gpm_is_moved_def gpm_poll_def gpm_start_def console_gpm_def Let_def)
  obtain x y where "gpm_get_position console_gpm ?s = (Fin x, Fin y)" "x = 1" "0 \<le> y" "y \<le> 1" "y \<noteq> 0" "y \<noteq> 1"
    using gpm_positions [OF fits refl run] by (auto simp: console_gpm_def)
  with run show ?thesis by (intro exI [of _ ?s] exI [of _ y]) simp
qed

text \<open>On a screen of one column the position is not a number.\<close>

lemma gpm_one_column: "gpm_mx lib = 1 \<Longrightarrow> curr_x s = 1 \<Longrightarrow> fst (gpm_get_position lib s) = NaN"
  by (simp add: gpm_get_position_def float_of_small)

end
