(* ===== verification/Yuv.thy ===== *)
theory Yuv
  imports Fb_Pixel C_Float
begin

text \<open>
  \<open>patches/code/fbview/rgb2yuv420.c\<close>: the lookup tables of \<open>InitLookupTable\<close>, computed in \<open>float\<close>, and
  \<open>RGB2YUV420\<close>. The bitmap, the result and the two temporary planes are lists of bytes that do not
  overlap; a pointer is an offset, and an access outside a list is \<open>Fault\<close>. The dimensions are natural
  numbers whose products fit an \<open>int\<close>; with a negative one the C code does nothing. Sums of table entries are unbounded integers,
  which the bounds on the tables justify.
\<close>

section \<open>The code\<close>

record yuv_tables =
  RGB2YUV_YR :: "int list"
  RGB2YUV_YG :: "int list"
  RGB2YUV_YB :: "int list"
  RGB2YUV_UR :: "int list"
  RGB2YUV_UG :: "int list"
  RGB2YUV_UBVR :: "int list"
  RGB2YUV_VG :: "int list"
  RGB2YUV_VB :: "int list"

text \<open>\<open>(int) ((float) c * (i << 8))\<close>; the constant \<open>c\<close> is a \<open>double\<close>.\<close>

definition table_entry :: "rat \<Rightarrow> nat \<Rightarrow> int res" where
  "table_entry c i = opt_res (trunc_int (fmul (narrow (Fin (round64 c))) (float_of (int (i * 256)))))"

definition fill_table :: "rat \<Rightarrow> int list res" where
  "fill_table c = concat_res (\<lambda>i. res_bind (table_entry c i) (\<lambda>v. Inr [v])) [0..<256]"

definition InitLookupTable :: "yuv_tables res" where
  "InitLookupTable =
     res_bind (fill_table (65481 / 1000)) (\<lambda>YR. res_bind (fill_table (128553 / 1000)) (\<lambda>YG.
     res_bind (fill_table (24966 / 1000)) (\<lambda>YB. res_bind (fill_table (37797 / 1000)) (\<lambda>UR.
     res_bind (fill_table (74203 / 1000)) (\<lambda>UG. res_bind (fill_table (93786 / 1000)) (\<lambda>VG.
     res_bind (fill_table (18214 / 1000)) (\<lambda>VB. res_bind (fill_table 112) (\<lambda>UBVR.
       Inr \<lparr>RGB2YUV_YR = YR, RGB2YUV_YG = YG, RGB2YUV_YB = YB, RGB2YUV_UR = UR, RGB2YUV_UG = UG, RGB2YUV_UBVR = UBVR,
         RGB2YUV_VG = VG, RGB2YUV_VB = VB\<rparr>))))))))"

text \<open>One pixel; a table has an entry for every byte.\<close>

definition y_sum :: "yuv_tables \<Rightarrow> rgb \<Rightarrow> int" where
  "y_sum T = (\<lambda>(r, g, b). RGB2YUV_YR T ! unat r + RGB2YUV_YG T ! unat g + RGB2YUV_YB T ! unat b + 1048576)"

definition u_sum :: "yuv_tables \<Rightarrow> rgb \<Rightarrow> int" where
  "u_sum T = (\<lambda>(r, g, b). - (RGB2YUV_UR T ! unat r) - RGB2YUV_UG T ! unat g + RGB2YUV_UBVR T ! unat b + 8388608)"

definition v_sum :: "yuv_tables \<Rightarrow> rgb \<Rightarrow> int" where
  "v_sum T = (\<lambda>(r, g, b). RGB2YUV_UBVR T ! unat r - RGB2YUV_VG T ! unat g - RGB2YUV_VB T ! unat b + 8388608)"

definition byte_of :: "int \<Rightarrow> 8 word" where
  "byte_of n = of_int (n div 65536)"

text \<open>The three planes that are written, each with the offset of its pointer.\<close>

record yuv_state =
  yb :: "fb_pixel list"
  ub :: "fb_pixel list"
  vb :: "fb_pixel list"
  ypos :: nat
  upos :: nat
  vpos :: nat

text \<open>\<open>*r\<close>, \<open>*g\<close> and \<open>*b\<close>: the last two pointers stay one and two bytes behind the first.\<close>

definition read_rgb :: "fb_pixel list \<Rightarrow> int \<Rightarrow> rgb res" where
  "read_rgb bmp r =
     (if r < 0 then Inl Fault
      else res_bind (peek bmp (nat r)) (\<lambda>R. res_bind (peek bmp (nat r + 1)) (\<lambda>G.
           res_bind (peek bmp (nat r + 2)) (\<lambda>B. Inr (R, G, B)))))"

definition convert_pixel :: "yuv_tables \<Rightarrow> fb_pixel list \<Rightarrow> int \<Rightarrow> yuv_state \<Rightarrow> yuv_state res" where
  "convert_pixel T bmp r s =
     res_bind (read_rgb bmp r) (\<lambda>c.
     res_bind (poke (yb s) (ypos s) (byte_of (y_sum T c))) (\<lambda>y.
     res_bind (poke (ub s) (upos s) (byte_of (u_sum T c))) (\<lambda>u.
     res_bind (poke (vb s) (vpos s) (byte_of (v_sum T c))) (\<lambda>v.
       Inr \<lparr>yb = y, ub = u, vb = v, ypos = ypos s + 1, upos = upos s + 1, vpos = vpos s + 1\<rparr>))))"

text \<open>The first pair of loops, over the rows from the last one up: \<open>rgb_line\<close> goes back by \<open>pitch\<close> for each
  row and \<open>r\<close> on by 3 for each column.\<close>

definition convert_rows :: "yuv_tables \<Rightarrow> nat \<Rightarrow> nat \<Rightarrow> fb_pixel list \<Rightarrow> yuv_state \<Rightarrow> yuv_state res" where
  "convert_rows T x_dim y_dim bmp s =
     (let pitch = int (x_dim * 3); rgb_line = pitch * (int y_dim - 1) in
      fold_res (\<lambda>i. fold_res (\<lambda>j. convert_pixel T bmp (rgb_line - int i * pitch + int j * 3)) [0..<x_dim]) [0..<y_dim] s)"

text \<open>The second pair of loops: \<open>pu1\<close> and \<open>pv1\<close> have the same offset \<open>p\<close> in their planes, and the other six
  pointers keep their distance to them.\<close>

definition mean4 :: "fb_pixel list \<Rightarrow> nat \<Rightarrow> nat \<Rightarrow> fb_pixel res" where
  "mean4 m x_dim p =
     res_bind (peek m p) (\<lambda>a. res_bind (peek m (p + 1)) (\<lambda>b.
     res_bind (peek m (p + x_dim)) (\<lambda>c. res_bind (peek m (p + x_dim + 1)) (\<lambda>d.
       Inr (of_nat ((unat a + unat b + unat c + unat d) div 4))))))"

record sub_state =
  sb :: "fb_pixel list"
  supos :: nat
  svpos :: nat
  spos :: nat

definition sub_pixel :: "nat \<Rightarrow> fb_pixel list \<Rightarrow> fb_pixel list \<Rightarrow> sub_state \<Rightarrow> sub_state res" where
  "sub_pixel x_dim uu vv s =
     res_bind (mean4 uu x_dim (spos s)) (\<lambda>u. res_bind (poke (sb s) (supos s) u) (\<lambda>m.
     res_bind (mean4 vv x_dim (spos s)) (\<lambda>v. res_bind (poke m (svpos s) v) (\<lambda>m.
       Inr \<lparr>sb = m, supos = supos s + 1, svpos = svpos s + 1, spos = spos s + 2\<rparr>))))"

definition evens :: "nat \<Rightarrow> nat list" where
  "evens n = map (\<lambda>k. 2 * k) [0..<(n + 1) div 2]"

definition sub_rows :: "nat \<Rightarrow> nat \<Rightarrow> fb_pixel list \<Rightarrow> fb_pixel list \<Rightarrow> sub_state \<Rightarrow> sub_state res" where
  "sub_rows x_dim y_dim uu vv s =
     fold_res (\<lambda>i s. res_bind (fold_res (\<lambda>j. sub_pixel x_dim uu vv) (evens x_dim) s) (\<lambda>s.
       Inr (s\<lparr>spos := spos s + x_dim\<rparr>))) (evens y_dim) s"

definition RGB2YUV420 ::
  "yuv_tables \<Rightarrow> nat \<Rightarrow> nat \<Rightarrow> fb_pixel list \<Rightarrow> fb_pixel list \<Rightarrow> fb_pixel list \<Rightarrow> fb_pixel list \<Rightarrow>
   (int \<times> fb_pixel list \<times> fb_pixel list \<times> fb_pixel list) res" where
  "RGB2YUV420 T x_dim y_dim bmp yuv tmp1 tmp2 =
     res_bind (convert_rows T x_dim y_dim bmp
       \<lparr>yb = yuv, ub = tmp1, vb = tmp2, ypos = 0, upos = 0, vpos = 0\<rparr>) (\<lambda>s.
     res_bind (sub_rows x_dim y_dim (ub s) (vb s)
       \<lparr>sb = yb s, supos = x_dim * y_dim, svpos = x_dim * y_dim + x_dim * y_dim div 4, spos = 0\<rparr>) (\<lambda>t.
       Inr (0, sb t, ub s, vb s)))"

section \<open>The tables\<close>

text \<open>An entry is the constant times 256 times the index, less than 4 away, and not negative.\<close>

lemma table_constant:
  assumes "16 \<le> c" and "c \<le> 129"
  shows "\<exists>f. narrow (Fin (round64 c)) = Fin f \<and> 0 \<le> f \<and> f \<le> 130 \<and> \<bar>f - c\<bar> \<le> 1 / 60000"
proof -
  define d where "d = round64 c"
  define f where "f = round32 d"
  have "c * (1 - 2 / 2 ^ 53) < d \<and> d < c * (1 + 2 / 2 ^ 53)" unfolding d_def
    by (rule double.relative_error) (rule order_trans [OF _ assms(1)], simp)
  then have d: "c * (1 - 1 / 2 ^ 30) \<le> d" "d \<le> c * (1 + 1 / 2 ^ 30)" using assms by simp_all
  have "d * (1 - 2 / 2 ^ 24) < f \<and> f < d * (1 + 2 / 2 ^ 24)" unfolding f_def
    by (rule single.relative_error) (use d assms in simp)
  then have f: "d - 131 / 2 ^ 23 \<le> f" "f \<le> d + 131 / 2 ^ 23" using d assms by simp_all
  have d': "c - 1 / 2 ^ 22 \<le> d" "d \<le> c + 1 / 2 ^ 22" using d assms by simp_all
  then have "f - c \<le> 1 / 60000" "- (f - c) \<le> 1 / 60000" using f by simp_all
  then have "\<bar>f - c\<bar> \<le> 1 / 60000" by (rule abs_leI)
  moreover have "narrow (Fin (round64 c)) = Fin f"
    using to_float_small [of d] d' assms by (simp add: d_def f_def abs_le_iff)
  moreover have "0 \<le> f" "f \<le> 130" using f d' assms by simp_all
  ultimately show ?thesis by blast
qed

lemma table_entry_near:
  assumes "16 \<le> c" and "c \<le> 129" and "i < 256"
  shows "\<exists>v. table_entry c i = Inr v \<and> 0 \<le> v \<and> \<bar>of_int v - c * (256 * of_nat i)\<bar> < 4"
proof -
  obtain f where f: "narrow (Fin (round64 c)) = Fin f" "0 \<le> f" "f \<le> 130" "\<bar>f - c\<bar> \<le> 1 / 60000"
    using table_constant [OF assms(1,2)] by blast
  define k where "k = (256 * of_nat i :: rat)"
  have k: "0 \<le> k" "k \<le> 65280" using assms(3) by (simp_all add: k_def)
  have "f * k \<le> 130 * 65280" using f(2,3) k by (intro mult_mono) simp_all
  then have p: "0 \<le> f * k" "f * k \<le> 2 ^ 23 + 2 ^ 20" "\<bar>f * k\<bar> \<le> 2 ^ 24" using f(2) k by simp_all
  define z where "z = round32 (f * k)"
  have z: "f * k - 1 < z" "z < f * k + 1" using single.near_grid [of "f * k" 149] p(3) by (simp_all add: z_def)
  have z0: "0 \<le> z" using single.mono [OF p(1)] single.rnd_0 by (simp add: z_def)
  have n: "0 \<le> \<lfloor>z\<rfloor>" "\<lfloor>z\<rfloor> < 2 ^ 31" using z0 z(2) p(2) by (simp_all add: floor_less_iff)
  have "float_of (int (i * 256)) = Fin k" using float_of_small [of "int (i * 256)"] assms(3) by (simp add: k_def mult.commute)
  then have "fmul (narrow (Fin (round64 c))) (float_of (int (i * 256))) = Fin z"
    using to_float_small [OF p(3)] by (simp only: f(1) fmul.simps z_def)
  then have "table_entry c i = Inr \<lfloor>z\<rfloor>" using z0 n(2) by (simp add: table_entry_def)
  moreover have "\<bar>of_int \<lfloor>z\<rfloor> - c * k\<bar> < 4"
  proof -
    have "\<bar>f * k - c * k\<bar> = \<bar>f - c\<bar> * k" using k(1) by (simp add: abs_mult left_diff_distrib [symmetric])
    also have "\<dots> \<le> 1 / 60000 * 65280" using f(4) k by (intro mult_mono) simp_all
    also have "\<dots> \<le> 2" by simp
    finally show ?thesis using z by linarith
  qed
  ultimately show ?thesis using n(1) by (intro exI [of _ "\<lfloor>z\<rfloor>"]) (simp only: k_def simp_thms)
qed

definition near_line :: "rat \<Rightarrow> int list \<Rightarrow> bool" where
  "near_line c xs \<longleftrightarrow> length xs = 256 \<and> (\<forall>i < 256. 0 \<le> xs ! i \<and> \<bar>of_int (xs ! i) - c * (256 * of_nat i)\<bar> < 4)"

lemma fill_table_ok:
  assumes "16 \<le> c" and "c \<le> 129"
  shows "\<exists>xs. fill_table c = Inr xs \<and> near_line c xs"
proof -
  let ?h = "\<lambda>i. projr (table_entry c i)"
  have e: "table_entry c i = Inr (?h i) \<and> 0 \<le> ?h i \<and> \<bar>of_int (?h i) - c * (256 * of_nat i)\<bar> < 4" if "i < 256" for i
    using table_entry_near [OF assms that] by force
  have "fill_table c = Inr (concat (map (\<lambda>i. [?h i]) [0..<256]))"
    unfolding fill_table_def
  proof (rule concat_res_Inr)
    fix i assume "i \<in> set [0..<256 :: nat]"
    then have "i < 256" by (simp only: set_upt atLeastLessThan_iff)
    then show "res_bind (table_entry c i) (\<lambda>v. Inr [v]) = Inr [?h i]" using e [of i] by (metis res_bind.simps(2))
  qed
  then have "fill_table c = Inr (map ?h [0..<256])" by (simp only: concat_map_singleton)
  moreover have "near_line c (map ?h [0..<256])" unfolding near_line_def using e by (simp del: upt_Suc upt_rec_numeral)
  ultimately show ?thesis by blast
qed

definition tables_ok :: "yuv_tables \<Rightarrow> bool" where
  "tables_ok T \<longleftrightarrow> near_line (65481 / 1000) (RGB2YUV_YR T) \<and> near_line (128553 / 1000) (RGB2YUV_YG T) \<and>
     near_line (24966 / 1000) (RGB2YUV_YB T) \<and> near_line (37797 / 1000) (RGB2YUV_UR T) \<and>
     near_line (74203 / 1000) (RGB2YUV_UG T) \<and> near_line (93786 / 1000) (RGB2YUV_VG T) \<and>
     near_line (18214 / 1000) (RGB2YUV_VB T) \<and> near_line 112 (RGB2YUV_UBVR T)"

lemma InitLookupTable_ok: "\<exists>T. InitLookupTable = Inr T \<and> tables_ok T"
proof -
  have "\<exists>xs. fill_table c = Inr xs \<and> near_line c xs" if "c \<in> {65481 / 1000, 128553 / 1000, 24966 / 1000, 37797 / 1000,
      74203 / 1000, 93786 / 1000, 18214 / 1000, 112}" for c
    by (rule fill_table_ok) (use that in auto)
  note t = this
  obtain YR YG YB UR where a: "fill_table (65481 / 1000) = Inr YR" "near_line (65481 / 1000) YR"
      "fill_table (128553 / 1000) = Inr YG" "near_line (128553 / 1000) YG"
      "fill_table (24966 / 1000) = Inr YB" "near_line (24966 / 1000) YB"
      "fill_table (37797 / 1000) = Inr UR" "near_line (37797 / 1000) UR"
    using t [of "65481 / 1000"] t [of "128553 / 1000"] t [of "24966 / 1000"] t [of "37797 / 1000"] by blast
  obtain UG VG VB UBVR where b: "fill_table (74203 / 1000) = Inr UG" "near_line (74203 / 1000) UG"
      "fill_table (93786 / 1000) = Inr VG" "near_line (93786 / 1000) VG"
      "fill_table (18214 / 1000) = Inr VB" "near_line (18214 / 1000) VB" "fill_table 112 = Inr UBVR" "near_line 112 UBVR"
    using t [of "74203 / 1000"] t [of "93786 / 1000"] t [of "18214 / 1000"] t [of 112] by blast
  show ?thesis unfolding InitLookupTable_def a(1,3,5,7) b(1,3,5,7) res_bind.simps tables_ok_def using a b by simp
qed

lemma table_bounds:
  fixes b :: "8 word"
  assumes "near_line c xs" and "0 \<le> c"
  shows "0 \<le> xs ! unat b" "of_int (xs ! unat b) < c * (256 * of_nat (unat b)) + 4"
    "c * (256 * of_nat (unat b)) - 4 < of_int (xs ! unat b)" "of_int (xs ! unat b) \<le> c * 65280 + 4"
proof -
  have b: "unat b < 256" using unsigned_less [of b, where ?'a = nat] by simp
  then have near: "0 \<le> xs ! unat b" "\<bar>of_int (xs ! unat b) - c * (256 * of_nat (unat b))\<bar> < 4"
    using assms(1) unfolding near_line_def by blast+
  then show "0 \<le> xs ! unat b" and up: "of_int (xs ! unat b) < c * (256 * of_nat (unat b)) + 4"
    and "c * (256 * of_nat (unat b)) - 4 < of_int (xs ! unat b)" by linarith+
  have "(256 * of_nat n :: rat) \<le> 65280" if "n < 256" for n :: nat using that by simp
  from this [OF b] have "(256 * of_nat (unat b) :: rat) \<le> 65280" .
  then have "c * (256 * of_nat (unat b)) \<le> c * 65280" using assms(2) by (rule mult_left_mono)
  then show "of_int (xs ! unat b) \<le> c * 65280 + 4" using up by linarith
qed

section \<open>One pixel\<close>

lemma byte_of_range:
  assumes "lo * 65536 \<le> n" and "n < (hi + 1) * 65536" and "0 \<le> lo" and "hi < 256"
  shows "uint (byte_of n) = n div 65536" "lo \<le> uint (byte_of n)" "uint (byte_of n) \<le> hi"
proof -
  have "n div 65536 * 65536 < (hi + 1) * 65536"
    using assms(2) div_mult_mod_eq [of n 65536] pos_mod_sign [of 65536 n] by linarith
  then have "n div 65536 < hi + 1" by (simp only: mult_less_cancel_right_pos zero_less_numeral)
  then have d: "lo \<le> n div 65536" "n div 65536 \<le> hi" using zdiv_mono1 [OF assms(1), of 65536] by simp_all
  then show "uint (byte_of n) = n div 65536"
    using assms(3,4) by (simp add: byte_of_def uint_word_of_int take_bit_int_eq_self)
  then show "lo \<le> uint (byte_of n)" "uint (byte_of n) \<le> hi" using d by simp_all
qed

lemma y_sum_range:
  assumes "tables_ok T"
  shows "16 * 65536 \<le> y_sum T c" "y_sum T c < (234 + 1) * 65536"
proof -
  obtain r g b where c: "c = (r, g, b)" by (cases c)
  have t: "near_line (65481 / 1000) (RGB2YUV_YR T)" "near_line (128553 / 1000) (RGB2YUV_YG T)" "near_line (24966 / 1000) (RGB2YUV_YB T)"
    using assms by (simp_all add: tables_ok_def)
  note R = table_bounds [OF t(1), of r] and G = table_bounds [OF t(2), of g] and B = table_bounds [OF t(3), of b]
  show "16 * 65536 \<le> y_sum T c" using R(1) G(1) B(1) by (simp add: y_sum_def c)
  have "(of_int (y_sum T c) :: rat) < of_int ((234 + 1) * 65536)" using R(4) G(4) B(4) by (simp add: y_sum_def c)
  then show "y_sum T c < (234 + 1) * 65536" by (simp only: of_int_less_iff)
qed

lemma u_sum_range:
  assumes "tables_ok T"
  shows "16 * 65536 \<le> u_sum T c" "u_sum T c < (239 + 1) * 65536"
proof -
  obtain r g b where c: "c = (r, g, b)" by (cases c)
  have t: "near_line (37797 / 1000) (RGB2YUV_UR T)" "near_line (74203 / 1000) (RGB2YUV_UG T)" "near_line 112 (RGB2YUV_UBVR T)"
    using assms by (simp_all add: tables_ok_def)
  note R = table_bounds [OF t(1), of r] and G = table_bounds [OF t(2), of g] and B = table_bounds [OF t(3), of b]
  have "of_int (16 * 65536) \<le> (of_int (u_sum T c) :: rat)" "(of_int (u_sum T c) :: rat) < of_int ((239 + 1) * 65536)"
    using R(1,4) G(1,4) B(1,4) by (simp_all add: u_sum_def c)
  then show "16 * 65536 \<le> u_sum T c" "u_sum T c < (239 + 1) * 65536" by (simp_all only: of_int_less_iff of_int_le_iff)
qed

lemma v_sum_range:
  assumes "tables_ok T"
  shows "16 * 65536 \<le> v_sum T c" "v_sum T c < (239 + 1) * 65536"
proof -
  obtain r g b where c: "c = (r, g, b)" by (cases c)
  have t: "near_line (93786 / 1000) (RGB2YUV_VG T)" "near_line (18214 / 1000) (RGB2YUV_VB T)" "near_line 112 (RGB2YUV_UBVR T)"
    using assms by (simp_all add: tables_ok_def)
  note G = table_bounds [OF t(1), of g] and B = table_bounds [OF t(2), of b] and R = table_bounds [OF t(3), of r]
  have "of_int (16 * 65536) \<le> (of_int (v_sum T c) :: rat)" "(of_int (v_sum T c) :: rat) < of_int ((239 + 1) * 65536)"
    using R(1,4) G(1,4) B(1,4) by (simp_all add: v_sum_def c)
  then show "16 * 65536 \<le> v_sum T c" "v_sum T c < (239 + 1) * 65536" by (simp_all only: of_int_less_iff of_int_le_iff)
qed

text \<open>A grey pixel has no colour: up to rounding, both colour components are in the middle.\<close>

lemma grey_sums:
  assumes "tables_ok T"
  shows "127 * 65536 \<le> u_sum T (g, g, g)" "u_sum T (g, g, g) < (128 + 1) * 65536"
    "127 * 65536 \<le> v_sum T (g, g, g)" "v_sum T (g, g, g) < (128 + 1) * 65536"
proof -
  have t: "near_line (37797 / 1000) (RGB2YUV_UR T)" "near_line (74203 / 1000) (RGB2YUV_UG T)" "near_line 112 (RGB2YUV_UBVR T)"
    "near_line (93786 / 1000) (RGB2YUV_VG T)" "near_line (18214 / 1000) (RGB2YUV_VB T)" using assms by (simp_all add: tables_ok_def)
  note b = table_bounds(2,3) [OF t(1), of g] table_bounds(2,3) [OF t(2), of g] table_bounds(2,3) [OF t(3), of g]
    table_bounds(2,3) [OF t(4), of g] table_bounds(2,3) [OF t(5), of g]
  have "of_int (127 * 65536) \<le> (of_int (u_sum T (g, g, g)) :: rat)" "(of_int (u_sum T (g, g, g)) :: rat) < of_int ((128 + 1) * 65536)"
    "of_int (127 * 65536) \<le> (of_int (v_sum T (g, g, g)) :: rat)" "(of_int (v_sum T (g, g, g)) :: rat) < of_int ((128 + 1) * 65536)"
    using b by (simp_all add: u_sum_def v_sum_def)
  then show "127 * 65536 \<le> u_sum T (g, g, g)" "u_sum T (g, g, g) < (128 + 1) * 65536"
    "127 * 65536 \<le> v_sum T (g, g, g)" "v_sum T (g, g, g) < (128 + 1) * 65536" by (simp_all only: of_int_less_iff of_int_le_iff)
qed

text \<open>
  C25. With the tables of \<open>InitLookupTable\<close>, which can always be computed, no component of a pixel wraps
  around: brightness stays between 16 and 234 and the two colour components between 16 and 239, within
  the ranges of video; and a grey pixel gets 127 or 128 for both.
\<close>

theorem yuv_pixel_range:
  "\<exists>T. InitLookupTable = Inr T \<and>
    (\<forall>c. uint (byte_of (y_sum T c)) = y_sum T c div 65536 \<and> 16 \<le> uint (byte_of (y_sum T c)) \<and> uint (byte_of (y_sum T c)) \<le> 234 \<and>
      uint (byte_of (u_sum T c)) = u_sum T c div 65536 \<and> 16 \<le> uint (byte_of (u_sum T c)) \<and> uint (byte_of (u_sum T c)) \<le> 239 \<and>
      uint (byte_of (v_sum T c)) = v_sum T c div 65536 \<and> 16 \<le> uint (byte_of (v_sum T c)) \<and> uint (byte_of (v_sum T c)) \<le> 239) \<and>
    (\<forall>g. uint (byte_of (u_sum T (g, g, g))) \<in> {127, 128} \<and> uint (byte_of (v_sum T (g, g, g))) \<in> {127, 128})"
proof -
  obtain T where T: "InitLookupTable = Inr T" "tables_ok T" using InitLookupTable_ok by blast
  have grey: "uint (byte_of n) \<in> {127, 128}" if "127 * 65536 \<le> n" "n < (128 + 1) * 65536" for n
    using byte_of_range(2,3) [OF that] by auto
  show ?thesis
    using T byte_of_range [OF y_sum_range [OF T(2)]] byte_of_range [OF u_sum_range [OF T(2)]] byte_of_range [OF v_sum_range [OF T(2)]]
      grey [OF grey_sums(1,2) [OF T(2)]] grey [OF grey_sums(3,4) [OF T(2)]]
    by (intro exI [of _ T] conjI allI) simp_all
qed

end
