(* ===== verification/Yuv_Planes.thy ===== *)
theory Yuv_Planes
  imports Yuv
begin

text \<open>
  What \<open>RGB2YUV420\<close> leaves behind: the plane of the brightness, turned upside down, and the two planes of
  the colour at half the width and height, for every even size; and that an odd height reads outside.
\<close>

section \<open>The first loops\<close>

definition rgb_at :: "fb_pixel list \<Rightarrow> nat \<Rightarrow> rgb" where
  "rgb_at bmp n = (bmp ! (3 * n), bmp ! (3 * n + 1), bmp ! (3 * n + 2))"

lemma read_rgb_at: "3 * n + 2 < length bmp \<Longrightarrow> read_rgb bmp (3 * int n) = Inr (rgb_at bmp n)"
  by (simp add: read_rgb_def rgb_at_def peek_def nat_mult_distrib)

definition converted ::
  "yuv_tables \<Rightarrow> fb_pixel list \<Rightarrow> fb_pixel list \<Rightarrow> fb_pixel list \<Rightarrow> rgb list \<Rightarrow> yuv_state" where
  "converted T Y U V cs = \<lparr>yb = over Y 0 (map (byte_of \<circ> y_sum T) cs), ub = over U 0 (map (byte_of \<circ> u_sum T) cs),
     vb = over V 0 (map (byte_of \<circ> v_sum T) cs), ypos = length cs, upos = length cs, vpos = length cs\<rparr>"

lemma convert_pixels:
  assumes "\<And>n. n \<in> set ns \<Longrightarrow> 3 * n + 2 < length bmp"
    and "length cs + length ns \<le> length Y" and "length cs + length ns \<le> length U" and "length cs + length ns \<le> length V"
  shows "fold_res (\<lambda>n. convert_pixel T bmp (3 * int n)) ns (converted T Y U V cs) = Inr (converted T Y U V (cs @ map (rgb_at bmp) ns))"
  using assms
proof (induction ns arbitrary: cs)
  case (Cons n ns)
  let ?c = "rgb_at bmp n"
  have "convert_pixel T bmp (3 * int n) (converted T Y U V cs) = Inr (converted T Y U V (cs @ [?c]))"
    using Cons.prems read_rgb_at [of n bmp] poke_over [of 0 "map (byte_of \<circ> y_sum T) cs" Y]
      poke_over [of 0 "map (byte_of \<circ> u_sum T) cs" U] poke_over [of 0 "map (byte_of \<circ> v_sum T) cs" V]
    by (simp add: convert_pixel_def converted_def)
  then show ?case using Cons.IH [of "cs @ [?c]"] Cons.prems by simp
qed simp

text \<open>The pixels in the order of the loops, the last row of the bitmap first.\<close>

definition bottom_up :: "nat \<Rightarrow> nat \<Rightarrow> nat list" where
  "bottom_up x y = concat (map (\<lambda>i. map (\<lambda>j. (y - 1 - i) * x + j) [0..<x]) [0..<y])"

lemma length_bottom_up: "length (bottom_up x y) = x * y"
  by (simp add: bottom_up_def length_concat comp_def sum_list_triv mult.commute)

lemma bottom_up_less:
  assumes "n \<in> set (bottom_up x y)"
  shows "n < x * y"
proof -
  obtain i j where ij: "i < y" "j < x" "n = (y - 1 - i) * x + j"
    using assms unfolding bottom_up_def by (simp only: set_concat set_map image_image set_upt) force
  then have "n < (y - 1 - i + 1) * x" by simp
  also have "\<dots> \<le> y * x" using ij(1) by (intro mult_le_mono1) simp
  finally show ?thesis by (simp add: mult.commute)
qed

lemma convert_rows_eq:
  assumes "3 * (x * y) \<le> length bmp" and "x * y \<le> length Y" and "x * y \<le> length U" and "x * y \<le> length V"
  shows "convert_rows T x y bmp \<lparr>yb = Y, ub = U, vb = V, ypos = 0, upos = 0, vpos = 0\<rparr>
    = Inr (converted T Y U V (map (rgb_at bmp) (bottom_up x y)))"
proof -
  have place: "int (x * 3) * (int y - 1) - int i * int (x * 3) + int j * 3 = 3 * int ((y - 1 - i) * x + j)" if "i < y" for i j
  proof -
    have "int (y - 1 - i) = int y - 1 - int i" using that by simp
    then show ?thesis by (simp only: of_nat_add of_nat_mult) (simp add: algebra_simps)
  qed
  have "convert_rows T x y bmp s = fold_res (\<lambda>n. convert_pixel T bmp (3 * int n)) (bottom_up x y) s" for s
    unfolding convert_rows_def Let_def bottom_up_def fold_res_concat fold_res_map
    by (intro fold_res_cong refl) (simp only: set_upt atLeastLessThan_iff place)
  then show ?thesis
    using convert_pixels [of "bottom_up x y" bmp "[]" Y U V T] assms bottom_up_less length_bottom_up [of x y]
    by (fastforce simp: converted_def)
qed

section \<open>The second loops\<close>

definition mean_at :: "fb_pixel list \<Rightarrow> nat \<Rightarrow> nat \<Rightarrow> fb_pixel" where
  "mean_at m x p = of_nat ((unat (m ! p) + unat (m ! (p + 1)) + unat (m ! (p + x)) + unat (m ! (p + x + 1))) div 4)"

lemma mean4_ok: "p + x + 1 < length m \<Longrightarrow> mean4 m x p = Inr (mean_at m x p)"
  by (simp add: mean4_def mean_at_def peek_def)

definition subsampled :: "fb_pixel list \<Rightarrow> nat \<Rightarrow> nat \<Rightarrow> fb_pixel list \<Rightarrow> fb_pixel list \<Rightarrow> nat \<Rightarrow> sub_state" where
  "subsampled m a b us vs p =
     \<lparr>sb = over (over m a us) b vs, supos = a + length us, svpos = b + length vs, spos = p\<rparr>"

lemma sub_pixel_step:
  assumes "p + x + 1 < length uu" and "p + x + 1 < length vv" and "a + length us < b" and "b + length vs < length m"
  shows "sub_pixel x uu vv (subsampled m a b us vs p) = Inr (subsampled m a b (us @ [mean_at uu x p]) (vs @ [mean_at vv x p]) (p + 2))"
proof -
  have "poke (over (over m a (us @ [u])) b vs) (b + length vs) v = Inr (over (over m a (us @ [u])) b (vs @ [v]))" for u v
    using assms(3,4) by (intro poke_over) simp
  then show ?thesis
    using assms poke_below_over [of a us b vs m] by (simp add: sub_pixel_def subsampled_def mean4_ok)
qed

lemma sub_row:
  assumes "p + 2 * length js + x \<le> length uu" and "p + 2 * length js + x \<le> length vv"
    and "a + length us + length js \<le> b" and "b + length vs + length js \<le> length m"
  shows "fold_res (\<lambda>j. sub_pixel x uu vv) js (subsampled m a b us vs p)
    = Inr (subsampled m a b (us @ map (\<lambda>t. mean_at uu x (p + 2 * t)) [0..<length js])
        (vs @ map (\<lambda>t. mean_at vv x (p + 2 * t)) [0..<length js]) (p + 2 * length js))"
  using assms
proof (induction js rule: rev_induct)
  case (snoc j js)
  then show ?case by (simp add: fold_res_append sub_pixel_step)
qed simp

text \<open>The offsets of the upper left pixels of the blocks of four.\<close>

definition blocks :: "nat \<Rightarrow> nat \<Rightarrow> nat list" where
  "blocks x y = concat (map (\<lambda>i. map (\<lambda>j. 2 * i * x + 2 * j) [0..<x div 2]) [0..<y div 2])"

lemma length_blocks: "length (blocks x y) = x div 2 * (y div 2)"
  by (simp add: blocks_def length_concat comp_def sum_list_triv mult.commute)

lemma blocks_Suc: "blocks x (2 * Suc n) = blocks x (2 * n) @ map (\<lambda>j. 2 * n * x + 2 * j) [0..<x div 2]"
  by (simp add: blocks_def)

lemma sub_rows_prefix:
  assumes "length is \<le> g" and "2 * h * (2 * g) \<le> length uu" and "2 * h * (2 * g) \<le> length vv"
    and "a + h * g \<le> b" and "b + h * g \<le> length m"
  shows "fold_res (\<lambda>i s. res_bind (fold_res (\<lambda>j. sub_pixel (2 * h) uu vv) (evens (2 * h)) s) (\<lambda>s. Inr (s\<lparr>spos := spos s + 2 * h\<rparr>)))
      is (subsampled m a b [] [] 0)
    = Inr (subsampled m a b (map (mean_at uu (2 * h)) (blocks (2 * h) (2 * length is)))
        (map (mean_at vv (2 * h)) (blocks (2 * h) (2 * length is))) (2 * length is * (2 * h)))"
  using assms(1)
proof (induction "is" rule: rev_induct)
  case Nil
  then show ?case by (simp add: blocks_def)
next
  case (snoc i "is")
  let ?n = "length is" and ?x = "2 * h"
  let ?us = "map (mean_at uu ?x) (blocks ?x (2 * ?n))" and ?vs = "map (mean_at vv ?x) (blocks ?x (2 * ?n))"
  have js: "length (evens ?x) = h" by (simp add: evens_def)
  have "(?n + 1) * (4 * h) \<le> g * (4 * h)" using snoc.prems by (intro mult_le_mono1) simp
  then have fit: "2 * ?n * ?x + 2 * h + ?x \<le> length uu" "2 * ?n * ?x + 2 * h + ?x \<le> length vv"
    using assms(2,3) by (simp_all add: algebra_simps)
  have "h * (?n + 1) \<le> h * g" using snoc.prems by (intro mult_le_mono2) simp
  then have room: "a + length ?us + h \<le> b" "b + length ?vs + h \<le> length m"
    using assms(4,5) by (simp_all add: length_blocks)
  have "fold_res (\<lambda>j. sub_pixel ?x uu vv) (evens ?x) (subsampled m a b ?us ?vs (2 * ?n * ?x))
    = Inr (subsampled m a b (?us @ map (\<lambda>t. mean_at uu ?x (2 * ?n * ?x + 2 * t)) [0..<h])
        (?vs @ map (\<lambda>t. mean_at vv ?x (2 * ?n * ?x + 2 * t)) [0..<h]) (2 * ?n * ?x + 2 * h))"
    using sub_row [of "2 * ?n * ?x" "evens ?x" ?x uu vv a ?us b ?vs m] fit room unfolding js by blast
  moreover have "map (mean_at w ?x) (blocks ?x (2 * length (is @ [i])))
      = map (mean_at w ?x) (blocks ?x (2 * ?n)) @ map (\<lambda>t. mean_at w ?x (2 * ?n * ?x + 2 * t)) [0..<h]" for w
    using blocks_Suc [of ?x ?n] by simp
  ultimately show ?case using snoc by (simp add: fold_res_append subsampled_def algebra_simps)
qed

text \<open>
  C22. For every even width and height and buffers of the right size, \<open>RGB2YUV420\<close> returns 0 without
  leaving them, and the result is the brightness of all pixels, the last row of the bitmap first,
  then for each block of four pixels the mean of the first and then of the second colour component,
  in the same order; what follows is left alone.
\<close>

theorem yuv420_planes:
  assumes "even x" and "even y" and "3 * (x * y) \<le> length bmp" and "x * y + 2 * (x * y div 4) \<le> length yuv"
    and "length tmp1 = x * y" and "length tmp2 = x * y"
  shows "RGB2YUV420 T x y bmp yuv tmp1 tmp2 =
    (let cs = map (rgb_at bmp) (bottom_up x y); U = map (byte_of \<circ> u_sum T) cs; V = map (byte_of \<circ> v_sum T) cs in
     Inr (0, map (byte_of \<circ> y_sum T) cs @ map (mean_at U x) (blocks x y) @ map (mean_at V x) (blocks x y) @
       drop (x * y + 2 * (x * y div 4)) yuv, U, V))"
proof -
  obtain h g where xy: "x = 2 * h" "y = 2 * g" using assms(1,2) by (elim evenE)
  define cs where "cs = map (rgb_at bmp) (bottom_up x y)"
  define Y U V where "Y = map (byte_of \<circ> y_sum T) cs" and "U = map (byte_of \<circ> u_sum T) cs" and "V = map (byte_of \<circ> v_sum T) cs"
  have len: "length cs = x * y" "length Y = x * y" "length U = x * y" "length V = x * y"
    by (simp_all add: cs_def Y_def U_def V_def length_bottom_up)
  have q: "x * y div 4 = h * g" by (simp add: xy)
  have rows: "convert_rows T x y bmp \<lparr>yb = yuv, ub = tmp1, vb = tmp2, ypos = 0, upos = 0, vpos = 0\<rparr>
      = Inr (converted T yuv tmp1 tmp2 cs)" unfolding cs_def using assms by (intro convert_rows_eq) simp_all
  have planes: "ub (converted T yuv tmp1 tmp2 cs) = U" "vb (converted T yuv tmp1 tmp2 cs) = V" "yb (converted T yuv tmp1 tmp2 cs) = over yuv 0 Y"
    using assms(5,6) len by (simp_all add: converted_def over_def U_def V_def Y_def)
  have evens: "length (evens y) = g" "evens x = evens (2 * h)" by (simp_all add: evens_def xy)
  let ?us = "map (mean_at U x) (blocks x y)" and ?vs = "map (mean_at V x) (blocks x y)"
  have bl: "length ?us = h * g" "length ?vs = h * g" by (simp_all add: length_blocks xy)
  have len_over: "length (over yuv 0 Y) = length yuv" using assms(4) len by simp
  have "sub_rows x y U V \<lparr>sb = over yuv 0 Y, supos = x * y, svpos = x * y + x * y div 4, spos = 0\<rparr>
      = Inr (subsampled (over yuv 0 Y) (x * y) (x * y + h * g) ?us ?vs (2 * g * x))"
    using sub_rows_prefix [of "evens y" g h U V "x * y" "x * y + h * g" "over yuv 0 Y"] len len_over assms(4) q evens
    by (simp add: sub_rows_def subsampled_def xy mult.commute mult.left_commute)
  then have run: "RGB2YUV420 T x y bmp yuv tmp1 tmp2
      = Inr (0, over (over (over yuv 0 Y) (x * y) ?us) (x * y + h * g) ?vs, U, V)"
    unfolding RGB2YUV420_def rows res_bind.simps planes by (simp add: subsampled_def)
  have "over (over (over yuv 0 Y) (x * y) ?us) (x * y + h * g) ?vs = Y @ ?us @ ?vs @ drop (x * y + 2 * (h * g)) yuv"
    using len bl assms(4) q by (simp add: over_def mult_2 add.commute add.left_commute)
  with run show ?thesis unfolding Let_def cs_def [symmetric] Y_def [symmetric] U_def [symmetric] V_def [symmetric] q by simp
qed

definition flat_tables :: yuv_tables where
  "flat_tables = (let z = replicate 256 0 in
     \<lparr>RGB2YUV_YR = z, RGB2YUV_YG = z, RGB2YUV_YB = z, RGB2YUV_UR = z, RGB2YUV_UG = z, RGB2YUV_UBVR = z, RGB2YUV_VG = z, RGB2YUV_VB = z\<rparr>)"

theorem yuv420_planes_witness:
  "RGB2YUV420 flat_tables 2 2 (replicate 12 0) [9, 9, 9, 9, 9, 9, 9] [0, 0, 0, 0] [0, 0, 0, 0]
    = Inr (0, [16, 16, 16, 16, 128, 128, 9], [128, 128, 128, 128], [128, 128, 128, 128])"
  using yuv420_planes [of 2 2 "replicate 12 0" "[9, 9, 9, 9, 9, 9, 9]" "[0, 0, 0, 0]" "[0, 0, 0, 0]" flat_tables]
  by (simp add: bottom_up_def blocks_def rgb_at_def mean_at_def y_sum_def u_sum_def v_sum_def byte_of_def flat_tables_def
      Let_def upt_rec)

section \<open>Odd heights\<close>

text \<open>
  With an odd height the last row has no partner, and the second loops read behind the temporary planes:
  the conversion is not defined for any positive even width.
\<close>

theorem yuv420_odd_height_faults:
  assumes "even x" and "0 < x" and "odd y" and "3 * (x * y) \<le> length bmp" and "x * y + 2 * (x * y div 4) \<le> length yuv"
    and "length tmp1 = x * y" and "length tmp2 = x * y"
  shows "RGB2YUV420 T x y bmp yuv tmp1 tmp2 = Inl Fault"
proof -
  obtain h where x: "x = 2 * h" using assms(1) by (elim evenE)
  obtain g where y: "y = 2 * g + 1" using assms(3) by (elim oddE)
  define s where "s = converted T yuv tmp1 tmp2 (map (rgb_at bmp) (bottom_up x y))"
  have rows: "convert_rows T x y bmp \<lparr>yb = yuv, ub = tmp1, vb = tmp2, ypos = 0, upos = 0, vpos = 0\<rparr> = Inr s"
    unfolding s_def using assms by (intro convert_rows_eq) simp_all
  have len: "length (ub s) = x * y" "length (vb s) = x * y" "length (yb s) = length yuv"
    using assms(5-7) by (simp_all add: s_def converted_def length_bottom_up)
  have q: "h * g \<le> x * y div 4" by (simp add: x y)
  have ev: "evens y = evens (2 * g) @ [2 * g]" "length (evens (2 * g)) = g" by (simp_all add: evens_def y)
  have hd: "evens (2 * h) = 0 # tl (evens (2 * h))" using assms(2) by (simp add: evens_def x upt_rec)
  let ?b = "x * y + x * y div 4"
  let ?row = "\<lambda>i s'. res_bind (fold_res (\<lambda>j. sub_pixel (2 * h) (ub s) (vb s)) (evens (2 * h)) s') (\<lambda>s. Inr (s\<lparr>spos := spos s + 2 * h\<rparr>))"
  have "fold_res ?row (evens (2 * g)) (subsampled (yb s) (x * y) ?b [] [] 0)
    = Inr (subsampled (yb s) (x * y) ?b (map (mean_at (ub s) (2 * h)) (blocks (2 * h) (2 * g)))
        (map (mean_at (vb s) (2 * h)) (blocks (2 * h) (2 * g))) (2 * g * (2 * h)))"
    using sub_rows_prefix [of "evens (2 * g)" g h "ub s" "vb s" "x * y" ?b "yb s"] len assms(5) q ev(2) by (simp add: x y)
  moreover have "mean4 (ub s) (2 * h) (2 * g * (2 * h)) = Inl Fault"
    using len(1) assms(2) by (simp add: mean4_def peek_def x y algebra_simps)
  then have "?row i (subsampled (yb s) (x * y) ?b us vs (2 * g * (2 * h))) = Inl Fault" for i us vs
    by (subst hd) (simp add: sub_pixel_def subsampled_def)
  ultimately have "sub_rows x y (ub s) (vb s) (subsampled (yb s) (x * y) ?b [] [] 0) = Inl Fault"
    unfolding sub_rows_def ev(1) by (simp add: fold_res_append x)
  then show ?thesis unfolding RGB2YUV420_def rows res_bind.simps by (simp add: subsampled_def)
qed

theorem yuv420_odd_height_faults_witness:
  "RGB2YUV420 flat_tables 2 1 (replicate 6 0) [9, 9, 9] [0, 0] [0, 0] = Inl Fault"
  by (rule yuv420_odd_height_faults) simp_all

end
