(* ===== verification/Getconf.thy ===== *)
theory Getconf
  imports Prelude
begin

text \<open>
  \<open>patches/code/getconf.c\<close>: the table of the configuration variables, the five handlers and \<open>main\<close>. The
  numbers behind the macros of the system's headers are the argument \<open>cval\<close>, from the name of the macro
  to its value as a 32-bit \<open>long\<close>; \<open>sysconf\<close>, \<open>confstr\<close>, \<open>pathconf\<close>, \<open>malloc\<close> and the state of \<open>stdout\<close> at the
  end are the record \<open>sysenv\<close>. What goes to \<open>stderr\<close> is not modelled.
\<close>

section \<open>The table\<close>

datatype conf_type = SYSCONF | CONFSTR | PATHCONF | CONSTANT | UCONSTANT

record conf_variable =
  cv_name :: string
  cv_type :: conf_type
  cv_value :: string

definition CV :: "string \<Rightarrow> conf_type \<Rightarrow> string \<Rightarrow> conf_variable" where
  "CV name type macro = \<lparr>cv_name = name, cv_type = type, cv_value = macro\<rparr>"

definition conf_table :: "conf_variable list" where
  "conf_table = [
     CV ''PATH'' CONFSTR ''_CS_PATH'',
     CV ''POSIX2_BC_BASE_MAX'' CONSTANT ''_POSIX2_BC_BASE_MAX'',
     CV ''POSIX2_BC_DIM_MAX'' CONSTANT ''_POSIX2_BC_DIM_MAX'',
     CV ''POSIX2_BC_SCALE_MAX'' CONSTANT ''_POSIX2_BC_SCALE_MAX'',
     CV ''POSIX2_BC_STRING_MAX'' CONSTANT ''_POSIX2_BC_STRING_MAX'',
     CV ''POSIX2_COLL_WEIGHTS_MAX'' CONSTANT ''_POSIX2_COLL_WEIGHTS_MAX'',
     CV ''POSIX2_EXPR_NEST_MAX'' CONSTANT ''_POSIX2_EXPR_NEST_MAX'',
     CV ''POSIX2_LINE_MAX'' CONSTANT ''_POSIX2_LINE_MAX'',
     CV ''POSIX2_RE_DUP_MAX'' CONSTANT ''_POSIX2_RE_DUP_MAX'',
     CV ''POSIX2_VERSION'' CONSTANT ''_POSIX2_VERSION'',
     CV ''_POSIX_AIO_LISTIO_MAX'' CONSTANT ''_POSIX_AIO_LISTIO_MAX'',
     CV ''_POSIX_AIO_MAX'' CONSTANT ''_POSIX_AIO_MAX'',
     CV ''_POSIX_ARG_MAX'' CONSTANT ''_POSIX_ARG_MAX'',
     CV ''_POSIX_CHILD_MAX'' CONSTANT ''_POSIX_CHILD_MAX'',
     CV ''_POSIX_LINK_MAX'' CONSTANT ''_POSIX_LINK_MAX'',
     CV ''_POSIX_MAX_CANON'' CONSTANT ''_POSIX_MAX_CANON'',
     CV ''_POSIX_MAX_INPUT'' CONSTANT ''_POSIX_MAX_INPUT'',
     CV ''_POSIX_MQ_OPEN_MAX'' CONSTANT ''_POSIX_MQ_OPEN_MAX'',
     CV ''_POSIX_MQ_PRIO_MAX'' CONSTANT ''_POSIX_MQ_PRIO_MAX'',
     CV ''_POSIX_NAME_MAX'' CONSTANT ''_POSIX_NAME_MAX'',
     CV ''_POSIX_NGROUPS_MAX'' CONSTANT ''_POSIX_NGROUPS_MAX'',
     CV ''_POSIX_OPEN_MAX'' CONSTANT ''_POSIX_OPEN_MAX'',
     CV ''_POSIX_PATH_MAX'' CONSTANT ''_POSIX_PATH_MAX'',
     CV ''_POSIX_PIPE_BUF'' CONSTANT ''_POSIX_PIPE_BUF'',
     CV ''_POSIX_SSIZE_MAX'' CONSTANT ''_POSIX_SSIZE_MAX'',
     CV ''_POSIX_STREAM_MAX'' CONSTANT ''_POSIX_STREAM_MAX'',
     CV ''_POSIX_TZNAME_MAX'' CONSTANT ''_POSIX_TZNAME_MAX'',
     CV ''BC_BASE_MAX'' SYSCONF ''_SC_BC_BASE_MAX'',
     CV ''BC_DIM_MAX'' SYSCONF ''_SC_BC_DIM_MAX'',
     CV ''BC_SCALE_MAX'' SYSCONF ''_SC_BC_SCALE_MAX'',
     CV ''BC_STRING_MAX'' SYSCONF ''_SC_BC_STRING_MAX'',
     CV ''COLL_WEIGHTS_MAX'' SYSCONF ''_SC_COLL_WEIGHTS_MAX'',
     CV ''EXPR_NEST_MAX'' SYSCONF ''_SC_EXPR_NEST_MAX'',
     CV ''LINE_MAX'' SYSCONF ''_SC_LINE_MAX'',
     CV ''RE_DUP_MAX'' SYSCONF ''_SC_RE_DUP_MAX'',
     CV ''_POSIX2_C_BIND'' SYSCONF ''_SC_2_C_BIND'',
     CV ''POSIX2_C_DEV'' SYSCONF ''_SC_2_C_DEV'',
     CV ''POSIX2_CHAR_TERM'' SYSCONF ''_SC_2_CHAR_TERM'',
     CV ''POSIX2_FORT_DEV'' SYSCONF ''_SC_2_FORT_DEV'',
     CV ''POSIX2_FORT_RUN'' SYSCONF ''_SC_2_FORT_RUN'',
     CV ''POSIX2_LOCALEDEF'' SYSCONF ''_SC_2_LOCALEDEF'',
     CV ''POSIX2_SW_DEV'' SYSCONF ''_SC_2_SW_DEV'',
     CV ''POSIX2_UPE'' SYSCONF ''_SC_2_UPE'',
     CV ''AIO_LISTIO_MAX'' SYSCONF ''_SC_AIO_LISTIO_MAX'',
     CV ''AIO_MAX'' SYSCONF ''_SC_AIO_MAX'',
     CV ''ARG_MAX'' SYSCONF ''_SC_ARG_MAX'',
     CV ''CHILD_MAX'' SYSCONF ''_SC_CHILD_MAX'',
     CV ''CLK_TCK'' SYSCONF ''_SC_CLK_TCK'',
     CV ''MQ_OPEN_MAX'' SYSCONF ''_SC_MQ_OPEN_MAX'',
     CV ''MQ_PRIO_MAX'' SYSCONF ''_SC_MQ_PRIO_MAX'',
     CV ''NGROUPS_MAX'' SYSCONF ''_SC_NGROUPS_MAX'',
     CV ''OPEN_MAX'' SYSCONF ''_SC_OPEN_MAX'',
     CV ''STREAM_MAX'' SYSCONF ''_SC_STREAM_MAX'',
     CV ''TZNAME_MAX'' SYSCONF ''_SC_TZNAME_MAX'',
     CV ''_POSIX_JOB_CONTROL'' SYSCONF ''_SC_JOB_CONTROL'',
     CV ''_POSIX_SAVED_IDS'' SYSCONF ''_SC_SAVED_IDS'',
     CV ''_POSIX_VERSION'' SYSCONF ''_SC_VERSION'',
     CV ''LINK_MAX'' PATHCONF ''_PC_LINK_MAX'',
     CV ''MAX_CANON'' PATHCONF ''_PC_MAX_CANON'',
     CV ''MAX_INPUT'' PATHCONF ''_PC_MAX_INPUT'',
     CV ''NAME_MAX'' PATHCONF ''_PC_NAME_MAX'',
     CV ''PATH_MAX'' PATHCONF ''_PC_PATH_MAX'',
     CV ''PIPE_BUF'' PATHCONF ''_PC_PIPE_BUF'',
     CV ''_POSIX_CHOWN_RESTRICTED'' PATHCONF ''_PC_CHOWN_RESTRICTED'',
     CV ''_POSIX_NO_TRUNC'' PATHCONF ''_PC_NO_TRUNC'',
     CV ''_POSIX_VDISABLE'' PATHCONF ''_PC_VDISABLE'',
     CV ''PAGESIZE'' SYSCONF ''_SC_PAGESIZE'',
     CV ''_POSIX_ASYNCHRONOUS_IO'' SYSCONF ''_SC_ASYNCHRONOUS_IO'',
     CV ''_POSIX_FSYNC'' SYSCONF ''_SC_FSYNC'',
     CV ''_POSIX_MAPPED_FILES'' SYSCONF ''_SC_MAPPED_FILES'',
     CV ''_POSIX_MEMLOCK'' SYSCONF ''_SC_MEMLOCK'',
     CV ''_POSIX_MEMLOCK_RANGE'' SYSCONF ''_SC_MEMLOCK_RANGE'',
     CV ''_POSIX_MEMORY_PROTECTION'' SYSCONF ''_SC_MEMORY_PROTECTION'',
     CV ''_POSIX_MESSAGE_PASSING'' SYSCONF ''_SC_MESSAGE_PASSING'',
     CV ''_POSIX_MONOTONIC_CLOCK'' SYSCONF ''_SC_MONOTONIC_CLOCK'',
     CV ''_POSIX_PRIORITY_SCHEDULING'' SYSCONF ''_SC_PRIORITY_SCHEDULING'',
     CV ''_POSIX_SEMAPHORES'' SYSCONF ''_SC_SEMAPHORES'',
     CV ''_POSIX_SHARED_MEMORY_OBJECTS'' SYSCONF ''_SC_SHARED_MEMORY_OBJECTS'',
     CV ''_POSIX_SYNCHRONIZED_IO'' SYSCONF ''_SC_SYNCHRONIZED_IO'',
     CV ''_POSIX_TIMERS'' SYSCONF ''_SC_TIMERS'',
     CV ''_POSIX_SYNC_IO'' PATHCONF ''_PC_SYNC_IO'',
     CV ''LOGIN_NAME_MAX'' SYSCONF ''_SC_LOGIN_NAME_MAX'',
     CV ''_POSIX_THREADS'' SYSCONF ''_SC_THREADS'',
     CV ''_POSIX_BARRIERS'' SYSCONF ''_SC_BARRIERS'',
     CV ''_POSIX_READER_WRITER_LOCKS'' SYSCONF ''_SC_READER_WRITER_LOCKS'',
     CV ''_POSIX_SPIN_LOCKS'' SYSCONF ''_SC_SPIN_LOCKS'',
     CV ''IOV_MAX'' SYSCONF ''_SC_IOV_MAX'',
     CV ''PAGE_SIZE'' SYSCONF ''_SC_PAGE_SIZE'',
     CV ''_XOPEN_SHM'' SYSCONF ''_SC_XOPEN_SHM'',
     CV ''FILESIZEBITS'' PATHCONF ''_PC_FILESIZEBITS'',
     CV ''ATEXIT_MAX'' SYSCONF ''_SC_ATEXIT_MAX'',
     CV ''GETGR_R_SIZE_MAX'' SYSCONF ''_SC_GETGR_R_SIZE_MAX'',
     CV ''GETPW_R_SIZE_MAX'' SYSCONF ''_SC_GETPW_R_SIZE_MAX'',
     CV ''_PHYS_PAGES'' SYSCONF ''_SC_PHYS_PAGES'',
     CV ''_AVPHYS_PAGES'' SYSCONF ''_SC_AVPHYS_PAGES'',
     CV ''_NPROCESSORS_CONF'' SYSCONF ''_SC_NPROCESSORS_CONF'',
     CV ''_NPROCESSORS_ONLN'' SYSCONF ''_SC_NPROCESSORS_ONLN'',
     CV ''CHAR_BIT'' CONSTANT ''CHAR_BIT'',
     CV ''CHAR_MAX'' CONSTANT ''CHAR_MAX'',
     CV ''CHAR_MIN'' CONSTANT ''CHAR_MIN'',
     CV ''INT_MAX'' CONSTANT ''INT_MAX'',
     CV ''INT_MIN'' CONSTANT ''INT_MIN'',
     CV ''LONG_BIT'' CONSTANT ''LONG_BIT'',
     CV ''LONG_MAX'' CONSTANT ''LONG_MAX'',
     CV ''LONG_MIN'' CONSTANT ''LONG_MIN'',
     CV ''SCHAR_MAX'' CONSTANT ''SCHAR_MAX'',
     CV ''SCHAR_MIN'' CONSTANT ''SCHAR_MIN'',
     CV ''SHRT_MAX'' CONSTANT ''SHRT_MAX'',
     CV ''SHRT_MIN'' CONSTANT ''SHRT_MIN'',
     CV ''SSIZE_MAX'' CONSTANT ''SSIZE_MAX'',
     CV ''UCHAR_MAX'' UCONSTANT ''UCHAR_MAX'',
     CV ''UINT_MAX'' UCONSTANT ''UINT_MAX'',
     CV ''ULONG_MAX'' UCONSTANT ''ULONG_MAX'',
     CV ''USHRT_MAX'' UCONSTANT ''USHRT_MAX'',
     CV ''WORD_BIT'' CONSTANT ''WORD_BIT'']"

section \<open>Printing\<close>

definition NL :: char where
  "NL = CHR 0x0a"

definition print_line :: "bool \<Rightarrow> string \<Rightarrow> string \<Rightarrow> string" where
  "print_line all name val = (if all then name @ '' = '' @ val @ [NL] else val @ [NL])"

definition print_long :: "bool \<Rightarrow> string \<Rightarrow> int \<Rightarrow> string" where
  "print_long all name val = print_line all name (fmt_i val)"

definition print_ulong :: "bool \<Rightarrow> string \<Rightarrow> int \<Rightarrow> string" where
  "print_ulong all name val = print_line all name (nat_digits 10 (nat (val mod 2 ^ 32)))"

definition print_string :: "bool \<Rightarrow> string \<Rightarrow> string \<Rightarrow> string" where
  "print_string all name val = print_line all name val"

section \<open>Handlers\<close>

text \<open>\<open>sysconf\<close> and \<open>pathconf\<close> give the value and \<open>errno\<close>; \<open>confstr\<close>, for the size of the buffer, the length,
  \<open>errno\<close> and the content of the buffer.\<close>

record sysenv =
  se_sysconf :: "int \<Rightarrow> int \<times> int"
  se_confstr :: "int \<Rightarrow> nat \<Rightarrow> nat \<times> int \<times> string"
  se_pathconf :: "string \<Rightarrow> int \<Rightarrow> int \<times> int"
  se_malloc :: "nat \<Rightarrow> bool"
  se_ferror :: bool
  se_EINVAL :: int

text \<open>A handler exits, having printed nothing, or returns its value and what it printed.\<close>

definition print_constant :: "bool \<Rightarrow> (string \<Rightarrow> int) \<Rightarrow> conf_variable \<Rightarrow> (int \<times> string) res" where
  "print_constant all cval cp = Inr (0, print_long all (cv_name cp) (cval (cv_value cp)))"

definition print_uconstant :: "bool \<Rightarrow> (string \<Rightarrow> int) \<Rightarrow> conf_variable \<Rightarrow> (int \<times> string) res" where
  "print_uconstant all cval cp = Inr (0, print_ulong all (cv_name cp) (cval (cv_value cp)))"

definition print_sysconf :: "bool \<Rightarrow> (string \<Rightarrow> int) \<Rightarrow> sysenv \<Rightarrow> conf_variable \<Rightarrow> (int \<times> string) res" where
  "print_sysconf all cval e cp =
     (let (val, errno) = se_sysconf e (cval (cv_value cp)) in
      if val = - 1 then (if errno \<noteq> 0 then Inl (Exit 1) else Inr (- 1, []))
      else Inr (0, print_long all (cv_name cp) val))"

definition print_confstr :: "bool \<Rightarrow> (string \<Rightarrow> int) \<Rightarrow> sysenv \<Rightarrow> conf_variable \<Rightarrow> (int \<times> string) res" where
  "print_confstr all cval e cp =
     (let error = (\<lambda>errno. if errno \<noteq> se_EINVAL e then Inl (Exit 1) else Inr (- 1, []));
          (len, errno, _) = se_confstr e (cval (cv_value cp)) 0 in
      if len = 0 then error errno
      else if \<not> se_malloc e len then Inl (Exit 1)
      else let (len2, errno2, val) = se_confstr e (cval (cv_value cp)) len in
        if len2 = 0 then error errno2 else Inr (0, print_string all (cv_name cp) val))"

definition print_pathconf :: "bool \<Rightarrow> (string \<Rightarrow> int) \<Rightarrow> sysenv \<Rightarrow> conf_variable \<Rightarrow> string \<Rightarrow> (int \<times> string) res" where
  "print_pathconf all cval e cp pathname =
     (let (val, errno) = se_pathconf e pathname (cval (cv_value cp)) in
      if val = - 1 then
        (if all \<and> errno = se_EINVAL e then Inr (0, [])
         else if errno \<noteq> 0 then Inl (Exit 1) else Inr (- 1, []))
      else Inr (0, print_long all (cv_name cp) val))"

text \<open>\<open>type_handlers\<close>; \<open>print_pathconf\<close> is called only with a path name.\<close>

definition type_handlers ::
  "bool \<Rightarrow> (string \<Rightarrow> int) \<Rightarrow> sysenv \<Rightarrow> conf_variable \<Rightarrow> string option \<Rightarrow> (int \<times> string) res" where
  "type_handlers all cval e cp pathname =
     (case cv_type cp of
        SYSCONF \<Rightarrow> print_sysconf all cval e cp
      | CONFSTR \<Rightarrow> print_confstr all cval e cp
      | PATHCONF \<Rightarrow> (case pathname of None \<Rightarrow> Inl Fault | Some p \<Rightarrow> print_pathconf all cval e cp p)
      | CONSTANT \<Rightarrow> print_constant all cval cp
      | UCONSTANT \<Rightarrow> print_uconstant all cval cp)"

section \<open>\<open>main\<close>\<close>

text \<open>\<open>getopt (argc, argv, "a")\<close> until it returns -1: whether \<open>-a\<close> was given and the arguments from
  \<open>optind\<close> on; \<open>None\<close> when it meets another option.\<close>

fun getopt_a :: "string list \<Rightarrow> (bool \<times> string list) option" where
  "getopt_a [] = Some (False, [])"
| "getopt_a (arg # args) =
     (if arg = ''--'' then Some (False, args)
      else if length arg < 2 \<or> hd arg \<noteq> CHR ''-'' then Some (False, arg # args)
      else if set (tl arg) \<subseteq> {CHR ''a''} then map_option (\<lambda>(_, rest). (True, rest)) (getopt_a args)
      else None)"

text \<open>One turn of the loop over the table: what it prints and \<open>found\<close>, or the exit.\<close>

definition table_step ::
  "bool \<Rightarrow> (string \<Rightarrow> int) \<Rightarrow> sysenv \<Rightarrow> string \<Rightarrow> string option \<Rightarrow> conf_variable \<Rightarrow> (string \<times> bool) res" where
  "table_step all cval e varname pathname cp =
     (if \<not> all \<and> varname \<noteq> cv_name cp then Inr ([], False)
      else if (cv_type cp = PATHCONF) = (pathname \<noteq> None) then
        res_bind (type_handlers all cval e cp pathname) (\<lambda>(r, out).
          Inr (if r < 0 then out @ print_string all (cv_name cp) ''undefined'' else out, True))
      else if \<not> all then Inl (Exit 1)
      else Inr ([], False))"

text \<open>The loop: everything printed, and the exit or \<open>found\<close>.\<close>

fun table_loop ::
  "(conf_variable \<Rightarrow> (string \<times> bool) res) \<Rightarrow> conf_variable list \<Rightarrow> bool \<Rightarrow> string \<times> bool res" where
  "table_loop step [] found = ([], Inr found)"
| "table_loop step (cp # table) found =
     (case step cp of
        Inl h \<Rightarrow> ([], Inl h)
      | Inr (out, f) \<Rightarrow> let (rest, r) = table_loop step table (found \<or> f) in (out @ rest, r))"

text \<open>The output and how the program ends; the return value is an exit code too.\<close>

definition getconf_main :: "(string \<Rightarrow> int) \<Rightarrow> sysenv \<Rightarrow> string list \<Rightarrow> string \<times> halt" where
  "getconf_main cval e argv =
     (case getopt_a argv of
        None \<Rightarrow> ([], Exit 1)
      | Some (all, args) \<Rightarrow>
        if \<not> all \<and> args = [] then ([], Exit 1)
        else
          let (varname, args) = (if all then ([], args) else (hd args, tl args)) in
          if length args > 1 then ([], Exit 1)
          else
            let pathname = (case args of [] \<Rightarrow> None | p # _ \<Rightarrow> Some p);
                (out, r) = table_loop (table_step all cval e varname pathname) conf_table False in
            (case r of
               Inl h \<Rightarrow> (out, h)
             | Inr found \<Rightarrow>
                 if \<not> all \<and> \<not> found then (out, Exit 1)
                 else (out, Exit (if se_ferror e then 1 else 0))))"

end
