(* ===== verification/Getconf_Correct.thy ===== *)
theory Getconf_Correct
  imports Getconf
begin

text \<open>
  What \<open>getconf\<close> answers: a query of one variable on every branch, and that \<open>getconf -a\<close> lists what the
  single queries print. The facts about the loop hold for any table with distinct names.
\<close>

section \<open>The table\<close>

lemma conf_table_names: "distinct (map cv_name conf_table)"
  by (simp add: conf_table_def CV_def)

lemma conf_table_no_options: "list_all (\<lambda>cp. cv_name cp \<noteq> [] \<and> hd (cv_name cp) \<noteq> CHR ''-'') conf_table"
  by (simp add: conf_table_def CV_def)

lemma find_in_table:
  assumes "distinct (map cv_name table)" and "cp \<in> set table"
  shows "find (\<lambda>c. cv_name c = cv_name cp) table = Some cp"
  using assms by (induction table) auto

section \<open>One variable\<close>

lemma loop_misses:
  "(\<And>cp. cp \<in> set table \<Longrightarrow> step cp = Inr ([], False)) \<Longrightarrow> table_loop step table found = ([], Inr found)"
  by (induction table) simp_all

lemma loop_finds_one:
  assumes "distinct (map cv_name table)"
  shows "table_loop (table_step False cval e v pathname) table False =
    (case find (\<lambda>c. cv_name c = v) table of
       None \<Rightarrow> ([], Inr False)
     | Some cp \<Rightarrow> (case table_step False cval e v pathname cp of
         Inl h \<Rightarrow> ([], Inl h) | Inr (out, f) \<Rightarrow> (out, Inr f)))"
  using assms
proof (induction table)
  case (Cons c table)
  let ?step = "table_step False cval e v pathname"
  show ?case
  proof (cases "cv_name c = v")
    case True
    have "?step cp = Inr ([], False)" if "cp \<in> set table" for cp
      using that Cons.prems True by (auto simp: table_step_def)
    then have rest: "table_loop ?step table f = ([], Inr f)" for f by (rule loop_misses)
    show ?thesis using True by (simp add: rest split: sum.split prod.split)
  next
    case False
    then have "?step c = Inr ([], False)" by (simp add: table_step_def)
    then show ?thesis using False Cons by simp
  qed
qed simp

lemma query_one:
  assumes "v = [] \<or> hd v \<noteq> CHR ''-''" and "length path \<le> 1"
  shows "getconf_main cval e (v # path) =
    (case find (\<lambda>cp. cv_name cp = v) conf_table of
       None \<Rightarrow> ([], Exit 1)
     | Some cp \<Rightarrow>
         if (cv_type cp = PATHCONF) \<noteq> (path \<noteq> []) then ([], Exit 1)
         else case type_handlers False cval e cp (if path = [] then None else Some (hd path)) of
             Inl h \<Rightarrow> ([], h)
           | Inr (r, out) \<Rightarrow> (if r < 0 then out @ ''undefined'' @ [NL] else out, Exit (if se_ferror e then 1 else 0)))"
proof -
  have "v \<noteq> ''--''" "length v < 2 \<or> hd v \<noteq> CHR ''-''" using assms(1) by auto
  then have opts: "getopt_a (v # path) = Some (False, v # path)" by simp
  have path: "(case path of [] \<Rightarrow> None | p # _ \<Rightarrow> Some p) = (if path = [] then None else Some (hd path))"
    by (cases path) simp_all
  have name: "cv_name cp = v" if "find (\<lambda>cp. cv_name cp = v) conf_table = Some cp" for cp
    using that by (auto simp: find_Some_iff)
  show ?thesis
  proof (cases "find (\<lambda>cp. cv_name cp = v) conf_table")
    case None
    then show ?thesis
      unfolding getconf_main_def opts using assms(2) by (simp add: path loop_finds_one [OF conf_table_names])
  next
    case (Some cp)
    let ?p = "if path = [] then None else Some (hd path)"
    have run: "getconf_main cval e (v # path) =
       (case table_step False cval e v ?p cp of
          Inl h \<Rightarrow> ([], h) | Inr (out, f) \<Rightarrow> (out, if f then Exit (if se_ferror e then 1 else 0) else Exit 1))"
      unfolding getconf_main_def opts using assms(2)
      by (simp add: path loop_finds_one [OF conf_table_names] Some split: sum.split)
    show ?thesis
    proof (cases "type_handlers False cval e cp ?p")
      case (Inl h)
      then show ?thesis unfolding run by (simp add: table_step_def Some name [OF Some])
    next
      case (Inr ro)
      obtain r out where "ro = (r, out)" by (cases ro)
      then show ?thesis
        unfolding run using Inr by (simp add: table_step_def Some name [OF Some] print_string_def print_line_def)
    qed
  qed
qed

text \<open>
  A query of one variable, with or without a path name: it fails with 1 and prints nothing when
  the variable is unknown or of the wrong kind for the number of arguments, or when the system call
  reports an error; otherwise it prints the value on a line of its own, or \<open>undefined\<close>, and ends with 0
  unless the output could not be written.
\<close>

theorem getconf_query:
  assumes "v = [] \<or> hd v \<noteq> CHR ''-''" and "length path \<le> 1"
  shows "getconf_main cval e (v # path) =
    (case find (\<lambda>cp. cv_name cp = v) conf_table of
       None \<Rightarrow> ([], Exit 1)
     | Some cp \<Rightarrow>
         if (cv_type cp = PATHCONF) \<noteq> (path \<noteq> []) then ([], Exit 1)
         else case type_handlers False cval e cp (if path = [] then None else Some (hd path)) of
             Inl h \<Rightarrow> ([], h)
           | Inr (r, out) \<Rightarrow> (if r < 0 then out @ ''undefined'' @ [NL] else out, Exit (if se_ferror e then 1 else 0)))"
  using assms by (rule query_one)

theorem getconf_query_witness:
  "getconf_main (\<lambda>_. 42) \<lparr>se_sysconf = (\<lambda>_. (0, 0)), se_confstr = (\<lambda>_ _. (0, 0, [])), se_pathconf = (\<lambda>_ _. (0, 0)),
     se_malloc = (\<lambda>_. True), se_ferror = False, se_EINVAL = 22\<rparr> [''CHAR_BIT''] = (''42'' @ [NL], Exit 0)"
proof -
  let ?e = "\<lparr>se_sysconf = (\<lambda>_. (0, 0)), se_confstr = (\<lambda>_ _. (0, 0, [])), se_pathconf = (\<lambda>_ _. (0, 0)),
     se_malloc = (\<lambda>_. True), se_ferror = False, se_EINVAL = 22\<rparr>"
  have find: "find (\<lambda>cp. cv_name cp = ''CHAR_BIT'') conf_table = Some (CV ''CHAR_BIT'' CONSTANT ''CHAR_BIT'')"
    by (simp add: conf_table_def CV_def)
  show ?thesis
    using getconf_query [of "''CHAR_BIT''" "[]" "\<lambda>_. 42" ?e]
    by (simp add: find CV_def type_handlers_def print_constant_def print_long_def print_line_def fmt_i_def
        nat_digits.simps char_of_def bit_0)
qed

section \<open>All variables\<close>

lemma handler_all:
  assumes "cv_type cp \<noteq> PATHCONF"
  shows "type_handlers True cval e cp None =
    (case type_handlers False cval e cp None of
       Inl h \<Rightarrow> Inl h
     | Inr (r, out) \<Rightarrow> Inr (r, if r < 0 then out else cv_name cp @ '' = '' @ out))"
  using assms
  by (cases "cv_type cp")
    (simp_all add: type_handlers_def print_sysconf_def print_confstr_def print_constant_def print_uconstant_def
      print_long_def print_ulong_def print_string_def print_line_def Let_def split: prod.split)

lemma undefined_prints_nothing:
  "cv_type cp \<noteq> PATHCONF \<Longrightarrow> type_handlers False cval e cp None = Inr (r, out) \<Longrightarrow> r < 0 \<Longrightarrow> out = []"
  by (cases "cv_type cp")
    (auto simp: type_handlers_def print_sysconf_def print_confstr_def print_constant_def print_uconstant_def
      Let_def split: if_splits prod.splits)

lemma loop_all:
  assumes "\<And>cp. cp \<in> set table \<Longrightarrow> \<exists>f. step cp = Inr (g cp, f)"
  shows "\<exists>f. table_loop step table found = (concat (map g table), Inr f)"
  using assms
proof (induction table arbitrary: found)
  case (Cons cp table)
  obtain f where f: "step cp = Inr (g cp, f)" using Cons.prems [of cp] by auto
  obtain f' where "table_loop step table (found \<or> f) = (concat (map g table), Inr f')"
    using Cons.IH Cons.prems by auto
  then show ?case using f by simp
qed simp

lemma concat_map_filter: "concat (map (\<lambda>x. if P x then g x else []) xs) = concat (map g (filter P xs))"
  by (induction xs) simp_all

text \<open>The answer to the query of one variable of the table that needs no path.\<close>

lemma query_table:
  assumes "cp \<in> set conf_table" and "cv_type cp \<noteq> PATHCONF"
  shows "getconf_main cval e [cv_name cp] =
    (case type_handlers False cval e cp None of
       Inl h \<Rightarrow> ([], h)
     | Inr (r, out) \<Rightarrow> (if r < 0 then ''undefined'' @ [NL] else out, Exit (if se_ferror e then 1 else 0)))"
proof -
  have "hd (cv_name cp) \<noteq> CHR ''-''" using conf_table_no_options assms(1) by (auto simp: list_all_iff)
  then show ?thesis
    using query_one [of "cv_name cp" "[]" cval e] find_in_table [OF conf_table_names assms(1)] assms(2)
      undefined_prints_nothing [OF assms(2), of cval e]
    by (auto split: sum.split)
qed

lemma handler_exit: "type_handlers all cval e cp pathname = Inl h \<Longrightarrow> h \<noteq> Exit 0"
  by (cases "cv_type cp"; cases pathname)
    (auto simp: type_handlers_def print_sysconf_def print_confstr_def print_pathconf_def print_constant_def
      print_uconstant_def Let_def split: if_splits prod.splits)

lemma query_ok:
  assumes "cp \<in> set conf_table" and "cv_type cp \<noteq> PATHCONF" and "snd (getconf_main cval e [cv_name cp]) = Exit 0"
  obtains r out where "type_handlers False cval e cp None = Inr (r, out)" and "\<not> se_ferror e"
    and "fst (getconf_main cval e [cv_name cp]) = (if r < 0 then ''undefined'' @ [NL] else out)"
proof (cases "type_handlers False cval e cp None")
  case (Inl h)
  then show ?thesis using query_table [OF assms(1,2), of cval e] assms(3) handler_exit [OF Inl] by simp
next
  case (Inr ro)
  then obtain r out where "type_handlers False cval e cp None = Inr (r, out)" by (cases ro) simp
  then show ?thesis using that [of r out] query_table [OF assms(1,2), of cval e] assms(3) by (simp split: if_splits)
qed

text \<open>
  C35. \<open>getconf -a\<close> is the same as asking for everything: if the query of each variable that needs no path
  ends with 0, then \<open>getconf -a\<close> ends with 0 and prints, in the order of the table, for each of them its
  name, an equals sign and what its query prints.
\<close>

theorem getconf_all_equiv:
  assumes "\<forall>cp \<in> set conf_table. cv_type cp \<noteq> PATHCONF \<longrightarrow> snd (getconf_main cval e [cv_name cp]) = Exit 0"
  shows "getconf_main cval e [''-a''] =
    (concat (map (\<lambda>cp. cv_name cp @ '' = '' @ fst (getconf_main cval e [cv_name cp]))
       (filter (\<lambda>cp. cv_type cp \<noteq> PATHCONF) conf_table)), Exit 0)"
proof -
  let ?g = "\<lambda>cp. if cv_type cp \<noteq> PATHCONF then cv_name cp @ '' = '' @ fst (getconf_main cval e [cv_name cp]) else []"
  let ?path = "CV ''PATH'' CONFSTR ''_CS_PATH''"
  have PATH: "?path \<in> set conf_table" by (simp add: conf_table_def)
  moreover have kind: "cv_type ?path \<noteq> PATHCONF" by (simp add: CV_def)
  ultimately have ferr: "\<not> se_ferror e" using query_ok [OF PATH kind, of cval e] assms by blast
  have "\<exists>f. table_step True cval e [] None cp = Inr (?g cp, f)" if cp: "cp \<in> set conf_table" for cp
  proof (cases "cv_type cp = PATHCONF")
    case True
    then have "table_step True cval e [] None cp = Inr (?g cp, False)" by (simp add: table_step_def)
    then show ?thesis by blast
  next
    case False
    have "snd (getconf_main cval e [cv_name cp]) = Exit 0" using assms cp False by blast
    from query_ok [OF cp False this] obtain r out where
      q: "type_handlers False cval e cp None = Inr (r, out)"
        "fst (getconf_main cval e [cv_name cp]) = (if r < 0 then ''undefined'' @ [NL] else out)" by blast
    have "table_step True cval e [] None cp = Inr (?g cp, True)"
      using False undefined_prints_nothing [OF False q(1)]
      by (simp add: table_step_def handler_all [OF False] q print_string_def print_line_def)
    then show ?thesis by blast
  qed
  then obtain f where "table_loop (table_step True cval e [] None) conf_table False = (concat (map ?g conf_table), Inr f)"
    using loop_all [of conf_table "table_step True cval e [] None" ?g False] by blast
  then show ?thesis using ferr by (simp add: getconf_main_def concat_map_filter)
qed

definition sample_sysenv :: sysenv where
  "sample_sysenv = \<lparr>se_sysconf = (\<lambda>n. (n, 0)), se_confstr = (\<lambda>_ _. (5, 0, ''/bin'')), se_pathconf = (\<lambda>_ _. (255, 0)),
     se_malloc = (\<lambda>_. True), se_ferror = False, se_EINVAL = 22\<rparr>"

theorem getconf_all_equiv_witness:
  "getconf_main (\<lambda>_. 42) sample_sysenv [''-a''] =
    (concat (map (\<lambda>cp. cv_name cp @ '' = '' @ fst (getconf_main (\<lambda>_. 42) sample_sysenv [cv_name cp]))
       (filter (\<lambda>cp. cv_type cp \<noteq> PATHCONF) conf_table)), Exit 0)"
proof (rule getconf_all_equiv)
  show "\<forall>cp \<in> set conf_table. cv_type cp \<noteq> PATHCONF \<longrightarrow> snd (getconf_main (\<lambda>_. 42) sample_sysenv [cv_name cp]) = Exit 0"
  proof (intro ballI impI)
    fix cp
    assume "cp \<in> set conf_table" "cv_type cp \<noteq> PATHCONF"
    then show "snd (getconf_main (\<lambda>_. 42) sample_sysenv [cv_name cp]) = Exit 0"
      by (cases "cv_type cp")
        (simp_all add: query_table type_handlers_def print_sysconf_def print_confstr_def print_constant_def
          print_uconstant_def sample_sysenv_def)
  qed
qed

end
