(* ===== verification/Mke2img.thy ===== *)
theory Mke2img
  imports Prelude
begin

text \<open>
  \<open>tools/mke2img.c\<close>, which copies a directory tree into an ext2 image: \<open>trawl_dir\<close> and \<open>main\<close>. The ext2
  library is not part of the repository; it is the record \<open>ext2_ops\<close> of the functions the program calls, on
  an image of any type, an error code of 0 meaning success. The host's tree is what \<open>readdir\<close>,
  \<open>lstat\<close>, \<open>open\<close>, \<open>readlink\<close>, \<open>chdir\<close> and \<open>opendir\<close> say about it. Messages are not modelled.
\<close>

unbundle bit_operations_syntax

section \<open>The host\<close>

record hstat =
  st_mode :: nat
  st_uid :: nat
  st_gid :: nat
  st_atime :: int
  st_mtime :: int
  st_ctime :: int
  st_size :: nat
  st_rdev :: nat

text \<open>An entry: its name; what \<open>lstat\<close> gives; the content if it can be opened; the target if it can be
  read as a link; and, if it is a directory one can change into, the entries if it can be listed.\<close>

datatype hentry =
  HEntry (he_name: string) (he_stat: "hstat option") (he_data: "string option") (he_target: "string option")
    (he_sub: "hentry list option option")

definition file_kind :: "nat \<Rightarrow> nat" where
  "file_kind mode = mode AND 61440"

definition S_ISDIR :: "nat \<Rightarrow> bool" where
  "S_ISDIR mode \<longleftrightarrow> file_kind mode = 16384"

definition S_ISREG :: "nat \<Rightarrow> bool" where
  "S_ISREG mode \<longleftrightarrow> file_kind mode = 32768"

datatype ftype = EXT2_FT_REG_FILE | EXT2_FT_DIR | EXT2_FT_CHRDEV | EXT2_FT_BLKDEV | EXT2_FT_FIFO | EXT2_FT_SOCK | EXT2_FT_SYMLINK

definition special_type :: "nat \<Rightarrow> ftype option" where
  "special_type mode =
     (if file_kind mode = 8192 then Some EXT2_FT_CHRDEV
      else if file_kind mode = 24576 then Some EXT2_FT_BLKDEV
      else if file_kind mode = 4096 then Some EXT2_FT_FIFO
      else if file_kind mode = 49152 then Some EXT2_FT_SOCK
      else if file_kind mode = 40960 then Some EXT2_FT_SYMLINK
      else None)"

section \<open>The library\<close>

text \<open>The fields of \<open>struct ext2_inode\<close> the program and the library use, at their widths; \<open>i_block\<close> has 15 elements.\<close>

record ext2_inode =
  i_mode :: "16 word"
  i_uid :: "16 word"
  i_size :: "32 word"
  i_atime :: "32 word"
  i_ctime :: "32 word"
  i_mtime :: "32 word"
  i_gid :: "16 word"
  i_links_count :: "16 word"
  i_blocks :: "32 word"
  i_block :: "32 word list"

record 'i ext2_ops =
  new_inode :: "'i \<Rightarrow> nat \<Rightarrow> nat \<Rightarrow> int \<times> nat \<times> 'i"
  mkdir :: "'i \<Rightarrow> nat \<Rightarrow> nat \<Rightarrow> string \<Rightarrow> int \<times> 'i"
  expand_dir :: "'i \<Rightarrow> nat \<Rightarrow> int \<times> 'i"
  write_new_inode :: "'i \<Rightarrow> nat \<Rightarrow> ext2_inode \<Rightarrow> int \<times> 'i"
  inode_alloc_stats2 :: "'i \<Rightarrow> nat \<Rightarrow> int \<Rightarrow> bool \<Rightarrow> 'i"
  file_open :: "'i \<Rightarrow> nat \<Rightarrow> int \<times> 'i"
  file_write :: "'i \<Rightarrow> nat \<Rightarrow> string \<Rightarrow> int \<times> nat \<times> 'i"
  file_flush :: "'i \<Rightarrow> nat \<Rightarrow> int \<times> 'i"
  file_close :: "'i \<Rightarrow> nat \<Rightarrow> int \<times> 'i"
  link :: "'i \<Rightarrow> nat \<Rightarrow> string \<Rightarrow> nat \<Rightarrow> ftype \<Rightarrow> int \<times> 'i"
  blocksize :: nat

section \<open>\<open>trawl_dir\<close>\<close>

text \<open>The pattern of \<open>ext2fs_mkdir\<close> and \<open>ext2fs_link\<close>: a failure expands the parent directory, and one
  more attempt is made.\<close>

definition with_expand :: "'i ext2_ops \<Rightarrow> nat \<Rightarrow> ('i \<Rightarrow> int \<times> 'i) \<Rightarrow> 'i \<Rightarrow> bool \<times> 'i" where
  "with_expand L parent op img =
     (let (e, img) = op img in
      if e = 0 then (True, img)
      else let (e, img) = expand_dir L img parent in
        if e \<noteq> 0 then (False, img)
        else let (e, img) = op img in (e = 0, img))"

text \<open>\<open>memset\<close> and the assignments to \<open>inode_info\<close>, which cut every value to the width of its field.\<close>

definition zero_inode :: ext2_inode where
  "zero_inode =
     \<lparr>i_mode = 0, i_uid = 0, i_size = 0, i_atime = 0, i_ctime = 0, i_mtime = 0, i_gid = 0, i_links_count = 0,
      i_blocks = 0, i_block = replicate 15 0\<rparr>"

definition reg_inode :: "hstat \<Rightarrow> ext2_inode" where
  "reg_inode info =
     zero_inode\<lparr>i_mode := of_nat (32768 OR (st_mode info AND 511)), i_uid := of_nat (st_uid info),
       i_gid := of_nat (st_gid info), i_atime := of_int (st_atime info), i_mtime := of_int (st_mtime info),
       i_ctime := of_int (st_ctime info), i_links_count := 1, i_size := of_nat (st_size info)\<rparr>"

definition special_inode :: "hstat \<Rightarrow> ext2_inode" where
  "special_inode info =
     zero_inode\<lparr>i_mode := of_nat (st_mode info), i_uid := of_nat (st_uid info),
       i_gid := of_nat (st_gid info), i_atime := of_int (st_atime info), i_mtime := of_int (st_mtime info),
       i_ctime := of_int (st_ctime info), i_links_count := 1, i_size := of_nat (st_size info),
       i_block := (i_block zero_inode)[0 := of_nat (st_rdev info)]\<rparr>"

text \<open>The loop that copies a file, after \<open>ext2fs_file_open\<close>, up to the close at its end. \<open>buf\<close> has 4096
  bytes. A failed write closes the file and goes on with the loop: the next write, or the close at the
  end, uses a file handle that has been freed.\<close>

function copy_loop :: "'i ext2_ops \<Rightarrow> nat \<Rightarrow> bool \<Rightarrow> string \<Rightarrow> 'i \<Rightarrow> 'i res" where
  "copy_loop L new is_open data img =
     (let buf = take (blocksize L) data in
      if buf = [] then (if is_open then Inr (snd (file_close L img new)) else Inl Fault)
      else if 4096 < length buf then Inl Fault
      else if \<not> is_open then Inl Fault
      else
        let (e, out, img) = file_write L img new buf in
        if e \<noteq> 0 \<or> out < length buf
        then copy_loop L new False (drop (blocksize L) data) (snd (file_close L img new))
        else copy_loop L new True (drop (blocksize L) data) (snd (file_flush L img new)))"
  by auto

termination copy_loop
  by (relation "measure (\<lambda>(L, new, is_open, data, img). length data)") auto

declare copy_loop.simps [simp del]

text \<open>A regular file with the new inode; the image after whatever path is left by \<open>continue\<close>.\<close>

definition copy_file :: "'i ext2_ops \<Rightarrow> nat \<Rightarrow> nat \<Rightarrow> string \<Rightarrow> hstat \<Rightarrow> string option \<Rightarrow> 'i \<Rightarrow> 'i res" where
  "copy_file L parent new name info opened img =
     (let img = snd (write_new_inode L img new (reg_inode info));
          img = inode_alloc_stats2 L img new 1 True in
      case opened of
        None \<Rightarrow> Inr img
      | Some data \<Rightarrow>
        let (e, img) = file_open L img new in
        if e \<noteq> 0 then Inr img
        else res_bind (copy_loop L new True data img) (\<lambda>img.
          Inr (snd (with_expand L parent (\<lambda>img. link L img parent name new EXT2_FT_REG_FILE) img))))"

text \<open>Anything else. \<open>readlink\<close> fills at most 1024 bytes, of which \<open>st_size\<close> are written; the file is closed
  even if it could not be opened.\<close>

definition copy_target :: "'i ext2_ops \<Rightarrow> nat \<Rightarrow> hstat \<Rightarrow> string option \<Rightarrow> 'i \<Rightarrow> 'i res" where
  "copy_target L new info target img =
     (case target of
        None \<Rightarrow> Inr img
      | Some t \<Rightarrow>
        let (e, img) = file_open L img new in
        if e \<noteq> 0 then Inl Fault
        else if length (take 1024 t) < st_size info then Inl Fault
        else let (_, _, img) = file_write L img new (take (st_size info) (take 1024 t)) in
          Inr (snd (file_close L img new)))"

definition copy_special :: "'i ext2_ops \<Rightarrow> nat \<Rightarrow> nat \<Rightarrow> string \<Rightarrow> hstat \<Rightarrow> string option \<Rightarrow> 'i \<Rightarrow> 'i res" where
  "copy_special L parent new name info target img =
     (case special_type (st_mode info) of
        None \<Rightarrow> Inr img
      | Some type \<Rightarrow>
        let img = snd (write_new_inode L img new (special_inode info));
            img = inode_alloc_stats2 L img new 1 True in
        res_bind (if type = EXT2_FT_SYMLINK then copy_target L new info target img else Inr img) (\<lambda>img.
          Inr (snd (with_expand L parent (\<lambda>img. link L img parent name new type) img))))"

text \<open>The loop over the entries of one directory. A directory that cannot be opened ends the program.\<close>

function trawl :: "'i ext2_ops \<Rightarrow> nat \<Rightarrow> hentry list \<Rightarrow> 'i \<Rightarrow> 'i res" where
  "trawl L parent [] img = Inr img"
| "trawl L parent (HEntry name st data target sub # es) img =
     (if name = ''.'' \<or> name = ''..'' then trawl L parent es img
      else case st of
        None \<Rightarrow> trawl L parent es img
      | Some info \<Rightarrow>
        let (e, new, img) = new_inode L img parent (st_mode info) in
        if e \<noteq> 0 then trawl L parent es img
        else if S_ISDIR (st_mode info) then
          let (ok, img) = with_expand L parent (\<lambda>img. mkdir L img parent new name) img in
          if \<not> ok then trawl L parent es img
          else (case sub of
              None \<Rightarrow> trawl L parent es img
            | Some None \<Rightarrow> Inl (Exit 1)
            | Some (Some es') \<Rightarrow> res_bind (trawl L new es' img) (trawl L parent es))
        else if S_ISREG (st_mode info) then
          res_bind (copy_file L parent new name info data img) (trawl L parent es)
        else res_bind (copy_special L parent new name info target img) (trawl L parent es))"
  by pat_completeness auto

termination trawl
  by (relation "measure (\<lambda>(L, parent, es, img). size_list size es)") auto

declare trawl.simps(2) [simp del]

definition trawl_dir :: "'i ext2_ops \<Rightarrow> nat \<Rightarrow> hentry list option \<Rightarrow> 'i \<Rightarrow> 'i res" where
  "trawl_dir L parent d img = (case d of None \<Rightarrow> Inl (Exit 1) | Some es \<Rightarrow> trawl L parent es img)"

section \<open>\<open>main\<close>\<close>

definition EXT2_ROOT_INO :: nat where
  "EXT2_ROOT_INO = 2"

text \<open>The rest of the library, and the host: what \<open>ext2fs_open\<close> gives, the directory the program is
  started in, and the one named by its second argument if one can change into it. The result of
  \<open>chdir\<close> is not looked at. The return value, and the image when it was opened.\<close>

record 'i ext2_session =
  fs_open :: "int \<times> 'i"
  read_bitmaps :: "'i \<Rightarrow> int \<times> 'i"
  write_bitmaps :: "'i \<Rightarrow> int \<times> 'i"
  fs_close :: "'i \<Rightarrow> int \<times> 'i"
  host_cwd :: "hentry list option"
  host_tree :: "hentry list option option"

definition mke2img_main :: "'i ext2_ops \<Rightarrow> 'i ext2_session \<Rightarrow> nat \<Rightarrow> (nat \<times> 'i option) res" where
  "mke2img_main L S argc =
     (if argc < 3 then Inr (1, None)
      else
        let (e, img) = fs_open S in
        if e \<noteq> 0 then Inr (1, None)
        else
          let img = snd (read_bitmaps S img);
              d = (case host_tree S of None \<Rightarrow> host_cwd S | Some t \<Rightarrow> t) in
          res_bind (trawl_dir L EXT2_ROOT_INO d img) (\<lambda>img.
            let img = snd (write_bitmaps S img); (e, img) = fs_close S img in
            Inr (if e \<noteq> 0 then 1 else 0, Some img)))"

end
