(* ===== verification/Mke2img_Correct.thy ===== *)
theory Mke2img_Correct
  imports Mke2img
begin

text \<open>
  What \<open>mke2img\<close> achieves with an ext2 library that behaves as documented: the image mirrors the host's
  tree. The library's behaviour is stated on an abstract file system \<open>afs\<close>: the inodes in use, their
  attributes and content, the position of an open file, the entries of directories, which can be full
  until they are expanded, and the free inodes and blocks. Where the blocks of a file are is up to the
  library: its functions may change the block pointers of the file they work on, and the inode of the
  directory they change.
\<close>

unbundle bit_operations_syntax

section \<open>Abstract file systems\<close>

text \<open>The entries of a directory but for the two dots, as a map, since their order is the library's. The
  content of a file has as many bytes as its size says; what was not written reads as NUL.\<close>

record afs =
  used :: "nat set"
  inode :: "nat \<Rightarrow> ext2_inode option"
  fdata :: "nat \<Rightarrow> string"
  fpos :: "nat \<Rightarrow> nat option"
  dirents :: "nat \<Rightarrow> (string \<rightharpoonup> nat \<times> ftype)"
  ifree :: nat
  bfree :: nat

text \<open>At most \<open>c\<close> blocks are taken.\<close>

definition costs :: "nat \<Rightarrow> afs \<Rightarrow> afs \<Rightarrow> bool" where
  "costs c fs fs' \<longleftrightarrow> bfree fs \<le> bfree fs' + c"

text \<open>Inodes but for those of \<open>X\<close> keep attributes and content.\<close>

definition same_but :: "nat set \<Rightarrow> afs \<Rightarrow> afs \<Rightarrow> bool" where
  "same_but X fs fs' \<longleftrightarrow> (\<forall>m. m \<notin> X \<longrightarrow> inode fs' m = inode fs m \<and> fdata fs' m = fdata fs m)"

text \<open>Only the place of the data on the disk may differ.\<close>

definition same_attrs :: "ext2_inode \<Rightarrow> ext2_inode \<Rightarrow> bool" where
  "same_attrs x y \<longleftrightarrow> y = x\<lparr>i_block := i_block y, i_blocks := i_blocks y\<rparr>"

text \<open>A call that works on the open file \<open>n\<close> and leaves it with the content \<open>d\<close> at the position \<open>k\<close>.\<close>

definition file_touched :: "nat \<Rightarrow> nat \<Rightarrow> string \<Rightarrow> nat option \<Rightarrow> afs \<Rightarrow> afs \<Rightarrow> bool" where
  "file_touched c n d k fs fs' \<longleftrightarrow>
     used fs' = used fs \<and> ifree fs' = ifree fs \<and> dirents fs' = dirents fs \<and> costs c fs fs' \<and> same_but {n} fs fs' \<and>
     rel_option same_attrs (inode fs n) (inode fs' n) \<and> fdata fs' n = d \<and> fpos fs' n = k"

text \<open>A new entry in the directory \<open>p\<close>, whose own inode and blocks may change.\<close>

definition linked :: "nat \<Rightarrow> nat \<Rightarrow> string \<Rightarrow> nat \<Rightarrow> ftype \<Rightarrow> afs \<Rightarrow> afs \<Rightarrow> bool" where
  "linked c p nm n t fs fs' \<longleftrightarrow>
     used fs' = used fs \<and> ifree fs' = ifree fs \<and> costs c fs fs' \<and> same_but {p} fs fs' \<and>
     dirents fs' = (dirents fs)(p := (dirents fs p)(nm \<mapsto> (n, t)))"

definition made_dir :: "nat \<Rightarrow> nat \<Rightarrow> string \<Rightarrow> nat \<Rightarrow> afs \<Rightarrow> afs \<Rightarrow> bool" where
  "made_dir c p nm n fs fs' \<longleftrightarrow>
     used fs' = insert n (used fs) \<and> ifree fs \<le> ifree fs' + 1 \<and> costs c fs fs' \<and> same_but {p, n} fs fs' \<and>
     dirents fs' = (dirents fs)(n := Map.empty, p := (dirents fs p)(nm \<mapsto> (n, EXT2_FT_DIR)))"

text \<open>The inode as it is stored: the library puts the current time where a time is 0.\<close>

definition stamped :: "32 word \<Rightarrow> 32 word \<Rightarrow> bool" where
  "stamped t t' \<longleftrightarrow> t = 0 \<or> t' = t"

definition stored_as :: "ext2_inode \<Rightarrow> ext2_inode \<Rightarrow> bool" where
  "stored_as x y \<longleftrightarrow>
     y = x\<lparr>i_atime := i_atime y, i_ctime := i_ctime y, i_mtime := i_mtime y\<rparr> \<and>
     stamped (i_atime x) (i_atime y) \<and> stamped (i_ctime x) (i_ctime y) \<and> stamped (i_mtime x) (i_mtime y)"

definition stored :: "nat \<Rightarrow> ext2_inode \<Rightarrow> afs \<Rightarrow> afs \<Rightarrow> bool" where
  "stored n x fs fs' \<longleftrightarrow>
     used fs' = used fs \<and> ifree fs' = ifree fs \<and> bfree fs' = bfree fs \<and> dirents fs' = dirents fs \<and> same_but {n} fs fs' \<and>
     (\<exists>y. inode fs' n = Some y \<and> stored_as x y) \<and>
     (list_all (\<lambda>b. b = 0) (i_block x) \<longrightarrow> fdata fs' n = replicate (unat (i_size x)) NUL)"

text \<open>The documented behaviour of the functions. \<open>room i p nm\<close> tells whether an entry of the name \<open>nm\<close> fits into
  the directory \<open>p\<close>; names have at most 255 bytes. No call takes more than 8 blocks: a write of one block
  touches two blocks of the file at most, and each can need indirect blocks at three levels.\<close>

definition lib_dirs :: "'i ext2_ops \<Rightarrow> ('i \<Rightarrow> afs) \<Rightarrow> ('i \<Rightarrow> nat \<Rightarrow> string \<Rightarrow> bool) \<Rightarrow> bool" where
  "lib_dirs L \<alpha> room \<longleftrightarrow>
     (\<forall>i p n nm. p \<in> used (\<alpha> i) \<longrightarrow> n \<notin> used (\<alpha> i) \<longrightarrow> dirents (\<alpha> i) p nm = None \<longrightarrow> room i p nm \<longrightarrow> 0 < ifree (\<alpha> i) \<longrightarrow> 8 \<le> bfree (\<alpha> i) \<longrightarrow>
        (\<exists>i'. mkdir L i p n nm = (0, i') \<and> made_dir 8 p nm n (\<alpha> i) (\<alpha> i'))) \<and>
     (\<forall>i p n nm. \<not> room i p nm \<longrightarrow>
        (\<exists>e i'. mkdir L i p n nm = (e, i') \<and> e \<noteq> 0 \<and> used (\<alpha> i') = used (\<alpha> i) \<and> ifree (\<alpha> i') = ifree (\<alpha> i) \<and>
           dirents (\<alpha> i') = dirents (\<alpha> i) \<and> costs 8 (\<alpha> i) (\<alpha> i') \<and> same_but {n} (\<alpha> i) (\<alpha> i'))) \<and>
     (\<forall>i p n nm t. room i p nm \<longrightarrow> (\<exists>i'. link L i p nm n t = (0, i') \<and> linked 0 p nm n t (\<alpha> i) (\<alpha> i'))) \<and>
     (\<forall>i p n nm t. \<not> room i p nm \<longrightarrow> (\<exists>e i'. link L i p nm n t = (e, i') \<and> e \<noteq> 0 \<and> \<alpha> i' = \<alpha> i)) \<and>
     (\<forall>i p. 8 \<le> bfree (\<alpha> i) \<longrightarrow>
        (\<exists>i'. expand_dir L i p = (0, i') \<and> used (\<alpha> i') = used (\<alpha> i) \<and> ifree (\<alpha> i') = ifree (\<alpha> i) \<and>
           dirents (\<alpha> i') = dirents (\<alpha> i) \<and> costs 8 (\<alpha> i) (\<alpha> i') \<and> same_but {p} (\<alpha> i) (\<alpha> i') \<and>
           (\<forall>nm. length nm \<le> 255 \<longrightarrow> room i' p nm)))"

definition lib_inodes :: "'i ext2_ops \<Rightarrow> ('i \<Rightarrow> afs) \<Rightarrow> bool" where
  "lib_inodes L \<alpha> \<longleftrightarrow>
     (\<forall>i p m. 0 < ifree (\<alpha> i) \<longrightarrow> (\<exists>n i'. new_inode L i p m = (0, n, i') \<and> \<alpha> i' = \<alpha> i \<and> n \<notin> used (\<alpha> i))) \<and>
     (\<forall>i n x. n \<notin> used (\<alpha> i) \<longrightarrow> (\<exists>i'. write_new_inode L i n x = (0, i') \<and> stored n x (\<alpha> i) (\<alpha> i'))) \<and>
     (\<forall>i n b. \<alpha> (inode_alloc_stats2 L i n 1 b) = (\<alpha> i)\<lparr>used := insert n (used (\<alpha> i)), ifree := ifree (\<alpha> i) - 1\<rparr>)"

definition overwrite :: "nat \<Rightarrow> string \<Rightarrow> string \<Rightarrow> string" where
  "overwrite k b d = take k d @ b @ drop (k + length b) d"

definition lib_files :: "'i ext2_ops \<Rightarrow> ('i \<Rightarrow> afs) \<Rightarrow> bool" where
  "lib_files L \<alpha> \<longleftrightarrow> 1024 \<le> blocksize L \<and> blocksize L \<le> 4096 \<and>
     (\<forall>i n. inode (\<alpha> i) n \<noteq> None \<longrightarrow>
        (\<exists>i'. file_open L i n = (0, i') \<and> \<alpha> i' = (\<alpha> i)\<lparr>fpos := (fpos (\<alpha> i))(n \<mapsto> 0)\<rparr>)) \<and>
     (\<forall>i n b k x. fpos (\<alpha> i) n = Some k \<longrightarrow> inode (\<alpha> i) n = Some x \<longrightarrow> k + length b \<le> unat (i_size x) \<longrightarrow>
        length b \<le> blocksize L \<longrightarrow> 8 \<le> bfree (\<alpha> i) \<longrightarrow>
        (\<exists>i'. file_write L i n b = (0, length b, i') \<and>
           file_touched 8 n (overwrite k b (fdata (\<alpha> i) n)) (Some (k + length b)) (\<alpha> i) (\<alpha> i'))) \<and>
     (\<forall>i n. fpos (\<alpha> i) n \<noteq> None \<longrightarrow> 8 \<le> bfree (\<alpha> i) \<longrightarrow>
        (\<exists>i'. file_flush L i n = (0, i') \<and> file_touched 8 n (fdata (\<alpha> i) n) (fpos (\<alpha> i) n) (\<alpha> i) (\<alpha> i'))) \<and>
     (\<forall>i n. fpos (\<alpha> i) n \<noteq> None \<longrightarrow> 8 \<le> bfree (\<alpha> i) \<longrightarrow>
        (\<exists>i'. file_close L i n = (0, i') \<and> file_touched 8 n (fdata (\<alpha> i) n) None (\<alpha> i) (\<alpha> i')))"

definition good_ext2 :: "'i ext2_ops \<Rightarrow> ('i \<Rightarrow> afs) \<Rightarrow> ('i \<Rightarrow> nat \<Rightarrow> string \<Rightarrow> bool) \<Rightarrow> bool" where
  "good_ext2 L \<alpha> room \<longleftrightarrow> lib_dirs L \<alpha> room \<and> lib_inodes L \<alpha> \<and> lib_files L \<alpha>"

text \<open>The laws, one by one.\<close>

lemma lib_dirsD:
  assumes "lib_dirs L \<alpha> room"
  shows "p \<in> used (\<alpha> i) \<Longrightarrow> n \<notin> used (\<alpha> i) \<Longrightarrow> dirents (\<alpha> i) p nm = None \<Longrightarrow> room i p nm \<Longrightarrow> 0 < ifree (\<alpha> i) \<Longrightarrow> 8 \<le> bfree (\<alpha> i) \<Longrightarrow>
        \<exists>i'. mkdir L i p n nm = (0, i') \<and> made_dir 8 p nm n (\<alpha> i) (\<alpha> i')"
    and "\<not> room i p nm \<Longrightarrow>
        \<exists>e i'. mkdir L i p n nm = (e, i') \<and> e \<noteq> 0 \<and> used (\<alpha> i') = used (\<alpha> i) \<and> ifree (\<alpha> i') = ifree (\<alpha> i) \<and>
           dirents (\<alpha> i') = dirents (\<alpha> i) \<and> costs 8 (\<alpha> i) (\<alpha> i') \<and> same_but {n} (\<alpha> i) (\<alpha> i')"
    and "room i p nm \<Longrightarrow> \<exists>i'. link L i p nm n t = (0, i') \<and> linked 0 p nm n t (\<alpha> i) (\<alpha> i')"
    and "\<not> room i p nm \<Longrightarrow> \<exists>e i'. link L i p nm n t = (e, i') \<and> e \<noteq> 0 \<and> \<alpha> i' = \<alpha> i"
    and "8 \<le> bfree (\<alpha> i) \<Longrightarrow>
        \<exists>i'. expand_dir L i p = (0, i') \<and> used (\<alpha> i') = used (\<alpha> i) \<and> ifree (\<alpha> i') = ifree (\<alpha> i) \<and>
           dirents (\<alpha> i') = dirents (\<alpha> i) \<and> costs 8 (\<alpha> i) (\<alpha> i') \<and> same_but {p} (\<alpha> i) (\<alpha> i') \<and>
           (\<forall>nm. length nm \<le> 255 \<longrightarrow> room i' p nm)"
  using assms by (simp_all add: lib_dirs_def)

lemma lib_inodesD:
  assumes "lib_inodes L \<alpha>"
  shows "0 < ifree (\<alpha> i) \<Longrightarrow> \<exists>n i'. new_inode L i p m = (0, n, i') \<and> \<alpha> i' = \<alpha> i \<and> n \<notin> used (\<alpha> i)"
    and "n \<notin> used (\<alpha> i) \<Longrightarrow> \<exists>i'. write_new_inode L i n x = (0, i') \<and> stored n x (\<alpha> i) (\<alpha> i')"
    and "\<alpha> (inode_alloc_stats2 L i n 1 b) = (\<alpha> i)\<lparr>used := insert n (used (\<alpha> i)), ifree := ifree (\<alpha> i) - 1\<rparr>"
  using assms by (simp_all add: lib_inodes_def)

lemma lib_filesD:
  assumes "lib_files L \<alpha>"
  shows "1024 \<le> blocksize L" and "blocksize L \<le> 4096"
    and "inode (\<alpha> i) n \<noteq> None \<Longrightarrow> \<exists>i'. file_open L i n = (0, i') \<and> \<alpha> i' = (\<alpha> i)\<lparr>fpos := (fpos (\<alpha> i))(n \<mapsto> 0)\<rparr>"
    and "fpos (\<alpha> i) n = Some k \<Longrightarrow> inode (\<alpha> i) n = Some x \<Longrightarrow> k + length b \<le> unat (i_size x) \<Longrightarrow>
        length b \<le> blocksize L \<Longrightarrow> 8 \<le> bfree (\<alpha> i) \<Longrightarrow>
        \<exists>i'. file_write L i n b = (0, length b, i') \<and>
           file_touched 8 n (overwrite k b (fdata (\<alpha> i) n)) (Some (k + length b)) (\<alpha> i) (\<alpha> i')"
    and "fpos (\<alpha> i) n \<noteq> None \<Longrightarrow> 8 \<le> bfree (\<alpha> i) \<Longrightarrow>
        \<exists>i'. file_flush L i n = (0, i') \<and> file_touched 8 n (fdata (\<alpha> i) n) (fpos (\<alpha> i) n) (\<alpha> i) (\<alpha> i')"
    and "fpos (\<alpha> i) n \<noteq> None \<Longrightarrow> 8 \<le> bfree (\<alpha> i) \<Longrightarrow>
        \<exists>i'. file_close L i n = (0, i') \<and> file_touched 8 n (fdata (\<alpha> i) n) None (\<alpha> i) (\<alpha> i')"
  using assms by (simp_all add: lib_files_def)

section \<open>Single steps\<close>

lemma costs_trans: "costs a fs fs1 \<Longrightarrow> costs b fs1 fs2 \<Longrightarrow> costs (a + b) fs fs2"
  by (simp add: costs_def)

lemma same_but_trans: "same_but X fs fs1 \<Longrightarrow> same_but Y fs1 fs2 \<Longrightarrow> same_but (X \<union> Y) fs fs2"
  by (simp add: same_but_def)

lemma same_but_mono: "same_but X fs fs1 \<Longrightarrow> X \<subseteq> Y \<Longrightarrow> same_but Y fs fs1"
  by (auto simp: same_but_def)

lemma same_attrs_trans: "same_attrs x y \<Longrightarrow> same_attrs y z \<Longrightarrow> same_attrs x z"
  unfolding same_attrs_def by (cases x, cases y, cases z) simp

lemma file_touched_trans:
  assumes "file_touched a n d1 k1 fs fs1" and "file_touched b n d2 k2 fs1 fs2"
  shows "file_touched (a + b) n d2 k2 fs fs2"
proof -
  have "rel_option same_attrs (inode fs n) (inode fs2 n)"
    using assms by (auto simp: file_touched_def option_rel_Some1 option_rel_Some2 elim!: option.rel_cases
        intro: same_attrs_trans)
  then show ?thesis
    using assms same_but_trans [of "{n}" fs fs1 "{n}" fs2] costs_trans [of a fs fs1 b fs2]
    by (simp add: file_touched_def)
qed

lemma link_with_expand:
  assumes "lib_dirs L \<alpha> room" and "8 \<le> bfree (\<alpha> i)" and "length nm \<le> 255"
  shows "\<exists>i'. with_expand L p (\<lambda>i. link L i p nm n t) i = (True, i') \<and> linked 8 p nm n t (\<alpha> i) (\<alpha> i')"
proof (cases "room i p nm")
  case True
  from lib_dirsD(3) [OF assms(1) this, of n t] show ?thesis
    by (auto simp: with_expand_def linked_def costs_def)
next
  case False
  from lib_dirsD(4) [OF assms(1) this, of n t] obtain e i1 where
    1: "link L i p nm n t = (e, i1)" "e \<noteq> 0" "\<alpha> i1 = \<alpha> i" by auto
  from lib_dirsD(5) [OF assms(1), of i1 p] assms(2,3) 1(3) obtain i2 where
    2: "expand_dir L i1 p = (0, i2)" "used (\<alpha> i2) = used (\<alpha> i)" "ifree (\<alpha> i2) = ifree (\<alpha> i)"
      "dirents (\<alpha> i2) = dirents (\<alpha> i)" "costs 8 (\<alpha> i) (\<alpha> i2)" "same_but {p} (\<alpha> i) (\<alpha> i2)" "room i2 p nm" by auto
  from lib_dirsD(3) [OF assms(1) 2(7), of n t] obtain i3 where
    3: "link L i2 p nm n t = (0, i3)" "linked 0 p nm n t (\<alpha> i2) (\<alpha> i3)" by blast
  have "linked 8 p nm n t (\<alpha> i) (\<alpha> i3)"
    using 2 3(2) costs_trans [OF 2(5), of 0] same_but_trans [OF 2(6), of "{p}"] by (simp add: linked_def)
  then show ?thesis using 1 2(1) 3(1) by (auto simp: with_expand_def)
qed

lemma mkdir_with_expand:
  assumes "lib_dirs L \<alpha> room" and "p \<in> used (\<alpha> i)" and "n \<notin> used (\<alpha> i)" and "dirents (\<alpha> i) p nm = None"
    and "0 < ifree (\<alpha> i)" and "24 \<le> bfree (\<alpha> i)" and "length nm \<le> 255"
  shows "\<exists>i'. with_expand L p (\<lambda>i. mkdir L i p n nm) i = (True, i') \<and> made_dir 24 p nm n (\<alpha> i) (\<alpha> i')"
proof (cases "room i p nm")
  case True
  have "8 \<le> bfree (\<alpha> i)" using assms(6) by simp
  from lib_dirsD(1) [OF assms(1-4) True assms(5) this] show ?thesis by (auto simp: with_expand_def made_dir_def costs_def)
next
  case False
  from lib_dirsD(2) [OF assms(1) this, of n] obtain e i1 where
    1: "mkdir L i p n nm = (e, i1)" "e \<noteq> 0" "used (\<alpha> i1) = used (\<alpha> i)" "ifree (\<alpha> i1) = ifree (\<alpha> i)"
      "dirents (\<alpha> i1) = dirents (\<alpha> i)" "costs 8 (\<alpha> i) (\<alpha> i1)" "same_but {n} (\<alpha> i) (\<alpha> i1)" by auto
  have "8 \<le> bfree (\<alpha> i1)" using 1(6) assms(6) by (simp add: costs_def)
  from lib_dirsD(5) [OF assms(1) this, of p] assms(7) obtain i2 where
    2: "expand_dir L i1 p = (0, i2)" "used (\<alpha> i2) = used (\<alpha> i1)" "ifree (\<alpha> i2) = ifree (\<alpha> i1)"
      "dirents (\<alpha> i2) = dirents (\<alpha> i1)" "costs 8 (\<alpha> i1) (\<alpha> i2)" "same_but {p} (\<alpha> i1) (\<alpha> i2)" "room i2 p nm" by auto
  have "p \<in> used (\<alpha> i2)" "n \<notin> used (\<alpha> i2)" "dirents (\<alpha> i2) p nm = None" "0 < ifree (\<alpha> i2)" "8 \<le> bfree (\<alpha> i2)"
    using assms(2-6) 1(3-6) 2(2-5) by (simp_all add: costs_def)
  from lib_dirsD(1) [OF assms(1) this(1-3) 2(7) this(4,5)] obtain i3 where
    3: "mkdir L i2 p n nm = (0, i3)" "made_dir 8 p nm n (\<alpha> i2) (\<alpha> i3)" by blast
  have "same_but {p, n} (\<alpha> i) (\<alpha> i3)" "costs 24 (\<alpha> i) (\<alpha> i3)"
    using 1(6,7) 2(5,6) 3(2) by (simp_all add: same_but_def costs_def made_dir_def)
  then have "made_dir 24 p nm n (\<alpha> i) (\<alpha> i3)" using 1(3-5) 2(2-4) 3(2) by (simp add: made_dir_def)
  then show ?thesis using 1(1,2) 2(1) 3(1) by (auto simp: with_expand_def)
qed

text \<open>The blocks of a file of a given length.\<close>

definition nblocks :: "nat \<Rightarrow> nat \<Rightarrow> nat" where
  "nblocks bs len = (len + bs - 1) div bs"

lemma nblocks_step: "0 < bs \<Longrightarrow> 0 < len \<Longrightarrow> nblocks bs len = Suc (nblocks bs (len - bs))"
proof -
  assume pos: "0 < bs" "0 < len"
  show ?thesis
  proof (cases "bs \<le> len")
    case True
    then have "len + bs - 1 = (len - bs + bs - 1) + bs" using pos by simp
    then have "nblocks bs len = (len - bs + bs - 1 + bs) div bs" by (simp only: nblocks_def)
    also have "\<dots> = Suc (nblocks bs (len - bs))" using pos(1) by (simp only: nblocks_def div_add_self2 Suc_eq_plus1)
    finally show ?thesis .
  next
    case False
    then have "len + bs - 1 = (len - 1) + bs" "(len - 1) div bs = 0" "(len - bs + bs - 1) div bs = 0" using pos by auto
    then show ?thesis using pos(1) by (simp only: nblocks_def div_add_self2 Suc_eq_plus1)
  qed
qed

lemma overwrite_append:
  "k \<le> length d \<Longrightarrow> overwrite (k + length b) c (overwrite k b d) = overwrite k (b @ c) d"
  by (simp add: overwrite_def add.commute add.left_commute)

lemma overwrite_all: "length b = length d \<Longrightarrow> overwrite 0 b d = b"
  by (simp add: overwrite_def)

text \<open>The copy loop writes the content from the position on, in blocks, and closes the file.\<close>

lemma copy_loop_writes:
  assumes "lib_files L \<alpha>" and "inode (\<alpha> i) n = Some x" and "fpos (\<alpha> i) n = Some k" and "k \<le> length (fdata (\<alpha> i) n)"
    and "k + length data \<le> unat (i_size x)" and "16 * nblocks (blocksize L) (length data) + 8 \<le> bfree (\<alpha> i)"
  shows "\<exists>i'. copy_loop L n True data i = Inr i' \<and>
    file_touched (16 * nblocks (blocksize L) (length data) + 8) n (overwrite k data (fdata (\<alpha> i) n)) None (\<alpha> i) (\<alpha> i')"
  using assms(2-)
proof (induction data arbitrary: i x k rule: length_induct)
  case (1 data)
  let ?bs = "blocksize L"
  note bs = lib_filesD(1,2) [OF assms(1)]
  show ?case
  proof (cases "data = []")
    case True
    have "8 \<le> bfree (\<alpha> i)" "fpos (\<alpha> i) n \<noteq> None" using "1.prems"(2,5) by simp_all
    from lib_filesD(6) [OF assms(1) this(2,1)] obtain i' where
      c: "file_close L i n = (0, i')" "file_touched 8 n (fdata (\<alpha> i) n) None (\<alpha> i) (\<alpha> i')" by blast
    have "overwrite k [] (fdata (\<alpha> i) n) = fdata (\<alpha> i) n" by (simp add: overwrite_def)
    moreover have "nblocks ?bs 0 = 0" using bs by (simp add: nblocks_def)
    ultimately show ?thesis using c True by (simp add: copy_loop.simps)
  next
    case False
    let ?b = "take ?bs data" and ?rest = "drop ?bs data" and ?d = "fdata (\<alpha> i) n"
    have nb: "nblocks ?bs (length data) = Suc (nblocks ?bs (length ?rest))"
      using nblocks_step [of ?bs "length data"] False bs by simp
    have "k + length ?b \<le> unat (i_size x)" "length ?b \<le> ?bs" "8 \<le> bfree (\<alpha> i)"
      using "1.prems"(4,5) nb by auto
    from lib_filesD(4) [OF assms(1) "1.prems"(2,1) this] obtain i1 where
      w: "file_write L i n ?b = (0, length ?b, i1)"
        "file_touched 8 n (overwrite k ?b ?d) (Some (k + length ?b)) (\<alpha> i) (\<alpha> i1)" by blast
    have "8 \<le> bfree (\<alpha> i1)" "fpos (\<alpha> i1) n \<noteq> None"
      using w(2) "1.prems"(5) nb by (simp_all add: file_touched_def costs_def)
    from lib_filesD(5) [OF assms(1) this(2,1)] w(2) obtain i2 where
      f: "file_flush L i1 n = (0, i2)"
        "file_touched 8 n (overwrite k ?b ?d) (Some (k + length ?b)) (\<alpha> i1) (\<alpha> i2)"
      by (auto simp: file_touched_def)
    note t = file_touched_trans [OF w(2) f(2)]
    obtain y where y: "inode (\<alpha> i2) n = Some y" "same_attrs x y"
      using t "1.prems"(1) by (auto simp: file_touched_def option_rel_Some1)
    have size: "i_size y = i_size x" using y(2) unfolding same_attrs_def by (cases x, cases y) simp
    have d: "fdata (\<alpha> i2) n = overwrite k ?b ?d" "fpos (\<alpha> i2) n = Some (k + length ?b)"
      using t by (simp_all add: file_touched_def)
    have "k + length ?b \<le> length (fdata (\<alpha> i2) n)" using d(1) "1.prems"(3) by (simp add: overwrite_def)
    moreover have "k + length ?b + length ?rest \<le> unat (i_size y)" using "1.prems"(4) size by simp
    moreover have "16 * nblocks ?bs (length ?rest) + 8 \<le> bfree (\<alpha> i2)"
      using t "1.prems"(5) nb by (simp add: file_touched_def costs_def)
    moreover have "length ?rest < length data" using False bs by simp
    ultimately obtain i3 where i3: "copy_loop L n True ?rest i2 = Inr i3"
      "file_touched (16 * nblocks ?bs (length ?rest) + 8) n (overwrite (k + length ?b) ?rest (fdata (\<alpha> i2) n)) None (\<alpha> i2) (\<alpha> i3)"
      using "1.IH" y(1) d(2) by blast
    have "copy_loop L n True data i = Inr i3"
      using False bs w(1) f(1) i3(1) by (subst copy_loop.simps) (simp add: Let_def min_def)
    moreover have "overwrite (k + length ?b) ?rest (fdata (\<alpha> i2) n) = overwrite k data ?d"
      unfolding d(1) using overwrite_append [OF "1.prems"(3), of ?b ?rest] by simp
    ultimately show ?thesis using file_touched_trans [OF t i3(2)] nb by (simp add: add.assoc)
  qed
qed

section \<open>The tree in the image\<close>

definition dots :: "string set" where
  "dots = {''.'', ''..''}"

definition names :: "hentry list \<Rightarrow> string set" where
  "names es = he_name ` set es - dots"

text \<open>A tree the program can read completely: everything can be examined, opened and listed, there is
  nothing but the seven kinds of files, files have the length \<open>lstat\<close> reports and are shorter than 4 GB, links are
  not longer than the buffer and have no device number, names have at most 255 bytes, and no two entries of a directory have the
  same name.\<close>

function readable :: "hentry list \<Rightarrow> bool" where
  "readable [] \<longleftrightarrow> True"
| "readable (HEntry name st data target sub # es) \<longleftrightarrow>
     (name \<notin> dots \<longrightarrow> name \<notin> he_name ` set es \<and> length name \<le> 255 \<and>
       (case st of
          None \<Rightarrow> False
        | Some info \<Rightarrow>
          if S_ISDIR (st_mode info) then (case sub of Some (Some es') \<Rightarrow> readable es' | _ \<Rightarrow> False)
          else if S_ISREG (st_mode info)
          then (case data of None \<Rightarrow> False | Some d \<Rightarrow> length d = st_size info \<and> length d < 2 ^ 32)
          else (case special_type (st_mode info) of
              None \<Rightarrow> False
            | Some t \<Rightarrow> t = EXT2_FT_SYMLINK \<longrightarrow> st_rdev info = 0 \<and>
                (case target of None \<Rightarrow> False | Some tg \<Rightarrow> length tg = st_size info \<and> length tg \<le> 1024)))) \<and>
     readable es"
  by pat_completeness auto

termination readable
  by (relation "measure (size_list size)") auto

text \<open>The inodes and blocks that are enough for it.\<close>

function inodes_needed :: "hentry list \<Rightarrow> nat" where
  "inodes_needed [] = 0"
| "inodes_needed (HEntry name st data target sub # es) =
     (if name \<in> dots then 0
      else case st of
        None \<Rightarrow> 0
      | Some info \<Rightarrow>
        if S_ISDIR (st_mode info) then (case sub of Some (Some es') \<Rightarrow> 1 + inodes_needed es' | _ \<Rightarrow> 1) else 1)
     + inodes_needed es"
  by pat_completeness auto

termination inodes_needed
  by (relation "measure (size_list size)") auto

function blocks_needed :: "nat \<Rightarrow> hentry list \<Rightarrow> nat" where
  "blocks_needed bs [] = 0"
| "blocks_needed bs (HEntry name st data target sub # es) =
     (if name \<in> dots then 0
      else case st of
        None \<Rightarrow> 0
      | Some info \<Rightarrow>
        if S_ISDIR (st_mode info) then (case sub of Some (Some es') \<Rightarrow> 24 + blocks_needed bs es' | _ \<Rightarrow> 24)
        else if S_ISREG (st_mode info) then 16 * nblocks bs (st_size info) + 16 else 24)
     + blocks_needed bs es"
  by pat_completeness auto

termination blocks_needed
  by (relation "measure (\<lambda>(bs, es). size_list size es)") auto

text \<open>The attributes an inode must have for the host's, in numbers: owner and group at 16 bits, times at 32 bits
  (0 may be replaced), the nine permission bits of a regular file and the whole mode of a special
  file, the size, and the number of a device.\<close>

definition time_kept :: "int \<Rightarrow> 32 word \<Rightarrow> bool" where
  "time_kept t w \<longleftrightarrow> t mod 2 ^ 32 = 0 \<or> uint w = t mod 2 ^ 32"

definition common_attrs :: "hstat \<Rightarrow> ext2_inode \<Rightarrow> bool" where
  "common_attrs info x \<longleftrightarrow>
     unat (i_uid x) = st_uid info mod 2 ^ 16 \<and> unat (i_gid x) = st_gid info mod 2 ^ 16 \<and>
     time_kept (st_atime info) (i_atime x) \<and> time_kept (st_mtime info) (i_mtime x) \<and> time_kept (st_ctime info) (i_ctime x) \<and>
     i_links_count x = 1 \<and> unat (i_size x) = st_size info mod 2 ^ 32"

definition reg_attrs :: "hstat \<Rightarrow> ext2_inode \<Rightarrow> bool" where
  "reg_attrs info x \<longleftrightarrow> common_attrs info x \<and> unat (i_mode x) = 32768 + st_mode info mod 512"

definition special_attrs :: "ftype \<Rightarrow> hstat \<Rightarrow> ext2_inode \<Rightarrow> bool" where
  "special_attrs t info x \<longleftrightarrow> common_attrs info x \<and> unat (i_mode x) = st_mode info mod 2 ^ 16 \<and>
     (t \<noteq> EXT2_FT_SYMLINK \<longrightarrow> i_block x \<noteq> [] \<and> unat (i_block x ! 0) = st_rdev info mod 2 ^ 32)"

text \<open>What the image has for the entries of a directory: the kind of each entry, the attributes and the
  content; a directory has the names of the host's and no others, and mirrors it in turn (its own
  attributes are the library's). All inodes are taken from the set \<open>A\<close>.\<close>

definition has_attrs :: "afs \<Rightarrow> nat \<Rightarrow> (ext2_inode \<Rightarrow> bool) \<Rightarrow> bool" where
  "has_attrs fs n P \<longleftrightarrow> (case inode fs n of None \<Rightarrow> False | Some x \<Rightarrow> P x)"

function mirrors :: "afs \<Rightarrow> nat set \<Rightarrow> hentry list \<Rightarrow> (string \<rightharpoonup> nat \<times> ftype) \<Rightarrow> bool" where
  "mirrors fs A [] D \<longleftrightarrow> True"
| "mirrors fs A (HEntry name st data target sub # es) D \<longleftrightarrow>
     (name \<notin> dots \<longrightarrow>
       (case (st, D name) of
          (Some info, Some (n, t)) \<Rightarrow>
            n \<in> A \<and>
            (if S_ISDIR (st_mode info)
             then t = EXT2_FT_DIR \<and>
               (case sub of Some (Some es') \<Rightarrow> dom (dirents fs n) = names es' \<and> mirrors fs A es' (dirents fs n) | _ \<Rightarrow> False)
             else if S_ISREG (st_mode info)
             then t = EXT2_FT_REG_FILE \<and> has_attrs fs n (reg_attrs info) \<and> Some (fdata fs n) = data
             else Some t = special_type (st_mode info) \<and> has_attrs fs n (special_attrs t info) \<and>
               (t = EXT2_FT_SYMLINK \<longrightarrow> Some (fdata fs n) = target))
        | _ \<Rightarrow> False)) \<and>
     mirrors fs A es D"
  by pat_completeness auto

termination mirrors
  by (relation "measure (\<lambda>(fs, A, es, ds). size_list size es)") auto

declare readable.simps(2) [simp del] mirrors.simps(2) [simp del] inodes_needed.simps(2) [simp del]
  blocks_needed.simps(2) [simp del]

text \<open>The mirrored tree depends on its own inodes only.\<close>

definition agree :: "nat set \<Rightarrow> afs \<Rightarrow> afs \<Rightarrow> bool" where
  "agree A fs fs' \<longleftrightarrow>
     (\<forall>n\<in>A. inode fs' n = inode fs n \<and> fdata fs' n = fdata fs n \<and> dirents fs' n = dirents fs n)"

lemma mirrors_agree:
  "mirrors fs A es D \<Longrightarrow> agree A fs fs' \<Longrightarrow> A \<subseteq> B \<Longrightarrow> (\<And>nm. nm \<in> names es \<Longrightarrow> D' nm = D nm) \<Longrightarrow> mirrors fs' B es D'"
proof (induction fs A es D arbitrary: D' rule: mirrors.induct)
  case (2 fs A name st data target sub es D)
  have rest: "mirrors fs' B es D'"
    by (rule "2.IH"(2)) (use "2.prems" in \<open>auto simp: mirrors.simps names_def\<close>)
  show ?case
  proof (cases "name \<in> dots")
    case True
    then show ?thesis using rest by (simp add: mirrors.simps)
  next
    case False
    then obtain info n t where st: "st = Some info" and D: "D name = Some (n, t)"
      using "2.prems"(1) by (auto simp: mirrors.simps split: option.splits)
    have D': "D' name = Some (n, t)" using "2.prems"(4) [of name] False D by (simp add: names_def)
    have m: "mirrors fs A [HEntry name (Some info) data target sub] D" using "2.prems"(1) st by (simp add: mirrors.simps)
    then have "n \<in> A" using False D by (simp add: mirrors.simps)
    then have same: "inode fs' n = inode fs n" "fdata fs' n = fdata fs n" "dirents fs' n = dirents fs n" "n \<in> B"
      using "2.prems"(2,3) by (auto simp: agree_def)
    have sub: "mirrors fs' B es' (dirents fs n)"
      if "S_ISDIR (st_mode info)" "sub = Some (Some es')" "mirrors fs A es' (dirents fs n)" for es'
      using "2.IH"(1) [OF False] st D that "2.prems"(2,3) by auto
    show ?thesis
      using m rest sub same(4) False unfolding mirrors.simps st D' D
      by (auto simp: has_attrs_def same split: option.splits if_splits)
  qed
qed simp

lemma mirrors_Cons: "mirrors fs A (e # es) D \<longleftrightarrow> mirrors fs A [e] D \<and> mirrors fs A es D"
  by (cases e) (simp add: mirrors.simps)

lemma needed_Cons:
  "inodes_needed (e # es) = inodes_needed [e] + inodes_needed es"
  "blocks_needed bs (e # es) = blocks_needed bs [e] + blocks_needed bs es"
  by (cases e, simp add: inodes_needed.simps blocks_needed.simps)+

text \<open>From one file system to another, the entries \<open>D\<close> for the host's \<open>es\<close> have been added to the directory \<open>p\<close>,
  and nothing else that was in use has changed; at most the inodes and blocks needed have been taken.\<close>

definition built :: "nat \<Rightarrow> afs \<Rightarrow> afs \<Rightarrow> nat \<Rightarrow> hentry list \<Rightarrow> (string \<rightharpoonup> nat \<times> ftype) \<Rightarrow> bool" where
  "built bs fs fs' p es D \<longleftrightarrow>
     dirents fs' p = dirents fs p ++ D \<and> dom D = names es \<and> used fs \<subseteq> used fs' \<and>
     mirrors fs' (used fs' - used fs) es D \<and> agree (used fs - {p}) fs fs' \<and>
     ifree fs \<le> ifree fs' + inodes_needed es \<and> costs (blocks_needed bs es) fs fs'"

lemma built_Nil: "built bs fs fs p [] Map.empty"
  by (simp add: built_def agree_def names_def costs_def)

lemma built_Cons:
  assumes "built bs fs fs1 p [e] D1" and "built bs fs1 fs2 p es D2" and "p \<in> used fs" and "names [e] \<inter> names es = {}"
  shows "built bs fs fs2 p (e # es) (D1 ++ D2)"
proof -
  have m1: "mirrors fs1 (used fs1 - used fs) [e] D1" and m2: "mirrors fs2 (used fs2 - used fs1) es D2"
    and u1: "used fs \<subseteq> used fs1" and u2: "used fs1 \<subseteq> used fs2"
    and d: "dom D1 = names [e]" "dom D2 = names es"
    and a1: "agree (used fs - {p}) fs fs1" and a2: "agree (used fs1 - {p}) fs1 fs2"
    using assms(1,2) by (simp_all add: built_def)
  have keep: "(D1 ++ D2) nm = D1 nm" if "nm \<in> names [e]" for nm
    using that d assms(4) by (auto simp: map_add_def split: option.split)
  have over: "(D1 ++ D2) nm = D2 nm" if "nm \<in> names es" for nm
    using that d by (auto simp: map_add_def split: option.split)
  have "agree (used fs1 - used fs) fs1 fs2" using a2 assms(3) by (auto simp: agree_def)
  then have ma: "mirrors fs2 (used fs2 - used fs) [e] (D1 ++ D2)"
    by (rule mirrors_agree [OF m1 _ Diff_mono [OF u2 order_refl] keep])
  have mb: "mirrors fs2 (used fs2 - used fs) es (D1 ++ D2)"
    by (rule mirrors_agree [OF m2 _ Diff_mono [OF order_refl u1] over]) (simp add: agree_def)
  have "agree (used fs - {p}) fs fs2" using a1 a2 u1 unfolding agree_def by auto
  moreover have "mirrors fs2 (used fs2 - used fs) (e # es) (D1 ++ D2)"
    by (rule mirrors_Cons [THEN iffD2, OF conjI [OF ma mb]])
  moreover have "names (e # es) = dom (D1 ++ D2)" using d by (auto simp: names_def)
  ultimately show ?thesis
    using assms(1,2) u1 u2 needed_Cons(1) [of e es] needed_Cons(2) [of bs e es] by (simp add: built_def costs_def)
qed

section \<open>Attributes\<close>

lemma reg_mode: "32768 OR (m AND 511) = 32768 + m mod 512" for m :: nat
proof -
  have "(511 :: nat) = mask 9" by (simp add: mask_eq_exp_minus_1)
  then have m: "m AND 511 = take_bit 9 m" by (simp only: take_bit_eq_mask)
  have "\<not> bit (32768 :: nat) n \<or> \<not> bit (take_bit 9 m) n" for n
  proof -
    have "(32768 :: nat) = 2 ^ 15" by simp
    then show ?thesis by (simp only: bit_exp_iff bit_take_bit_iff) auto
  qed
  then have "32768 + take_bit 9 m = 32768 OR take_bit 9 m" by (intro disjunctive_add) blast
  then show ?thesis unfolding m by (simp add: take_bit_eq_mod)
qed

lemma stored_time: "stamped (of_int t) w \<Longrightarrow> time_kept t w"
  by (auto simp: stamped_def time_kept_def uint_word_of_int_eq take_bit_eq_mod simp flip: uint_0_iff)

lemma stored_common:
  assumes "stored_as x y" and "i_uid x = of_nat (st_uid info)" and "i_gid x = of_nat (st_gid info)"
    and "i_atime x = of_int (st_atime info)" and "i_mtime x = of_int (st_mtime info)" and "i_ctime x = of_int (st_ctime info)"
    and "i_links_count x = 1" and "i_size x = of_nat (st_size info)"
  shows "common_attrs info y"
proof -
  have y: "i_uid y = i_uid x" "i_gid y = i_gid x" "i_links_count y = i_links_count x" "i_size y = i_size x"
    using assms(1) unfolding stored_as_def by (cases x, cases y, simp)+
  show ?thesis
    using assms stored_time unfolding common_attrs_def stored_as_def y
    by (simp add: unat_of_nat)
qed

lemma stored_reg: "stored_as (reg_inode info) y \<Longrightarrow> reg_attrs info y"
proof -
  assume y: "stored_as (reg_inode info) y"
  have "i_mode y = i_mode (reg_inode info)"
    using y unfolding stored_as_def by (cases "reg_inode info", cases y) simp
  also have "\<dots> = of_nat (32768 + st_mode info mod 512)" by (simp add: reg_inode_def reg_mode)
  finally have "unat (i_mode y) = (32768 + st_mode info mod 512) mod 2 ^ LENGTH(16)" by (simp only: unat_of_nat)
  also have "\<dots> = 32768 + st_mode info mod 512" by simp
  finally show ?thesis
    using stored_common [OF y, of info] by (simp add: reg_attrs_def reg_inode_def)
qed

lemma stored_special: "stored_as (special_inode info) y \<Longrightarrow> special_attrs t info y"
proof -
  assume y: "stored_as (special_inode info) y"
  have "i_mode y = i_mode (special_inode info)" "i_block y = i_block (special_inode info)"
    using y unfolding stored_as_def by (cases "special_inode info", cases y, simp)+
  then show ?thesis
    using stored_common [OF y, of info] by (simp add: special_attrs_def special_inode_def zero_inode_def unat_of_nat)
qed

text \<open>Moving the data of a file keeps its attributes, but for the block pointers.\<close>

lemma same_attrs_fields:
  assumes "same_attrs x y"
  shows "i_mode y = i_mode x" "i_uid y = i_uid x" "i_gid y = i_gid x" "i_size y = i_size x" "i_atime y = i_atime x"
    "i_ctime y = i_ctime x" "i_mtime y = i_mtime x" "i_links_count y = i_links_count x"
  using assms unfolding same_attrs_def by (cases x, cases y, simp)+

lemma same_attrs_reg: "same_attrs x y \<Longrightarrow> reg_attrs info x \<Longrightarrow> reg_attrs info y"
  using same_attrs_fields [of x y] by (simp add: reg_attrs_def common_attrs_def)

lemma same_attrs_symlink:
  "same_attrs x y \<Longrightarrow> special_attrs EXT2_FT_SYMLINK info x \<Longrightarrow> special_attrs EXT2_FT_SYMLINK info y"
  using same_attrs_fields [of x y] by (simp add: special_attrs_def common_attrs_def)

section \<open>Files\<close>

text \<open>What creating a file does: the new inode with its attributes and content, and the entry.\<close>

definition entry_made ::
  "nat \<Rightarrow> nat \<Rightarrow> string \<Rightarrow> nat \<Rightarrow> ftype \<Rightarrow> afs \<Rightarrow> afs \<Rightarrow> bool" where
  "entry_made c p nm n t fs fs' \<longleftrightarrow>
     used fs' = insert n (used fs) \<and> ifree fs \<le> ifree fs' + 1 \<and> costs c fs fs' \<and> same_but {p, n} fs fs' \<and>
     dirents fs' = (dirents fs)(p := (dirents fs p)(nm \<mapsto> (n, t)))"

lemma entry_made_built:
  assumes "entry_made c p nm n t fs fs'" and "n \<notin> used fs" and "p \<in> used fs" and "nm \<notin> dots" and "he_name e = nm"
    and "mirrors fs' {n} [e] [nm \<mapsto> (n, t)]" and "1 \<le> inodes_needed [e]" and "c \<le> blocks_needed bs [e]"
  shows "built bs fs fs' p [e] [nm \<mapsto> (n, t)]"
proof -
  have "used fs' - used fs = {n}" "n \<noteq> p" using assms(1-3) by (auto simp: entry_made_def)
  moreover have "names [e] = {nm}" using assms(4,5) by (auto simp: names_def)
  ultimately show ?thesis using assms by (auto simp: built_def entry_made_def agree_def same_but_def costs_def)
qed

text \<open>The new inode, marked as used.\<close>

lemma new_file:
  fixes x :: ext2_inode and b :: bool
  assumes "lib_inodes L \<alpha>" and "n \<notin> used (\<alpha> i)"
  defines "i' \<equiv> inode_alloc_stats2 L (snd (write_new_inode L i n x)) n 1 b"
  shows "used (\<alpha> i') = insert n (used (\<alpha> i))" "ifree (\<alpha> i) \<le> ifree (\<alpha> i') + 1" "bfree (\<alpha> i') = bfree (\<alpha> i)"
    "dirents (\<alpha> i') = dirents (\<alpha> i)" "same_but {n} (\<alpha> i) (\<alpha> i')"
    "\<exists>y. inode (\<alpha> i') n = Some y \<and> stored_as x y"
    "list_all (\<lambda>b. b = 0) (i_block x) \<Longrightarrow> fdata (\<alpha> i') n = replicate (unat (i_size x)) NUL"
proof -
  obtain i1 where "write_new_inode L i n x = (0, i1)" "stored n x (\<alpha> i) (\<alpha> i1)"
    using lib_inodesD(2) [OF assms(1,2)] by blast
  then show "used (\<alpha> i') = insert n (used (\<alpha> i))" "ifree (\<alpha> i) \<le> ifree (\<alpha> i') + 1" "bfree (\<alpha> i') = bfree (\<alpha> i)"
    "dirents (\<alpha> i') = dirents (\<alpha> i)" "same_but {n} (\<alpha> i) (\<alpha> i')" "\<exists>y. inode (\<alpha> i') n = Some y \<and> stored_as x y"
    "list_all (\<lambda>b. b = 0) (i_block x) \<Longrightarrow> fdata (\<alpha> i') n = replicate (unat (i_size x)) NUL"
    unfolding i'_def by (simp_all add: stored_def same_but_def lib_inodesD(3) [OF assms(1)])
qed

text \<open>From the marked inode on: what happens to the file alone, and then the entry.\<close>

lemma file_then_link:
  assumes "lib_inodes L \<alpha>" and "n \<notin> used (\<alpha> i)"
    and "file_touched c n d k (\<alpha> (inode_alloc_stats2 L (snd (write_new_inode L i n x)) n 1 b)) (\<alpha> i2)"
    and "linked c' p nm n t (\<alpha> i2) (\<alpha> i3)" and "n \<noteq> p"
  shows "entry_made (c + c') p nm n t (\<alpha> i) (\<alpha> i3)" and "inode (\<alpha> i3) n = inode (\<alpha> i2) n" and "fdata (\<alpha> i3) n = d"
  using new_file(1-5) [OF assms(1,2), of x b] assms(3-5)
  by (auto simp: entry_made_def file_touched_def linked_def same_but_def costs_def)

lemma copy_file_made:
  assumes "good_ext2 L \<alpha> room" and "n \<notin> used (\<alpha> i)" and "n \<noteq> p" and "length nm \<le> 255"
    and "length data = st_size info" and "length data < 2 ^ 32"
    and "16 * nblocks (blocksize L) (length data) + 16 \<le> bfree (\<alpha> i)"
  shows "\<exists>i'. copy_file L p n nm info (Some data) i = Inr i' \<and>
    entry_made (16 * nblocks (blocksize L) (length data) + 16) p nm n EXT2_FT_REG_FILE (\<alpha> i) (\<alpha> i') \<and>
    has_attrs (\<alpha> i') n (reg_attrs info) \<and> fdata (\<alpha> i') n = data"
proof -
  have lib: "lib_dirs L \<alpha> room" "lib_inodes L \<alpha>" "lib_files L \<alpha>" using assms(1) by (simp_all add: good_ext2_def)
  let ?i1 = "inode_alloc_stats2 L (snd (write_new_inode L i n (reg_inode info))) n 1 True"
  let ?c = "16 * nblocks (blocksize L) (length data) + 8"
  note new = new_file [OF lib(2) assms(2), of "reg_inode info" True]
  obtain y where y: "inode (\<alpha> ?i1) n = Some y" "stored_as (reg_inode info) y" using new(6) by blast
  have size: "unat (i_size (reg_inode info)) = length data"
    using assms(5,6) by (simp add: reg_inode_def unat_of_nat)
  have ysize: "i_size y = i_size (reg_inode info)"
    using y(2) unfolding stored_as_def by (cases "reg_inode info", cases y) simp
  have zero: "fdata (\<alpha> ?i1) n = replicate (length data) NUL"
    using new(7) size by (simp add: reg_inode_def zero_inode_def list_all_length)
  from y(1) obtain i2 where 2: "file_open L ?i1 n = (0, i2)" "\<alpha> i2 = (\<alpha> ?i1)\<lparr>fpos := (fpos (\<alpha> ?i1))(n \<mapsto> 0)\<rparr>"
    using lib_filesD(3) [OF lib(3), of ?i1 n] by auto
  have "inode (\<alpha> i2) n = Some y" "fpos (\<alpha> i2) n = Some 0" "?c \<le> bfree (\<alpha> i2)"
    using 2(2) y(1) new(3) assms(7) by simp_all
  with copy_loop_writes [OF lib(3), of i2 n y 0 data] obtain i3 where 3: "copy_loop L n True data i2 = Inr i3"
    "file_touched ?c n (overwrite 0 data (fdata (\<alpha> i2) n)) None (\<alpha> i2) (\<alpha> i3)" using ysize size by auto
  have touched: "file_touched ?c n data None (\<alpha> ?i1) (\<alpha> i3)"
    using 3(2) 2(2) zero overwrite_all [of data "fdata (\<alpha> ?i1) n"]
    by (simp add: file_touched_def same_but_def costs_def)
  have "8 \<le> bfree (\<alpha> i3)" using touched new(3) assms(7) by (simp add: file_touched_def costs_def)
  from link_with_expand [OF lib(1) this assms(4), of p n EXT2_FT_REG_FILE] obtain i4 where
    4: "with_expand L p (\<lambda>i. link L i p nm n EXT2_FT_REG_FILE) i3 = (True, i4)"
      "linked 8 p nm n EXT2_FT_REG_FILE (\<alpha> i3) (\<alpha> i4)" by blast
  note made = file_then_link [OF lib(2) assms(2) touched 4(2) assms(3)]
  obtain z where "inode (\<alpha> i3) n = Some z" "same_attrs y z"
    using touched y(1) by (auto simp: file_touched_def option_rel_Some1)
  then have "has_attrs (\<alpha> i4) n (reg_attrs info)"
    using made(2) same_attrs_reg [OF _ stored_reg [OF y(2)]] by (simp add: has_attrs_def)
  moreover have "copy_file L p n nm info (Some data) i = Inr i4" using 2 3 4 by (simp add: copy_file_def Let_def)
  ultimately show ?thesis using made(1,3) by (auto simp: add.assoc)
qed

lemma copy_target_writes:
  assumes "lib_files L \<alpha>" and "inode (\<alpha> i) n = Some x" and "fdata (\<alpha> i) n = replicate (length tg) NUL"
    and "unat (i_size x) = length tg" and "length tg = st_size info" and "length tg \<le> 1024" and "16 \<le> bfree (\<alpha> i)"
  shows "\<exists>i'. copy_target L n info (Some tg) i = Inr i' \<and> file_touched 16 n tg None (\<alpha> i) (\<alpha> i')"
proof -
  obtain i1 where 1: "file_open L i n = (0, i1)" "\<alpha> i1 = (\<alpha> i)\<lparr>fpos := (fpos (\<alpha> i))(n \<mapsto> 0)\<rparr>"
    using lib_filesD(3) [OF assms(1), of i n] assms(2) by auto
  then have "fpos (\<alpha> i1) n = Some 0" "inode (\<alpha> i1) n = Some x" "0 + length tg \<le> unat (i_size x)"
    "length tg \<le> blocksize L" "8 \<le> bfree (\<alpha> i1)"
    using assms(2,4,6,7) lib_filesD(1) [OF assms(1)] by simp_all
  from lib_filesD(4) [OF assms(1) this] obtain i2 where 2: "file_write L i1 n tg = (0, length tg, i2)"
    "file_touched 8 n (overwrite 0 tg (fdata (\<alpha> i1) n)) (Some (0 + length tg)) (\<alpha> i1) (\<alpha> i2)" by blast
  have t: "file_touched 8 n tg (Some (length tg)) (\<alpha> i) (\<alpha> i2)"
    using 2(2) 1(2) assms(3) overwrite_all [of tg "fdata (\<alpha> i) n"]
    by (simp add: file_touched_def same_but_def costs_def)
  then have "fpos (\<alpha> i2) n \<noteq> None" "8 \<le> bfree (\<alpha> i2)" using assms(7) by (simp_all add: file_touched_def costs_def)
  from lib_filesD(6) [OF assms(1) this] t obtain i3 where
    3: "file_close L i2 n = (0, i3)" "file_touched 8 n tg None (\<alpha> i2) (\<alpha> i3)" by (auto simp: file_touched_def)
  have "copy_target L n info (Some tg) i = Inr i3"
    using 1(1) 2(1) 3(1) assms(5,6) by (simp add: copy_target_def)
  then show ?thesis using file_touched_trans [OF t 3(2)] by auto
qed

lemma file_untouched: "file_touched 16 n (fdata fs n) (fpos fs n) fs fs"
  by (cases "inode fs n") (simp_all add: file_touched_def costs_def same_but_def same_attrs_def)

lemma copy_special_made:
  assumes "good_ext2 L \<alpha> room" and "n \<notin> used (\<alpha> i)" and "n \<noteq> p" and "length nm \<le> 255"
    and "special_type (st_mode info) = Some t" and "24 \<le> bfree (\<alpha> i)"
    and "t = EXT2_FT_SYMLINK \<Longrightarrow> st_rdev info = 0 \<and> (\<exists>tg. target = Some tg \<and> length tg = st_size info \<and> length tg \<le> 1024)"
  shows "\<exists>i'. copy_special L p n nm info target i = Inr i' \<and> entry_made 24 p nm n t (\<alpha> i) (\<alpha> i') \<and>
    has_attrs (\<alpha> i') n (special_attrs t info) \<and> (t = EXT2_FT_SYMLINK \<longrightarrow> Some (fdata (\<alpha> i') n) = target)"
proof -
  have lib: "lib_dirs L \<alpha> room" "lib_inodes L \<alpha>" "lib_files L \<alpha>" using assms(1) by (simp_all add: good_ext2_def)
  let ?i1 = "inode_alloc_stats2 L (snd (write_new_inode L i n (special_inode info))) n 1 True"
  note new = new_file [OF lib(2) assms(2), of "special_inode info" True]
  obtain y where y: "inode (\<alpha> ?i1) n = Some y" "stored_as (special_inode info) y" using new(6) by blast
  note attrs = stored_special [OF y(2), of t]
  have "\<exists>i2 d k z. (if t = EXT2_FT_SYMLINK then copy_target L n info target ?i1 else Inr ?i1) = Inr i2 \<and>
    file_touched 16 n d k (\<alpha> ?i1) (\<alpha> i2) \<and> inode (\<alpha> i2) n = Some z \<and> special_attrs t info z \<and>
    (t = EXT2_FT_SYMLINK \<longrightarrow> Some d = target)"
  proof (cases "t = EXT2_FT_SYMLINK")
    case True
    then obtain tg where tg: "target = Some tg" "length tg = st_size info" "length tg \<le> 1024" "st_rdev info = 0"
      using assms(7) by blast
    have "list_all (\<lambda>b. b = 0) (i_block (special_inode info))"
      using tg(4) by (simp add: special_inode_def zero_inode_def list_all_length nth_list_update)
    moreover have size: "unat (i_size (special_inode info)) = length tg"
      using tg(2,3) by (simp add: special_inode_def unat_of_nat)
    ultimately have "fdata (\<alpha> ?i1) n = replicate (length tg) NUL" using new(7) by simp
    moreover have "unat (i_size y) = length tg"
      using y(2) size unfolding stored_as_def by (cases "special_inode info", cases y) simp
    moreover have "16 \<le> bfree (\<alpha> ?i1)" using new(3) assms(6) by simp
    ultimately obtain i2 where i2: "copy_target L n info (Some tg) ?i1 = Inr i2" "file_touched 16 n tg None (\<alpha> ?i1) (\<alpha> i2)"
      using copy_target_writes [OF lib(3) y(1) _ _ tg(2,3)] by blast
    obtain z where "inode (\<alpha> i2) n = Some z" "same_attrs y z"
      using i2(2) y(1) by (auto simp: file_touched_def option_rel_Some1)
    then show ?thesis using i2 True tg(1) same_attrs_symlink attrs by auto
  next
    case False
    then show ?thesis using file_untouched y(1) attrs by auto
  qed
  then obtain i2 d k z where
    2: "(if t = EXT2_FT_SYMLINK then copy_target L n info target ?i1 else Inr ?i1) = Inr i2"
      "file_touched 16 n d k (\<alpha> ?i1) (\<alpha> i2)" "inode (\<alpha> i2) n = Some z" "special_attrs t info z"
      "t = EXT2_FT_SYMLINK \<longrightarrow> Some d = target" by blast
  have "8 \<le> bfree (\<alpha> i2)" using 2(2) new(3) assms(6) by (simp add: file_touched_def costs_def)
  from link_with_expand [OF lib(1) this assms(4), of p n t] obtain i3 where
    3: "with_expand L p (\<lambda>i. link L i p nm n t) i2 = (True, i3)" "linked 8 p nm n t (\<alpha> i2) (\<alpha> i3)" by blast
  note made = file_then_link [OF lib(2) assms(2) 2(2) 3(2) assms(3)]
  have "copy_special L p n nm info target i = Inr i3"
    using assms(5) 2(1) 3(1) by (simp add: copy_special_def Let_def)
  then show ?thesis using made 2(3-5) by (auto simp: has_attrs_def)
qed

section \<open>Directories\<close>

lemma made_dir_built:
  assumes "made_dir 24 p nm n fs fs1" and "n \<notin> used fs" and "p \<in> used fs" and "built bs fs1 fs' n es' D"
    and "nm \<notin> dots" and "S_ISDIR (st_mode info)"
  shows "built bs fs fs' p [HEntry nm (Some info) data target (Some (Some es'))] [nm \<mapsto> (n, EXT2_FT_DIR)]"
proof -
  let ?e = "HEntry nm (Some info) data target (Some (Some es'))"
  have np: "n \<noteq> p" using assms(2,3) by blast
  have 1: "used fs1 = insert n (used fs)" "dirents fs1 n = Map.empty" "dirents fs1 p = (dirents fs p)(nm \<mapsto> (n, EXT2_FT_DIR))"
    "agree (used fs - {p}) fs fs1" "ifree fs \<le> ifree fs1 + 1" "costs 24 fs fs1"
    using np assms(1,2) by (auto simp: made_dir_def agree_def same_but_def)
  have 2: "dirents fs' n = D" "dom D = names es'" "insert n (used fs) \<subseteq> used fs'"
    "mirrors fs' (used fs' - insert n (used fs)) es' D" "agree (insert n (used fs) - {n}) fs1 fs'"
    "ifree fs1 \<le> ifree fs' + inodes_needed es'" "costs (blocks_needed bs es') fs1 fs'"
    using assms(4) 1(1,2) by (simp_all add: built_def)
  have "mirrors fs' (used fs' - used fs) es' D"
    by (rule mirrors_agree [OF 2(4)]) (auto simp: agree_def)
  then have "mirrors fs' (used fs' - used fs) [?e] [nm \<mapsto> (n, EXT2_FT_DIR)]"
    using assms(2,5,6) 2(1-3) by (simp add: mirrors.simps)
  moreover have "agree (used fs - {p}) fs fs'"
    using 1(4) 2(5) assms(2) by (auto simp: agree_def)
  moreover have "dirents fs' p = dirents fs p ++ [nm \<mapsto> (n, EXT2_FT_DIR)]"
    using 2(5) assms(3) np 1(3) by (auto simp: agree_def)
  moreover have "names [?e] = {nm}" using assms(5) by (auto simp: names_def)
  moreover have "inodes_needed [?e] = 1 + inodes_needed es'" "blocks_needed bs [?e] = 24 + blocks_needed bs es'"
    using assms(5,6) by (simp_all add: inodes_needed.simps blocks_needed.simps)
  ultimately show ?thesis using 1(5) 2(3,6) costs_trans [OF 1(6) 2(7)] by (simp add: built_def)
qed

section \<open>The whole tree\<close>

definition fresh_names :: "afs \<Rightarrow> nat \<Rightarrow> hentry list \<Rightarrow> bool" where
  "fresh_names fs p es \<longleftrightarrow> dom (dirents fs p) \<inter> names es = {}"

text \<open>Enough inodes and blocks are free.\<close>

definition fits :: "nat \<Rightarrow> afs \<Rightarrow> hentry list \<Rightarrow> bool" where
  "fits bs fs es \<longleftrightarrow> inodes_needed es \<le> ifree fs \<and> blocks_needed bs es \<le> bfree fs"

lemma fits_after:
  assumes "fits bs fs (e # es)" and "built bs fs fs1 p [e] D"
  shows "fits bs fs1 es"
  using assms needed_Cons(1) [of e es] needed_Cons(2) [of bs e es] by (simp add: fits_def built_def costs_def)

text \<open>A directory: made, with one retry, and filled by the recursive call.\<close>

lemma copy_dir_built:
  assumes "lib_dirs L \<alpha> room" and "dirents (\<alpha> i) p name = None" and "n \<notin> used (\<alpha> i)" and "p \<in> used (\<alpha> i)"
    and "name \<notin> dots" and "length name \<le> 255" and "S_ISDIR (st_mode info)"
    and "fits (blocksize L) (\<alpha> i) [HEntry name (Some info) data target (Some (Some es'))]"
    and sub: "\<And>q j. q \<in> used (\<alpha> j) \<Longrightarrow> fresh_names (\<alpha> j) q es' \<Longrightarrow> fits (blocksize L) (\<alpha> j) es' \<Longrightarrow>
      \<exists>j' D. trawl L q es' j = Inr j' \<and> built (blocksize L) (\<alpha> j) (\<alpha> j') q es' D"
  shows "\<exists>i2 i3. with_expand L p (\<lambda>i. mkdir L i p n name) i = (True, i2) \<and> trawl L n es' i2 = Inr i3 \<and>
    built (blocksize L) (\<alpha> i) (\<alpha> i3) p [HEntry name (Some info) data target (Some (Some es'))] [name \<mapsto> (n, EXT2_FT_DIR)]"
proof -
  have need: "1 + inodes_needed es' \<le> ifree (\<alpha> i)" "24 + blocks_needed (blocksize L) es' \<le> bfree (\<alpha> i)"
    using assms(5,7,8) by (simp_all add: fits_def inodes_needed.simps blocks_needed.simps)
  then have "0 < ifree (\<alpha> i)" "24 \<le> bfree (\<alpha> i)" by simp_all
  from mkdir_with_expand [OF assms(1,4,3,2) this assms(6)] obtain i2 where
    2: "with_expand L p (\<lambda>i. mkdir L i p n name) i = (True, i2)" "made_dir 24 p name n (\<alpha> i) (\<alpha> i2)" by auto
  have "n \<noteq> p" using assms(3,4) by blast
  then have "n \<in> used (\<alpha> i2)" "fresh_names (\<alpha> i2) n es'" "fits (blocksize L) (\<alpha> i2) es'"
    using 2(2) need by (auto simp: made_dir_def fresh_names_def fits_def costs_def)
  from sub [OF this] obtain i3 D where 3: "trawl L n es' i2 = Inr i3" "built (blocksize L) (\<alpha> i2) (\<alpha> i3) n es' D" by blast
  show ?thesis using 2(1) 3(1) made_dir_built [OF 2(2) assms(3,4) 3(2) assms(5,7)] by blast
qed

text \<open>One entry that is not a dot: the loop goes on after it has been added.\<close>

lemma trawl_entry:
  assumes good: "good_ext2 L \<alpha> room" and "readable (HEntry name st data target sub # es)" and "name \<notin> dots"
    and "p \<in> used (\<alpha> i)" and "dirents (\<alpha> i) p name = None" and "fits (blocksize L) (\<alpha> i) [HEntry name st data target sub]"
    and sub: "\<And>info es' q j. st = Some info \<Longrightarrow> S_ISDIR (st_mode info) \<Longrightarrow> sub = Some (Some es') \<Longrightarrow> readable es' \<Longrightarrow>
      q \<in> used (\<alpha> j) \<Longrightarrow> fresh_names (\<alpha> j) q es' \<Longrightarrow> fits (blocksize L) (\<alpha> j) es' \<Longrightarrow>
      \<exists>j' D. trawl L q es' j = Inr j' \<and> built (blocksize L) (\<alpha> j) (\<alpha> j') q es' D"
  shows "\<exists>i' n t. trawl L p (HEntry name st data target sub # es) i = trawl L p es i' \<and>
    built (blocksize L) (\<alpha> i) (\<alpha> i') p [HEntry name st data target sub] [name \<mapsto> (n, t)]"
proof -
  let ?e = "HEntry name st data target sub"
  have lib: "lib_dirs L \<alpha> room" "lib_inodes L \<alpha>" using good by (simp_all add: good_ext2_def)
  obtain info where st: "st = Some info" using assms(2,3) by (cases st) (simp_all add: readable.simps)
  note rd = assms(2) [unfolded readable.simps st option.case]
  have len: "length name \<le> 255" using rd assms(3) by simp
  have one: "1 \<le> inodes_needed [?e]"
    using assms(3) st by (simp add: inodes_needed.simps split: option.split)
  then have "0 < ifree (\<alpha> i)" using assms(6) by (simp add: fits_def)
  from lib_inodesD(1) [OF lib(2) this, of p "st_mode info"] obtain n i1 where
    1: "new_inode L i p (st_mode info) = (0, n, i1)" "\<alpha> i1 = \<alpha> i" "n \<notin> used (\<alpha> i)" by blast
  have new: "n \<notin> used (\<alpha> i1)" "n \<noteq> p" using 1(2,3) assms(4) by auto
  have dot: "\<not> (name = ''.'' \<or> name = ''..'')" using assms(3) by (simp add: dots_def)
  note loop = trawl.simps(2) [of L p name st data target sub es i, unfolded st option.case if_not_P [OF dot] 1(1) Let_def prod.case]
  consider (dir) es' where "S_ISDIR (st_mode info)" "sub = Some (Some es')" "readable es'"
    | (reg) d where "\<not> S_ISDIR (st_mode info)" "S_ISREG (st_mode info)" "data = Some d" "length d = st_size info" "length d < 2 ^ 32"
    | (special) t where "\<not> S_ISDIR (st_mode info)" "\<not> S_ISREG (st_mode info)" "special_type (st_mode info) = Some t"
        "t = EXT2_FT_SYMLINK \<Longrightarrow> st_rdev info = 0 \<and> (\<exists>tg. target = Some tg \<and> length tg = st_size info \<and> length tg \<le> 1024)"
    using rd assms(3) by (auto split: if_splits option.splits)
  then show ?thesis
  proof cases
    case dir
    have "dirents (\<alpha> i1) p name = None" "p \<in> used (\<alpha> i1)"
      "fits (blocksize L) (\<alpha> i1) [HEntry name (Some info) data target (Some (Some es'))]"
      using assms(4-6) 1(2) st dir(2) by simp_all
    then have "\<exists>i2 i3. with_expand L p (\<lambda>i. mkdir L i p n name) i1 = (True, i2) \<and> trawl L n es' i2 = Inr i3 \<and>
        built (blocksize L) (\<alpha> i1) (\<alpha> i3) p [HEntry name (Some info) data target (Some (Some es'))] [name \<mapsto> (n, EXT2_FT_DIR)]"
      by (rule copy_dir_built [OF lib(1) _ new(1) _ assms(3) len dir(1)]) (rule sub [OF st dir])
    then obtain i2 i3 where 2: "with_expand L p (\<lambda>i. mkdir L i p n name) i1 = (True, i2)" and 3: "trawl L n es' i2 = Inr i3"
        "built (blocksize L) (\<alpha> i) (\<alpha> i3) p [HEntry name (Some info) data target (Some (Some es'))] [name \<mapsto> (n, EXT2_FT_DIR)]"
      unfolding 1(2) by blast
    have "trawl L p (?e # es) i = trawl L p es i3"
      unfolding st loop using dir(1,2) 2 3(1) by simp
    then show ?thesis using 3(2) st dir(2) by blast
  next
    case reg
    let ?c = "16 * nblocks (blocksize L) (length d) + 16"
    have c: "blocks_needed (blocksize L) [?e] = ?c"
      using assms(3) st reg by (simp add: blocks_needed.simps)
    then have "?c \<le> bfree (\<alpha> i1)" using assms(6) 1(2) by (simp add: fits_def)
    from copy_file_made [OF good new len reg(4,5) this] obtain i2 where
      2: "copy_file L p n name info data i1 = Inr i2" "entry_made ?c p name n EXT2_FT_REG_FILE (\<alpha> i) (\<alpha> i2)"
        "has_attrs (\<alpha> i2) n (reg_attrs info)" "fdata (\<alpha> i2) n = d" using 1(2) reg(3) by auto
    have "mirrors (\<alpha> i2) {n} [?e] [name \<mapsto> (n, EXT2_FT_REG_FILE)]"
      using 2(3,4) assms(3) reg st by (simp add: mirrors.simps)
    moreover have "trawl L p (?e # es) i = trawl L p es i2"
      unfolding st loop using reg(1,2) 2(1) by simp
    ultimately show ?thesis using entry_made_built [OF 2(2) 1(3) assms(4,3) _ _ one, of "blocksize L"] c by auto
  next
    case special
    have c: "blocks_needed (blocksize L) [?e] = 24"
      using assms(3) st special by (simp add: blocks_needed.simps)
    then have "24 \<le> bfree (\<alpha> i1)" using assms(6) 1(2) by (simp add: fits_def)
    from copy_special_made [OF good new len special(3) this special(4)] obtain i2 where
      2: "copy_special L p n name info target i1 = Inr i2" "entry_made 24 p name n t (\<alpha> i) (\<alpha> i2)"
        "has_attrs (\<alpha> i2) n (special_attrs t info)" "t = EXT2_FT_SYMLINK \<longrightarrow> Some (fdata (\<alpha> i2) n) = target"
      using 1(2) by auto
    have "mirrors (\<alpha> i2) {n} [?e] [name \<mapsto> (n, t)]"
      using 2(3,4) assms(3) special st by (simp add: mirrors.simps)
    moreover have "trawl L p (?e # es) i = trawl L p es i2"
      unfolding st loop using special(1,2) 2(1) by simp
    ultimately show ?thesis using entry_made_built [OF 2(2) 1(3) assms(4,3) _ _ one, of "blocksize L"] c by auto
  qed
qed

lemma trawl_builds:
  assumes "good_ext2 L \<alpha> room"
  shows "readable es \<Longrightarrow> p \<in> used (\<alpha> i) \<Longrightarrow> fresh_names (\<alpha> i) p es \<Longrightarrow> fits (blocksize L) (\<alpha> i) es \<Longrightarrow>
    \<exists>i' D. trawl L p es i = Inr i' \<and> built (blocksize L) (\<alpha> i) (\<alpha> i') p es D"
proof (induction es arbitrary: p i rule: readable.induct)
  case 1
  then show ?case using built_Nil by auto
next
  case (2 name st data target sub es)
  let ?e = "HEntry name st data target sub" and ?bs = "blocksize L"
  have es: "readable es" using "2.prems"(1) by (simp add: readable.simps)
  show ?case
  proof (cases "name \<in> dots")
    case True
    then have "trawl L p (?e # es) i = trawl L p es i" by (auto simp: trawl.simps(2) dots_def)
    moreover have "names (?e # es) = names es" using True by (auto simp: names_def)
    moreover have "inodes_needed (?e # es) = inodes_needed es" "blocks_needed ?bs (?e # es) = blocks_needed ?bs es"
      using True by (simp_all add: inodes_needed.simps blocks_needed.simps)
    moreover have "mirrors fs A (?e # es) D = mirrors fs A es D" for fs A D
      using True by (simp add: mirrors.simps)
    ultimately show ?thesis
      using "2.IH"(2) [OF es "2.prems"(2)] "2.prems"(3,4) by (simp add: built_def fresh_names_def fits_def)
  next
    case False
    have one: "names (?e # es) = insert name (names es)" "name \<notin> names es"
      using "2.prems"(1) False by (auto simp: names_def readable.simps)
    have "dirents (\<alpha> i) p name = None" "fits ?bs (\<alpha> i) [?e]"
      using "2.prems"(3,4) one(1) needed_Cons(1) [of ?e es] needed_Cons(2) [of ?bs ?e es]
      by (auto simp: fresh_names_def fits_def)
    then have "\<exists>i' n t. trawl L p (?e # es) i = trawl L p es i' \<and> built ?bs (\<alpha> i) (\<alpha> i') p [?e] [name \<mapsto> (n, t)]"
      by (rule trawl_entry [OF assms "2.prems"(1) False "2.prems"(2)]) (use "2.IH"(1) False in blast)
    then obtain i' n t where step: "trawl L p (?e # es) i = trawl L p es i'" "built ?bs (\<alpha> i) (\<alpha> i') p [?e] [name \<mapsto> (n, t)]" by blast
    have "fresh_names (\<alpha> i') p es" "p \<in> used (\<alpha> i')"
      using "2.prems"(2,3) step(2) one by (auto simp: fresh_names_def built_def)
    moreover have "fits ?bs (\<alpha> i') es" by (rule fits_after [OF "2.prems"(4) step(2)])
    ultimately obtain i'' D where
      "trawl L p es i' = Inr i''" "built ?bs (\<alpha> i') (\<alpha> i'') p es D" using "2.IH"(2) [OF es] by blast
    moreover have "names [?e] \<inter> names es = {}" using one(2) by (auto simp: names_def)
    ultimately show ?thesis using step built_Cons [OF step(2) _ "2.prems"(2)] by fastforce
  qed
qed

text \<open>
  C6. \<open>mke2img\<close> copies the tree: with an ext2 library that behaves as documented, on an image whose root
  has none of the names and that has enough free inodes and blocks, for every host tree that can be
  read completely, the program ends with 0. Then the root directory has, beside what it had, an entry
  for each of the host's and no others; each is of the host's kind; regular files have the host's
  content, size and permission bits, links their target, devices their number, and all of these the
  owner, group and times at the width of the inode's fields; directories have the host's entries in
  turn, with the attributes the library gives. All of them are on inodes that were free, and nothing
  that was in the image before has changed but the root directory.
\<close>

theorem mke2img_copies_tree:
  assumes "good_ext2 L \<alpha> room" and "readable es" and "fresh_names (\<alpha> img) EXT2_ROOT_INO es"
    and "inodes_needed es \<le> ifree (\<alpha> img)" and "blocks_needed (blocksize L) es \<le> bfree (\<alpha> img)"
    and "EXT2_ROOT_INO \<in> used (\<alpha> img)" and "2 < argc"
    and "fs_open S = (0, img)" and "host_tree S = Some (Some es)" and "\<And>i. \<alpha> (snd (read_bitmaps S i)) = \<alpha> i"
    and "\<And>i. \<alpha> (snd (write_bitmaps S i)) = \<alpha> i" and "\<And>i. fst (fs_close S i) = 0 \<and> \<alpha> (snd (fs_close S i)) = \<alpha> i"
  shows "\<exists>img' D. mke2img_main L S argc = Inr (0, Some img') \<and>
    dirents (\<alpha> img') EXT2_ROOT_INO = dirents (\<alpha> img) EXT2_ROOT_INO ++ D \<and> dom D = names es \<and>
    mirrors (\<alpha> img') (used (\<alpha> img') - used (\<alpha> img)) es D \<and> used (\<alpha> img) \<subseteq> used (\<alpha> img') \<and>
    agree (used (\<alpha> img) - {EXT2_ROOT_INO}) (\<alpha> img) (\<alpha> img')"
proof -
  let ?i = "snd (read_bitmaps S img)" and ?bs = "blocksize L"
  have "\<exists>i' D. trawl L EXT2_ROOT_INO es ?i = Inr i' \<and> built ?bs (\<alpha> ?i) (\<alpha> i') EXT2_ROOT_INO es D"
    using assms(3-6,10) by (intro trawl_builds [OF assms(1,2)]) (simp_all add: fits_def)
  then obtain i' D where run: "trawl L EXT2_ROOT_INO es ?i = Inr i'" "built ?bs (\<alpha> img) (\<alpha> i') EXT2_ROOT_INO es D"
    using assms(10) by auto
  let ?closed = "snd (fs_close S (snd (write_bitmaps S i')))"
  have "mke2img_main L S argc = Inr (0, Some ?closed)"
    using assms(7-9,12) run(1) by (simp add: mke2img_main_def trawl_dir_def case_prod_beta Let_def)
  moreover have "\<alpha> ?closed = \<alpha> i'" using assms(11,12) by simp
  ultimately show ?thesis using run(2) by (auto simp: built_def)
qed

section \<open>A library in memory\<close>

text \<open>An image as a list of inodes, an abstract file system and the free slots of each directory; a write
  sets the first block pointer.\<close>

record mem =
  m_used :: "nat list"
  m_fs :: afs
  m_slots :: "nat \<Rightarrow> nat"

definition mem_abs :: "mem \<Rightarrow> afs" where
  "mem_abs m = (m_fs m)\<lparr>used := set (m_used m)\<rparr>"

definition mem_room :: "mem \<Rightarrow> nat \<Rightarrow> string \<Rightarrow> bool" where
  "mem_room m p nm \<longleftrightarrow> 0 < m_slots m p"

definition mem_dir_inode :: ext2_inode where
  "mem_dir_inode = zero_inode\<lparr>i_mode := 16877, i_links_count := 2, i_size := 1024, i_blocks := 2,
     i_block := (i_block zero_inode)[0 := 99]\<rparr>"

definition mem_link :: "nat \<Rightarrow> string \<Rightarrow> nat \<Rightarrow> ftype \<Rightarrow> mem \<Rightarrow> mem" where
  "mem_link p nm n t m = m\<lparr>m_fs := (m_fs m)\<lparr>dirents := (dirents (m_fs m))(p := (dirents (m_fs m) p)(nm \<mapsto> (n, t)))\<rparr>,
     m_slots := (m_slots m)(p := m_slots m p - 1)\<rparr>"

definition mem_place :: "nat \<Rightarrow> afs \<Rightarrow> afs" where
  "mem_place n fs = fs\<lparr>inode := (inode fs)(n := map_option (\<lambda>x. x\<lparr>i_blocks := 2, i_block := (i_block x)[0 := 100]\<rparr>) (inode fs n)),
     bfree := bfree fs - 1\<rparr>"

definition mem_ext2 :: "mem ext2_ops" where
  "mem_ext2 = \<lparr>new_inode = (\<lambda>m p md. (0, Suc (sum_list (m_used m)), m)),
     mkdir = (\<lambda>m p n nm. if mem_room m p nm
       then (0, mem_link p nm n EXT2_FT_DIR (m\<lparr>m_used := n # m_used m,
         m_fs := (m_fs m)\<lparr>inode := (inode (m_fs m))(n \<mapsto> mem_dir_inode), dirents := (dirents (m_fs m))(n := Map.empty),
           ifree := ifree (m_fs m) - 1, bfree := bfree (m_fs m) - 1\<rparr>\<rparr>)) else (1, m)),
     expand_dir = (\<lambda>m p. (0, m\<lparr>m_slots := (m_slots m)(p := 2), m_fs := (m_fs m)\<lparr>bfree := bfree (m_fs m) - 1\<rparr>\<rparr>)),
     write_new_inode = (\<lambda>m n x. (0, m\<lparr>m_fs := (m_fs m)\<lparr>inode := (inode (m_fs m))(n \<mapsto> x),
       fdata := (fdata (m_fs m))(n := replicate (unat (i_size x)) NUL)\<rparr>\<rparr>)),
     inode_alloc_stats2 = (\<lambda>m n inuse isdir. m\<lparr>m_used := n # m_used m, m_fs := (m_fs m)\<lparr>ifree := ifree (m_fs m) - 1\<rparr>\<rparr>),
     file_open = (\<lambda>m n. (0, m\<lparr>m_fs := (m_fs m)\<lparr>fpos := (fpos (m_fs m))(n \<mapsto> 0)\<rparr>\<rparr>)),
     file_write = (\<lambda>m n b. case fpos (m_fs m) n of
       None \<Rightarrow> (1, 0, m)
     | Some k \<Rightarrow> (0, length b, m\<lparr>m_fs := (mem_place n (m_fs m))\<lparr>
         fdata := (fdata (m_fs m))(n := overwrite k b (fdata (m_fs m) n)), fpos := (fpos (m_fs m))(n \<mapsto> k + length b)\<rparr>\<rparr>)),
     file_flush = (\<lambda>m n. (0, m)),
     file_close = (\<lambda>m n. (0, m\<lparr>m_fs := (m_fs m)\<lparr>fpos := (fpos (m_fs m))(n := None)\<rparr>\<rparr>)),
     link = (\<lambda>m p nm n t. if mem_room m p nm then (0, mem_link p nm n t m) else (1, m)),
     blocksize = 1024\<rparr>"

lemma same_attrs_place: "same_attrs x x" "same_attrs x (x\<lparr>i_blocks := b, i_block := bs\<rparr>)"
  by (cases x; simp add: same_attrs_def)+

lemma mem_ext2_good: "good_ext2 mem_ext2 mem_abs mem_room"
proof -
  have "Suc (sum_list xs) \<notin> set xs" for xs :: "nat list" using member_le_sum_list [of "Suc (sum_list xs)" xs] by auto
  then have "lib_inodes mem_ext2 mem_abs"
    by (auto simp: lib_inodes_def mem_ext2_def mem_abs_def stored_def same_but_def stored_as_def stamped_def)
  moreover have "lib_dirs mem_ext2 mem_abs mem_room"
    by (auto simp: lib_dirs_def mem_ext2_def mem_abs_def mem_room_def mem_link_def made_dir_def linked_def same_but_def costs_def)
  moreover have "lib_files mem_ext2 mem_abs"
    by (auto simp: lib_files_def mem_ext2_def mem_abs_def mem_place_def file_touched_def same_but_def costs_def
        same_attrs_place option.rel_map intro!: option.rel_refl)
  ultimately show ?thesis by (simp add: good_ext2_def)
qed

definition mem_empty :: mem where
  "mem_empty = \<lparr>m_used = [2], m_fs = \<lparr>used = {}, inode = (\<lambda>_. None), fdata = (\<lambda>_. []), fpos = (\<lambda>_. None),
     dirents = (\<lambda>_. Map.empty), ifree = 10, bfree = 200\<rparr>, m_slots = (\<lambda>_. 0)\<rparr>"

definition sample_stat :: "nat \<Rightarrow> nat \<Rightarrow> hstat" where
  "sample_stat mode sz = \<lparr>st_mode = mode, st_uid = 100000, st_gid = 0, st_atime = 1, st_mtime = 2, st_ctime = 3, st_size = sz, st_rdev = 0\<rparr>"

definition sample_host :: "hentry list" where
  "sample_host =
     [HEntry ''.'' None None None None,
      HEntry ''bin'' (Some (sample_stat 16877 0)) None None
        (Some (Some [HEntry ''sh'' (Some (sample_stat 33261 3)) (Some ''abc'') None None])),
      HEntry ''lib'' (Some (sample_stat 41471 3)) None (Some ''bin'') None]"

definition mem_session :: "mem ext2_session" where
  "mem_session = \<lparr>fs_open = (0, mem_empty), read_bitmaps = Pair 0, write_bitmaps = Pair 0, fs_close = Pair 0,
     host_cwd = None, host_tree = Some (Some sample_host)\<rparr>"

lemmas host_defs = sample_host_def sample_stat_def S_ISDIR_def S_ISREG_def file_kind_def special_type_def dots_def

theorem mke2img_copies_tree_witness:
  "\<exists>img' D. mke2img_main mem_ext2 mem_session 3 = Inr (0, Some img') \<and>
    dirents (mem_abs img') EXT2_ROOT_INO = dirents (mem_abs mem_empty) EXT2_ROOT_INO ++ D \<and> dom D = names sample_host \<and>
    mirrors (mem_abs img') (used (mem_abs img') - used (mem_abs mem_empty)) sample_host D \<and>
    used (mem_abs mem_empty) \<subseteq> used (mem_abs img') \<and>
    agree (used (mem_abs mem_empty) - {EXT2_ROOT_INO}) (mem_abs mem_empty) (mem_abs img')"
proof (rule mke2img_copies_tree [OF mem_ext2_good])
  show "readable sample_host" by (simp add: readable.simps host_defs)
  show "inodes_needed sample_host \<le> ifree (mem_abs mem_empty)"
    by (simp add: inodes_needed.simps host_defs mem_empty_def mem_abs_def)
  show "blocks_needed (blocksize mem_ext2) sample_host \<le> bfree (mem_abs mem_empty)"
    by (simp add: blocks_needed.simps host_defs mem_empty_def mem_abs_def mem_ext2_def nblocks_def)
qed (simp_all add: fresh_names_def mem_empty_def mem_abs_def mem_session_def EXT2_ROOT_INO_def)

section \<open>Write errors\<close>

lemma copy_loop_closed: "copy_loop L n False data i = Inl Fault"
  by (simp add: copy_loop.simps Let_def)

text \<open>
  A write error is fatal for \<open>mke2img\<close>: whenever the loop that copies a file is about to write a block
  and \<open>ext2fs_file_write\<close> fails or writes less, the file is closed and then written or closed once more,
  whatever is left of the content.
\<close>

theorem write_error_is_fault:
  assumes "data \<noteq> []" and "0 < blocksize L" and "blocksize L \<le> 4096"
    and "file_write L i n (take (blocksize L) data) = (e, out, i')"
    and "e \<noteq> 0 \<or> out < length (take (blocksize L) data)"
  shows "copy_loop L n True data i = Inl Fault"
  using assms copy_loop_closed [of L n "drop (blocksize L) data" "snd (file_close L i' n)"]
  by (subst copy_loop.simps) (auto simp: Let_def)

theorem write_error_is_fault_witness:
  "copy_loop (mem_ext2\<lparr>file_write := (\<lambda>m n b. (28, 0, m))\<rparr>) 5 True ''abc'' mem_empty = Inl Fault"
  by (rule write_error_is_fault [where e = 28 and out = 0 and i' = mem_empty]) (simp_all add: mem_ext2_def)

end
