(* ===== verification/Fader.thy ===== *)
theory Fader
  imports Prelude
begin

text \<open>
  \<open>fade\<close> of \<open>patches/code/starfield/fader.c\<close>, which the threads of the star field run on the frame
  buffer: every inner pixel becomes the average of its four neighbours, less one. The sweep works in
  place, so the neighbours to the left and above are the new ones. \<open>offset\<close> is the 32-bit counter of the
  source; a pixel outside the buffer is a \<open>Fault\<close>.
\<close>

section \<open>The sweep\<close>

definition get_byte :: "8 word list \<Rightarrow> 32 word \<Rightarrow> 8 word res" where
  "get_byte m a = (if unat a < length m then Inr (m ! unat a) else Inl Fault)"

definition put_byte :: "8 word list \<Rightarrow> 32 word \<Rightarrow> 8 word \<Rightarrow> 8 word list res" where
  "put_byte m a v = (if unat a < length m then Inr (m[unat a := v]) else Inl Fault)"

text \<open>The new value of a pixel, from left, right, above and below.\<close>

definition faded :: "8 word \<Rightarrow> 8 word \<Rightarrow> 8 word \<Rightarrow> 8 word \<Rightarrow> 8 word" where
  "faded l r u d =
     (let av = (ucast l + ucast r + ucast u + ucast d :: 32 word) div 4;
          av = (if av > 0 then av - 1 else av) in
      ucast av)"

definition fade_pixel ::
  "32 word \<Rightarrow> 8 word list \<times> 32 word \<Rightarrow> (8 word list \<times> 32 word) res" where
  "fade_pixel width s =
     (let (ptr, offset) = s in
      res_bind (get_byte ptr (offset - 1)) (\<lambda>l.
      res_bind (get_byte ptr (offset + 1)) (\<lambda>r.
      res_bind (get_byte ptr (offset - width)) (\<lambda>u.
      res_bind (get_byte ptr (offset + width)) (\<lambda>d.
      res_bind (put_byte ptr offset (faded l r u d)) (\<lambda>ptr.
        Inr (ptr, offset + 1)))))))"

definition fade_row ::
  "int \<Rightarrow> 8 word list \<times> 32 word \<Rightarrow> (8 word list \<times> 32 word) res" where
  "fade_row width s =
     (let (ptr, offset) = s in
      res_bind (fold_res (\<lambda>x. fade_pixel (of_int width)) [1..<nat (width - 1)] (ptr, offset + 1))
        (\<lambda>(ptr, offset). Inr (ptr, offset + 1)))"

definition fade :: "8 word list \<Rightarrow> int \<Rightarrow> int \<Rightarrow> 8 word list res" where
  "fade ptr width height =
     res_bind (fold_res (\<lambda>y. fade_row width) [1..<nat (height - 1)] (ptr, of_int width))
       (\<lambda>(ptr, offset). Inr ptr)"

section \<open>What one pixel becomes\<close>

lemma unat_faded:
  "unat (faded l r u d) = (unat l + unat r + unat u + unat d) div 4 - 1"
proof -
  let ?s = "unat l + unat r + unat u + unat d"
  have b: "unat l < 256" "unat r < 256" "unat u < 256" "unat d < 256"
    by (rule less_le_trans [OF unsigned_less]; simp)+
  have c: "(ucast v :: 32 word) = of_nat (unat v)" for v :: "8 word"
    by (simp add: word_unat_eq_iff unsigned_ucast_eq unsigned_of_nat unsigned_take_bit_eq)
  have s: "(ucast l + ucast r + ucast u + ucast d :: 32 word) = of_nat ?s"
    by (simp only: c of_nat_add)
  have q: "(of_nat ?s :: 32 word) div 4 = of_nat (?s div 4)"
    using b unfolding word_unat_eq_iff unat_div_distrib unsigned_of_nat by (simp add: take_bit_nat_eq_self)
  have le: "?s div 4 < 256" using b by simp
  show ?thesis
  proof (cases "?s div 4 = 0")
    case True
    then show ?thesis unfolding faded_def s q Let_def by simp
  next
    case False
    then have "(of_nat (?s div 4) :: 32 word) > 0"
      using le by (simp add: word_less_nat_alt unsigned_of_nat take_bit_nat_eq_self)
    moreover have "(of_nat (?s div 4) :: 32 word) - 1 = of_nat (?s div 4 - 1)"
      using False by (simp add: of_nat_diff)
    ultimately show ?thesis unfolding faded_def s q Let_def
      using le by (simp add: unsigned_ucast_eq unsigned_of_nat take_bit_nat_eq_self take_bit_eq_mod)
  qed
qed

section \<open>The sweep as a list of updates\<close>

definition fade_at :: "nat \<Rightarrow> nat \<Rightarrow> 8 word list \<Rightarrow> 8 word list" where
  "fade_at w p m = m[p := faded (m ! (p - 1)) (m ! (p + 1)) (m ! (p - w)) (m ! (p + w))]"

lemma length_fade_at [simp]: "length (fade_at w p m) = length m"
  by (simp add: fade_at_def)

lemma length_fold_fade_at [simp]: "length (fold (fade_at w) ps m) = length m"
  by (induction ps arbitrary: m) simp_all

lemma fade_pixel_at:
  assumes "0 < w" "w \<le> p" "p + w < length m" "length m < 2 ^ 32"
  shows "fade_pixel (of_nat w) (m, of_nat p) = Inr (fade_at w p m, of_nat (Suc p))"
proof -
  have n: "unat (of_nat k :: 32 word) = k" if "k < length m" for k
    using that assms by (simp add: unsigned_of_nat take_bit_nat_eq_self)
  have "(of_nat p - 1 :: 32 word) = of_nat (p - 1)" "(of_nat p + 1 :: 32 word) = of_nat (p + 1)"
    "(of_nat p - of_nat w :: 32 word) = of_nat (p - w)" "(of_nat p + of_nat w :: 32 word) = of_nat (p + w)"
    using assms by (simp_all add: of_nat_diff)
  moreover have "p - 1 < length m" "p - w < length m" "p < length m" using assms by simp_all
  ultimately show ?thesis
    unfolding fade_pixel_def Let_def prod.case get_byte_def put_byte_def
    using assms n [of "p - 1"] n [of "p + 1"] n [of "p - w"] n [of "p + w"] n [of p]
    by (simp add: fade_at_def add.commute)
qed

lemma fade_pixels_at:
  assumes "0 < w" "w \<le> p" "p + length xs + w \<le> length m" "length m < 2 ^ 32"
  shows "fold_res (\<lambda>x. fade_pixel (of_nat w)) xs (m, of_nat p) =
    Inr (fold (fade_at w) [p..<p + length xs] m, of_nat (p + length xs))"
  using assms
proof (induction xs arbitrary: p m)
  case (Cons x xs)
  have "fade_pixel (of_nat w) (m, of_nat p) = Inr (fade_at w p m, of_nat (Suc p))"
    using Cons.prems by (intro fade_pixel_at) simp_all
  moreover have "[p..<p + length (x # xs)] = p # [Suc p..<Suc p + length xs]"
    by (simp add: upt_rec)
  ultimately show ?case using Cons.IH [of "Suc p" "fade_at w p m"] Cons.prems by simp
qed simp

text \<open>The inner positions of row \<open>y\<close>, and of all rows, in the order of the sweep.\<close>

definition inner_row :: "nat \<Rightarrow> nat \<Rightarrow> nat list" where
  "inner_row w y = [y * w + 1..<y * w + (w - 1)]"

definition inner :: "nat \<Rightarrow> nat \<Rightarrow> nat list" where
  "inner w h = concat (map (inner_row w) [1..<h - 1])"

lemma fade_row_at:
  assumes "2 \<le> w" "1 \<le> y" "y * w + w + w \<le> length m" "length m < 2 ^ 32"
  shows "fade_row (int w) (m, of_nat (y * w)) = Inr (fold (fade_at w) (inner_row w y) m, of_nat (Suc y * w))"
proof -
  have yw: "w \<le> y * w" using assms(2) by simp
  have l: "length [1..<nat (int w - 1)] = w - 2" by (simp add: nat_diff_distrib)
  have e: "y * w + 1 + (w - 2) = y * w + (w - 1)" "y * w + (w - 1) + 1 = Suc y * w"
    using assms(1) by simp_all
  have "fold_res (\<lambda>x. fade_pixel (of_nat w)) [1..<nat (int w - 1)] (m, of_nat (y * w + 1)) =
    Inr (fold (fade_at w) [y * w + 1..<y * w + (w - 1)] m, of_nat (y * w + (w - 1)))"
    using fade_pixels_at [of w "y * w + 1" "[1..<nat (int w - 1)]" m] assms yw unfolding l e by simp
  moreover have "(of_nat (y * w) + 1 :: 32 word) = of_nat (y * w + 1)"
    "(of_nat (y * w + (w - 1)) + 1 :: 32 word) = of_nat (Suc y * w)"
    unfolding e(2) [symmetric] by (simp_all only: of_nat_add of_nat_1)
  ultimately show ?thesis
    unfolding fade_row_def Let_def prod.case inner_row_def of_int_of_nat_eq
    by (simp only: res_bind.simps prod.case)
qed

lemma fade_rows_at:
  assumes "2 \<le> w" "1 \<le> a" "(b + 1) * w \<le> length m" "length m < 2 ^ 32" "a \<le> b"
  shows "fold_res (\<lambda>y. fade_row (int w)) [a..<b] (m, of_nat (a * w)) =
    Inr (fold (fade_at w) (concat (map (inner_row w) [a..<b])) m, of_nat (b * w))"
  using assms(2-5)
proof (induction "b - a" arbitrary: a m)
  case (Suc n)
  have lt: "a < b" using Suc.hyps(2) by simp
  then have u: "[a..<b] = a # [Suc a..<b]" by (simp add: upt_conv_Cons)
  have "(a + 2) * w \<le> (b + 1) * w" using lt by (intro mult_le_mono1) simp
  then have "fade_row (int w) (m, of_nat (a * w)) = Inr (fold (fade_at w) (inner_row w a) m, of_nat (Suc a * w))"
    using Suc.prems assms(1) by (intro fade_row_at) (simp_all add: algebra_simps)
  then show ?case using Suc.hyps(1) [of "Suc a" "fold (fade_at w) (inner_row w a) m"] Suc.hyps(2) Suc.prems lt
    unfolding u by (simp del: of_nat_mult)
qed simp

lemma fade_sweep:
  assumes "2 \<le> w" "2 \<le> h" "w * h \<le> length m" "length m < 2 ^ 32"
  shows "fade m (int w) (int h) = Inr (fold (fade_at w) (inner w h) m)"
proof -
  have "(h - 1 + 1) * w \<le> length m" "1 \<le> h - 1" using assms by (simp_all add: mult.commute)
  then have "fold_res (\<lambda>y. fade_row (int w)) [1..<h - 1] (m, of_nat (1 * w)) =
    Inr (fold (fade_at w) (inner w h) m, of_nat ((h - 1) * w))"
    unfolding inner_def using assms by (intro fade_rows_at) simp_all
  moreover have "nat (int h - 1) = h - 1" by (simp add: nat_diff_distrib)
  ultimately show ?thesis by (simp add: fade_def del: of_nat_mult)
qed

lemma set_inner: "set (inner w h) = {y * w + x |x y. 1 \<le> x \<and> x < w - 1 \<and> 1 \<le> y \<and> y < h - 1}"
proof -
  have "set (inner_row w y) = {y * w + x |x. 1 \<le> x \<and> x < w - 1}" for y
  proof (intro set_eqI iffI)
    fix p assume "p \<in> set (inner_row w y)"
    then have "p = y * w + (p - y * w)" "1 \<le> p - y * w" "p - y * w < w - 1" by (auto simp: inner_row_def)
    then show "p \<in> {y * w + x |x. 1 \<le> x \<and> x < w - 1}" by blast
  qed (auto simp: inner_row_def)
  then show ?thesis by (auto simp: inner_def) blast
qed

lemma inner_in_screen:
  assumes "p \<in> set (inner w h)"
  shows "w < p" "p + w < w * h"
proof -
  obtain x y where p: "p = y * w + x" "1 \<le> x" "x < w - 1" "1 \<le> y" "y < h - 1"
    using assms by (auto simp: set_inner)
  have "1 * w \<le> y * w" "(y + 2) * w \<le> h * w" using p by (intro mult_le_mono1; simp)+
  moreover have "(y + 2) * w = y * w + 2 * w" "h * w = w * h" by (simp_all add: distrib_right)
  ultimately show "w < p" "p + w < w * h" using p by linarith+
qed

lemma sorted_inner: "sorted_wrt (<) (inner w h)"
proof -
  have "sorted_wrt (<) (concat (map (inner_row w) [1..<n]))" for n
  proof (induction n)
    case (Suc n)
    have "p < q" if "p \<in> set (inner_row w y)" "q \<in> set (inner_row w n)" "y < n" for p q y
    proof -
      have "(y + 1) * w \<le> n * w" using that(3) by (intro mult_le_mono1) simp
      moreover have "p < (y + 1) * w" "n * w < q" using that(1,2) by (auto simp: inner_row_def)
      ultimately show ?thesis by linarith
    qed
    moreover have "sorted_wrt (<) (inner_row w n)" by (simp add: inner_row_def)
    ultimately show ?case using Suc by (auto simp: sorted_wrt_append)
  qed simp
  then show ?thesis by (simp add: inner_def)
qed

text \<open>A sweep in increasing order meets its equation at every place it visits.\<close>

lemma sweep_equation:
  assumes "sorted_wrt (<) ps" "\<And>p. p \<in> set ps \<Longrightarrow> w < p \<and> p + w < length m" "0 < w"
  defines "m' \<equiv> fold (fade_at w) ps m"
  shows "(\<forall>p\<in>set ps. m' ! p = faded (m' ! (p - 1)) (m ! (p + 1)) (m' ! (p - w)) (m ! (p + w))) \<and>
    (\<forall>p. p \<notin> set ps \<longrightarrow> m' ! p = m ! p)"
  using assms(1,2) unfolding m'_def
proof (induction ps rule: rev_induct)
  case (snoc p ps)
  let ?m = "fold (fade_at w) ps m"
  have less: "q < p" if "q \<in> set ps" for q using snoc.prems(1) that by (auto simp: sorted_wrt_append)
  have p: "w < p" "p + w < length ?m" using snoc.prems(2) by simp_all
  have IH: "?m ! q = faded (?m ! (q - 1)) (m ! (q + 1)) (?m ! (q - w)) (m ! (q + w))" if "q \<in> set ps" for q
    using snoc.IH snoc.prems that by (auto simp: sorted_wrt_append)
  have same: "?m ! q = m ! q" if "q \<notin> set ps" for q
    using snoc.IH snoc.prems that by (auto simp: sorted_wrt_append)
  have new: "fold (fade_at w) (ps @ [p]) m = ?m[p := faded (?m ! (p - 1)) (m ! (p + 1)) (?m ! (p - w)) (m ! (p + w))]"
  proof -
    have "p + 1 \<notin> set ps" "p + w \<notin> set ps" using less by (meson not_add_less1)+
    then show ?thesis using same [of "p + 1"] same [of "p + w"] by (simp add: fade_at_def)
  qed
  let ?v = "faded (?m ! (p - 1)) (m ! (p + 1)) (?m ! (p - w)) (m ! (p + w))"
  have old: "?m[p := ?v] ! q = ?m ! q" if "q < p" for q using that by simp
  have "?m[p := ?v] ! p = ?v" using p by simp
  then have "?m[p := ?v] ! p = faded (?m[p := ?v] ! (p - 1)) (m ! (p + 1)) (?m[p := ?v] ! (p - w)) (m ! (p + w))"
    using old [of "p - 1"] old [of "p - w"] p assms(3) by simp
  moreover have "?m[p := ?v] ! q = faded (?m[p := ?v] ! (q - 1)) (m ! (q + 1)) (?m[p := ?v] ! (q - w)) (m ! (q + w))"
    if "q \<in> set ps" for q
    using less [OF that] old [of q] old [of "q - 1"] old [of "q - w"] IH [OF that] by simp
  moreover have "?m[p := ?v] ! q = m ! q" if "q \<notin> set (ps @ [p])" for q using same that by simp
  ultimately show ?case unfolding new by simp
qed simp

lemma fade_result:
  assumes "2 \<le> w" "2 \<le> h" "w * h \<le> length m" "length m < 2 ^ 32"
  shows "\<exists>m'. fade m (int w) (int h) = Inr m' \<and> length m' = length m \<and>
    (\<forall>p\<in>set (inner w h). m' ! p = faded (m' ! (p - 1)) (m ! (p + 1)) (m' ! (p - w)) (m ! (p + w))) \<and>
    (\<forall>p. p \<notin> set (inner w h) \<longrightarrow> m' ! p = m ! p)"
  using fade_sweep [OF assms] sweep_equation [OF sorted_inner, of w h w m] inner_in_screen [of _ w h] assms(1,3)
  by fastforce

section \<open>Fading to black\<close>

definition fades :: "nat \<Rightarrow> int \<Rightarrow> int \<Rightarrow> 8 word list \<Rightarrow> 8 word list res" where
  "fades n width height m = fold_res (\<lambda>_ m. fade m width height) [0..<n] m"

text \<open>One sweep takes a level off the brightest pixel, when the border is black.\<close>

lemma fade_darkens:
  assumes eq: "\<forall>p\<in>set ps. m' ! p = faded (m' ! (p - 1)) (m ! (p + 1)) (m' ! (p - w)) (m ! (p + w))"
    and same: "\<forall>p. p \<notin> set ps \<longrightarrow> m' ! p = m ! p"
    and black: "\<And>p. p < n \<Longrightarrow> p \<notin> set ps \<Longrightarrow> m ! p = 0"
    and inside: "\<And>p. p \<in> set ps \<Longrightarrow> w < p \<and> p + w < n" and w: "0 < w"
    and dark: "\<And>p. p < n \<Longrightarrow> unat (m ! p) \<le> k"
  shows "p < n \<Longrightarrow> unat (m' ! p) \<le> k - 1"
proof (induction p rule: less_induct)
  case (less p)
  show ?case
  proof (cases "p \<in> set ps")
    case True
    have "unat (m' ! (p - 1)) \<le> k - 1" "unat (m' ! (p - w)) \<le> k - 1"
      using less.IH [of "p - 1"] less.IH [of "p - w"] less.prems inside [OF True] w by auto
    moreover have "unat (m ! (p + 1)) \<le> k" "unat (m ! (p + w)) \<le> k"
      using dark [of "p + 1"] dark [of "p + w"] inside [OF True] w by auto
    ultimately have "(unat (m' ! (p - 1)) + unat (m ! (p + 1)) + unat (m' ! (p - w)) + unat (m ! (p + w))) div 4 \<le> k"
      by simp
    then have "unat (faded (m' ! (p - 1)) (m ! (p + 1)) (m' ! (p - w)) (m ! (p + w))) \<le> k - 1"
      unfolding unat_faded by (rule diff_le_mono)
    then show ?thesis using eq True by simp
  qed (use same black less.prems in simp)
qed

text \<open>
  C27. On a screen with a black border the sweep never leaves the screen, and takes everything to black: after \<open>n\<close>
  sweeps no pixel is brighter than \<open>255 - n\<close>, whatever was on the screen.
\<close>

theorem fade_to_black:
  assumes "2 \<le> w" "2 \<le> h" "length m = w * h" "w * h < 2 ^ 32"
    and "\<And>x y. x < w \<Longrightarrow> y < h \<Longrightarrow> x = 0 \<or> x = w - 1 \<or> y = 0 \<or> y = h - 1 \<Longrightarrow> m ! (y * w + x) = 0"
  shows "\<exists>m'. fades n (int w) (int h) m = Inr m' \<and> length m' = w * h \<and> (\<forall>p < w * h. unat (m' ! p) \<le> 255 - n)"
proof -
  let ?B = "\<lambda>m. length m = w * h \<and> (\<forall>p < w * h. p \<notin> set (inner w h) \<longrightarrow> m ! p = (0 :: 8 word))"
  have border: "m ! p = 0" if "p < w * h" "p \<notin> set (inner w h)" for p
  proof -
    have "p mod w < w" "p div w < h" "p = p div w * w + p mod w"
      using that(1) assms(1) by (simp_all add: less_mult_imp_div_less mult.commute)
    moreover have "\<not> (1 \<le> p mod w \<and> p mod w < w - 1 \<and> 1 \<le> p div w \<and> p div w < h - 1)"
      using that(2) \<open>p = p div w * w + p mod w\<close> unfolding set_inner by blast
    ultimately have "p mod w = 0 \<or> p mod w = w - 1 \<or> p div w = 0 \<or> p div w = h - 1" by linarith
    then show ?thesis using assms(5) [of "p mod w" "p div w"] \<open>p mod w < w\<close> \<open>p div w < h\<close> by simp
  qed
  have "\<exists>m'. fades n (int w) (int h) m = Inr m' \<and> ?B m' \<and> (\<forall>p < w * h. unat (m' ! p) \<le> 255 - n)"
  proof (induction n)
    case 0
    have "unat v \<le> 255" for v :: "8 word" using unsigned_less [of v, where ?'a = nat] by simp
    then show ?case using assms(3) border by (simp add: fades_def)
  next
    case (Suc n)
    then obtain m1 where m1: "fades n (int w) (int h) m = Inr m1" "?B m1" "\<forall>p < w * h. unat (m1 ! p) \<le> 255 - n" by blast
    obtain m2 where m2: "fade m1 (int w) (int h) = Inr m2" "length m2 = length m1"
      "\<forall>p\<in>set (inner w h). m2 ! p = faded (m2 ! (p - 1)) (m1 ! (p + 1)) (m2 ! (p - w)) (m1 ! (p + w))"
      "\<forall>p. p \<notin> set (inner w h) \<longrightarrow> m2 ! p = m1 ! p"
      using fade_result [of w h m1] assms m1(2) by auto
    have "unat (m2 ! p) \<le> (255 - n) - 1" if "p < w * h" for p
      using fade_darkens [OF m2(3,4), of "w * h" "255 - n" p] m1 inner_in_screen [of _ w h] assms(1) that by auto
    then show ?case using m1 m2 by (auto simp: fades_def fold_res_append)
  qed
  then show ?thesis by blast
qed

theorem fade_to_black_witness:
  "\<exists>m'. fades 255 3 3 [0, 0, 0, 0, 200, 0, 0, 0, 0] = Inr m' \<and> length m' = 9 \<and> unat (m' ! 4) \<le> 0"
proof -
  have "[0, 0, 0, 0, 200, 0, 0, 0, 0 :: 8 word] ! (y * 3 + x) = 0"
    if "x < 3" "y < 3" "x = 0 \<or> x = 3 - 1 \<or> y = 0 \<or> y = 3 - 1" for x y :: nat
  proof -
    have "x \<in> {0, 1, 2}" "y \<in> {0, 1, 2}" using that(1,2) by auto
    then show ?thesis using that(3) by auto
  qed
  then show ?thesis using fade_to_black [of 3 3 "[0, 0, 0, 0, 200, 0, 0, 0, 0]" 255] by auto
qed

end
