(* ===== verification/Starfield.thy ===== *)
theory Starfield
  imports Fader
begin

text \<open>
  The star field \<open>patches/code/starfield/starfield.c\<close>: \<open>set_pal\<close>, \<open>delete_star\<close>, \<open>update_star\<close>,
  \<open>create_star\<close>, \<open>init_starfield\<close> and \<open>calc_starfield\<close>. The static variables are the array of stars, the
  screen and the counter of \<open>create_star\<close>, which are passed and returned. Coordinates are \<open>int\<close>s with the
  overflow of C as a \<open>Fault\<close>, screen coordinates 32-bit words. \<open>update_star\<close> calls itself on a star it
  has replaced, so it has fuel, one unit per call; two are enough on every screen whose sides are at
  least 262.
\<close>

section \<open>The table of random numbers\<close>

text \<open>\<open>NUMRND\<close> and \<open>MAXSTARS\<close> are 256, \<open>ZMAX\<close> is 4096. A \<open>signed char\<close> holds eight bits: the initialiser 128 is stored as -128.\<close>

definition rndtable :: "int list" where
  "rndtable = map (\<lambda>v. (v + 128) mod 256 - 128)
    [91, -97, -111, -14, 100, 28, -24, -51, 87, 61, -16, 95, -43, -95, -51, -54, 69, 24, 128, 43, 115, 97, -39, 102,
     56, -37, -117, -124, -115, -28, 24, -103, -16, 78, -83, -59, -118, -117, -90, 79, -10, -4, -42, 105, 20, 12, 66, -91,
     -40, 124, 115, -103, 103, -118, 6, -51, -119, 90, -82, 97, -68, 77, 56, -113, -34, -95, -40, 123, -41, 28, 68, 103,
     38, 4, -21, -56, -75, 55, -52, 75, -19, -91, 48, 89, 88, -17, -32, 8, -42, -127, 3, 37, -77, -35, 82, 66,
     -103, 117, -69, 90, -70, -65, 45, 26, 31, -20, -87, 74, -119, -18, 69, 107, -65, 37, 69, 2, -70, 119, -12, -84,
     -100, 26, 107, 116, -54, -41, -27, 114, 34, 15, -57, 78, -87, 80, 17, -112, -94, -76, 84, 104, 105, -28, -45, -41,
     16, -12, 6, -42, 8, -16, 24, 121, -34, 90, -116, -103, 92, 97, -72, 10, -2, 28, 52, -19, 38, -113, -20, 29,
     -9, -62, -10, 65, 55, -74, -32, -115, 42, 116, -112, -64, -59, 16, 105, 85, 42, -38, -44, -121, -48, -117, -36, 24,
     59, -80, 5, 117, -74, 39, -2, 60, -18, -26, 98, -100, -36, -25, 32, -78, -32, 109, -55, 80, 124, 116, 79, 79,
     -109, -97, 122, -37, -110, 79, -88, -43, 112, 74, 0, -52, -23, -86, -46, -113, -32, 86, 51, -22, 73, -27, -112, -111,
     -116, 16, 92, -63, -63, -92, 117, -99, -74, 19, 126, -40, 24, -117, -68, -93]"

section \<open>Stars\<close>

record star =
  st_x :: int
  st_y :: int
  st_z :: int
  screen_x :: "32 word"
  screen_y :: "32 word"
  st_speed :: int

definition create_star :: "star \<Rightarrow> 32 word \<Rightarrow> star \<times> 32 word" where
  "create_star star num =
     (star\<lparr>st_x := rndtable ! unat (num mod 256) * 16,
           st_y := rndtable ! unat ((num + 128) mod 256) * 16,
           st_z := 4096\<rparr>, num + 1)"

text \<open>The place of a pixel in the frame buffer: \<open>screen_x + screen_y * xres\<close>, unsigned.\<close>

definition star_place :: "int \<Rightarrow> star \<Rightarrow> 32 word" where
  "star_place xres star = screen_x star + screen_y star * of_int xres"

definition delete_star :: "int \<Rightarrow> int \<Rightarrow> star \<Rightarrow> 8 word list \<Rightarrow> 8 word list res" where
  "delete_star xres yres star screen =
     (if screen_x star < of_int xres \<and> screen_y star < of_int yres
      then put_byte screen (star_place xres star) 0 else Inr screen)"

definition screen_coord :: "int \<Rightarrow> int \<Rightarrow> int \<Rightarrow> (32 word) res" where
  "screen_coord v z res =
     res_bind (c_int (v * 256)) (\<lambda>a. res_bind (c_div a z) (\<lambda>q.
     res_bind (c_int (q + res sdiv 2)) (\<lambda>s. Inr (of_int s))))"

definition off_screen :: "int \<Rightarrow> int \<Rightarrow> star \<Rightarrow> bool" where
  "off_screen xres yres star \<longleftrightarrow>
     0 \<ge> st_z star \<or> screen_x star \<ge> of_int (xres - 2) \<or> screen_y star \<ge> of_int (yres - 2) \<or>
     screen_x star \<le> 2 \<or> screen_y star \<le> 2"

definition draw_star :: "int \<Rightarrow> star \<Rightarrow> 8 word list \<Rightarrow> (star \<times> 8 word list) res" where
  "draw_star xres star screen =
     res_bind (put_byte screen (star_place xres star) (of_int (255 - st_z star sdiv 24))) (\<lambda>screen.
     res_bind (c_int (st_z star - 24)) (\<lambda>z.
       Inr (star\<lparr>st_z := z\<rparr>, screen)))"

primrec update_star ::
  "nat \<Rightarrow> int \<Rightarrow> int \<Rightarrow> star \<Rightarrow> 8 word list \<times> 32 word \<Rightarrow> (star \<times> 8 word list \<times> 32 word) res" where
  "update_star 0 = (\<lambda>xres yres star s. Inl Diverges)"
| "update_star (Suc fuel) = (\<lambda>xres yres star (screen, num).
     res_bind (screen_coord (st_x star) (st_z star) xres) (\<lambda>sx.
     res_bind (screen_coord (st_y star) (st_z star) yres) (\<lambda>sy.
     let star = star\<lparr>screen_x := sx, screen_y := sy\<rparr> in
     res_bind
       (if off_screen xres yres star then
          let (star, num) = create_star star num in update_star fuel xres yres star (screen, num)
        else Inr (star, screen, num))
       (\<lambda>(star, screen, num).
     res_bind (draw_star xres star screen) (\<lambda>(star, screen). Inr (star, screen, num))))))"

section \<open>The palette\<close>

text \<open>
  \<open>set_pal\<close> fills 256 entries of red, green and blue: three ramps of 64 colours, and white. The three loops
  count \<open>i\<close> in steps of three from \<open>start\<close> and \<open>s\<close> in steps of four.
\<close>

definition pal_ramp ::
  "nat \<Rightarrow> (nat \<Rightarrow> nat \<times> nat \<times> nat) \<Rightarrow> 8 word list \<Rightarrow> 8 word list res" where
  "pal_ramp start colour =
     fold_res (\<lambda>k pal.
       let i = start + 3 * k; (r, g, b) = colour (4 * k) in
       if i + 2 < length pal
       then Inr (pal[i := of_nat r, i + 1 := of_nat g, i + 2 := of_nat b]) else Inl Fault) [0..<64]"

definition set_pal :: "8 word list \<Rightarrow> 8 word list res" where
  "set_pal pal =
     res_bind (pal_ramp 0 (\<lambda>s. (s, 0, s)) pal) (\<lambda>pal.
     res_bind (pal_ramp 192 (\<lambda>s. (255, s, 255 - s)) pal) (\<lambda>pal.
     res_bind (pal_ramp 384 (\<lambda>s. (255, 255, s)) pal) (\<lambda>pal.
     fold_res (\<lambda>i pal. if i < length pal then Inr (pal[i := 255]) else Inl Fault) [576..<768] pal)))"

section \<open>Starting and drawing a frame\<close>

definition new_star :: "nat \<Rightarrow> star list \<times> 32 word \<Rightarrow> star list \<times> 32 word" where
  "new_star i s =
     (let (stars, num) = s; (star, num) = create_star (stars ! i) num in
      (stars[i := star\<lparr>st_z := (rndtable ! (i mod 256) + 127) * (4096 div 256)\<rparr>], num))"

definition clear_bytes :: "nat \<Rightarrow> 8 word list \<Rightarrow> 8 word list res" where
  "clear_bytes n = fold_res (\<lambda>i m. if i < length m then Inr (m[i := 0]) else Inl Fault) [0..<n]"

definition init_starfield ::
  "8 word list \<Rightarrow> 8 word list \<Rightarrow> int \<Rightarrow> int \<Rightarrow> star list \<times> 32 word
   \<Rightarrow> (8 word list \<times> 8 word list \<times> star list \<times> 32 word) res" where
  "init_starfield screenbuf pal xres yres s =
     res_bind (c_int (xres * yres)) (\<lambda>n.
     res_bind (clear_bytes (unat (of_int n :: 32 word)) screenbuf) (\<lambda>screenbuf.
     res_bind (set_pal pal) (\<lambda>pal.
       Inr (screenbuf, pal, fold new_star [0..<256] s))))"

definition calc_starfield ::
  "nat \<Rightarrow> int \<Rightarrow> int \<Rightarrow> star list \<times> 8 word list \<times> 32 word
   \<Rightarrow> (star list \<times> 8 word list \<times> 32 word) res" where
  "calc_starfield fuel xres yres =
     fold_res (\<lambda>i (stars, s).
       res_bind (update_star fuel xres yres (stars ! i) s) (\<lambda>(star, s). Inr (stars[i := star], s)))
     [0..<256]"

end
