(* ===== verification/Starfield_Correct.thy ===== *)
theory Starfield_Correct
  imports Starfield
begin

text \<open>
  What the star field does on a screen of at least 262 by 262: a frame stays inside the screen and leaves
  its border alone as long as no star is at distance zero, which no star reaches whose distance is not
  a multiple of 24; but \<open>init_starfield\<close> places star 89 at distance zero, and the first frame divides by it.
\<close>

section \<open>Coordinates\<close>

lemma abs_sdiv_le: "\<bar>a sdiv b\<bar> \<le> \<bar>a\<bar>" for a b :: int
proof (cases "b = 0")
  case False
  then have "\<bar>a\<bar> div \<bar>b\<bar> \<le> \<bar>a\<bar>" using zdiv_mono2 [of "\<bar>a\<bar>" 1 "\<bar>b\<bar>"] by simp
  moreover have "0 \<le> \<bar>a\<bar> div \<bar>b\<bar>" by (simp add: div_int_pos_iff)
  moreover have "\<bar>sgn a * sgn b\<bar> \<le> 1" by (simp add: sgn_if abs_mult)
  then have "\<bar>sgn a * sgn b\<bar> * (\<bar>a\<bar> div \<bar>b\<bar>) \<le> 1 * (\<bar>a\<bar> div \<bar>b\<bar>)"
    using calculation(2) by (rule mult_right_mono)
  ultimately show ?thesis unfolding signed_divide_int_def abs_mult [of "sgn a * sgn b"] by simp
qed (simp add: signed_divide_int_def)

definition size_ok :: "nat \<Rightarrow> bool" where
  "size_ok n \<longleftrightarrow> 262 \<le> n \<and> n < 2 ^ 15"

lemma screen_coord_eq:
  assumes "\<bar>v\<bar> \<le> 2048" "z \<noteq> 0" "size_ok n"
  shows "screen_coord v z (int n) = Inr (of_int ((v * 256) sdiv z + int n sdiv 2))"
proof -
  have "\<bar>(v * 256) sdiv z\<bar> \<le> 524288" "\<bar>int n sdiv 2\<bar> < 32768"
    using abs_sdiv_le [of "v * 256" z] abs_sdiv_le [of "int n" 2] assms by (auto simp: size_ok_def)
  then show ?thesis using assms(1,2)
    unfolding screen_coord_def c_div_def c_int_def by auto
qed

lemma rnd_range:
  assumes "i < 256"
  shows "- 128 \<le> rndtable ! i \<and> rndtable ! i \<le> 127"
proof -
  obtain xs where xs: "rndtable = map (\<lambda>v. (v + 128) mod 256 - 128) xs"
    using rndtable_def by blast
  have "length rndtable = 256" by (simp add: rndtable_def)
  then have "length xs = 256" by (simp add: xs)
  then have "rndtable ! i = (xs ! i + 128) mod 256 - 128" using assms by (simp add: xs)
  then show ?thesis using pos_mod_bound [of 256 "xs ! i + 128"] pos_mod_sign [of 256 "xs ! i + 128"] by linarith
qed

lemma fresh_coord:
  assumes "- 128 \<le> r" "r \<le> 127" "size_ok n"
  shows "screen_coord (r * 16) 4096 (int n) = Inr (of_nat (nat (r + int n div 2)))"
    "2 < r + int n div 2" "r + int n div 2 < int n - 2"
proof -
  have "(r * 16 * 256) sdiv 4096 = r" by (simp add: signed_divide_int_def sgn_mult abs_mult sgn_mult_abs)
  moreover have h: "int n sdiv 2 = int n div 2" using assms(3) by (simp add: signed_divide_int_def size_ok_def)
  ultimately have "screen_coord (r * 16) 4096 (int n) = Inr (of_int (r + int n div 2))"
    using screen_coord_eq [of "r * 16" 4096 n] assms by simp
  moreover show "2 < r + int n div 2" "r + int n div 2 < int n - 2" using assms by (auto simp: size_ok_def)
  ultimately show "screen_coord (r * 16) 4096 (int n) = Inr (of_nat (nat (r + int n div 2)))" by simp
qed

section \<open>Drawing\<close>

definition bounded :: "star \<Rightarrow> bool" where
  "bounded s \<longleftrightarrow> \<bar>st_x s\<bar> \<le> 2048 \<and> \<bar>st_y s\<bar> \<le> 2048 \<and> - 24 < st_z s \<and> st_z s \<le> 4096"

text \<open>The pixels a star may be drawn at.\<close>

definition in_field :: "nat \<Rightarrow> nat \<Rightarrow> nat \<Rightarrow> bool" where
  "in_field w h p \<longleftrightarrow> (\<exists>x y. p = y * w + x \<and> 2 < x \<and> x < w - 2 \<and> 2 < y \<and> y < h - 2)"

definition field_only :: "nat \<Rightarrow> nat \<Rightarrow> 8 word list \<Rightarrow> 8 word list \<Rightarrow> bool" where
  "field_only w h m m' \<longleftrightarrow> length m' = length m \<and> (\<forall>p. \<not> in_field w h p \<longrightarrow> m' ! p = m ! p)"

lemma field_only_refl [simp]: "field_only w h m m"
  by (simp add: field_only_def)

lemma field_only_trans: "field_only w h a b \<Longrightarrow> field_only w h b c \<Longrightarrow> field_only w h a c"
  by (simp add: field_only_def)

lemma size_words:
  assumes "size_ok k"
  shows "(of_int (int k - 2) :: 32 word) = of_nat (k - 2)" "unat (of_nat (k - 2) :: 32 word) = k - 2"
    "a \<le> k \<Longrightarrow> unat (of_nat a :: 32 word) = a"
proof -
  have k: "262 \<le> k" "k < 2 ^ 15" using assms by (simp_all add: size_ok_def)
  show "(of_int (int k - 2) :: 32 word) = of_nat (k - 2)" using k by (simp add: of_nat_diff)
  show "unat (of_nat (k - 2) :: 32 word) = k - 2" "a \<le> k \<Longrightarrow> unat (of_nat a :: 32 word) = a"
    unfolding unsigned_of_nat using k by (simp_all add: take_bit_nat_eq_self)
qed

lemma inside_words:
  assumes "size_ok k" "2 < a" "a < int k - 2"
  shows "\<not> of_int (int k - 2) \<le> (of_nat (nat a) :: 32 word)" "\<not> (of_nat (nat a) :: 32 word) \<le> 2"
proof -
  have "nat a < k - 2" "2 < nat a" using assms(2,3) by arith+
  then show "\<not> of_int (int k - 2) \<le> (of_nat (nat a) :: 32 word)" "\<not> (of_nat (nat a) :: 32 word) \<le> 2"
    unfolding size_words(1) [OF assms(1)] word_less_nat_alt word_le_nat_alt
    using size_words(2,3) [OF assms(1)] by (simp_all only: not_le, simp_all)
qed

lemma on_screen_place:
  assumes "\<not> off_screen (int w) (int h) s" "size_ok w" "size_ok h"
  shows "in_field w h (unat (star_place (int w) s))" "unat (star_place (int w) s) < w * h" "0 < st_z s"
proof -
  let ?x = "unat (screen_x s)" and ?y = "unat (screen_y s)"
  have xy: "2 < ?x" "?x < w - 2" "2 < ?y" "?y < h - 2" and z: "0 < st_z s"
    using assms(1) size_words [OF assms(2)] size_words [OF assms(3)]
    by (auto simp: off_screen_def not_le word_less_nat_alt)
  have "(?y + 1) * w \<le> h * w" using xy by (intro mult_le_mono1) simp
  then have lt: "?y * w + ?x < w * h" using xy by (simp add: mult.commute)
  have "w * h < 2 ^ 15 * 2 ^ 15" using assms(2,3) by (intro mult_strict_mono) (auto simp: size_ok_def)
  then have "unat (star_place (int w) s) = ?y * w + ?x"
    using lt size_words(3) [OF assms(2) order_refl] by (simp add: star_place_def unat_word_ariths)
  then show "in_field w h (unat (star_place (int w) s))" "unat (star_place (int w) s) < w * h"
    using xy lt by (auto simp: in_field_def)
  show "0 < st_z s" by (rule z)
qed

lemma draw_star_on_screen:
  assumes "\<not> off_screen (int w) (int h) s" "size_ok w" "size_ok h" "w * h \<le> length m" "bounded s"
  shows "\<exists>m'. draw_star (int w) s m = Inr (s\<lparr>st_z := st_z s - 24\<rparr>, m') \<and> field_only w h m m'"
proof -
  have "unat (star_place (int w) s) < length m" using on_screen_place(2) [OF assms(1-3)] assms(4) by simp
  then show ?thesis using on_screen_place(1) [OF assms(1-3)] assms(5)
    by (auto simp: draw_star_def put_byte_def c_int_def bounded_def field_only_def nth_list_update)
qed

section \<open>Updating one star\<close>

lemma update_on_screen:
  assumes "screen_coord (st_x s) (st_z s) (int w) = Inr sx" "screen_coord (st_y s) (st_z s) (int h) = Inr sy"
    and "\<not> off_screen (int w) (int h) (s\<lparr>screen_x := sx, screen_y := sy\<rparr>)"
    and "size_ok w" "size_ok h" "w * h \<le> length m" "bounded s"
  shows "\<exists>m'. update_star (Suc fuel) (int w) (int h) s (m, num) =
      Inr (s\<lparr>screen_x := sx, screen_y := sy, st_z := st_z s - 24\<rparr>, m', num) \<and> field_only w h m m'"
proof -
  have "bounded (s\<lparr>screen_x := sx, screen_y := sy\<rparr>)" using assms(7) by (simp add: bounded_def)
  from draw_star_on_screen [OF assms(3-6) this] show ?thesis using assms(1-3) by auto
qed

lemma off_screen_z:
  "0 < z \<Longrightarrow> 0 < st_z s \<Longrightarrow> off_screen w h (s\<lparr>st_z := z\<rparr>) = off_screen w h s"
  by (simp add: off_screen_def)

lemma update_fresh:
  assumes "create_star s num = (s', num')" "size_ok w" "size_ok h" "w * h \<le> length m"
  shows "\<exists>t m'. update_star (Suc fuel) (int w) (int h) s' (m, num') = Inr (t, m', num') \<and>
      \<not> off_screen (int w) (int h) t \<and> bounded t \<and> st_z t = 4072 \<and> field_only w h m m'"
proof -
  have l: "unat (v mod 256) < 256" for v :: "32 word" by (simp add: unat_mod_distrib)
  let ?r = "rndtable ! unat (num mod 256)" and ?q = "rndtable ! unat ((num + 128) mod 256)"
  have r: "- 128 \<le> ?r" "?r \<le> 127" and q: "- 128 \<le> ?q" "?q \<le> 127" using rnd_range l by blast+
  have s': "s' = s\<lparr>st_x := ?r * 16, st_y := ?q * 16, st_z := 4096\<rparr>" using assms(1) by (simp add: create_star_def)
  let ?sx = "of_nat (nat (?r + int w div 2)) :: 32 word" and ?sy = "of_nat (nat (?q + int h div 2)) :: 32 word"
  note fx = fresh_coord [OF r assms(2)] and fy = fresh_coord [OF q assms(3)]
  have "\<not> off_screen (int w) (int h) (s'\<lparr>screen_x := ?sx, screen_y := ?sy\<rparr>)"
    using inside_words [OF assms(2) fx(2,3)] inside_words [OF assms(3) fy(2,3)]
    unfolding off_screen_def s' by simp
  moreover from this have "\<not> off_screen (int w) (int h) (s'\<lparr>screen_x := ?sx, screen_y := ?sy, st_z := 4072\<rparr>)"
    by (simp add: off_screen_def)
  moreover have "bounded s'" "bounded (s'\<lparr>screen_x := ?sx, screen_y := ?sy, st_z := 4072\<rparr>)"
    using r q by (simp_all add: bounded_def s' abs_le_iff)
  ultimately show ?thesis
    using update_on_screen [of s' w ?sx h ?sy m fuel num'] fx(1) fy(1) assms(2-4) by (fastforce simp: s')
qed

lemma update_star_total:
  assumes "bounded s" "st_z s \<noteq> 0" "size_ok w" "size_ok h" "w * h \<le> length m"
  shows "\<exists>t m' num'. update_star (Suc (Suc fuel)) (int w) (int h) s (m, num) = Inr (t, m', num') \<and>
      bounded t \<and> (st_z t = st_z s - 24 \<or> st_z t = 4048) \<and> field_only w h m m'"
proof -
  obtain sx sy where c: "screen_coord (st_x s) (st_z s) (int w) = Inr sx" "screen_coord (st_y s) (st_z s) (int h) = Inr sy"
    using screen_coord_eq assms by (simp add: bounded_def)
  let ?s = "s\<lparr>screen_x := sx, screen_y := sy\<rparr>"
  show ?thesis
  proof (cases "off_screen (int w) (int h) ?s")
    case False
    then have "0 < st_z s" by (simp add: off_screen_def)
    then show ?thesis using update_on_screen [OF c False assms(3-5,1), of "Suc fuel" num] assms(1)
      by (fastforce simp: bounded_def)
  next
    case True
    obtain s' num' where new: "create_star ?s num = (s', num')" by fastforce
    obtain t m1 where t: "update_star (Suc fuel) (int w) (int h) s' (m, num') = Inr (t, m1, num')"
      "\<not> off_screen (int w) (int h) t" "bounded t" "st_z t = 4072" "field_only w h m m1"
      using update_fresh [OF new assms(3-5), of fuel] by blast
    obtain m2 where "draw_star (int w) t m1 = Inr (t\<lparr>st_z := st_z t - 24\<rparr>, m2)" "field_only w h m1 m2"
      using draw_star_on_screen [OF t(2) assms(3,4) _ t(3), of m1] t(5) assms(5) by (auto simp: field_only_def)
    moreover have "update_star (Suc (Suc fuel)) (int w) (int h) s (m, num) =
      res_bind (draw_star (int w) t m1) (\<lambda>(star, screen). Inr (star, screen, num'))"
      unfolding update_star.simps(2) [of "Suc fuel"] prod.case c res_bind.simps Let_def if_P [OF True] new t(1) ..
    ultimately show ?thesis using t(3-5) by (auto simp: bounded_def intro: field_only_trans)
  qed
qed

section \<open>Frames\<close>

text \<open>A live star never reaches distance zero.\<close>

definition live :: "star \<Rightarrow> bool" where
  "live s \<longleftrightarrow> bounded s \<and> st_z s mod 24 \<noteq> 0"

lemma update_live:
  assumes "live s" "size_ok w" "size_ok h" "w * h \<le> length m"
  shows "\<exists>t m' num'. update_star (Suc (Suc fuel)) (int w) (int h) s (m, num) = Inr (t, m', num') \<and>
      live t \<and> field_only w h m m'"
proof -
  have s: "bounded s" "st_z s \<noteq> 0" "st_z s mod 24 \<noteq> 0" using assms(1) by (auto simp: live_def)
  obtain t m' num' where t: "update_star (Suc (Suc fuel)) (int w) (int h) s (m, num) = Inr (t, m', num')"
    "bounded t" "st_z t = st_z s - 24 \<or> st_z t = 4048" "field_only w h m m'"
    using update_star_total [OF s(1,2) assms(2-4), of fuel num] by blast
  have "(st_z s - 24) mod 24 = st_z s mod 24" by (rule minus_mod_self2)
  then have "st_z t mod 24 \<noteq> 0" using t(3) s(3)
  proof (elim disjE)
    assume "st_z t = st_z s - 24"
    then show ?thesis using s(3) by (simp only: minus_mod_self2 not_False_eq_True)
  qed simp
  then have "live t" using t(2) by (simp add: live_def)
  with t(1,4) show ?thesis by blast
qed

definition frames ::
  "nat \<Rightarrow> nat \<Rightarrow> int \<Rightarrow> int \<Rightarrow> star list \<times> 8 word list \<times> 32 word \<Rightarrow> (star list \<times> 8 word list \<times> 32 word) res" where
  "frames n fuel xres yres = fold_res (\<lambda>_. calc_starfield fuel xres yres) [0..<n]"

text \<open>
  C28. On every screen of at least 262 by 262 pixels, frames of live stars can be drawn for ever: each returns, no
  pixel outside the field (three pixels from the left and top, two from the right and bottom) is touched, and the stars stay live.
\<close>

theorem starfield_frames_safe:
  assumes "size_ok w" "size_ok h" "length m = w * h" "length stars = 256" "list_all live stars"
  shows "\<exists>stars' m' num'. frames n (Suc (Suc fuel)) (int w) (int h) (stars, m, num) = Inr (stars', m', num') \<and>
    length stars' = 256 \<and> list_all live stars' \<and> field_only w h m m'"
proof -
  let ?P = "\<lambda>(ss, m', num' :: 32 word). length ss = 256 \<and> list_all live ss \<and> field_only w h m m'"
  have one: "\<exists>t. (case s of (ss, s') \<Rightarrow>
      res_bind (update_star (Suc (Suc fuel)) (int w) (int h) (ss ! i) s') (\<lambda>(star, s'). Inr (ss[i := star], s'))) = Inr t \<and> ?P t"
    if i: "i \<in> set [0..<256]" and P: "?P s" for i s
  proof -
    obtain ss m1 num1 where s: "s = (ss, m1, num1)" using prod_cases3 by blast
    have "live (ss ! i)" "w * h \<le> length m1" using i P assms(3) by (simp_all add: s list_all_length field_only_def)
    from update_live [OF this(1) assms(1,2) this(2), of fuel num1] obtain t m2 num2 where
      "update_star (Suc (Suc fuel)) (int w) (int h) (ss ! i) (m1, num1) = Inr (t, m2, num2)" "live t" "field_only w h m1 m2" by blast
    then show ?thesis using i P field_only_trans
      by (auto simp: s list_all_length nth_list_update simp del: update_star.simps)
  qed
  have frame: "\<exists>t. calc_starfield (Suc (Suc fuel)) (int w) (int h) s = Inr t \<and> ?P t" if "?P s" for s
    unfolding calc_starfield_def by (rule fold_res_total [where P = ?P, OF one that])
  have "\<exists>t. frames n (Suc (Suc fuel)) (int w) (int h) (stars, m, num) = Inr t \<and> ?P t"
    unfolding frames_def using assms(4,5) by (intro fold_res_total frame) simp_all
  then show ?thesis by auto
qed

text \<open>Any live stars will do.\<close>

theorem starfield_frames_safe_witness:
  "\<exists>stars' m' num'.
    frames 5 2 300 300 (replicate 256 \<lparr>st_x = 16, st_y = 32, st_z = 100, screen_x = 0, screen_y = 0, st_speed = 0\<rparr>,
      replicate 90000 0, 0) = Inr (stars', m', num') \<and>
    length stars' = 256 \<and> list_all live stars' \<and> field_only 300 300 (replicate 90000 0) m'"
proof -
  let ?s = "\<lparr>st_x = 16, st_y = 32, st_z = 100, screen_x = 0, screen_y = 0, st_speed = 0\<rparr>"
  have "list_all live (replicate 256 ?s)" by (simp add: list_all_length live_def bounded_def)
  moreover have "length (replicate 256 ?s) = 256" by (rule length_replicate)
  moreover have "length (replicate 90000 (0 :: 8 word)) = 300 * 300" by (simp only: length_replicate)
  moreover have "size_ok 300" by (simp add: size_ok_def)
  ultimately show ?thesis
    using starfield_frames_safe [of 300 300 "replicate 90000 0" "replicate 256 ?s" 5 0 0]
    by (simp add: numeral_2_eq_2)
qed

section \<open>The first frame\<close>

lemma clear_bytes_eq:
  "n \<le> length m \<Longrightarrow> clear_bytes n m = Inr (replicate n 0 @ drop n m)"
proof (induction n)
  case (Suc n)
  then have "(replicate n 0 @ drop n m)[n := 0] = replicate (Suc n) 0 @ drop (Suc n) m"
    by (simp add: list_update_append replicate_append_same flip: Cons_nth_drop_Suc)
  then show ?case using Suc by (simp add: clear_bytes_def fold_res_append)
qed (simp add: clear_bytes_def)

lemma pal_ramp_total:
  assumes "start + 192 \<le> length pal"
  shows "\<exists>pal'. pal_ramp start colour pal = Inr pal' \<and> length pal' = length pal"
  unfolding pal_ramp_def using assms
  by (intro fold_res_total) (auto simp: Let_def split: prod.split)

lemma set_pal_total:
  assumes "length pal = 768"
  shows "\<exists>pal'. set_pal pal = Inr pal' \<and> length pal' = 768"
proof -
  obtain p1 where p1: "pal_ramp 0 (\<lambda>s. (s, 0, s)) pal = Inr p1" "length p1 = 768"
    using pal_ramp_total [of 0 pal] assms by fastforce
  obtain p2 where p2: "pal_ramp 192 (\<lambda>s. (255, s, 255 - s)) p1 = Inr p2" "length p2 = 768"
    using pal_ramp_total [of 192 p1] p1(2) by fastforce
  obtain p3 where p3: "pal_ramp 384 (\<lambda>s. (255, 255, s)) p2 = Inr p3" "length p3 = 768"
    using pal_ramp_total [of 384 p2] p2(2) by fastforce
  have "\<exists>t. fold_res (\<lambda>i pal. if i < length pal then Inr (pal[i := 255]) else Inl Fault) [576..<768] p3 = Inr t \<and>
    length t = 768"
  proof (rule fold_res_total [where P = "\<lambda>p. length p = 768", OF _ p3(2)])
    fix i and p :: "8 word list" assume "i \<in> set [576..<768]" "length p = 768"
    then have "i < length p" by (simp only: set_upt atLeastLessThan_iff)
    then show "\<exists>t. (if i < length p then Inr (p[i := 255]) else Inl Fault) = Inr t \<and> length t = 768"
      using \<open>length p = 768\<close> by simp
  qed
  then show ?thesis using p1(1) p2(1) p3(1) by (simp add: set_pal_def)
qed

lemma new_stars:
  assumes "length stars = 256" "n \<le> 256"
  shows "case fold new_star [0..<n] (stars, num) of (ss, num') \<Rightarrow>
    length ss = 256 \<and> (\<forall>i < n. bounded (ss ! i) \<and> st_z (ss ! i) = (rndtable ! i + 127) * 16)"
  using assms(2)
proof (induction n)
  case (Suc n)
  obtain ss k where f: "fold new_star [0..<n] (stars, num) = (ss, k)" by fastforce
  have l: "unat (v mod 256) < 256" for v :: "32 word" by (simp add: unat_mod_distrib)
  have r: "- 128 \<le> rndtable ! i \<and> rndtable ! i \<le> 127" if "i < 256" for i using that by (rule rnd_range)
  have "\<bar>rndtable ! unat (v mod 256) * 16\<bar> \<le> 2048" for v :: "32 word" using r [OF l, of v] by auto
  moreover have "n < 256" using Suc.prems by simp
  moreover from r [OF this] have "- 24 < (rndtable ! n + 127) * 16" "(rndtable ! n + 127) * 16 \<le> 4096" by auto
  ultimately obtain t where "new_star n (ss, k) = (ss[n := t], k + 1)" "bounded t" "st_z t = (rndtable ! n + 127) * 16"
    by (simp add: new_star_def create_star_def bounded_def)
  then show ?case using Suc f \<open>n < 256\<close> by (auto simp: nth_list_update less_Suc_eq)
qed (simp add: assms(1))

lemma init_starfield_result:
  assumes "size_ok w" "size_ok h" "length screen = w * h" "set_pal pal = Inr pal'"
  shows "init_starfield screen pal (int w) (int h) s =
    Inr (replicate (w * h) 0, pal', fst (fold new_star [0..<256] s), snd (fold new_star [0..<256] s))"
proof -
  have wh: "w * h < 2 ^ 15 * 2 ^ 15" using assms(1,2) by (intro mult_strict_mono) (auto simp: size_ok_def)
  then have c: "c_int (int w * int h) = Inr (int (w * h))" "unat (of_nat (w * h) :: 32 word) = w * h"
    by (auto simp: c_int_def unsigned_of_nat take_bit_nat_eq_self simp flip: of_nat_mult)
  show ?thesis
    unfolding init_starfield_def c(1) res_bind.simps of_int_of_nat_eq c(2) clear_bytes_eq [OF eq_refl [OF assms(3) [symmetric]]]
    by (simp add: assms(3,4))
qed

lemma before_89:
  assumes "n \<le> 89" "length stars = 256" "\<forall>i < 256. bounded (stars ! i) \<and> st_z (stars ! i) = (rndtable ! i + 127) * 16"
    and "size_ok w" "size_ok h" "length m = w * h"
  shows "\<exists>ss m' num'. fold_res (\<lambda>i (stars, s).
       res_bind (update_star (Suc (Suc fuel)) (int w) (int h) (stars ! i) s) (\<lambda>(star, s). Inr (stars[i := star], s)))
     [0..<n] (stars, m, num) = Inr (ss, m', num') \<and> length m' = length m \<and> (\<forall>i \<ge> n. ss ! i = stars ! i)"
  using assms(1)
proof (induction n)
  case (Suc n)
  have "list_all (\<lambda>v. v \<noteq> - 127) (take 89 rndtable)" by (simp add: rndtable_def)
  moreover have "length rndtable = 256" by (simp add: rndtable_def)
  ultimately have nz: "rndtable ! n \<noteq> - 127" using Suc.prems by (simp add: list_all_length)
  obtain ss m1 num1 where IH: "fold_res (\<lambda>i (stars, s).
       res_bind (update_star (Suc (Suc fuel)) (int w) (int h) (stars ! i) s) (\<lambda>(star, s). Inr (stars[i := star], s)))
     [0..<n] (stars, m, num) = Inr (ss, m1, num1)" "length m1 = length m" "\<forall>i \<ge> n. ss ! i = stars ! i"
    using Suc by (meson Suc_leD)
  have "bounded (ss ! n)" "st_z (ss ! n) \<noteq> 0" using IH(3) assms(3) nz Suc.prems by simp_all
  from update_star_total [OF this assms(4,5), of m1 fuel num1] obtain t m2 num2 where
    "update_star (Suc (Suc fuel)) (int w) (int h) (ss ! n) (m1, num1) = Inr (t, m2, num2)" "field_only w h m1 m2"
    using IH(2) assms(6) by auto
  then show ?case using IH
    by (simp add: fold_res_append field_only_def del: update_star.simps)
qed simp

text \<open>
  C20. The demo divides by zero: entry 89 of the table is -127, so \<open>init_starfield\<close> places star 89 at distance zero,
  and on every screen the first frame after it stops there, after it has drawn the stars before.
\<close>

theorem starfield_first_frame_faults:
  assumes "size_ok w" "size_ok h" "length screen = w * h" "length pal = 768" "length stars = 256"
  shows "\<exists>m pal' ss num'. init_starfield screen pal (int w) (int h) (stars, num) = Inr (m, pal', ss, num') \<and>
    m = replicate (w * h) 0 \<and> calc_starfield (Suc (Suc fuel)) (int w) (int h) (ss, m, num') = Inl Fault"
proof -
  obtain pal' where pal: "set_pal pal = Inr pal'" using set_pal_total [OF assms(4)] by blast
  obtain ss k where ss: "fold new_star [0..<256] (stars, num) = (ss, k)" by fastforce
  then have "length ss = 256" and b: "\<forall>i < 256. bounded (ss ! i) \<and> st_z (ss ! i) = (rndtable ! i + 127) * 16"
    using new_stars [OF assms(5), of 256 num] by simp_all
  have init: "init_starfield screen pal (int w) (int h) (stars, num) = Inr (replicate (w * h) 0, pal', ss, k)"
    using init_starfield_result [OF assms(1-3) pal, of "(stars, num)"] ss by simp
  obtain s1 m1 num1 where f: "fold_res (\<lambda>i (stars, s).
       res_bind (update_star (Suc (Suc fuel)) (int w) (int h) (stars ! i) s) (\<lambda>(star, s). Inr (stars[i := star], s)))
     [0..<89] (ss, replicate (w * h) 0, k) = Inr (s1, m1, num1)" "\<forall>i \<ge> 89. s1 ! i = ss ! i"
    using before_89 [OF order_refl \<open>length ss = 256\<close> b assms(1,2), of "replicate (w * h) 0" fuel k] by auto
  have "rndtable ! 89 = - 127" by (simp add: rndtable_def)
  then have "st_z (s1 ! 89) = 0" using f(2) b by simp
  moreover have "bounded (s1 ! 89)" using f(2) b by simp
  then have "c_int (st_x (s1 ! 89) * 256) = Inr (st_x (s1 ! 89) * 256)"
    by (auto simp: c_int_def bounded_def)
  ultimately have "update_star (Suc (Suc fuel)) (int w) (int h) (s1 ! 89) (m1, num1) = Inl Fault"
    by (simp add: screen_coord_def c_div_def)
  moreover have "[0..<256] = [0..<89] @ 89 # [90..<256]" by (simp add: upt_rec)
  ultimately have "calc_starfield (Suc (Suc fuel)) (int w) (int h) (ss, replicate (w * h) 0, k) = Inl Fault"
    unfolding calc_starfield_def using f(1) by (simp add: fold_res_append del: update_star.simps)
  with init show ?thesis by blast
qed

theorem starfield_first_frame_faults_witness:
  "\<exists>m pal' ss num'. init_starfield (replicate 256000 7) (replicate 768 0) 640 400
      (replicate 256 \<lparr>st_x = 0, st_y = 0, st_z = 0, screen_x = 0, screen_y = 0, st_speed = 0\<rparr>, 0) =
        Inr (m, pal', ss, num') \<and>
    m = replicate 256000 0 \<and> calc_starfield 2 640 400 (ss, m, num') = Inl Fault"
proof -
  let ?s = "\<lparr>st_x = 0, st_y = 0, st_z = 0, screen_x = 0, screen_y = 0, st_speed = 0\<rparr>"
  have "size_ok 640" "size_ok 400" by (simp_all add: size_ok_def)
  moreover have "length (replicate 256000 (7 :: 8 word)) = 640 * 400" "length (replicate 768 (0 :: 8 word)) = 768"
    "length (replicate 256 ?s) = 256" by (simp_all only: length_replicate)
  ultimately show ?thesis
    using starfield_first_frame_faults [of 640 400 "replicate 256000 7" "replicate 768 0" "replicate 256 ?s" 0 0]
    by (simp add: numeral_2_eq_2)
qed

end
