(* ===== verification/Starfield_Threads.thy ===== *)
theory Starfield_Threads
  imports Main
begin

text \<open>
  The threads of \<open>patches/code/starfield/main.c\<close>: the main loop, the four fade workers and the two
  semaphores of each, as a step relation. A step is one semaphore operation, one test of \<open>running\<close>, one frame
  or one sweep; any thread that can move may move next. The signal handler may run at any moment; a second
  signal changes nothing and is no step. The sweeps themselves are in theory \<open>Fader\<close>.
\<close>

section \<open>The program\<close>

datatype main_pc = MCreate nat | MCheck | MCalc | MWait nat | MPost nat | MFinal nat | MJoin nat | MDone

datatype worker_pc = WNew | WCheck | WPost | WWait | WFade | WFinal | WDone

record threads =
  running :: bool
  main_at :: main_pc
  frame_j :: nat
  worker :: "nat \<Rightarrow> worker_pc"
  sem :: "nat \<Rightarrow> nat"
  sem_main :: "nat \<Rightarrow> nat"

definition threads_start :: threads where
  "threads_start = \<lparr>running = True, main_at = MCreate 0, frame_j = 0, worker = (\<lambda>_. WNew),
     sem = (\<lambda>_. 0), sem_main = (\<lambda>_. 0)\<rparr>"

text \<open>\<open>NR_THREADS\<close> is 4. \<open>pc_next\<close> is the end of a round of a \<open>for\<close> loop over the threads.\<close>

definition pc_next :: "(nat \<Rightarrow> main_pc) \<Rightarrow> main_pc \<Rightarrow> nat \<Rightarrow> main_pc" where
  "pc_next again after i = (if i + 1 < 4 then again (i + 1) else after)"

inductive main_step :: "threads \<Rightarrow> threads \<Rightarrow> bool" where
  create: "main_at s = MCreate i \<Longrightarrow>
    main_step s (s\<lparr>sem := (sem s)(i := 0), sem_main := (sem_main s)(i := 0),
      worker := (worker s)(i := WCheck), main_at := pc_next MCreate MCheck i\<rparr>)"
| loop_on: "main_at s = MCheck \<Longrightarrow> running s \<Longrightarrow> main_step s (s\<lparr>main_at := MCalc\<rparr>)"
| loop_end: "main_at s = MCheck \<Longrightarrow> \<not> running s \<Longrightarrow> main_step s (s\<lparr>main_at := MFinal 0\<rparr>)"
| calc_again: "main_at s = MCalc \<Longrightarrow> frame_j s < 4 \<Longrightarrow>
    main_step s (s\<lparr>frame_j := frame_j s + 1, main_at := MCheck\<rparr>)"
| calc_fade: "main_at s = MCalc \<Longrightarrow> \<not> frame_j s < 4 \<Longrightarrow>
    main_step s (s\<lparr>frame_j := 0, main_at := MWait 0\<rparr>)"
| wait_worker: "main_at s = MWait i \<Longrightarrow> 0 < sem_main s i \<Longrightarrow>
    main_step s (s\<lparr>sem_main := (sem_main s)(i := sem_main s i - 1), main_at := MPost i\<rparr>)"
| post_worker: "main_at s = MPost i \<Longrightarrow>
    main_step s (s\<lparr>sem := (sem s)(i := sem s i + 1), main_at := pc_next MWait MCheck i\<rparr>)"
| final_post: "main_at s = MFinal i \<Longrightarrow>
    main_step s (s\<lparr>sem := (sem s)(i := sem s i + 1), main_at := MJoin i\<rparr>)"
| join: "main_at s = MJoin i \<Longrightarrow> worker s i = WDone \<Longrightarrow>
    main_step s (s\<lparr>main_at := pc_next MFinal MDone i\<rparr>)"

inductive worker_step :: "nat \<Rightarrow> threads \<Rightarrow> threads \<Rightarrow> bool" for i where
  fade_on: "worker s i = WCheck \<Longrightarrow> running s \<Longrightarrow> worker_step i s (s\<lparr>worker := (worker s)(i := WPost)\<rparr>)"
| fade_end: "worker s i = WCheck \<Longrightarrow> \<not> running s \<Longrightarrow> worker_step i s (s\<lparr>worker := (worker s)(i := WFinal)\<rparr>)"
| post_main: "worker s i = WPost \<Longrightarrow>
    worker_step i s (s\<lparr>sem_main := (sem_main s)(i := sem_main s i + 1), worker := (worker s)(i := WWait)\<rparr>)"
| wait_main: "worker s i = WWait \<Longrightarrow> 0 < sem s i \<Longrightarrow>
    worker_step i s (s\<lparr>sem := (sem s)(i := sem s i - 1), worker := (worker s)(i := WFade)\<rparr>)"
| sweep: "worker s i = WFade \<Longrightarrow> worker_step i s (s\<lparr>worker := (worker s)(i := WCheck)\<rparr>)"
| last_post: "worker s i = WFinal \<Longrightarrow>
    worker_step i s (s\<lparr>sem_main := (sem_main s)(i := sem_main s i + 1), worker := (worker s)(i := WDone)\<rparr>)"

inductive threads_step :: "threads \<Rightarrow> threads \<Rightarrow> bool" where
  by_main: "main_step s t \<Longrightarrow> threads_step s t"
| by_worker: "i < 4 \<Longrightarrow> worker_step i s t \<Longrightarrow> threads_step s t"
| exit_prog: "running s \<Longrightarrow> threads_step s (s\<lparr>running := False\<rparr>)"

inductive_simps step_iff: "threads_step s t"

definition finished :: "threads \<Rightarrow> bool" where
  "finished s \<longleftrightarrow> main_at s = MDone \<and> (\<forall>i < 4. worker s i = WDone)"

section \<open>The invariant\<close>

text \<open>The main thread has posted \<open>sem i\<close> for the last time; it will still wait for worker \<open>i\<close> in this round.\<close>

fun posted_last :: "main_pc \<Rightarrow> nat \<Rightarrow> bool" where
  "posted_last (MFinal k) i \<longleftrightarrow> i < k"
| "posted_last (MJoin k) i \<longleftrightarrow> i \<le> k"
| "posted_last MDone i \<longleftrightarrow> True"
| "posted_last _ i \<longleftrightarrow> False"

fun will_wait :: "main_pc \<Rightarrow> nat \<Rightarrow> bool" where
  "will_wait MCalc i \<longleftrightarrow> True"
| "will_wait (MWait k) i \<longleftrightarrow> k \<le> i"
| "will_wait (MPost k) i \<longleftrightarrow> k < i"
| "will_wait _ i \<longleftrightarrow> False"

fun not_started :: "main_pc \<Rightarrow> nat \<Rightarrow> bool" where
  "not_started (MCreate k) i \<longleftrightarrow> k \<le> i"
| "not_started _ i \<longleftrightarrow> False"

fun pc_ok :: "main_pc \<Rightarrow> bool" where
  "pc_ok (MCreate k) \<longleftrightarrow> k < 4"
| "pc_ok (MWait k) \<longleftrightarrow> k < 4"
| "pc_ok (MPost k) \<longleftrightarrow> k < 4"
| "pc_ok (MFinal k) \<longleftrightarrow> k < 4"
| "pc_ok (MJoin k) \<longleftrightarrow> k < 4"
| "pc_ok _ \<longleftrightarrow> True"

fun after_loop :: "main_pc \<Rightarrow> bool" where
  "after_loop (MFinal k) \<longleftrightarrow> True"
| "after_loop (MJoin k) \<longleftrightarrow> True"
| "after_loop MDone \<longleftrightarrow> True"
| "after_loop _ \<longleftrightarrow> False"

text \<open>
  One token travels between the main thread and each worker: it is in \<open>sem_main\<close> (\<open>a\<close>), with the main thread,
  or in \<open>sem\<close> (\<open>b\<close>) exactly while the worker waits, or after it has gone; the last post of the main thread adds one.
\<close>

definition worker_ok :: "main_pc \<Rightarrow> bool \<Rightarrow> nat \<Rightarrow> worker_pc \<Rightarrow> nat \<Rightarrow> nat \<Rightarrow> bool" where
  "worker_ok mp run i w a b \<longleftrightarrow>
     a + b + of_bool (mp = MPost i) = of_bool (w = WWait \<or> w = WDone) + of_bool (posted_last mp i) \<and>
     (w = WFinal \<or> w = WDone \<longrightarrow> \<not> run) \<and>
     ((w = WFinal \<or> w = WDone) \<and> will_wait mp i \<longrightarrow> b = 0) \<and>
     (w = WPost \<longrightarrow> a = 0) \<and> (w = WWait \<longrightarrow> a \<le> 1) \<and>
     (w = WNew \<longleftrightarrow> not_started mp i) \<and>
     (posted_last mp i \<and> \<not> (\<exists>k. mp = MJoin k \<and> k \<le> i) \<longrightarrow> w = WDone)"

definition threads_inv :: "threads \<Rightarrow> bool" where
  "threads_inv s \<longleftrightarrow> pc_ok (main_at s) \<and> (after_loop (main_at s) \<longrightarrow> \<not> running s) \<and>
     (\<forall>i < 4. worker_ok (main_at s) (running s) i (worker s i) (sem_main s i) (sem s i))"

lemma inv_start: "threads_inv threads_start"
  by (simp add: threads_inv_def threads_start_def worker_ok_def)

lemma posted_last_after: "posted_last mp i \<Longrightarrow> after_loop mp"
  by (cases mp) auto

lemma inv_worker:
  assumes "worker_step i s t" "threads_inv s" "i < 4"
  shows "threads_inv t"
proof -
  have ok: "worker_ok (main_at s) (running s) i (worker s i) (sem_main s i) (sem s i)"
    and last: "posted_last (main_at s) i \<Longrightarrow> \<not> running s"
    using assms(2,3) posted_last_after by (auto simp: threads_inv_def)
  have "worker_ok (main_at t) (running t) i (worker t i) (sem_main t i) (sem t i)"
    using assms(1)
  proof cases
    case fade_on
    then show ?thesis using ok last by (cases "posted_last (main_at s) i") (auto simp: worker_ok_def)
  next
    case fade_end
    then show ?thesis using ok
      by (cases "will_wait (main_at s) i"; cases "main_at s") (auto simp: worker_ok_def)
  next
    case post_main
    then show ?thesis using ok by (auto simp: worker_ok_def)
  next
    case wait_main
    then show ?thesis using ok by (auto simp: worker_ok_def)
  next
    case sweep
    then show ?thesis using ok by (auto simp: worker_ok_def)
  next
    case last_post
    then show ?thesis using ok by (auto simp: worker_ok_def)
  qed
  moreover have "main_at t = main_at s" "running t = running s"
    "\<And>j. j \<noteq> i \<Longrightarrow> worker t j = worker s j \<and> sem_main t j = sem_main s j \<and> sem t j = sem s j"
    using assms(1) by (cases rule: worker_step.cases; simp)+
  ultimately have "worker_ok (main_at t) (running t) j (worker t j) (sem_main t j) (sem t j)" if "j < 4" for j
    using assms(2) that by (cases "j = i") (simp_all add: threads_inv_def)
  then show ?thesis using assms(2) \<open>main_at t = main_at s\<close> \<open>running t = running s\<close> by (simp add: threads_inv_def)
qed

lemma inv_signal: "threads_inv s \<Longrightarrow> threads_inv (s\<lparr>running := False\<rparr>)"
  by (auto simp: threads_inv_def worker_ok_def)

lemma inv_main:
  assumes "main_step s t" "threads_inv s"
  shows "threads_inv t"
  using assms(1)
proof cases
  case (create i)
  then show ?thesis using assms(2) by (auto simp: threads_inv_def worker_ok_def pc_next_def)
next
  case loop_on
  then show ?thesis using assms(2) by (auto simp: threads_inv_def worker_ok_def)
next
  case loop_end
  then show ?thesis using assms(2) by (auto simp: threads_inv_def worker_ok_def)
next
  case calc_again
  then show ?thesis using assms(2) by (auto simp: threads_inv_def worker_ok_def)
next
  case calc_fade
  then show ?thesis using assms(2) by (auto simp: threads_inv_def worker_ok_def)
next
  case (wait_worker i)
  then show ?thesis using assms(2) by (auto simp: threads_inv_def worker_ok_def)
next
  case (post_worker i)
  then show ?thesis using assms(2) by (auto simp: threads_inv_def worker_ok_def pc_next_def)
next
  case (final_post i)
  then show ?thesis using assms(2) by (auto simp: threads_inv_def worker_ok_def)
next
  case (join i)
  have "i < 4" using assms(2) join by (simp add: threads_inv_def)
  have "worker s j = WDone" if "j \<le> i" for j
    using assms(2) join that \<open>i < 4\<close> by (cases "j = i") (auto simp: threads_inv_def worker_ok_def)
  then show ?thesis using assms(2) join by (auto simp: threads_inv_def worker_ok_def pc_next_def)
qed

lemma inv_step: "threads_step s t \<Longrightarrow> threads_inv s \<Longrightarrow> threads_inv t"
  by (auto simp: step_iff intro: inv_main inv_worker inv_signal)

lemma inv_steps: "threads_step\<^sup>*\<^sup>* s t \<Longrightarrow> threads_inv s \<Longrightarrow> threads_inv t"
  by (induction rule: rtranclp_induct) (auto intro: inv_step)

section \<open>Progress and shutdown\<close>

text \<open>A worker that has neither gone nor not yet come can move, unless it waits for a token.\<close>

lemma worker_moves:
  assumes "i < 4" "worker s i \<noteq> WNew" "worker s i \<noteq> WDone" "worker s i = WWait \<Longrightarrow> 0 < sem s i"
  shows "\<exists>t. threads_step s t \<and> running t = running s"
proof -
  have "\<exists>t. worker_step i s t \<and> running t = running s"
  proof (cases "worker s i")
    case WCheck
    then show ?thesis by (cases "running s") (auto intro: worker_step.fade_on worker_step.fade_end)
  qed (use assms(2-4) in \<open>auto intro: worker_step.intros\<close>)
  then show ?thesis using assms(1) by (auto intro: by_worker)
qed

lemma main_moves: "main_step s t \<Longrightarrow> running t = running s \<Longrightarrow> \<exists>t. threads_step s t \<and> running t = running s"
  by (auto intro: by_main)

lemma progress:
  assumes "threads_inv s" "\<not> finished s"
  shows "\<exists>t. threads_step s t \<and> running t = running s"
proof -
  have ok: "worker_ok (main_at s) (running s) i (worker s i) (sem_main s i) (sem s i)" if "i < 4" for i
    using assms(1) that by (simp add: threads_inv_def)
  have pc: "pc_ok (main_at s)" using assms(1) by (simp add: threads_inv_def)
  show ?thesis
  proof (cases "main_at s")
    case (MCreate i)
    then show ?thesis by (intro main_moves [OF create]) simp_all
  next
    case MCheck
    then show ?thesis
      by (cases "running s") (use main_moves [OF loop_on, of s] main_moves [OF loop_end, of s] in auto)
  next
    case MCalc
    then show ?thesis
      by (cases "frame_j s < 4") (use main_moves [OF calc_again, of s] main_moves [OF calc_fade, of s] in auto)
  next
    case (MWait i)
    then have "i < 4" using pc by simp
    show ?thesis
    proof (cases "sem_main s i")
      case 0
      then show ?thesis using ok [OF \<open>i < 4\<close>] MWait by (intro worker_moves [OF \<open>i < 4\<close>]) (auto simp: worker_ok_def)
    qed (use MWait main_moves [OF wait_worker, of s i] in auto)
  next
    case (MPost i)
    then show ?thesis by (intro main_moves [OF post_worker]) simp_all
  next
    case (MFinal i)
    then show ?thesis by (intro main_moves [OF final_post]) simp_all
  next
    case (MJoin i)
    then have "i < 4" using pc by simp
    show ?thesis
    proof (cases "worker s i = WDone")
      case False
      then show ?thesis using ok [OF \<open>i < 4\<close>] MJoin by (intro worker_moves [OF \<open>i < 4\<close>]) (auto simp: worker_ok_def)
    qed (use MJoin main_moves [OF join, of s i] in auto)
  next
    case MDone
    then have "worker s i = WDone" if "i < 4" for i using ok [OF that] by (simp add: worker_ok_def)
    then show ?thesis using assms(2) MDone by (simp add: finished_def)
  qed
qed

text \<open>How far a thread is from its end once \<open>running\<close> is cleared.\<close>

fun main_rank :: "main_pc \<Rightarrow> nat" where
  "main_rank MDone = 0"
| "main_rank (MJoin i) = 2 * (3 - i) + 1"
| "main_rank (MFinal i) = 2 * (3 - i) + 2"
| "main_rank MCheck = 9"
| "main_rank (MPost i) = 2 * (3 - i) + 10"
| "main_rank (MWait i) = 2 * (3 - i) + 11"
| "main_rank MCalc = 18"
| "main_rank (MCreate i) = 13 - i"

fun worker_rank :: "worker_pc \<Rightarrow> nat" where
  "worker_rank WDone = 0"
| "worker_rank WFinal = 1"
| "worker_rank WCheck = 2"
| "worker_rank WFade = 3"
| "worker_rank WWait = 4"
| "worker_rank WPost = 5"
| "worker_rank WNew = 6"

definition threads_rank :: "threads \<Rightarrow> nat" where
  "threads_rank s = main_rank (main_at s) + (\<Sum>i<4. worker_rank (worker s i))"

lemma sum_upd:
  "i < 4 \<Longrightarrow> (\<Sum>j<4. worker_rank ((f(i := w)) j)) + worker_rank (f i) = (\<Sum>j<4. worker_rank (f j)) + worker_rank w"
  for i :: nat
  by (subst (1 2) sum.remove [of _ i]) (auto intro: sum.cong)

lemma worker_rank_less:
  assumes "worker_step i s t" "\<not> running s"
  shows "main_at t = main_at s \<and> \<not> running t \<and>
    (\<exists>w. worker t = (worker s)(i := w) \<and> worker_rank w < worker_rank (worker s i))"
  using assms by (cases rule: worker_step.cases) (auto intro!: exI)

lemma step_rank:
  assumes "threads_step s t" "threads_inv s" "\<not> running s"
  shows "threads_rank t < threads_rank s \<and> \<not> running t"
proof -
  have pc: "pc_ok (main_at s)" using assms(2) by (simp add: threads_inv_def)
  show ?thesis using assms(1)
  proof cases
    case by_main
    then show ?thesis
    proof cases
      case (create i)
      then have i: "i < 4" "worker s i = WNew" using pc assms(2) by (auto simp: threads_inv_def worker_ok_def)
      show ?thesis using create assms(3) sum_upd [OF i(1), of "worker s" WCheck] i
        by (cases "i < 3") (simp_all add: threads_rank_def pc_next_def)
    qed (use pc assms(3) in \<open>auto simp: threads_rank_def pc_next_def\<close>)
  next
    case (by_worker i)
    from worker_rank_less [OF by_worker(2) assms(3)] obtain w where
      w: "main_at t = main_at s" "\<not> running t" "worker t = (worker s)(i := w)" "worker_rank w < worker_rank (worker s i)"
      by blast
    then show ?thesis using sum_upd [OF by_worker(1), of "worker s" w] by (simp add: threads_rank_def)
  qed (use assms(3) in simp)
qed

lemma rank_bound: "pc_ok (main_at s) \<Longrightarrow> threads_rank s \<le> 42"
proof -
  have "worker_rank w \<le> 6" for w by (cases w) simp_all
  then have "(\<Sum>i<4. worker_rank (worker s i)) \<le> 4 * 6" using sum_bounded_above [of "{..<4}" "\<lambda>i. worker_rank (worker s i)" 6] by simp
  moreover have "main_rank (main_at s) \<le> 18" by (cases "main_at s") simp_all
  ultimately show ?thesis by (simp add: threads_rank_def)
qed

lemma steps_bounded:
  "(threads_step ^^ n) s t \<Longrightarrow> threads_inv s \<Longrightarrow> \<not> running s \<Longrightarrow> threads_inv t \<and> \<not> running t \<and> n + threads_rank t \<le> threads_rank s"
proof (induction n arbitrary: t)
  case (Suc n)
  then obtain u where u: "(threads_step ^^ n) s u" "threads_step u t" by auto
  then have "threads_inv u" "\<not> running u" "n + threads_rank u \<le> threads_rank s" using Suc by blast+
  then show ?case using step_rank [OF u(2)] inv_step [OF u(2)] by fastforce
qed simp

text \<open>
  C14. The threads never deadlock and always shut down. In every reachable state that is not the end a thread can
  move without a signal; while the program runs at most one token is between the main thread and a worker, so no worker
  sweeps twice in a round; and once the signal has come, at whatever moment, every schedule ends within 42 steps, and
  it can only end with the main thread and all four workers finished.
\<close>

theorem starfield_shuts_down:
  assumes "threads_step\<^sup>*\<^sup>* threads_start s"
  shows "(\<not> finished s \<longrightarrow> (\<exists>t. threads_step s t \<and> running t = running s)) \<and>
    (running s \<longrightarrow> (\<forall>i < 4. sem_main s i + sem s i \<le> 1)) \<and>
    (\<not> running s \<longrightarrow> (\<forall>n t. (threads_step ^^ n) s t \<longrightarrow> n \<le> 42 \<and> ((\<nexists>u. threads_step t u) \<longrightarrow> finished t)))"
proof -
  have threads_inv: "threads_inv s" using inv_steps [OF assms inv_start] .
  have "n \<le> 42 \<and> ((\<nexists>u. threads_step t u) \<longrightarrow> finished t)" if "\<not> running s" "(threads_step ^^ n) s t" for n t
  proof -
    have "threads_inv t" "n + threads_rank t \<le> threads_rank s" using steps_bounded [OF that(2) threads_inv that(1)] by simp_all
    then show ?thesis using progress [of t] rank_bound [of s] threads_inv by (auto simp: threads_inv_def)
  qed
  moreover have "sem_main s i + sem s i \<le> 1" if "running s" "i < 4" for i
  proof -
    have "\<not> posted_last (main_at s) i" using threads_inv that posted_last_after by (auto simp: threads_inv_def)
    moreover have "worker_ok (main_at s) True i (worker s i) (sem_main s i) (sem s i)"
      using threads_inv that by (simp add: threads_inv_def)
    ultimately show ?thesis by (cases "worker s i = WWait") (auto simp: worker_ok_def)
  qed
  ultimately show ?thesis using progress [OF threads_inv] by blast
qed

text \<open>At the start a thread can move and no token is out; after a signal that comes first, 43 steps are too many.\<close>

theorem starfield_shuts_down_witness:
  "(\<exists>t. threads_step threads_start t \<and> running t) \<and> sem_main threads_start 3 + sem threads_start 3 \<le> 1 \<and>
    \<not> (\<exists>t. (threads_step ^^ 43) (threads_start\<lparr>running := False\<rparr>) t)"
proof -
  have run: "running threads_start" "\<not> finished threads_start" by (simp_all add: threads_start_def finished_def)
  then have "threads_step\<^sup>*\<^sup>* threads_start (threads_start\<lparr>running := False\<rparr>)"
    by (intro r_into_rtranclp exit_prog)
  from starfield_shuts_down [OF this] have "\<not> (threads_step ^^ 43) (threads_start\<lparr>running := False\<rparr>) t" for t
    by fastforce
  then show ?thesis using starfield_shuts_down [OF rtranclp.rtrancl_refl] run by simp
qed

end
