(* ===== verification/Starfield_Main.thy ===== *)
theory Starfield_Main
  imports Starfield_Correct Starfield_Threads
begin

text \<open>
  \<open>patches/code/starfield/main.c\<close> but for its threads: opening the frame buffer, the colours of the
  palette, and the part of the screen each fade worker sweeps. What the device answers is a parameter.
\<close>

section \<open>Starting\<close>

record star_env =
  se_open :: int
  se_fix :: int
  se_var :: int
  se_xres :: "32 word"
  se_yres :: "32 word"
  se_mmap :: int
  se_screen :: "8 word list"
  se_tmppal :: "8 word list"
  se_getcmap :: int
  se_putcmap :: int

text \<open>\<open>((unsigned short) tmppal[i]) << 8\<close>, where \<open>char\<close> is signed.\<close>

definition cmap_entry :: "8 word \<Rightarrow> 16 word" where
  "cmap_entry c = push_bit 8 (signed c)"

type_synonym cmap = "(16 word \<times> 16 word \<times> 16 word) list"

definition star_cmap :: "8 word list \<Rightarrow> cmap" where
  "star_cmap pal =
     map (\<lambda>i. (cmap_entry (pal ! (3 * i)), cmap_entry (pal ! (3 * i + 1)), cmap_entry (pal ! (3 * i + 2)))) [0..<256]"

text \<open>Until the threads start: an exit code, or the screen, the colours it set, the stars and the counter.\<close>

datatype star_start = Quit nat | Ready "8 word list" cmap "star list" "32 word"

definition no_star :: star where
  "no_star = \<lparr>st_x = 0, st_y = 0, st_z = 0, screen_x = 0, screen_y = 0, st_speed = 0\<rparr>"

definition starfield_setup :: "star_env \<Rightarrow> star_start res" where
  "starfield_setup e =
     (if se_open e = 0 then Inr (Quit 1)
      else if se_fix e \<noteq> 0 then Inr (Quit 2)
      else if se_var e \<noteq> 0 then Inr (Quit 3)
      else if se_mmap e = -1 then Inr (Quit 4)
      else
        res_bind (init_starfield (se_screen e) (se_tmppal e) (sint (se_xres e)) (sint (se_yres e))
                    (replicate 256 no_star, 0)) (\<lambda>(screen, tmppal, stars, num).
        if se_getcmap e \<noteq> 0 then Inr (Quit 5)
        else if se_putcmap e \<noteq> 0 then Inr (Quit 6)
        else Inr (Ready screen (star_cmap tmppal) stars num)))"

section \<open>The fade workers\<close>

text \<open>
  Worker \<open>i\<close> calls \<open>fade (fbp + i * xres * (yres / 4 - 1), xres, yres / 4 + k)\<close>, with \<open>k\<close> two for the last worker
  and one for the others; \<open>xres\<close> and \<open>yres\<close> are unsigned.
\<close>

definition worker_offset :: "nat \<Rightarrow> 32 word \<Rightarrow> 32 word \<Rightarrow> 32 word" where
  "worker_offset i xres yres = of_nat i * xres * (yres div 4 - 1)"

definition worker_height :: "nat \<Rightarrow> 32 word \<Rightarrow> 32 word" where
  "worker_height i yres = yres div 4 + (if i = 3 then 2 else 1)"

definition fade_worker :: "nat \<Rightarrow> 32 word \<Rightarrow> 32 word \<Rightarrow> 8 word list \<Rightarrow> 8 word list res" where
  "fade_worker i xres yres fbp =
     (let a = unat (worker_offset i xres yres) in
      if a \<le> length fbp
      then res_bind (fade (drop a fbp) (sint xres) (sint (worker_height i yres))) (\<lambda>m. Inr (take a fbp @ m))
      else Inl Fault)"

section \<open>What the palette shows\<close>

lemma cmap_entry_unsigned: "cmap_entry c = of_nat (unat c * 256)"
proof -
  have "cmap_entry c = push_bit 8 (ucast c)"
    by (rule bit_word_eqI) (auto simp: cmap_entry_def bit_push_bit_iff bit_signed_iff bit_unsigned_iff)
  also have "\<dots> = of_nat (unat c * 256)" by (simp add: push_bit_eq_mult)
  finally show ?thesis .
qed

definition component :: "nat \<Rightarrow> nat \<times> nat \<times> nat \<Rightarrow> nat" where
  "component j c = (case c of (r, g, b) \<Rightarrow> if j = 0 then r else if j = 1 then g else b)"

lemma pal_ramp_upto:
  assumes "start + 3 * n \<le> length pal"
  shows "\<exists>pal'. fold_res (\<lambda>k pal.
       let i = start + 3 * k; (r, g, b) = colour (4 * k) in
       if i + 2 < length pal
       then Inr (pal[i := of_nat r, i + 1 := of_nat g, i + 2 := of_nat b]) else Inl Fault) [0..<n] pal = Inr pal' \<and>
    length pal' = length pal \<and>
    (\<forall>i < length pal. pal' ! i = (if start \<le> i \<and> i < start + 3 * n
       then of_nat (component ((i - start) mod 3) (colour (4 * ((i - start) div 3)))) else pal ! i))"
  using assms
proof (induction n)
  case (Suc n)
  then obtain p where p: "fold_res (\<lambda>k pal.
       let i = start + 3 * k; (r, g, b) = colour (4 * k) in
       if i + 2 < length pal
       then Inr (pal[i := of_nat r, i + 1 := of_nat g, i + 2 := of_nat b]) else Inl Fault) [0..<n] pal = Inr p"
    "length p = length pal"
    "\<And>i. i < length pal \<Longrightarrow> p ! i = (if start \<le> i \<and> i < start + 3 * n
       then of_nat (component ((i - start) mod 3) (colour (4 * ((i - start) div 3)))) else pal ! i)"
    by auto
  obtain r g b where c: "colour (4 * n) = (r, g, b)" using prod_cases3 by blast
  let ?i = "start + 3 * n"
  let ?q = "p[?i := of_nat r, ?i + 1 := of_nat g, ?i + 2 := of_nat b]"
  have q: "?q ! i = (if start \<le> i \<and> i < start + 3 * Suc n
       then of_nat (component ((i - start) mod 3) (colour (4 * ((i - start) div 3)))) else pal ! i)" if i: "i < length pal" for i
  proof -
    consider "i < ?i \<or> ?i + 3 \<le> i" | "i = ?i" | "i = ?i + 1" | "i = ?i + 2" by linarith
    moreover have "Suc (3 * n) div 3 = n" "Suc (Suc (3 * n)) div 3 = n" "Suc (Suc (3 * n)) mod 3 = 2" by presburger+
    ultimately show ?thesis using p(2) p(3) [OF i] i c Suc.prems by cases (auto simp: component_def)
  qed
  show ?case
  proof (intro exI [of _ ?q] conjI)
    show "fold_res (\<lambda>k pal.
       let i = start + 3 * k; (r, g, b) = colour (4 * k) in
       if i + 2 < length pal
       then Inr (pal[i := of_nat r, i + 1 := of_nat g, i + 2 := of_nat b]) else Inl Fault) [0..<Suc n] pal = Inr ?q"
      unfolding upt_Suc_append [OF le0] fold_res_append p(1) using p(2) Suc.prems c by (simp add: Let_def)
  qed (use p(2) q in auto)
qed auto

lemma pal_ramp_colours:
  assumes "start + 192 \<le> length pal"
  shows "\<exists>pal'. pal_ramp start colour pal = Inr pal' \<and> length pal' = length pal \<and>
    (\<forall>i < length pal. pal' ! i = (if start \<le> i \<and> i < start + 192
       then of_nat (component ((i - start) mod 3) (colour (4 * ((i - start) div 3)))) else pal ! i))"
  using pal_ramp_upto [of start 64 pal colour] assms unfolding pal_ramp_def by simp

lemma fill_bytes:
  assumes "b \<le> length m"
  shows "\<exists>m'. fold_res (\<lambda>i m. if i < length m then Inr (m[i := v]) else Inl Fault) [a..<b] m = Inr m' \<and>
    length m' = length m \<and> (\<forall>i < length m. m' ! i = (if a \<le> i \<and> i < b then v else m ! i))"
  using assms
proof (induction b)
  case (Suc b)
  then show ?case by (cases "a \<le> b") (auto simp: fold_res_append nth_list_update less_Suc_eq)
qed simp

text \<open>The colours of the field: from black to magenta, to yellow, to white.\<close>

definition star_colour :: "nat \<Rightarrow> nat \<times> nat \<times> nat" where
  "star_colour k =
     (if k < 64 then (4 * k, 0, 4 * k)
      else if k < 128 then (255, 4 * (k - 64), 255 - 4 * (k - 64))
      else if k < 192 then (255, 255, 4 * (k - 128))
      else (255, 255, 255))"

lemma set_pal_colours:
  assumes "length pal = 768"
  shows "\<exists>pal'. set_pal pal = Inr pal' \<and> length pal' = 768 \<and>
    (\<forall>k j. k < 256 \<longrightarrow> j < 3 \<longrightarrow> pal' ! (3 * k + j) = of_nat (component j (star_colour k)))"
proof -
  obtain p1 where p1: "pal_ramp 0 (\<lambda>s. (s, 0, s)) pal = Inr p1" "length p1 = 768"
    "\<And>i. i < 768 \<Longrightarrow> p1 ! i = (if 0 \<le> i \<and> i < 0 + 192
       then of_nat (component ((i - 0) mod 3) (4 * ((i - 0) div 3), 0, 4 * ((i - 0) div 3))) else pal ! i)"
    using pal_ramp_colours [of 0 pal "\<lambda>s. (s, 0, s)"] assms by auto
  obtain p2 where p2: "pal_ramp 192 (\<lambda>s. (255, s, 255 - s)) p1 = Inr p2" "length p2 = 768"
    "\<And>i. i < 768 \<Longrightarrow> p2 ! i = (if 192 \<le> i \<and> i < 192 + 192
       then of_nat (component ((i - 192) mod 3) (255, 4 * ((i - 192) div 3), 255 - 4 * ((i - 192) div 3))) else p1 ! i)"
    using pal_ramp_colours [of 192 p1 "\<lambda>s. (255, s, 255 - s)"] p1(2) by auto
  obtain p3 where p3: "pal_ramp 384 (\<lambda>s. (255, 255, s)) p2 = Inr p3" "length p3 = 768"
    "\<And>i. i < 768 \<Longrightarrow> p3 ! i = (if 384 \<le> i \<and> i < 384 + 192
       then of_nat (component ((i - 384) mod 3) (255, 255, 4 * ((i - 384) div 3))) else p2 ! i)"
    using pal_ramp_colours [of 384 p2 "\<lambda>s. (255, 255, s)"] p2(2) by auto
  obtain p4 where p4: "fold_res (\<lambda>i pal. if i < length pal then Inr (pal[i := 255]) else Inl Fault) [576..<768] p3 = Inr p4"
    "length p4 = 768" "\<And>i. i < 768 \<Longrightarrow> p4 ! i = (if 576 \<le> i \<and> i < 768 then 255 else p3 ! i)"
    using fill_bytes [of 768 p3 255 576] p3(2) by auto
  have "set_pal pal = Inr p4" using p1(1) p2(1) p3(1) p4(1) by (simp add: set_pal_def)
  moreover have "p4 ! (3 * k + j) = of_nat (component j (star_colour k))" if k: "k < 256" and j: "j < 3" for k j
  proof -
    have i: "3 * k + j < 768" using k j by simp
    have e: "(3 * k + j - 3 * c) mod 3 = j" "(3 * k + j - 3 * c) div 3 = k - c" if "c \<le> k" for c
    proof -
      have "3 * k + j - 3 * c = 3 * (k - c) + j" using that by simp
      then show "(3 * k + j - 3 * c) mod 3 = j" "(3 * k + j - 3 * c) div 3 = k - c" using j by simp_all
    qed
    consider "k < 64" | "64 \<le> k" "k < 128" | "128 \<le> k" "k < 192" | "192 \<le> k" by linarith
    then show ?thesis
      using p4(3) [OF i] p3(3) [OF i] p2(3) [OF i] p1(3) [OF i] e [of 0] e [of 64] e [of 128] j k
      by cases (simp_all add: star_colour_def, simp_all add: component_def)
  qed
  ultimately show ?thesis using p4(2) by blast
qed

text \<open>
  The colours the demo sets, whatever the sign of a \<open>char\<close>: entry \<open>k\<close> of the colour map is the intended
  colour in the high bytes, when every call of the device succeeds; and the screen is black.
\<close>

theorem starfield_palette:
  assumes "size_ok w" "size_ok h" "se_xres e = of_nat w" "se_yres e = of_nat h" "length (se_screen e) = w * h" "length (se_tmppal e) = 768"
    and "se_open e \<noteq> 0" "se_fix e = 0" "se_var e = 0" "se_mmap e \<noteq> -1" "se_getcmap e = 0" "se_putcmap e = 0"
  shows "\<exists>cm stars num. starfield_setup e = Inr (Ready (replicate (w * h) 0) cm stars num) \<and> length cm = 256 \<and>
    (\<forall>k < 256. cm ! k = (case star_colour k of (r, g, b) \<Rightarrow> (of_nat (256 * r), of_nat (256 * g), of_nat (256 * b))))"
proof -
  have sint: "sint (of_nat n :: 32 word) = int n" if "size_ok n" for n
    using that by (auto simp: size_ok_def signed_of_nat signed_take_bit_int_eq_self)
  obtain pal where pal: "set_pal (se_tmppal e) = Inr pal"
    "\<And>k j. k < 256 \<Longrightarrow> j < 3 \<Longrightarrow> pal ! (3 * k + j) = of_nat (component j (star_colour k))"
    using set_pal_colours [OF assms(6)] by blast
  obtain stars num where init: "init_starfield (se_screen e) (se_tmppal e) (int w) (int h) (replicate 256 no_star, 0) =
    Inr (replicate (w * h) 0, pal, stars, num)"
    using init_starfield_result [OF assms(1,2,5) pal(1)] by blast
  have small: "component j (star_colour k) < 256" if "k < 256" for j k
    using that by (simp add: component_def star_colour_def) arith
  then have c: "cmap_entry (of_nat (component j (star_colour k))) = of_nat (256 * component j (star_colour k))" if "k < 256" for j k
    using small [OF that, of j] by (simp add: cmap_entry_unsigned unsigned_of_nat take_bit_nat_eq_self mult.commute)
  have "star_cmap pal ! k = (case star_colour k of (r, g, b) \<Rightarrow> (of_nat (256 * r), of_nat (256 * g), of_nat (256 * b)))"
    if "k < 256" for k
    using that pal(2) [OF that, of 0] pal(2) [OF that, of 1] pal(2) [OF that, of 2] c [OF that, of 0] c [OF that, of 1] c [OF that, of 2]
    unfolding star_cmap_def by (simp add: component_def split: prod.splits)
  moreover have "length (star_cmap pal) = 256" by (simp add: star_cmap_def)
  moreover have "starfield_setup e = Inr (Ready (replicate (w * h) 0) (star_cmap pal) stars num)"
    using assms(3,4,7-12) init sint [OF assms(1)] sint [OF assms(2)] by (simp add: starfield_setup_def)
  ultimately show ?thesis by blast
qed

theorem starfield_palette_witness:
  "\<exists>cm stars num. starfield_setup \<lparr>se_open = 3, se_fix = 0, se_var = 0, se_xres = 640, se_yres = 400, se_mmap = 4096,
      se_screen = replicate 256000 9, se_tmppal = replicate 768 1, se_getcmap = 0, se_putcmap = 0\<rparr> = Inr (Ready (replicate 256000 0) cm stars num) \<and>
    length cm = 256 \<and> cm ! 100 = (65280, 36864, 28416)"
proof -
  have "size_ok 640" "size_ok 400" "length (replicate 256000 (9 :: 8 word)) = 640 * 400" "length (replicate 768 (1 :: 8 word)) = 768"
    by (simp add: size_ok_def, simp add: size_ok_def, simp_all only: length_replicate)
  then obtain cm stars num where "starfield_setup \<lparr>se_open = 3, se_fix = 0, se_var = 0, se_xres = 640, se_yres = 400,
      se_mmap = 4096, se_screen = replicate 256000 9, se_tmppal = replicate 768 1, se_getcmap = 0, se_putcmap = 0\<rparr> =
      Inr (Ready (replicate 256000 0) cm stars num)" "length cm = 256"
    "\<forall>k < 256. cm ! k = (case star_colour k of (r, g, b) \<Rightarrow> (of_nat (256 * r), of_nat (256 * g), of_nat (256 * b)))"
    using starfield_palette [of 640 400 "\<lparr>se_open = 3, se_fix = 0, se_var = 0, se_xres = 640, se_yres = 400,
      se_mmap = 4096, se_screen = replicate 256000 9, se_tmppal = replicate 768 1, se_getcmap = 0, se_putcmap = 0\<rparr>"] by auto
  then show ?thesis by (auto simp: star_colour_def)
qed

section \<open>What the workers sweep\<close>

text \<open>The rows worker \<open>i\<close> writes on a screen of \<open>h\<close> rows.\<close>

definition worker_rows :: "nat \<Rightarrow> nat \<Rightarrow> nat set" where
  "worker_rows h i = {i * (h div 4 - 1) + 1..<(i + 1) * (h div 4 - 1) + (if i = 3 then 2 else 1)}"

lemma worker_numbers:
  assumes "size_ok w" "size_ok h" "i < 4"
  shows "unat (worker_offset i (of_nat w) (of_nat h)) = i * (h div 4 - 1) * w"
    "sint (worker_height i (of_nat h)) = int (h div 4 + (if i = 3 then 2 else 1))"
proof -
  have h: "262 \<le> h" "h < 2 ^ 15" and w: "w < 2 ^ 15" using assms by (simp_all add: size_ok_def)
  have "unat ((of_nat h :: 32 word) div 4) = h div 4"
    using h by (simp add: unat_div_distrib unsigned_of_nat take_bit_nat_eq_self)
  from word_eq_of_nat [OF this] have d: "(of_nat h :: 32 word) div 4 = of_nat (h div 4)" .
  have "i * (h div 4 - 1) \<le> 4 * (h div 4)" using assms(3) by (intro mult_le_mono) simp_all
  then have "i * (h div 4 - 1) * w \<le> h * w" by (intro mult_le_mono1) simp
  also have "\<dots> < 2 ^ 15 * 2 ^ 15" using h w by (intro mult_strict_mono) simp_all
  finally have lt: "i * (h div 4 - 1) * w < 2 ^ 32" by simp
  have "worker_offset i (of_nat w) (of_nat h) = of_nat (i * (h div 4 - 1) * w)"
  proof -
    have "(of_nat (h div 4) - 1 :: 32 word) = of_nat (h div 4 - 1)" using h by (simp add: of_nat_diff)
    then show ?thesis unfolding worker_offset_def d by (simp only: of_nat_mult mult.assoc mult.commute [of "of_nat w"])
  qed
  then show "unat (worker_offset i (of_nat w) (of_nat h)) = i * (h div 4 - 1) * w"
    using lt by (simp only: unsigned_of_nat) (simp add: take_bit_nat_eq_self)
  have "worker_height i (of_nat h) = of_nat (h div 4 + (if i = 3 then 2 else 1))"
    unfolding worker_height_def d by simp
  then show "sint (worker_height i (of_nat h)) = int (h div 4 + (if i = 3 then 2 else 1))"
    using h by (simp only: signed_of_nat) (simp add: signed_take_bit_int_eq_self)
qed

lemma worker_rows_disjoint: "i < j \<Longrightarrow> j < 4 \<Longrightarrow> worker_rows h i \<inter> worker_rows h j = {}"
proof -
  assume ij: "i < j" "j < 4"
  then have "(i + 1) * (h div 4 - 1) \<le> j * (h div 4 - 1)" by (intro mult_le_mono1) simp
  moreover have "i \<noteq> 3" using ij by simp
  ultimately show ?thesis by (auto simp: worker_rows_def)
qed

lemma worker_rows_cover:
  assumes "h mod 4 = 0" "8 \<le> h"
  shows "(\<Union>i<4. worker_rows h i) = {1..<h - 2}"
proof -
  obtain q where h: "h = 4 * q" using assms(1) by (auto elim: dvdE simp: dvd_eq_mod_eq_0 [symmetric])
  have "2 \<le> q" using assms(2) h by simp
  then have "worker_rows h 0 = {1..<q}" "worker_rows h 1 = {q..<2 * q - 1}" "worker_rows h 2 = {2 * q - 1..<3 * q - 2}"
    "worker_rows h 3 = {3 * q - 2..<4 * q - 2}"
    by (auto simp: worker_rows_def h diff_mult_distrib2)
  moreover have "{..<4 :: nat} = {0, 1, 2, 3}" by auto
  ultimately have "(\<Union>i<4. worker_rows h i) = {1..<q} \<union> {q..<2 * q - 1} \<union> {2 * q - 1..<3 * q - 2} \<union> {3 * q - 2..<4 * q - 2}"
    by (simp add: Un_assoc)
  also have "\<dots> = {1..<h - 2}" using \<open>2 \<le> q\<close> by (auto simp: h)
  finally show ?thesis .
qed

lemma worker_sweep:
  assumes "size_ok w" "size_ok h" "h mod 4 = 0" "length m = w * h" "i < 4"
  shows "\<exists>m'. fade_worker i (of_nat w) (of_nat h) m = Inr m' \<and> length m' = length m \<and>
    (\<forall>p < w * h. p div w \<notin> worker_rows h i \<longrightarrow> m' ! p = m ! p)"
proof -
  let ?a = "i * (h div 4 - 1)" and ?n = "h div 4 + (if i = 3 then 2 else 1)"
  have w: "262 \<le> w" "262 \<le> h" "w < 2 ^ 15" "h < 2 ^ 15" using assms(1,2) by (simp_all add: size_ok_def)
  have "i \<in> {0, 1, 2, 3}" using assms(5) by auto
  then have rows: "?a + ?n \<le> h" "?a + ?n - 1 = (i + 1) * (h div 4 - 1) + (if i = 3 then 2 else 1)"
    using assms(3) w(2) by auto
  have aw: "?a * w + w * ?n \<le> w * h"
    using mult_le_mono1 [OF rows(1), of w] by (simp only: distrib_right mult.commute [of w])
  then have al: "?a * w \<le> length m" unfolding assms(4) by (rule order_trans [OF le_add1])
  have len: "w * ?n \<le> length (drop (?a * w) m)" using aw assms(4) by simp
  have "w * h < 2 ^ 15 * 2 ^ 15" using w by (intro mult_strict_mono) simp_all
  then have "length (drop (?a * w) m) < 2 ^ 32" using assms(4) by simp
  moreover have "2 \<le> w" "2 \<le> ?n" using w(1,2) by linarith+
  ultimately obtain t where t: "fade (drop (?a * w) m) (int w) (int ?n) = Inr t" "length t = length (drop (?a * w) m)"
    "\<forall>p. p \<notin> set (inner w ?n) \<longrightarrow> t ! p = drop (?a * w) m ! p"
    using fade_result [OF \<open>2 \<le> w\<close> \<open>2 \<le> ?n\<close> len] by blast
  have sw: "sint (of_nat w :: 32 word) = int w" using w by (simp add: signed_of_nat signed_take_bit_int_eq_self)
  have "fade_worker i (of_nat w) (of_nat h) m = Inr (take (?a * w) m @ t)"
    unfolding fade_worker_def worker_numbers [OF assms(1,2,5)] Let_def sw using t(1) rows(1) assms(4) by simp
  moreover have "(take (?a * w) m @ t) ! p = m ! p" if "p < w * h" "p div w \<notin> worker_rows h i" for p
  proof (cases "p < ?a * w")
    case False
    have "p - ?a * w \<notin> set (inner w ?n)"
    proof
      assume "p - ?a * w \<in> set (inner w ?n)"
      then obtain x y where xy: "p - ?a * w = y * w + x" "1 \<le> y" "y < ?n - 1" "x < w - 1" unfolding set_inner by blast
      have "p = ?a * w + (p - ?a * w)" using False by simp
      then have "p = (?a + y) * w + x" unfolding xy(1) by (simp only: distrib_right add.assoc)
      then have "p div w = ?a + y" using \<open>x < w - 1\<close> by simp
      then show False using that(2) rows(2) \<open>1 \<le> y\<close> \<open>y < ?n - 1\<close> unfolding worker_rows_def by auto
    qed
    then show ?thesis using t(3) False al by (simp add: nth_append min_absorb2)
  qed (use al in \<open>simp add: nth_append min_absorb2\<close>)
  ultimately show ?thesis using t(2) al by auto
qed

lemma field_in_worker_rows:
  assumes "262 \<le> h" "h mod 4 = 0" "in_field w h p"
  shows "\<exists>j < 4. p div w \<in> worker_rows h j"
proof -
  from assms(3) obtain x y where "p = y * w + x" "x < w - 2" "2 < y" "y < h - 2" by (auto simp: in_field_def)
  then have "p div w \<in> {1..<h - 2}" by simp
  moreover have "(\<Union>j<4. worker_rows h j) = {1..<h - 2}" using assms(1) by (intro worker_rows_cover [OF assms(2)]) simp
  ultimately show ?thesis by blast
qed

text \<open>
  C21. The four workers share the screen without overlap. On a screen whose height is a multiple of four each sweep stays
  on the screen and changes only the rows of its worker; the rows of two workers are disjoint; and every row a star can
  be drawn in belongs to one of them.
\<close>

theorem workers_share_screen:
  assumes "size_ok w" "size_ok h" "h mod 4 = 0" "length m = w * h" "i < 4"
  shows "(\<exists>m'. fade_worker i (of_nat w) (of_nat h) m = Inr m' \<and> length m' = length m \<and>
        (\<forall>p < w * h. p div w \<notin> worker_rows h i \<longrightarrow> m' ! p = m ! p)) \<and>
      (\<forall>j < 4. j \<noteq> i \<longrightarrow> worker_rows h i \<inter> worker_rows h j = {}) \<and>
      (\<forall>p. in_field w h p \<longrightarrow> (\<exists>j < 4. p div w \<in> worker_rows h j))"
proof -
  have h: "262 \<le> h" using assms(2) by (simp add: size_ok_def)
  have apart: "\<forall>j < 4. j \<noteq> i \<longrightarrow> worker_rows h i \<inter> worker_rows h j = {}"
    using worker_rows_disjoint assms(5) by (metis inf_commute linorder_neqE_nat)
  show ?thesis using worker_sweep [OF assms] apart field_in_worker_rows [OF h assms(3)] by blast
qed

theorem workers_share_screen_witness:
  "(\<exists>m'. fade_worker 3 640 400 (replicate 256000 9) = Inr m' \<and> length m' = 256000 \<and> m' ! 0 = 9) \<and>
    worker_rows 400 3 \<inter> worker_rows 400 1 = {} \<and> (\<exists>j < 4. 397 \<in> worker_rows 400 j)"
proof -
  have l: "length (replicate 256000 (9 :: 8 word)) = 640 * 400" by (simp only: length_replicate)
  have ok: "size_ok 640" "size_ok 400" by (simp_all add: size_ok_def)
  have field: "in_field 640 400 (397 * 640 + 3)" unfolding in_field_def by (intro exI [of _ 3] exI [of _ 397]) simp
  have "\<forall>p. in_field 640 400 p \<longrightarrow> (\<exists>j < 4. p div 640 \<in> worker_rows 400 j)"
    using workers_share_screen [OF ok _ l, of 3] by simp
  from this [rule_format, OF field] have "\<exists>j < 4. 397 \<in> worker_rows 400 j" by simp
  moreover have "0 div 640 \<notin> worker_rows 400 3" by (simp add: worker_rows_def)
  ultimately show ?thesis
    using workers_share_screen [OF ok _ l, of 3] by (auto simp: l)
qed

end
