(* ===== verification/Penguins.thy ===== *)
theory Penguins
  imports C_Float Prelude "HOL-Library.Signed_Division"
begin

text \<open>
  The penguins of \<open>patches/code/fbview2/df_andi.c\<close>: the random numbers, the rings of animation frames, the linked list
  of penguins, how they move and are drawn, the destination mask, and the main loop. DirectFB is not modelled: the size
  of the screen, the mask it loads and the keys it reports are parameters, and drawing is the list of batches handed to
  \<open>BatchBlit\<close>. The heap maps addresses to penguins; \<open>calloc\<close> is an argument that chooses a free address, or
  reports that there is none. Coordinates stay within the screen, so they are unbounded integers; random numbers
  are 32-bit words. The expression that aims a penguin at a point is computed in \<open>float\<close>.
\<close>

unbundle bit_operations_syntax

section \<open>Random numbers\<close>

type_synonym rand = "32 word \<times> 32 word"

definition myrand :: "rand \<Rightarrow> 32 word \<times> rand" where
  "myrand r =
     (let (rand_pool, rand_add) = r;
          rand_pool = rand_pool XOR (push_bit 7 rand_pool OR drop_bit 25 rand_pool);
          rand_pool = rand_pool + rand_add;
          rand_add = rand_add + rand_pool in
      (rand_pool, (rand_pool, rand_add)))"

definition rand_start :: rand where
  "rand_start = (0x12345678, 0x87654321)"

section \<open>Animation frames\<close>

datatype direction = DIR_LEFT | DIR_RIGHT | DIR_UP | DIR_DOWN

text \<open>A frame's \<open>next\<close> is a place in the ring of its direction; \<open>malloc\<close> leaves it unset.\<close>

record penguin_frame =
  rect_x :: int
  rect_y :: int
  rect_w :: int
  rect_h :: int
  fr_next :: "nat option"

definition new_frame :: "nat \<Rightarrow> int \<Rightarrow> penguin_frame list \<Rightarrow> penguin_frame list" where
  "new_frame i yoffset frames =
     (let f = \<lparr>rect_x = int i * 40, rect_y = 60 * yoffset, rect_w = 40, rect_h = 60, fr_next = None\<rparr>;
          n = length frames in
      (if frames = [] then [] else frames[n - 1 := (frames ! (n - 1))\<lparr>fr_next := Some n\<rparr>]) @ [f])"

definition close_ring :: "penguin_frame list \<Rightarrow> penguin_frame list" where
  "close_ring frames =
     (let n = length frames in frames[n - 1 := (frames ! (n - 1))\<lparr>fr_next := Some 0\<rparr>])"

definition initialize_direction_frames ::
  "bool \<Rightarrow> int \<Rightarrow> penguin_frame list \<Rightarrow> penguin_frame list res" where
  "initialize_direction_frames malloc_ok yoffset direction_frames =
     (if direction_frames \<noteq> [] then Inr direction_frames
      else if \<not> malloc_ok then Inl Fault
      else Inr (close_ring (fold (\<lambda>i. new_frame i yoffset) [0..<400 div 40 - 1] [])))"

type_synonym anim = "direction \<Rightarrow> penguin_frame list"

definition initialize_animation :: "bool \<Rightarrow> anim \<Rightarrow> anim res" where
  "initialize_animation malloc_ok a =
     res_bind (initialize_direction_frames malloc_ok 0 (a DIR_DOWN)) (\<lambda>d.
     res_bind (initialize_direction_frames malloc_ok 1 (a DIR_LEFT)) (\<lambda>l.
     res_bind (initialize_direction_frames malloc_ok 2 (a DIR_UP)) (\<lambda>u.
     res_bind (initialize_direction_frames malloc_ok 3 (a DIR_RIGHT)) (\<lambda>r.
       Inr (a(DIR_DOWN := d, DIR_LEFT := l, DIR_UP := u, DIR_RIGHT := r))))))"

section \<open>The list of penguins\<close>

record penguin =
  px :: int
  py :: int
  x_togo :: int
  y_togo :: int
  moving :: bool
  delay :: nat
  frame_at :: "direction \<Rightarrow> nat"
  frameset :: direction
  pnext :: "nat option"

type_synonym heap = "nat \<Rightarrow> penguin option"

record penguin_list =
  pheap :: heap
  penguins :: "nat option"
  last_penguin :: "nat option"
  population :: int

definition no_penguins :: penguin_list where
  "no_penguins = \<lparr>pheap = (\<lambda>_. None), penguins = None, last_penguin = None, population = 0\<rparr>"

definition new_penguin :: "int \<Rightarrow> int \<Rightarrow> penguin" where
  "new_penguin xres yres =
     \<lparr>px = xres sdiv 2, py = yres sdiv 2,
      x_togo = 0, y_togo = 0, moving = True, delay = 5,
      frame_at = (\<lambda>_. 0), frameset = DIR_DOWN, pnext = None\<rparr>"

definition spawn_penguin :: "(heap \<Rightarrow> nat option) \<Rightarrow> penguin \<Rightarrow> penguin_list \<Rightarrow> penguin_list res" where
  "spawn_penguin calloc new s =
     (case calloc (pheap s) of
        None \<Rightarrow> Inl Fault
      | Some a \<Rightarrow>
        let s = s\<lparr>pheap := (pheap s)(a \<mapsto> new\<lparr>pnext := None\<rparr>)\<rparr> in
        res_bind
          (case penguins s of
             None \<Rightarrow> Inr (s\<lparr>penguins := Some a, last_penguin := Some a\<rparr>)
           | Some _ \<Rightarrow>
             res_bind (opt_res (last_penguin s)) (\<lambda>l. res_bind (opt_res (pheap s l)) (\<lambda>p.
               Inr (s\<lparr>pheap := (pheap s)(l \<mapsto> p\<lparr>pnext := Some a\<rparr>), last_penguin := Some a\<rparr>))))
          (\<lambda>s. Inr (s\<lparr>population := population s + 1\<rparr>)))"

definition destroy_penguin :: "penguin_list \<Rightarrow> penguin_list res" where
  "destroy_penguin s =
     (case penguins s of
        None \<Rightarrow> Inr s
      | Some a \<Rightarrow> res_bind (opt_res (pheap s a)) (\<lambda>p.
          Inr (s\<lparr>penguins := pnext p, pheap := (pheap s)(a := None), population := population s - 1\<rparr>)))"

definition destroy_penguins :: "nat \<Rightarrow> penguin_list \<Rightarrow> penguin_list res" where
  "destroy_penguins number = fold_res (\<lambda>_. destroy_penguin) [0..<number]"

definition spawn_penguins ::
  "(heap \<Rightarrow> nat option) \<Rightarrow> penguin \<Rightarrow> nat \<Rightarrow> penguin_list \<Rightarrow> penguin_list res" where
  "spawn_penguins calloc new number = fold_res (\<lambda>_. spawn_penguin calloc new) [0..<number]"

text \<open>\<open>while (p) { ...; p = p->next; }\<close>, with one unit of fuel per round and one for the end.\<close>

primrec each_penguin ::
  "nat \<Rightarrow> (penguin \<Rightarrow> 's \<Rightarrow> (penguin \<times> 's) res) \<Rightarrow> nat option \<Rightarrow> heap \<Rightarrow> 's \<Rightarrow> (heap \<times> 's) res" where
  "each_penguin 0 f p h s = Inl Diverges"
| "each_penguin (Suc fuel) f p h s =
     (case p of
        None \<Rightarrow> Inr (h, s)
      | Some a \<Rightarrow> res_bind (opt_res (h a)) (\<lambda>x. res_bind (f x s) (\<lambda>(y, s).
          each_penguin fuel f (pnext y) (h(a \<mapsto> y)) s)))"

primrec destroy_all :: "nat \<Rightarrow> nat option \<Rightarrow> heap \<Rightarrow> heap res" where
  "destroy_all 0 p h = Inl Diverges"
| "destroy_all (Suc fuel) p h =
     (case p of
        None \<Rightarrow> Inr h
      | Some a \<Rightarrow> res_bind (opt_res (h a)) (\<lambda>x. destroy_all fuel (pnext x) (h(a := None))))"

definition destroy_all_penguins :: "nat \<Rightarrow> penguin_list \<Rightarrow> penguin_list res" where
  "destroy_all_penguins fuel s =
     res_bind (destroy_all fuel (penguins s) (pheap s)) (\<lambda>h. Inr (s\<lparr>pheap := h, penguins := None\<rparr>))"

section \<open>Moving\<close>

text \<open>A distance shorter than a step is given up.\<close>

definition settle :: "int \<Rightarrow> int \<Rightarrow> int" where
  "settle step togo = (if \<bar>togo\<bar> < step then 0 else togo)"

text \<open>What a penguin that has arrived does next: walk on, or stand and jitter.\<close>

definition arrive :: "penguin \<Rightarrow> rand \<Rightarrow> penguin \<times> rand" where
  "arrive p r =
     (if x_togo p = 0 \<and> y_togo p = 0 then
        if moving p then
          let (a, r) = myrand r; (b, r) = myrand r in
          (p\<lparr>x_togo := sint (a mod 100 - 50), y_togo := sint (b mod 100 - 50)\<rparr>, r)
        else
          let (a, r) = myrand r; (b, r) = myrand r in
          (p\<lparr>frameset := DIR_DOWN, px := sint (word_of_int (px p) + (a mod 3 - 1)),
             py := sint (word_of_int (py p) + (b mod 3 - 1))\<rparr>, r)
      else (p, r))"

definition walk_x :: "int \<Rightarrow> penguin \<Rightarrow> penguin" where
  "walk_x step p =
     (let p = (if x_togo p > 0
               then p\<lparr>px := px p - step, x_togo := x_togo p - step, frameset := DIR_LEFT\<rparr> else p) in
      if x_togo p < 0
      then p\<lparr>px := px p + step, x_togo := x_togo p + step, frameset := DIR_RIGHT\<rparr> else p)"

definition walk_y :: "int \<Rightarrow> penguin \<Rightarrow> penguin" where
  "walk_y step p =
     (let p = (if y_togo p > 0
               then p\<lparr>py := py p - step, y_togo := y_togo p - step, frameset := DIR_UP\<rparr> else p) in
      if y_togo p < 0
      then p\<lparr>py := py p + step, y_togo := y_togo p + step, frameset := DIR_DOWN\<rparr> else p)"

definition clip :: "int \<Rightarrow> int \<Rightarrow> int" where
  "clip limit v = (let v = (if v < 0 then 0 else v) in if v > limit then limit else v)"

definition next_frame :: "anim \<Rightarrow> penguin \<Rightarrow> penguin res" where
  "next_frame anim p =
     (if delay p = 0 then
        let d = frameset p; i = frame_at p d in
        if i < length (anim d)
        then res_bind (opt_res (fr_next (anim d ! i))) (\<lambda>j.
          Inr (p\<lparr>frame_at := (frame_at p)(d := j), delay := 5\<rparr>))
        else Inl Fault
      else Inr (p\<lparr>delay := delay p - 1\<rparr>))"

definition move_penguin ::
  "anim \<Rightarrow> int \<Rightarrow> int \<Rightarrow> int \<Rightarrow> penguin \<Rightarrow> rand \<Rightarrow> (penguin \<times> rand) res" where
  "move_penguin anim xres yres step p r =
     (let p = p\<lparr>x_togo := settle step (x_togo p), y_togo := settle step (y_togo p)\<rparr>;
          (p, r) = arrive p r;
          p = walk_y step (walk_x step p);
          p = p\<lparr>px := clip (xres - 40) (px p), py := clip (yres - 60) (py p)\<rparr> in
      res_bind (next_frame anim p) (\<lambda>p. Inr (p, r)))"

definition move_penguins ::
  "nat \<Rightarrow> anim \<Rightarrow> int \<Rightarrow> int \<Rightarrow> int \<Rightarrow> penguin_list \<times> rand \<Rightarrow> (penguin_list \<times> rand) res" where
  "move_penguins fuel anim xres yres step sr =
     (let (s, r) = sr in
      res_bind (each_penguin fuel (move_penguin anim xres yres step) (penguins s) (pheap s) r) (\<lambda>(h, r).
        Inr (s\<lparr>pheap := h\<rparr>, r)))"

definition revive_penguins :: "nat \<Rightarrow> penguin_list \<Rightarrow> penguin_list res" where
  "revive_penguins fuel s =
     res_bind (each_penguin fuel (\<lambda>p u. Inr (p\<lparr>moving := True\<rparr>, u)) (penguins s) (pheap s) ()) (\<lambda>(h, u).
       Inr (s\<lparr>pheap := h\<rparr>))"

section \<open>Formations\<close>

text \<open>
  The points of the mask: \<open>coords\<close> is allocated with one integer per pixel of the mask, and gets two for
  each black one. \<open>pixels x y\<close> is the pixel.
\<close>

definition mask_pixel ::
  "nat \<Rightarrow> nat \<Rightarrow> (nat \<Rightarrow> nat \<Rightarrow> 32 word) \<Rightarrow> nat \<times> nat \<Rightarrow> int list \<times> nat \<Rightarrow> (int list \<times> nat) res" where
  "mask_pixel w h pixels xy s =
     (let (x, y) = xy; (coords, nr_coords) = s in
      if pixels x y AND 0x00FFFFFF = 0 then
        if nr_coords * 2 + 1 < length coords
        then Inr (coords[nr_coords * 2 := int (x * (1000 div w)), nr_coords * 2 + 1 := int (y * (1000 div h))], nr_coords + 1)
        else Inl Fault
      else Inr s)"

definition read_destination_mask ::
  "bool \<Rightarrow> nat \<Rightarrow> nat \<Rightarrow> (nat \<Rightarrow> nat \<Rightarrow> 32 word) \<Rightarrow> nat \<Rightarrow> (int list \<times> nat) res" where
  "read_destination_mask lock_ok w h pixels nr_coords =
     (let coords = replicate (w * h) 0 in
      if \<not> lock_ok then Inr (coords, nr_coords)
      else fold_res (\<lambda>y. fold_res (\<lambda>x. mask_pixel w h pixels (x, y)) [0..<w]) [0..<h] (coords, nr_coords))"

text \<open>The way from \<open>x\<close> to the coordinate \<open>c\<close> in thousandths of the screen: the product is an \<open>int\<close>, the rest is
  computed in \<open>float\<close> and converted back.\<close>

definition aim :: "int \<Rightarrow> int \<Rightarrow> int \<Rightarrow> int res" where
  "aim x c res =
     (if - (2 ^ 31) \<le> c * res \<and> c * res < 2 ^ 31
      then opt_res (trunc_int (fsub (float_of x) (fdiv (float_of (c * res)) (Fin 1000))))
      else Inl Fault)"

definition aim_penguin :: "int \<Rightarrow> int \<Rightarrow> int list \<Rightarrow> nat \<Rightarrow> penguin \<Rightarrow> rand \<Rightarrow> (penguin \<times> rand) res" where
  "aim_penguin xres yres coords nr_coords p r =
     (let (a, r) = myrand r;
          entry = unat (a mod of_nat nr_coords) * 2 in
      if entry + 1 < length coords
      then res_bind (aim (px p) (coords ! entry) xres) (\<lambda>x.
           res_bind (aim (py p) (coords ! (entry + 1)) yres) (\<lambda>y.
             Inr (p\<lparr>x_togo := x, y_togo := y, moving := False\<rparr>, r)))
      else Inl Fault)"

definition penguins_search_destination ::
  "nat \<Rightarrow> int \<Rightarrow> int \<Rightarrow> int list \<Rightarrow> nat \<Rightarrow> penguin_list \<times> rand \<Rightarrow> (penguin_list \<times> rand) res" where
  "penguins_search_destination fuel xres yres coords nr_coords sr =
     (let (s, r) = sr in
      if nr_coords \<noteq> 0 then
        res_bind (each_penguin fuel (aim_penguin xres yres coords nr_coords) (penguins s) (pheap s) r) (\<lambda>(h, r).
          Inr (s\<lparr>pheap := h\<rparr>, r))
      else Inr sr)"

section \<open>Drawing\<close>

type_synonym blit = "penguin_frame \<times> int \<times> int"

definition blit_of :: "anim \<Rightarrow> penguin \<Rightarrow> blit res" where
  "blit_of anim p =
     (let d = frameset p; i = frame_at p d in
      if i < length (anim d) then Inr (anim d ! i, px p, py p) else Inl Fault)"

text \<open>The inner loop: \<open>n\<close> penguins from \<open>p\<close> on, without a test for the end of the list.\<close>

primrec draw_batch :: "anim \<Rightarrow> heap \<Rightarrow> nat \<Rightarrow> nat option \<Rightarrow> (blit list \<times> nat option) res" where
  "draw_batch anim h 0 p = Inr ([], p)"
| "draw_batch anim h (Suc n) p =
     res_bind (opt_res p) (\<lambda>a. res_bind (opt_res (h a)) (\<lambda>x. res_bind (blit_of anim x) (\<lambda>b.
     res_bind (draw_batch anim h n (pnext x)) (\<lambda>(bs, p). Inr (b # bs, p)))))"

function draw_loop :: "anim \<Rightarrow> heap \<Rightarrow> nat \<Rightarrow> nat option \<Rightarrow> blit list list res" where
  "draw_loop anim h j p =
     (if j = 0 then Inr []
      else let n = min j 256 in
        res_bind (draw_batch anim h n p) (\<lambda>(bs, p).
        res_bind (draw_loop anim h (j - n) p) (\<lambda>rest. Inr (bs # rest))))"
  by auto
termination by (relation "measure (\<lambda>(anim, h, j, p). j)") auto

declare draw_loop.simps [simp del]

text \<open>The arrays \<open>rects\<close> and \<open>points\<close> have one element per penguin, up to 256; an array of variable length must have
  at least one element.\<close>

definition draw_penguins :: "anim \<Rightarrow> penguin_list \<Rightarrow> blit list list res" where
  "draw_penguins anim s =
     (if population s \<le> 0 then Inl Fault else draw_loop anim (pheap s) (nat (population s)) (penguins s))"

section \<open>The main loop\<close>

text \<open>The key symbols the program tests for, and all others.\<close>

datatype key_symbol =
    DIKS_ESCAPE | DIKS_SMALL_Q | DIKS_BACK | DIKS_STOP | DIKS_SMALL_S | DIKS_CURSOR_UP | DIKS_SMALL_R | DIKS_SMALL_D
  | DIKS_CURSOR_DOWN | DIKS_SMALL_C | DIKS_SPACE | DIKS_ENTER | DIKS_OK | DIKS_OTHER nat

text \<open>An event of the key buffer: whether its type is \<open>DIET_KEYPRESS\<close>, and its symbol.\<close>

record key_event =
  evt_keypress :: bool
  key_symbol :: key_symbol

text \<open>The branches of the \<open>switch\<close>, and which symbol leads to which; \<open>lower\<close> is DirectFB's \<open>DFB_LOWER_CASE\<close>.\<close>

datatype andi_key = KQuit | KSpawn | KRevive | KDestroy | KClip | KFormation | KOther

fun key_action :: "key_symbol \<Rightarrow> andi_key" where
  "key_action DIKS_ESCAPE = KQuit"
| "key_action DIKS_SMALL_Q = KQuit"
| "key_action DIKS_BACK = KQuit"
| "key_action DIKS_STOP = KQuit"
| "key_action DIKS_SMALL_S = KSpawn"
| "key_action DIKS_CURSOR_UP = KSpawn"
| "key_action DIKS_SMALL_R = KRevive"
| "key_action DIKS_SMALL_D = KDestroy"
| "key_action DIKS_CURSOR_DOWN = KDestroy"
| "key_action DIKS_SMALL_C = KClip"
| "key_action DIKS_SPACE = KFormation"
| "key_action DIKS_ENTER = KFormation"
| "key_action DIKS_OK = KFormation"
| "key_action (DIKS_OTHER k) = KOther"

definition event_action :: "(key_symbol \<Rightarrow> key_symbol) \<Rightarrow> key_event \<Rightarrow> andi_key" where
  "event_action lower evt = (if evt_keypress evt then key_action (lower (key_symbol evt)) else KOther)"

record andi_env =
  ae_calloc :: "heap \<Rightarrow> nat option"
  ae_xres :: int
  ae_yres :: int
  ae_anim :: anim
  ae_coords :: "int list"
  ae_nr_coords :: nat

record andi =
  an_list :: penguin_list
  an_rand :: rand
  an_clipping :: bool
  an_quit :: bool

text \<open>A penguin list of \<open>n\<close> penguins is walked in \<open>n + 1\<close> rounds.\<close>

definition list_fuel :: "penguin_list \<Rightarrow> nat" where
  "list_fuel s = nat (population s) + 1"

fun andi_key_step :: "andi_env \<Rightarrow> andi_key \<Rightarrow> andi \<Rightarrow> andi res" where
  "andi_key_step e KQuit g = Inr (g\<lparr>an_quit := True\<rparr>)"
| "andi_key_step e KSpawn g =
     res_bind (spawn_penguins (ae_calloc e) (new_penguin (ae_xres e) (ae_yres e)) 10 (an_list g)) (\<lambda>s. Inr (g\<lparr>an_list := s\<rparr>))"
| "andi_key_step e KRevive g =
     res_bind (revive_penguins (list_fuel (an_list g)) (an_list g)) (\<lambda>s. Inr (g\<lparr>an_list := s\<rparr>))"
| "andi_key_step e KDestroy g =
     res_bind (destroy_penguins 10 (an_list g)) (\<lambda>s. Inr (g\<lparr>an_list := s\<rparr>))"
| "andi_key_step e KClip g = Inr (g\<lparr>an_clipping := \<not> an_clipping g\<rparr>)"
| "andi_key_step e KFormation g =
     res_bind (penguins_search_destination (list_fuel (an_list g)) (ae_xres e) (ae_yres e) (ae_coords e)
       (ae_nr_coords e) (an_list g, an_rand g)) (\<lambda>(s, r). Inr (g\<lparr>an_list := s, an_rand := r\<rparr>))"
| "andi_key_step e KOther g = Inr g"

text \<open>One round: move, draw, show the population, then handle the keys pressed since.\<close>

definition andi_frame ::
  "andi_env \<Rightarrow> andi_key list \<Rightarrow> andi \<Rightarrow> ((blit list list \<times> int) \<times> andi) res" where
  "andi_frame e keys g =
     res_bind (move_penguins (list_fuel (an_list g)) (ae_anim e) (ae_xres e) (ae_yres e) 3 (an_list g, an_rand g)) (\<lambda>(s, r).
     res_bind (draw_penguins (ae_anim e) s) (\<lambda>bs.
     res_bind (fold_res (andi_key_step e) keys (g\<lparr>an_list := s, an_rand := r\<rparr>)) (\<lambda>g.
       Inr ((bs, population s), g))))"

text \<open>The loop over the rounds; without a key that quits it goes on for ever.\<close>

fun andi_loop ::
  "andi_env \<Rightarrow> andi_key list list \<Rightarrow> andi \<Rightarrow> ((blit list list \<times> int) list \<times> andi) res" where
  "andi_loop e rounds g =
     (if an_quit g then Inr ([], g)
      else case rounds of
        [] \<Rightarrow> Inl Diverges
      | keys # rounds \<Rightarrow>
        res_bind (andi_frame e keys g) (\<lambda>(out, g).
        res_bind (andi_loop e rounds g) (\<lambda>(outs, g). Inr (out # outs, g))))"

declare andi_loop.simps [simp del]

text \<open>
  \<open>main\<close> after \<open>init_resources\<close>, with the events of every round: the exit code, what was drawn, and the list after \<open>deinit_resources\<close>.
\<close>

definition andi_main ::
  "(heap \<Rightarrow> nat option) \<Rightarrow> bool \<Rightarrow> bool \<Rightarrow> int \<Rightarrow> int \<Rightarrow> nat \<Rightarrow> nat \<Rightarrow> (nat \<Rightarrow> nat \<Rightarrow> 32 word)
   \<Rightarrow> (key_symbol \<Rightarrow> key_symbol) \<Rightarrow> key_event list list \<Rightarrow> (int \<times> (blit list list \<times> int) list \<times> penguin_list) res" where
  "andi_main calloc malloc_ok lock_ok xres yres w h pixels lower events =
     res_bind (read_destination_mask lock_ok w h pixels 0) (\<lambda>(coords, nr_coords).
     res_bind (initialize_animation malloc_ok (\<lambda>_. [])) (\<lambda>anim.
     res_bind (spawn_penguins calloc (new_penguin xres yres) 200 no_penguins) (\<lambda>s.
     res_bind (andi_loop \<lparr>ae_calloc = calloc, ae_xres = xres, ae_yres = yres, ae_anim = anim,
         ae_coords = coords, ae_nr_coords = nr_coords\<rparr> (map (map (event_action lower)) events)
         \<lparr>an_list = s, an_rand = rand_start, an_clipping = False, an_quit = False\<rparr>) (\<lambda>(outs, g).
     res_bind (destroy_all_penguins (list_fuel (an_list g)) (an_list g)) (\<lambda>s.
       Inr (42, outs, s))))))"

end
