(* ===== verification/Penguin_List.thy ===== *)
theory Penguin_List
  imports Penguins
begin

text \<open>
  The linked list of penguins as a queue: \<open>list_at\<close> reads a list off the heap, \<open>holds\<close> is the invariant of the list
  with its contents. The locale \<open>fifo\<close> is what the main loop relies on, \<open>allocator\<close> what the list relies on; with
  such an allocator the list is such a queue. Then what a walk over the list and a drawing of it do.
\<close>

section \<open>Lists on the heap\<close>

fun list_at :: "heap \<Rightarrow> nat option \<Rightarrow> nat list \<Rightarrow> bool" where
  "list_at h p [] \<longleftrightarrow> p = None"
| "list_at h p (a # as) \<longleftrightarrow> p = Some a \<and> (\<exists>x. h a = Some x \<and> list_at h (pnext x) as)"

lemma list_at_other: "a \<notin> set as \<Longrightarrow> list_at (h(a := v)) p as = list_at h p as"
  by (induction as arbitrary: p) auto

lemma list_at_next: "h a = Some x \<Longrightarrow> pnext y = pnext x \<Longrightarrow> list_at (h(a \<mapsto> y)) p as = list_at h p as"
  by (induction as arbitrary: p) auto

lemma list_at_Some: "list_at h p as \<Longrightarrow> as \<noteq> [] \<Longrightarrow> p = Some (hd as)"
  by (cases as) auto

lemma list_at_dom: "list_at h p as \<Longrightarrow> a \<in> set as \<Longrightarrow> \<exists>x. h a = Some x"
  by (induction as arbitrary: p) auto

lemma list_at_snoc:
  assumes "list_at h p (as @ [l])" "distinct (as @ [l])" "h l = Some x" "a \<notin> set (as @ [l])"
  shows "list_at (h(a \<mapsto> y\<lparr>pnext := None\<rparr>, l \<mapsto> x\<lparr>pnext := Some a\<rparr>)) p (as @ [l, a])"
  using assms
proof (induction as arbitrary: p)
  case (Cons b as)
  then obtain z where "p = Some b" "h b = Some z" "list_at h (pnext z) (as @ [l])" "b \<noteq> a" "b \<noteq> l" by auto
  then show ?case using Cons by auto
qed auto

text \<open>A penguin without its place in the list.\<close>

definition body :: "penguin \<Rightarrow> penguin" where
  "body p = p\<lparr>pnext := None\<rparr>"

definition bodies :: "heap \<Rightarrow> nat list \<Rightarrow> penguin list" where
  "bodies h as = map (\<lambda>a. body (the (h a))) as"

lemma length_bodies [simp]: "length (bodies h as) = length as"
  by (simp add: bodies_def)

lemma bodies_other: "a \<notin> set as \<Longrightarrow> bodies (h(a := v)) as = bodies h as"
  by (auto simp: bodies_def)

definition linked :: "penguin_list \<Rightarrow> nat list \<Rightarrow> bool" where
  "linked s as \<longleftrightarrow> list_at (pheap s) (penguins s) as \<and> distinct as \<and> dom (pheap s) = set as \<and>
     population s = int (length as) \<and> (as \<noteq> [] \<longrightarrow> last_penguin s = Some (last as))"

definition holds :: "penguin_list \<Rightarrow> penguin list \<Rightarrow> bool" where
  "holds s xs \<longleftrightarrow> (\<exists>as. linked s as \<and> xs = bodies (pheap s) as)"

lemma holds_no_penguins: "holds no_penguins []"
  unfolding holds_def linked_def by (rule exI [of _ "[]"]) (simp add: no_penguins_def bodies_def)

section \<open>The queue\<close>

locale fifo =
  fixes contents :: "'s \<Rightarrow> 'a list \<Rightarrow> bool" and enter :: "'a \<Rightarrow> 's \<Rightarrow> 's res" and leave :: "'s \<Rightarrow> 's res"
    and count :: "'s \<Rightarrow> int" and fit :: "'a \<Rightarrow> bool"
  assumes enter: "contents s xs \<Longrightarrow> fit x \<Longrightarrow> \<exists>t. enter x s = Inr t \<and> contents t (xs @ [x])"
    and leave: "contents s xs \<Longrightarrow> \<exists>t. leave s = Inr t \<and> contents t (tl xs)"
    and count: "contents s xs \<Longrightarrow> count s = int (length xs)"
begin

lemma enter_many:
  "contents s xs \<Longrightarrow> fit x \<Longrightarrow> \<exists>t. fold_res (\<lambda>_. enter x) ks s = Inr t \<and> contents t (xs @ replicate (length ks) x)"
proof (induction ks arbitrary: s xs)
  case (Cons k ks)
  obtain u where "enter x s = Inr u" "contents u (xs @ [x])" using enter Cons.prems by blast
  then show ?case using Cons.IH [of u "xs @ [x]"] Cons.prems(2) by simp
qed simp

lemma leave_many:
  "contents s xs \<Longrightarrow> \<exists>t. fold_res (\<lambda>_. leave) ks s = Inr t \<and> contents t (drop (length ks) xs)"
proof (induction ks arbitrary: s xs)
  case (Cons k ks)
  obtain u where "leave s = Inr u" "contents u (tl xs)" using leave Cons.prems by blast
  then show ?case using Cons.IH [of u "tl xs"] by (simp add: drop_Suc)
qed simp

lemma count_many:
  "contents s xs \<Longrightarrow> fit x \<Longrightarrow> fold_res (\<lambda>_. enter x) ks s = Inr t \<Longrightarrow> count t = count s + int (length ks)"
  using enter_many [of s xs x ks] count by force

end

text \<open>What \<open>calloc\<close> does, as long as there is memory.\<close>

locale allocator =
  fixes calloc :: "heap \<Rightarrow> nat option"
  assumes fresh: "calloc h = Some a \<Longrightarrow> h a = None"
    and memory: "finite (dom h) \<Longrightarrow> \<exists>a. calloc h = Some a"
begin

lemma spawn_holds:
  assumes "holds s xs" "pnext x = None"
  shows "\<exists>t. spawn_penguin calloc x s = Inr t \<and> holds t (xs @ [x])"
proof -
  obtain as where as: "linked s as" "xs = bodies (pheap s) as" using assms(1) by (auto simp: holds_def)
  have "finite (dom (pheap s))" using as(1) by (simp add: linked_def)
  then obtain a where a: "calloc (pheap s) = Some a" "pheap s a = None" using memory fresh by blast
  then have new: "a \<notin> set as" using as(1) by (auto simp: linked_def)
  have x: "x\<lparr>pnext := None\<rparr> = x" using assms(2) by simp
  show ?thesis
  proof (cases as rule: rev_cases)
    case Nil
    let ?t = "s\<lparr>pheap := (pheap s)(a \<mapsto> x), penguins := Some a, last_penguin := Some a, population := population s + 1\<rparr>"
    have "spawn_penguin calloc x s = Inr ?t" using a(1) as(1) Nil x by (simp add: spawn_penguin_def linked_def)
    moreover have "linked ?t [a]" "bodies (pheap ?t) [a] = [x]"
      using as(1) Nil x assms(2) by (simp_all add: linked_def bodies_def body_def)
    ultimately show ?thesis unfolding holds_def using as(2) Nil by (auto simp: bodies_def)
  next
    case (snoc bs l)
    then obtain y where l: "last_penguin s = Some l" "pheap s l = Some y" "l \<noteq> a" "penguins s \<noteq> None"
      using as(1) new list_at_dom [of "pheap s" "penguins s" as l] list_at_Some [of "pheap s" "penguins s" as]
      by (auto simp: linked_def)
    let ?h = "(pheap s)(a \<mapsto> x, l \<mapsto> y\<lparr>pnext := Some a\<rparr>)"
    let ?t = "s\<lparr>pheap := ?h, last_penguin := Some a, population := population s + 1\<rparr>"
    have "spawn_penguin calloc x s = Inr ?t" using a(1) l x by (auto simp: spawn_penguin_def)
    moreover have "list_at ?h (penguins s) (bs @ [l, a])"
      using list_at_snoc [of "pheap s" "penguins s" bs l y a x] as(1) snoc new l x by (simp add: linked_def)
    then have "linked ?t (as @ [a])" using as(1) snoc new by (auto simp: linked_def)
    moreover have "bodies ?h (as @ [a]) = bodies (pheap s) as @ [x]"
      using new l x snoc as(1) by (auto simp: bodies_def body_def linked_def)
    ultimately show ?thesis unfolding holds_def using as(2) by (intro exI [of _ ?t]) auto
  qed
qed

end

lemma destroy_holds:
  assumes "holds s xs"
  shows "\<exists>t. destroy_penguin s = Inr t \<and> holds t (tl xs)"
proof -
  obtain as where as: "linked s as" "xs = bodies (pheap s) as" using assms by (auto simp: holds_def)
  show ?thesis
  proof (cases as)
    case Nil
    then show ?thesis using as assms by (simp add: destroy_penguin_def linked_def bodies_def)
  next
    case (Cons a bs)
    then obtain x where x: "pheap s a = Some x" "list_at (pheap s) (pnext x) bs" "penguins s = Some a"
      using as(1) by (auto simp: linked_def)
    let ?t = "s\<lparr>penguins := pnext x, pheap := (pheap s)(a := None), population := population s - 1\<rparr>"
    have "destroy_penguin s = Inr ?t" using x by (simp add: destroy_penguin_def)
    moreover have "linked ?t bs" using as(1) Cons x by (auto simp: linked_def list_at_other)
    moreover have "bodies (pheap ?t) bs = tl xs" using as Cons by (simp add: bodies_other linked_def) (simp add: bodies_def)
    ultimately show ?thesis unfolding holds_def by metis
  qed
qed

lemma holds_population: "holds s xs \<Longrightarrow> population s = int (length xs)"
  by (auto simp: holds_def linked_def)

sublocale allocator \<subseteq> queue: fifo holds "spawn_penguin calloc" destroy_penguin population "\<lambda>x. pnext x = None"
  using spawn_holds destroy_holds holds_population by unfold_locales

text \<open>An allocator that takes the first free address.\<close>

definition first_free :: "heap \<Rightarrow> nat option" where
  "first_free h = (if \<exists>a. h a = None then Some (LEAST a. h a = None) else None)"

interpretation first_free: allocator first_free
proof
  show "h a = None" if "first_free h = Some a" for h a
    using that by (auto simp: first_free_def split: if_splits intro: LeastI)
  show "\<exists>a. first_free h = Some a" if "finite (dom h)" for h
  proof -
    have "\<exists>a. a \<notin> dom h" using that ex_new_if_finite infinite_UNIV_nat by blast
    then show ?thesis by (auto simp: first_free_def)
  qed
qed

section \<open>Walking the list\<close>

text \<open>The walk over a plain list, and what makes the walk over the heap the same: each step ignores the links.\<close>

fun thread :: "('a \<Rightarrow> 's \<Rightarrow> ('a \<times> 's) res) \<Rightarrow> 'a list \<Rightarrow> 's \<Rightarrow> ('a list \<times> 's) res" where
  "thread f [] s = Inr ([], s)"
| "thread f (x # xs) s =
     res_bind (f x s) (\<lambda>(y, s). res_bind (thread f xs s) (\<lambda>(ys, s). Inr (y # ys, s)))"

definition blind :: "(penguin \<Rightarrow> 's \<Rightarrow> (penguin \<times> 's) res) \<Rightarrow> bool" where
  "blind f \<longleftrightarrow> (\<forall>p q s. f (p\<lparr>pnext := q\<rparr>) s = res_bind (f p s) (\<lambda>(y, t). Inr (y\<lparr>pnext := q\<rparr>, t)))"

lemma blind_body:
  assumes "blind f" and "f (body x) s = Inr (y, t)"
  shows "f x s = Inr (y\<lparr>pnext := pnext x\<rparr>, t)" and "body y = y"
proof -
  have "f ((body x)\<lparr>pnext := pnext x\<rparr>) s = Inr (y\<lparr>pnext := pnext x\<rparr>, t)"
    using assms unfolding blind_def by simp
  then show "f x s = Inr (y\<lparr>pnext := pnext x\<rparr>, t)" by (simp add: body_def)
  have "f ((body x)\<lparr>pnext := None\<rparr>) s = Inr (y\<lparr>pnext := None\<rparr>, t)" using assms unfolding blind_def by simp
  then show "body y = y" using assms(2) by (simp add: body_def)
qed

lemma each_penguin_thread:
  assumes "blind f"
  shows "list_at h p as \<Longrightarrow> distinct as \<Longrightarrow> length as < fuel \<Longrightarrow> thread f (bodies h as) s = Inr (ys, t) \<Longrightarrow>
    \<exists>h'. each_penguin fuel f p h s = Inr (h', t) \<and> list_at h' p as \<and> dom h' = dom h \<and> bodies h' as = ys \<and>
      (\<forall>a. a \<notin> set as \<longrightarrow> h' a = h a)"
proof (induction as arbitrary: fuel p h s ys)
  case Nil
  then show ?case by (cases fuel) (auto simp: bodies_def)
next
  case (Cons a as)
  then obtain n x where x: "fuel = Suc n" "p = Some a" "h a = Some x" "list_at h (pnext x) as" by (cases fuel) auto
  have "bodies h (a # as) = body x # bodies h as" using x(3) by (simp add: bodies_def)
  with Cons.prems(4) obtain y u zs where y: "f (body x) s = Inr (y, u)" "thread f (bodies h as) u = Inr (zs, t)" "ys = y # zs"
    by (auto simp: res_simps)
  note fx = blind_body [OF assms y(1)]
  let ?y = "y\<lparr>pnext := pnext x\<rparr>"
  let ?h = "h(a \<mapsto> ?y)"
  have "list_at ?h (pnext x) as" "distinct as" "length as < n" "thread f (bodies ?h as) u = Inr (zs, t)"
    using x Cons.prems(2,3) y(2) by (simp_all add: list_at_other bodies_other)
  from Cons.IH [OF this] obtain h' where h': "each_penguin n f (pnext x) ?h u = Inr (h', t)"
    "list_at h' (pnext x) as" "dom h' = dom ?h" "bodies h' as = zs" "\<forall>b. b \<notin> set as \<longrightarrow> h' b = ?h b" by blast
  then have a: "h' a = Some ?y" using Cons.prems(2) by simp
  have "bodies h' (a # as) = ys" using a h'(4) y(3) fx(2) by (simp add: bodies_def body_def)
  then show ?case using h' x fx(1) a by auto
qed

lemma each_penguin_holds:
  assumes "blind f" and "holds s xs" and "length xs < fuel" and "thread f xs r = Inr (ys, t)"
  shows "\<exists>h. each_penguin fuel f (penguins s) (pheap s) r = Inr (h, t) \<and> holds (s\<lparr>pheap := h\<rparr>) ys"
proof -
  obtain as where as: "linked s as" "xs = bodies (pheap s) as" using assms(2) by (auto simp: holds_def)
  then obtain h where h: "each_penguin fuel f (penguins s) (pheap s) r = Inr (h, t)" "list_at h (penguins s) as"
    "dom h = dom (pheap s)" "bodies h as = ys"
    using each_penguin_thread [OF assms(1), of "pheap s" "penguins s" as fuel r ys t] assms(3,4) by (auto simp: linked_def)
  have "linked (s\<lparr>pheap := h\<rparr>) as" using as(1) h by (simp add: linked_def)
  then show ?thesis using h unfolding holds_def by auto
qed

lemma thread_total:
  assumes "list_all Q xs" and "\<And>x s. Q x \<Longrightarrow> \<exists>y t. f x s = Inr (y, t) \<and> R y"
  shows "\<exists>ys t. thread f xs s = Inr (ys, t) \<and> list_all R ys \<and> length ys = length xs"
  using assms(1)
proof (induction xs arbitrary: s)
  case (Cons x xs)
  obtain y u where "f x s = Inr (y, u)" "R y" using assms(2) Cons.prems by fastforce
  moreover obtain ys t where "thread f xs u = Inr (ys, t)" "list_all R ys" "length ys = length xs"
    using Cons.IH [of u] Cons.prems by auto
  ultimately show ?case by simp
qed simp

lemma thread_map: "thread (\<lambda>x s. Inr (g x, s)) xs s = Inr (map g xs, s)"
  by (induction xs) simp_all

section \<open>Freeing the list\<close>

lemma destroy_all_list:
  "list_at h p as \<Longrightarrow> distinct as \<Longrightarrow> length as < fuel \<Longrightarrow> destroy_all fuel p h = Inr (h |` (- set as))"
proof (induction as arbitrary: fuel p h)
  case Nil
  then show ?case by (cases fuel) auto
next
  case (Cons a as)
  then obtain n x where x: "fuel = Suc n" "p = Some a" "h a = Some x" "list_at h (pnext x) as" by (cases fuel) auto
  have "list_at (h(a := None)) (pnext x) as" using x Cons.prems(2) by (simp add: list_at_other)
  moreover have "distinct as" "length as < n" using Cons.prems x(1) by simp_all
  ultimately have "destroy_all n (pnext x) (h(a := None)) = Inr ((h(a := None)) |` (- set as))"
    by (rule Cons.IH)
  moreover have "(h(a := None)) |` (- set as) = h |` (- set (a # as))" by (auto simp: restrict_map_def)
  ultimately show ?case using x by simp
qed

lemma destroy_all_penguins_frees:
  assumes "holds s xs" "length xs < fuel"
  shows "\<exists>t. destroy_all_penguins fuel s = Inr t \<and> pheap t = (\<lambda>_. None) \<and> penguins t = None"
proof -
  obtain as where as: "linked s as" "length as = length xs" using assms(1) by (auto simp: holds_def)
  have "pheap s a = None" if "a \<notin> set as" for a using as(1) that by (auto simp: linked_def)
  then have "pheap s |` (- set as) = (\<lambda>_. None)" by (intro ext) (simp add: restrict_map_def)
  then show ?thesis using destroy_all_list [of "pheap s" "penguins s" as fuel] as assms(2)
    by (simp add: destroy_all_penguins_def linked_def)
qed

section \<open>Drawing the list\<close>

definition frames_ok :: "anim \<Rightarrow> penguin \<Rightarrow> bool" where
  "frames_ok anim p \<longleftrightarrow> (\<forall>d. frame_at p d < length (anim d))"

definition the_blit :: "anim \<Rightarrow> penguin \<Rightarrow> blit" where
  "the_blit anim p = (anim (frameset p) ! frame_at p (frameset p), px p, py p)"

lemma blit_of_ok: "frames_ok anim p \<Longrightarrow> blit_of anim p = Inr (the_blit anim p)"
  by (simp add: frames_ok_def blit_of_def the_blit_def Let_def)

lemma draw_batch_list:
  assumes "list_at h p as" "\<And>a. a \<in> set as \<Longrightarrow> frames_ok anim (the (h a))" "n \<le> length as"
  shows "\<exists>q. draw_batch anim h n p = Inr (map (\<lambda>a. the_blit anim (the (h a))) (take n as), q) \<and> list_at h q (drop n as)"
  using assms
proof (induction n arbitrary: p as)
  case (Suc n)
  then obtain a bs x where x: "as = a # bs" "p = Some a" "h a = Some x" "list_at h (pnext x) bs" by (cases as) auto
  obtain q where "draw_batch anim h n (pnext x) = Inr (map (\<lambda>a. the_blit anim (the (h a))) (take n bs), q)" "list_at h q (drop n bs)"
    using Suc.IH [OF x(4)] Suc.prems x(1) by auto
  moreover have "blit_of anim x = Inr (the_blit anim x)" using Suc.prems(2) [of a] x by (simp add: blit_of_ok)
  ultimately show ?case using x by simp
qed simp

lemma draw_loop_list:
  assumes "list_at h p as" "\<And>a. a \<in> set as \<Longrightarrow> frames_ok anim (the (h a))" "j = length as"
  shows "\<exists>bss. draw_loop anim h j p = Inr bss \<and> concat bss = map (\<lambda>a. the_blit anim (the (h a))) as \<and>
    list_all (\<lambda>bs. length bs \<le> 256) bss"
  using assms
proof (induction anim h j p arbitrary: as rule: draw_loop.induct)
  case (1 anim h j p)
  show ?case
  proof (cases "j = 0")
    case False
    let ?n = "min j 256"
    obtain q where q: "draw_batch anim h ?n p = Inr (map (\<lambda>a. the_blit anim (the (h a))) (take ?n as), q)" "list_at h q (drop ?n as)"
      using draw_batch_list [OF "1.prems"(1,2), of ?n] "1.prems"(3) by auto
    have "\<exists>bss. draw_loop anim h (j - ?n) q = Inr bss \<and> concat bss = map (\<lambda>a. the_blit anim (the (h a))) (drop ?n as) \<and>
      list_all (\<lambda>bs. length bs \<le> 256) bss"
      using q "1.prems"(2,3) by (intro "1.IH" [OF False refl _ refl q(2)]) (auto dest: in_set_dropD)
    then obtain bss where b: "draw_loop anim h (j - ?n) q = Inr bss"
      "concat bss = map (\<lambda>a. the_blit anim (the (h a))) (drop ?n as)" "list_all (\<lambda>bs. length bs \<le> 256) bss" by blast
    have "draw_loop anim h j p = Inr (map (\<lambda>a. the_blit anim (the (h a))) (take ?n as) # bss)"
      using False q(1) b(1) by (subst draw_loop.simps) (simp add: Let_def)
    moreover have "concat (map (\<lambda>a. the_blit anim (the (h a))) (take ?n as) # bss) = map (\<lambda>a. the_blit anim (the (h a))) as"
      unfolding concat.simps b(2) map_append [symmetric] append_take_drop_id ..
    ultimately show ?thesis using b(3) by simp
  qed (use "1.prems" in \<open>simp add: draw_loop.simps\<close>)
qed

lemma draw_penguins_all:
  assumes "holds s xs" "list_all (frames_ok anim) xs" "xs \<noteq> []"
  shows "\<exists>bss. draw_penguins anim s = Inr bss \<and> concat bss = map (the_blit anim) xs \<and> list_all (\<lambda>bs. length bs \<le> 256) bss"
proof -
  obtain as where as: "linked s as" "xs = bodies (pheap s) as" using assms(1) by (auto simp: holds_def)
  have b: "the_blit anim (body x) = the_blit anim x" "frames_ok anim (body x) = frames_ok anim x" for x
    by (simp_all add: the_blit_def frames_ok_def body_def)
  have "frames_ok anim (the (pheap s a))" if "a \<in> set as" for a using as(2) assms(2) that b(2) by (auto simp: bodies_def list_all_iff)
  moreover have "as \<noteq> []" using as(2) assms(3) by (auto simp: bodies_def)
  ultimately show ?thesis using draw_loop_list [of "pheap s" "penguins s" as anim "length as"] as b(1)
    by (simp add: draw_penguins_def linked_def bodies_def comp_def)
qed

end
