(* ===== verification/Penguins_Correct.thy ===== *)
theory Penguins_Correct
  imports Penguin_List
begin

text \<open>
  What \<open>df_andi\<close> does as a whole: with its linked list on the heap it draws, round by round, what a reference program on a
  plain list of penguins draws, whatever keys are pressed; at the end nothing is left on the heap. Then how a penguin reaches its place in a formation, and
  when reading the destination mask leaves its array.
\<close>

section \<open>The rings of frames\<close>

definition sheet_frame :: "int \<Rightarrow> nat \<Rightarrow> penguin_frame" where
  "sheet_frame row i = \<lparr>rect_x = int i * 40, rect_y = 60 * row, rect_w = 40, rect_h = 60, fr_next = Some (Suc i mod 9)\<rparr>"

fun sheet_row :: "direction \<Rightarrow> int" where
  "sheet_row DIR_DOWN = 0"
| "sheet_row DIR_LEFT = 1"
| "sheet_row DIR_UP = 2"
| "sheet_row DIR_RIGHT = 3"

definition sheet :: anim where
  "sheet d = map (sheet_frame (sheet_row d)) [0..<9]"

lemma direction_frames: "initialize_direction_frames True row [] = Inr (map (sheet_frame row) [0..<9])"
  by (simp add: initialize_direction_frames_def new_frame_def close_ring_def sheet_frame_def Let_def upt_rec)

lemma animation_sheet: "initialize_animation True (\<lambda>_. []) = Inr sheet"
proof -
  have "(\<lambda>_. [])(DIR_DOWN := sheet DIR_DOWN, DIR_LEFT := sheet DIR_LEFT, DIR_UP := sheet DIR_UP, DIR_RIGHT := sheet DIR_RIGHT) = sheet"
  proof
    show "((\<lambda>_. [])(DIR_DOWN := sheet DIR_DOWN, DIR_LEFT := sheet DIR_LEFT, DIR_UP := sheet DIR_UP, DIR_RIGHT := sheet DIR_RIGHT)) d = sheet d" for d
      by (cases d) simp_all
  qed
  then show ?thesis by (simp add: initialize_animation_def direction_frames sheet_def [symmetric] flip: sheet_row.simps)
qed

section \<open>One move\<close>

definition on_screen :: "int \<Rightarrow> int \<Rightarrow> int \<Rightarrow> int \<Rightarrow> bool" where
  "on_screen xres yres x y \<longleftrightarrow> 0 \<le> x \<and> x \<le> xres - 40 \<and> 0 \<le> y \<and> y \<le> yres - 60"

lemma clip_range: "0 \<le> limit \<Longrightarrow> 0 \<le> clip limit v \<and> clip limit v \<le> limit"
  by (simp add: clip_def)

lemma next_frame_ok:
  assumes "frames_ok sheet p"
  shows "\<exists>d n. next_frame sheet p = Inr (p\<lparr>frame_at := d, delay := n\<rparr>) \<and> frames_ok sheet (p\<lparr>frame_at := d, delay := n\<rparr>)"
proof (cases "delay p = 0")
  case True
  let ?d = "frameset p"
  have i: "frame_at p ?d < 9" using assms by (simp add: frames_ok_def sheet_def)
  then have "fr_next (sheet ?d ! frame_at p ?d) = Some (Suc (frame_at p ?d) mod 9)" by (simp add: sheet_def sheet_frame_def)
  then show ?thesis using True i assms
    by (intro exI [of _ "(frame_at p)(?d := Suc (frame_at p ?d) mod 9)"] exI [of _ 5])
      (simp add: next_frame_def frames_ok_def sheet_def Let_def)
next
  case False
  then have "next_frame sheet p = Inr (p\<lparr>frame_at := frame_at p, delay := delay p - 1\<rparr>)" by (simp add: next_frame_def)
  then show ?thesis using assms by (intro exI) (auto simp: frames_ok_def)
qed

lemma arrive_keeps: "arrive p r = (q, r') \<Longrightarrow> pnext q = pnext p \<and> frame_at q = frame_at p"
  by (auto simp: arrive_def Let_def split: if_splits prod.splits)

lemma walk_keeps [simp]:
  "pnext (walk_x s p) = pnext p" "frame_at (walk_x s p) = frame_at p"
  "pnext (walk_y s p) = pnext p" "frame_at (walk_y s p) = frame_at p"
  by (simp_all add: walk_x_def walk_y_def Let_def)

lemma move_penguin_ok:
  assumes "frames_ok sheet p" "40 \<le> xres" "60 \<le> yres"
  shows "\<exists>q t. move_penguin sheet xres yres step p r = Inr (q, t) \<and> pnext q = pnext p \<and>
    (frames_ok sheet q \<and> on_screen xres yres (px q) (py q))"
proof -
  let ?p = "p\<lparr>x_togo := settle step (x_togo p), y_togo := settle step (y_togo p)\<rparr>"
  obtain a t where a: "arrive ?p r = (a, t)" by (metis surj_pair)
  let ?w = "walk_y step (walk_x step a)"
  let ?c = "?w\<lparr>px := clip (xres - 40) (px ?w), py := clip (yres - 60) (py ?w)\<rparr>"
  have "pnext ?c = pnext p" "frames_ok sheet ?c" using arrive_keeps [OF a] assms(1) by (simp_all add: frames_ok_def)
  moreover obtain d n where n: "next_frame sheet ?c = Inr (?c\<lparr>frame_at := d, delay := n\<rparr>)" "frames_ok sheet (?c\<lparr>frame_at := d, delay := n\<rparr>)"
    using next_frame_ok [OF calculation(2)] by blast
  moreover have "move_penguin sheet xres yres step p r = Inr (?c\<lparr>frame_at := d, delay := n\<rparr>, t)"
    using a n(1) by (simp add: move_penguin_def Let_def)
  moreover have "on_screen xres yres (px ?c) (py ?c)" using clip_range assms(2,3) by (simp add: on_screen_def)
  ultimately show ?thesis by auto
qed

section \<open>Rounds\<close>

text \<open>A penguin of the program: its frames exist, and it is on a screen that is not too large. New penguins stand in
  the middle, so they may still reach over the border.\<close>

definition penguin_ok :: "int \<Rightarrow> int \<Rightarrow> penguin \<Rightarrow> bool" where
  "penguin_ok xres yres p \<longleftrightarrow> frames_ok sheet p \<and> 0 \<le> px p \<and> px p \<le> xres \<and> 0 \<le> py p \<and> py p \<le> yres"

definition flock :: "int \<Rightarrow> int \<Rightarrow> penguin_list \<Rightarrow> penguin list \<Rightarrow> bool" where
  "flock xres yres s xs \<longleftrightarrow> holds s xs \<and> list_all (penguin_ok xres yres) xs"

lemma flock_fuel: "holds s xs \<Longrightarrow> length xs < list_fuel s"
  by (auto simp: list_fuel_def dest: holds_population)

text \<open>A move does not look at the links.\<close>

lemma arrive_blind: "arrive (p\<lparr>pnext := q\<rparr>) r = (let (a, t) = arrive p r in (a\<lparr>pnext := q\<rparr>, t))"
  by (simp add: arrive_def Let_def case_prod_beta)

lemma walk_blind:
  "walk_x step (p\<lparr>pnext := q\<rparr>) = (walk_x step p)\<lparr>pnext := q\<rparr>"
  "walk_y step (p\<lparr>pnext := q\<rparr>) = (walk_y step p)\<lparr>pnext := q\<rparr>"
  by (simp_all add: walk_x_def walk_y_def Let_def)

lemma next_frame_blind:
  "next_frame anim (p\<lparr>pnext := q\<rparr>) = res_bind (next_frame anim p) (\<lambda>y. Inr (y\<lparr>pnext := q\<rparr>))"
proof (cases "delay p = 0 \<and> frame_at p (frameset p) < length (anim (frameset p))")
  case True
  then show ?thesis
    by (cases "fr_next (anim (frameset p) ! frame_at p (frameset p))") (simp_all add: next_frame_def Let_def)
qed (auto simp: next_frame_def Let_def)

lemma pnext_last:
  "p\<lparr>pnext := q, x_togo := a, y_togo := b\<rparr> = p\<lparr>x_togo := a, y_togo := b, pnext := q\<rparr>"
  "p\<lparr>pnext := q, px := a, py := b\<rparr> = p\<lparr>px := a, py := b, pnext := q\<rparr>"
  by (cases p; simp)+

lemma move_blind: "blind (move_penguin anim xres yres step)"
  unfolding blind_def
proof (intro allI)
  fix p :: penguin and q r
  let ?p = "p\<lparr>x_togo := settle step (x_togo p), y_togo := settle step (y_togo p)\<rparr>"
  obtain a t where a: "arrive ?p r = (a, t)" by (metis surj_pair)
  let ?w = "walk_y step (walk_x step a)"
  let ?c = "?w\<lparr>px := clip (xres - 40) (px ?w), py := clip (yres - 60) (py ?w)\<rparr>"
  have 1: "move_penguin anim xres yres step p r = res_bind (next_frame anim ?c) (\<lambda>y. Inr (y, t))"
    using a by (simp add: move_penguin_def Let_def)
  have "arrive (?p\<lparr>pnext := q\<rparr>) r = (a\<lparr>pnext := q\<rparr>, t)" using a arrive_blind [where p = ?p and q = q and r = r] by simp
  then have 2: "move_penguin anim xres yres step (p\<lparr>pnext := q\<rparr>) r
      = res_bind (next_frame anim (?c\<lparr>pnext := q\<rparr>)) (\<lambda>y. Inr (y, t))"
    by (simp add: move_penguin_def Let_def walk_blind pnext_last)
  show "move_penguin anim xres yres step (p\<lparr>pnext := q\<rparr>) r
      = res_bind (move_penguin anim xres yres step p r) (\<lambda>(y, t). Inr (y\<lparr>pnext := q\<rparr>, t))"
    unfolding 1 2 next_frame_blind by (cases "next_frame anim ?c") simp_all
qed

lemma aim_blind: "blind (aim_penguin xres yres coords k)"
  unfolding blind_def aim_penguin_def Let_def case_prod_beta
  by (auto simp: res_bind_assoc intro!: res_bind_cong)

lemma revive_blind: "blind (\<lambda>p u. Inr (p\<lparr>moving := True\<rparr>, u))"
  by (simp add: blind_def)

text \<open>Moving all penguins is moving a plain list of them, one after the other.\<close>

lemma move_penguins_flock:
  assumes "flock xres yres s xs" "40 \<le> xres" "60 \<le> yres"
  shows "\<exists>t ys r'. move_penguins (list_fuel s) sheet xres yres step (s, r) = Inr (t, r') \<and>
    thread (move_penguin sheet xres yres step) xs r = Inr (ys, r') \<and> length ys = length xs \<and> holds t ys \<and>
    list_all (\<lambda>p. frames_ok sheet p \<and> on_screen xres yres (px p) (py p)) ys"
proof -
  have xs: "holds s xs" "list_all (penguin_ok xres yres) xs" using assms(1) by (simp_all add: flock_def)
  have step: "\<exists>q t. move_penguin sheet xres yres step p r = Inr (q, t) \<and>
      (frames_ok sheet q \<and> on_screen xres yres (px q) (py q))" if p: "penguin_ok xres yres p" for p r
  proof -
    have "frames_ok sheet p" using p by (simp add: penguin_ok_def)
    from move_penguin_ok [OF this assms(2,3), of step r] show ?thesis by blast
  qed
  obtain ys r' where t: "thread (move_penguin sheet xres yres step) xs r = Inr (ys, r')" "length ys = length xs"
    "list_all (\<lambda>p. frames_ok sheet p \<and> on_screen xres yres (px p) (py p)) ys"
    using thread_total [OF xs(2), where f = "move_penguin sheet xres yres step" and s = r, OF step] by blast
  then show ?thesis using each_penguin_holds [OF move_blind xs(1) flock_fuel [OF xs(1)] t(1)]
    by (auto simp: move_penguins_def)
qed

lemma revive_flock:
  assumes "flock xres yres s xs"
  shows "\<exists>t. revive_penguins (list_fuel s) s = Inr t \<and> flock xres yres t (map (\<lambda>p. p\<lparr>moving := True\<rparr>) xs)"
proof -
  have xs: "holds s xs" "list_all (penguin_ok xres yres) xs" using assms by (simp_all add: flock_def)
  have "list_all (penguin_ok xres yres) (map (\<lambda>p. p\<lparr>moving := True\<rparr>) xs)"
    using xs(2) by (simp add: list_all_iff penguin_ok_def frames_ok_def)
  then show ?thesis using each_penguin_holds [OF revive_blind xs(1) flock_fuel [OF xs(1)] thread_map, of "()"]
    by (auto simp: revive_penguins_def flock_def)
qed

section \<open>Aiming\<close>

text \<open>On a screen of at most \<open>2 ^ 14\<close> pixels the way to a point is right up to rounding to a whole number.\<close>

lemma aim_ok:
  assumes "0 \<le> x" "x \<le> res" "0 \<le> c" "c \<le> 1000" "res \<le> 2 ^ 14"
  shows "\<exists>t. aim x c res = Inr t \<and> \<bar>of_int (x - t) - of_int (c * res) / 1000\<bar> < (2 :: rat)"
proof -
  let ?m = "c * res"
  have "0 \<le> res" using assms by simp
  have m: "0 \<le> ?m" "?m \<le> 1000 * res" using assms(3,4) \<open>0 \<le> res\<close> by (simp_all add: mult_right_mono)
  define d y z where "d = (of_int ?m / 1000 :: rat)" and "y = round32 d" and "z = round32 (of_int x - y)"
  have res: "(0 :: rat) \<le> of_int res" "(of_int res :: rat) \<le> 2 ^ 14" using \<open>0 \<le> res\<close> assms(5) by simp_all
  have x: "(0 :: rat) \<le> of_int x" "(of_int x :: rat) \<le> of_int res" using assms(1,2) by simp_all
  have "(of_int ?m :: rat) \<le> of_int (1000 * res)" "(0 :: rat) \<le> of_int ?m" using m by (simp_all only: of_int_le_iff of_int_0_le_iff)
  then have d: "0 \<le> d" "d \<le> of_int res" by (simp_all add: d_def)
  have fres: "round32 (of_int res) = of_int res" "round32 (- of_int res) = - of_int res"
    using single.rnd_int [of res] single.rnd_int [of "- res"] \<open>0 \<le> res\<close> assms(5) by simp_all
  have y: "0 \<le> y" "y \<le> of_int res"
    using single.mono [OF d(1)] single.mono [OF d(2)] single.rnd_0 fres(1) by (simp_all add: y_def)
  have z: "- of_int res \<le> z" "z \<le> of_int res"
    using single.mono [of "- of_int res" "of_int x - y"] single.mono [of "of_int x - y" "of_int res"] fres x y by (simp_all add: z_def)
  have err: "\<bar>y - d\<bar> < 1 / 2 ^ 10" "\<bar>z - (of_int x - y)\<bar> < 1 / 2 ^ 10"
  proof -
    have "\<bar>q\<bar> \<le> 2 ^ 14 \<Longrightarrow> \<bar>round32 q - q\<bar> < 1 / 2 ^ 10" for q
    proof -
      assume "\<bar>q\<bar> \<le> 2 ^ 14"
      then have "q - 1 / 2 ^ 10 < round32 q \<and> round32 q < q + 1 / 2 ^ 10" using single.near_grid [of q 139] by simp
      then show ?thesis unfolding abs_less_iff by linarith
    qed
    moreover have "\<bar>d\<bar> \<le> 2 ^ 14" "\<bar>of_int x - y\<bar> \<le> 2 ^ 14" using d x y res by (simp_all add: abs_le_iff)
    ultimately show "\<bar>y - d\<bar> < 1 / 2 ^ 10" "\<bar>z - (of_int x - y)\<bar> < 1 / 2 ^ 10" by (simp_all only: y_def z_def)
  qed
  have "float_of x = Fin (of_int x)" "float_of ?m = Fin (of_int ?m)" using m assms by (simp_all add: float_of_small)
  moreover have "\<bar>d\<bar> \<le> 2 ^ 24" "\<bar>of_int x - y\<bar> \<le> 2 ^ 24" using d x y res by (simp_all add: abs_le_iff)
  then have "to_float d = Fin y" "to_float (of_int x - y) = Fin z" using to_float_small by (simp_all add: y_def z_def)
  ultimately have "fsub (float_of x) (fdiv (float_of ?m) (Fin 1000)) = Fin z" by (simp add: fsub_def d_def)
  moreover define n where "n = (if z < 0 then \<lceil>z\<rceil> else \<lfloor>z\<rfloor>)"
  have n: "- res \<le> n" "n \<le> res" "\<bar>of_int n - z\<bar> < 1"
  proof -
    have b: "\<lceil>z\<rceil> \<le> res" "- res \<le> \<lfloor>z\<rfloor>" using z by (simp_all add: ceiling_le_iff le_floor_iff)
    note b = b order_trans [OF b(2) floor_le_ceiling] order_trans [OF floor_le_ceiling b(1)]
    show "- res \<le> n" "n \<le> res" unfolding n_def using b by (simp_all only: simp_thms split: if_split)
    show "\<bar>of_int n - z\<bar> < 1" unfolding n_def by (cases "z < 0") (simp_all add: abs_less_iff; linarith)+
  qed
  ultimately have "aim x c res = Inr n" using m assms(5) by (simp add: aim_def n_def Let_def)
  moreover have "(1 :: rat) / 2 ^ 10 < 1 / 4" by simp
  then have "\<bar>of_int x - of_int n - d\<bar> < 2" using err n(3) by linarith
  ultimately show ?thesis by (auto simp: d_def)
qed

lemma search_flock:
  assumes "flock xres yres s xs" "2 * k \<le> length coords" "k < 2 ^ 32" "list_all (\<lambda>c. 0 \<le> c \<and> c \<le> 1000) coords"
    and "xres \<le> 2 ^ 14" "yres \<le> 2 ^ 14"
  shows "\<exists>t ys r'. penguins_search_destination (list_fuel s) xres yres coords k (s, r) = Inr (t, r') \<and> flock xres yres t ys \<and>
    (if k = 0 then (ys, r') = (xs, r) else thread (aim_penguin xres yres coords k) xs r = Inr (ys, r')) \<and> length ys = length xs"
proof (cases "k = 0")
  case False
  have entry: "unat (a mod of_nat k) * 2 + 1 < length coords" for a :: "32 word"
  proof -
    have "unat (a mod of_nat k) < k"
      using False assms(3) by (simp add: unat_mod_distrib unsigned_of_nat take_bit_nat_eq_self)
    then show ?thesis using assms(2) by linarith
  qed
  have coord: "0 \<le> coords ! i" "coords ! i \<le> 1000" if "i < length coords" for i
    using assms(4) that by (simp_all add: list_all_length)
  have xs: "holds s xs" "list_all (penguin_ok xres yres) xs" using assms(1) by (simp_all add: flock_def)
  have step: "\<exists>q t. aim_penguin xres yres coords k p r = Inr (q, t) \<and> penguin_ok xres yres q"
    if p: "penguin_ok xres yres p" for p r
  proof -
    obtain a t u where r: "myrand r = (a, t, u)" by (metis surj_pair)
    let ?i = "unat (a mod of_nat k) * 2"
    have i: "?i < length coords" "?i + 1 < length coords" using entry [of a] by simp_all
    obtain x where x: "aim (px p) (coords ! ?i) xres = Inr x"
      using aim_ok [of "px p" xres "coords ! ?i"] coord [OF i(1)] p assms(5) by (auto simp: penguin_ok_def)
    obtain y where y: "aim (py p) (coords ! (?i + 1)) yres = Inr y"
      using aim_ok [of "py p" yres "coords ! (?i + 1)"] coord [OF i(2)] p assms(6) by (auto simp: penguin_ok_def)
    have "aim_penguin xres yres coords k p r = Inr (p\<lparr>x_togo := x, y_togo := y, moving := False\<rparr>, t, u)"
      unfolding aim_penguin_def r Let_def prod.case if_P [OF i(2)] x y by simp
    then show ?thesis using p by (simp add: penguin_ok_def frames_ok_def)
  qed
  obtain ys r' where t: "thread (aim_penguin xres yres coords k) xs r = Inr (ys, r')" "length ys = length xs"
    "list_all (penguin_ok xres yres) ys"
    using thread_total [OF xs(2), where f = "aim_penguin xres yres coords k" and s = r, OF step] by blast
  then show ?thesis using False each_penguin_holds [OF aim_blind xs(1) flock_fuel [OF xs(1)] t(1)]
    by (auto simp: penguins_search_destination_def flock_def)
qed (use assms(1) in \<open>auto simp: penguins_search_destination_def\<close>)

section \<open>The program on a plain list\<close>

text \<open>
  The reference for the whole program: the penguins as a plain list in place of the linked list on the heap. A key
  appends ten new penguins, drops the first ten, or changes each; a round moves them one after the other, and its
  picture is one sprite for each, in order.
\<close>

fun flock_key :: "int \<Rightarrow> int \<Rightarrow> int list \<Rightarrow> nat \<Rightarrow> andi_key \<Rightarrow> penguin list \<times> rand \<Rightarrow> (penguin list \<times> rand) res" where
  "flock_key xres yres coords k KSpawn (xs, r) = Inr (xs @ replicate 10 (new_penguin xres yres), r)"
| "flock_key xres yres coords k KDestroy (xs, r) = Inr (drop 10 xs, r)"
| "flock_key xres yres coords k KRevive (xs, r) = Inr (map (\<lambda>p. p\<lparr>moving := True\<rparr>) xs, r)"
| "flock_key xres yres coords k KFormation (xs, r) =
     (if k = 0 then Inr (xs, r) else thread (aim_penguin xres yres coords k) xs r)"
| "flock_key xres yres coords k _ (xs, r) = Inr (xs, r)"

fun flock_pictures ::
  "int \<Rightarrow> int \<Rightarrow> int list \<Rightarrow> nat \<Rightarrow> andi_key list list \<Rightarrow> penguin list \<times> rand \<Rightarrow> blit list list res" where
  "flock_pictures xres yres coords k [] xsr = Inr []"
| "flock_pictures xres yres coords k (keys # rounds) (xs, r) =
     res_bind (thread (move_penguin sheet xres yres 3) xs r) (\<lambda>(xs, r).
     res_bind (fold_res (flock_key xres yres coords k) keys (xs, r)) (\<lambda>xsr.
     res_bind (flock_pictures xres yres coords k rounds xsr) (\<lambda>pics.
       Inr (map (the_blit sheet) xs # pics))))"

text \<open>The number of penguins, as the keys change it, and the numbers shown in the rounds.\<close>

fun key_pop :: "andi_key \<Rightarrow> nat \<Rightarrow> nat" where
  "key_pop KSpawn n = n + 10"
| "key_pop KDestroy n = n - 10"
| "key_pop _ n = n"

fun pop_shown :: "nat \<Rightarrow> andi_key list list \<Rightarrow> int list" where
  "pop_shown n [] = []"
| "pop_shown n (keys # rounds) = int n # pop_shown (fold key_pop keys n) rounds"

definition on_sheet :: "penguin_frame \<Rightarrow> bool" where
  "on_sheet f \<longleftrightarrow> 0 \<le> rect_x f \<and> rect_x f + rect_w f \<le> 400 \<and> 0 \<le> rect_y f \<and> rect_y f + rect_h f \<le> 240"

text \<open>A round drawn as the picture \<open>pic\<close>: in batches of at most 256, from the sheet onto the screen, with its number.\<close>

definition drawn_as :: "int \<Rightarrow> int \<Rightarrow> blit list list \<times> int \<Rightarrow> blit list \<Rightarrow> bool" where
  "drawn_as xres yres out pic \<longleftrightarrow> (case out of (bss, n) \<Rightarrow>
     concat bss = pic \<and> n = int (length pic) \<and> list_all (\<lambda>bs. length bs \<le> 256) bss \<and>
     list_all (\<lambda>(f, x, y). on_sheet f \<and> on_screen xres yres x y) pic)"

lemma sheet_on_sheet: "i < 9 \<Longrightarrow> on_sheet (sheet d ! i)"
  by (cases d) (simp_all add: on_sheet_def sheet_def sheet_frame_def)

lemma draw_flock:
  assumes "holds s xs" "list_all (\<lambda>p. frames_ok sheet p \<and> on_screen xres yres (px p) (py p)) xs" "xs \<noteq> []"
  shows "\<exists>bss. draw_penguins sheet s = Inr bss \<and> drawn_as xres yres (bss, int (length xs)) (map (the_blit sheet) xs)"
proof -
  have "list_all (frames_ok sheet) xs" using assms(2) by (auto simp: list_all_iff)
  from draw_penguins_all [OF assms(1) this assms(3)] obtain bss where
    "draw_penguins sheet s = Inr bss" "concat bss = map (the_blit sheet) xs" "list_all (\<lambda>bs. length bs \<le> 256) bss" by blast
  moreover have "on_sheet (sheet (frameset p) ! frame_at p (frameset p))" if "frames_ok sheet p" for p
    using that by (intro sheet_on_sheet) (simp add: frames_ok_def sheet_def)
  then have "list_all (\<lambda>(f, x, y). on_sheet f \<and> on_screen xres yres x y) (map (the_blit sheet) xs)"
    using assms(2) by (auto simp: list_all_iff the_blit_def)
  ultimately show ?thesis by (simp add: drawn_as_def)
qed

text \<open>Without a penguin the arrays for drawing have no element.\<close>

lemma draw_nobody_faults: "holds s [] \<Longrightarrow> draw_penguins anim s = Inl Fault"
  by (auto simp: draw_penguins_def dest: holds_population)

definition env_ok :: "(heap \<Rightarrow> nat option) \<Rightarrow> andi_env \<Rightarrow> bool" where
  "env_ok calloc e \<longleftrightarrow> ae_calloc e = calloc \<and> ae_anim e = sheet \<and> 40 \<le> ae_xres e \<and> 60 \<le> ae_yres e \<and>
     ae_xres e \<le> 2 ^ 14 \<and> ae_yres e \<le> 2 ^ 14 \<and> list_all (\<lambda>c. 0 \<le> c \<and> c \<le> 1000) (ae_coords e) \<and>
     2 * ae_nr_coords e \<le> length (ae_coords e) \<and> ae_nr_coords e < 2 ^ 32"

abbreviation env_flock :: "andi_env \<Rightarrow> penguin_list \<Rightarrow> penguin list \<Rightarrow> bool" where
  "env_flock e \<equiv> flock (ae_xres e) (ae_yres e)"

abbreviation env_key :: "andi_env \<Rightarrow> andi_key \<Rightarrow> penguin list \<times> rand \<Rightarrow> (penguin list \<times> rand) res" where
  "env_key e \<equiv> flock_key (ae_xres e) (ae_yres e) (ae_coords e) (ae_nr_coords e)"

abbreviation env_pictures :: "andi_env \<Rightarrow> andi_key list list \<Rightarrow> penguin list \<times> rand \<Rightarrow> blit list list res" where
  "env_pictures e \<equiv> flock_pictures (ae_xres e) (ae_yres e) (ae_coords e) (ae_nr_coords e)"

context allocator
begin

lemma spawn_flock:
  assumes "flock xres yres s xs" "0 \<le> xres" "0 \<le> yres"
  shows "\<exists>t. spawn_penguins calloc (new_penguin xres yres) k s = Inr t \<and>
    flock xres yres t (xs @ replicate k (new_penguin xres yres))"
proof -
  have "0 \<le> v sdiv 2 \<and> v sdiv 2 \<le> v" if "0 \<le> v" for v :: int
    using that by (auto simp: signed_divide_int_def sgn_if)
  then have "penguin_ok xres yres (new_penguin xres yres)" "pnext (new_penguin xres yres) = None"
    using assms(2,3) by (simp_all add: penguin_ok_def frames_ok_def new_penguin_def sheet_def)
  then show ?thesis using queue.enter_many [of s xs "new_penguin xres yres" "[0..<k]"] assms(1)
    unfolding flock_def spawn_penguins_def by (force simp: list_all_iff)
qed

lemma destroy_flock:
  assumes "flock xres yres s xs"
  shows "\<exists>t. destroy_penguins k s = Inr t \<and> flock xres yres t (drop k xs)"
  using queue.leave_many [of s xs "[0..<k]"] assms
  unfolding flock_def destroy_penguins_def by (force simp: list_all_iff dest: in_set_dropD)

lemma key_step_flock:
  assumes "env_ok calloc e" "env_flock e (an_list g) xs"
  shows "\<exists>g' ys. andi_key_step e k g = Inr g' \<and> env_key e k (xs, an_rand g) = Inr (ys, an_rand g') \<and>
    env_flock e (an_list g') ys \<and> length ys = key_pop k (length xs) \<and> an_quit g' = (an_quit g \<or> k = KQuit)"
proof (cases k)
  case KSpawn
  then show ?thesis using spawn_flock [OF assms(2), of 10] assms(1) by (auto simp: env_ok_def)
next
  case KDestroy
  then show ?thesis using destroy_flock [OF assms(2), of 10] by auto
next
  case KRevive
  then show ?thesis using revive_flock [OF assms(2)] by auto
next
  case KFormation
  then show ?thesis using search_flock [OF assms(2), of "ae_nr_coords e" "ae_coords e" "an_rand g"] assms(1)
    by (fastforce simp: env_ok_def split: if_splits)
qed (use assms(2) in auto)

lemma keys_flock:
  assumes "env_ok calloc e"
  shows "env_flock e (an_list g) xs \<Longrightarrow> \<exists>g' ys. fold_res (andi_key_step e) keys g = Inr g' \<and>
    fold_res (env_key e) keys (xs, an_rand g) = Inr (ys, an_rand g') \<and>
    env_flock e (an_list g') ys \<and> length ys = fold key_pop keys (length xs) \<and> an_quit g' = (an_quit g \<or> KQuit \<in> set keys)"
proof (induction keys arbitrary: g xs)
  case (Cons k keys)
  obtain u zs where u: "andi_key_step e k g = Inr u" "env_key e k (xs, an_rand g) = Inr (zs, an_rand u)"
    "env_flock e (an_list u) zs" "length zs = key_pop k (length xs)" "an_quit u = (an_quit g \<or> k = KQuit)"
    using key_step_flock [OF assms Cons.prems] by blast
  then show ?case using Cons.IH [OF u(3)] by auto
qed simp

lemma frame_flock:
  assumes "env_ok calloc e" "env_flock e (an_list g) xs" "xs \<noteq> []"
  shows "\<exists>out g' zs ys r. andi_frame e keys g = Inr (out, g') \<and> snd out = int (length xs) \<and>
    thread (move_penguin sheet (ae_xres e) (ae_yres e) 3) xs (an_rand g) = Inr (zs, r) \<and>
    drawn_as (ae_xres e) (ae_yres e) out (map (the_blit sheet) zs) \<and>
    fold_res (env_key e) keys (zs, r) = Inr (ys, an_rand g') \<and>
    env_flock e (an_list g') ys \<and> length ys = fold key_pop keys (length xs) \<and> an_quit g' = (an_quit g \<or> KQuit \<in> set keys)"
proof -
  have e: "ae_anim e = sheet" "40 \<le> ae_xres e" "60 \<le> ae_yres e" using assms(1) by (simp_all add: env_ok_def)
  obtain s zs r where m: "move_penguins (list_fuel (an_list g)) sheet (ae_xres e) (ae_yres e) 3 (an_list g, an_rand g) = Inr (s, r)"
    "thread (move_penguin sheet (ae_xres e) (ae_yres e) 3) xs (an_rand g) = Inr (zs, r)" "length zs = length xs" "holds s zs"
    "list_all (\<lambda>p. frames_ok sheet p \<and> on_screen (ae_xres e) (ae_yres e) (px p) (py p)) zs"
    using move_penguins_flock [OF assms(2) e(2,3)] by blast
  have ne: "zs \<noteq> []" using m(3) assms(3) by auto
  obtain bss where d: "draw_penguins sheet s = Inr bss"
    "drawn_as (ae_xres e) (ae_yres e) (bss, int (length zs)) (map (the_blit sheet) zs)"
    using draw_flock [OF m(4,5) ne] by blast
  have f: "env_flock e s zs"
    using m(4,5) by (auto simp: flock_def list_all_iff penguin_ok_def on_screen_def)
  have "population s = int (length xs)" using holds_population [OF m(4)] m(3) by simp
  moreover obtain g' ys where "fold_res (andi_key_step e) keys (g\<lparr>an_list := s, an_rand := r\<rparr>) = Inr g'"
    "fold_res (env_key e) keys (zs, r) = Inr (ys, an_rand g')" "env_flock e (an_list g') ys"
    "length ys = fold key_pop keys (length xs)" "an_quit g' = (an_quit g \<or> KQuit \<in> set keys)"
    using keys_flock [OF assms(1), of "g\<lparr>an_list := s, an_rand := r\<rparr>" zs keys] f m(3) by auto
  ultimately show ?thesis using m d e(1) by (auto simp: andi_frame_def)
qed

lemma loop_flock:
  assumes "env_ok calloc e" "KQuit \<in> set keys" "KQuit \<notin> set (concat rs)"
  shows "env_flock e (an_list g) xs \<Longrightarrow> \<not> an_quit g \<Longrightarrow> 0 \<notin> set (pop_shown (length xs) (rs @ [keys])) \<Longrightarrow>
    \<exists>outs g' pics ys. andi_loop e (rs @ keys # rest) g = Inr (outs, g') \<and>
    env_pictures e (rs @ [keys]) (xs, an_rand g) = Inr pics \<and> list_all2 (drawn_as (ae_xres e) (ae_yres e)) outs pics \<and>
    map snd outs = pop_shown (length xs) (rs @ [keys]) \<and> env_flock e (an_list g') ys"
  using assms(3)
proof (induction rs arbitrary: g xs)
  case Nil
  then have "xs \<noteq> []" by auto
  then obtain out g' zs ys r where f: "andi_frame e keys g = Inr (out, g')" "snd out = int (length xs)"
    "thread (move_penguin sheet (ae_xres e) (ae_yres e) 3) xs (an_rand g) = Inr (zs, r)"
    "drawn_as (ae_xres e) (ae_yres e) out (map (the_blit sheet) zs)" "fold_res (env_key e) keys (zs, r) = Inr (ys, an_rand g')"
    "env_flock e (an_list g') ys" "an_quit g'"
    using frame_flock [OF assms(1) Nil.prems(1), of keys] assms(2) by blast
  have "andi_loop e (keys # rest) g = Inr ([out], g')"
    using Nil.prems(2) f(1,7) andi_loop.simps [of e "keys # rest" g] andi_loop.simps [of e rest g'] by simp
  then show ?case using f by auto
next
  case (Cons ks rs)
  have "xs \<noteq> []" using Cons.prems(3) by auto
  then obtain out u zs ys r where f: "andi_frame e ks g = Inr (out, u)" "snd out = int (length xs)"
    "thread (move_penguin sheet (ae_xres e) (ae_yres e) 3) xs (an_rand g) = Inr (zs, r)"
    "drawn_as (ae_xres e) (ae_yres e) out (map (the_blit sheet) zs)" "fold_res (env_key e) ks (zs, r) = Inr (ys, an_rand u)"
    "env_flock e (an_list u) ys" "length ys = fold key_pop ks (length xs)" "\<not> an_quit u"
    using frame_flock [OF assms(1) Cons.prems(1), of ks] Cons.prems(2,4) by auto
  obtain outs g' pics ws where r: "andi_loop e (rs @ keys # rest) u = Inr (outs, g')"
    "env_pictures e (rs @ [keys]) (ys, an_rand u) = Inr pics" "list_all2 (drawn_as (ae_xres e) (ae_yres e)) outs pics"
    "map snd outs = pop_shown (length ys) (rs @ [keys])" "env_flock e (an_list g') ws"
    using Cons.IH [OF f(6,8)] Cons.prems(3,4) f(7) by auto
  have "andi_loop e ((ks # rs) @ keys # rest) g = Inr (out # outs, g')"
    using Cons.prems(2) f(1) r(1) andi_loop.simps [of e "ks # (rs @ keys # rest)" g] by simp
  then show ?case using f r by auto
qed

end

section \<open>The destination mask\<close>

definition black :: "(nat \<Rightarrow> nat \<Rightarrow> 32 word) \<Rightarrow> nat \<times> nat \<Rightarrow> bool" where
  "black pixels p \<longleftrightarrow> pixels (fst p) (snd p) AND 0x00FFFFFF = 0"

definition black_points :: "nat \<Rightarrow> nat \<Rightarrow> (nat \<Rightarrow> nat \<Rightarrow> 32 word) \<Rightarrow> (nat \<times> nat) list" where
  "black_points w h pixels = filter (black pixels) (concat (map (\<lambda>y. map (\<lambda>x. (x, y)) [0..<w]) [0..<h]))"

definition point_coords :: "nat \<Rightarrow> nat \<Rightarrow> nat \<times> nat \<Rightarrow> int list" where
  "point_coords w h p = [int (fst p * (1000 div w)), int (snd p * (1000 div h))]"

lemma update_two: "Suc n < length xs \<Longrightarrow> xs[n := a, Suc n := b] = take n xs @ [a, b] @ drop (Suc (Suc n)) xs"
  by (simp add: upd_conv_take_nth_drop [of n] list_update_append min_def)
    (metis Cons_nth_drop_Suc list_update_code(2))

lemma mask_pixels_eq:
  "2 * n \<le> length cs \<Longrightarrow> fold_res (mask_pixel w h pixels) ps (cs, n) =
    (let bs = filter (black pixels) ps in
     if 2 * (n + length bs) \<le> length cs
     then Inr (take (2 * n) cs @ concat (map (point_coords w h) bs) @ drop (2 * (n + length bs)) cs, n + length bs)
     else Inl Fault)"
proof (induction ps arbitrary: cs n)
  case (Cons p ps)
  show ?case
  proof (cases "black pixels p")
    case False
    then have "mask_pixel w h pixels p (cs, n) = Inr (cs, n)" by (simp add: mask_pixel_def black_def case_prod_beta)
    then show ?thesis using Cons False by simp
  next
    case b: True
    show ?thesis
    proof (cases "2 * (n + 1) \<le> length cs")
      case True
      let ?cs = "take (2 * n) cs @ point_coords w h p @ drop (2 * (n + 1)) cs"
      have "mask_pixel w h pixels p (cs, n) = Inr (?cs, n + 1)"
        using b True update_two [of "2 * n" cs] by (simp add: mask_pixel_def black_def point_coords_def mult.commute case_prod_beta)
      moreover have "length ?cs = length cs" using True by (simp add: point_coords_def)
      moreover have "take (2 * (n + 1)) ?cs = take (2 * n) cs @ point_coords w h p" using True by (simp add: point_coords_def)
      moreover have "drop (2 * (n + 1 + k)) ?cs = drop (2 * (n + 1 + k)) cs" for k
        using True by (simp add: point_coords_def add.commute)
      ultimately show ?thesis using Cons.IH [of "n + 1" ?cs] b True by (simp add: Let_def del: take_append drop_append)
    next
      case False
      then have "mask_pixel w h pixels p (cs, n) = Inl Fault" using b by (simp add: mask_pixel_def black_def case_prod_beta)
      then show ?thesis using False b by (simp add: Let_def)
    qed
  qed
qed simp

lemma read_mask_points:
  "read_destination_mask True w h pixels 0 =
    (let bs = black_points w h pixels in
     if 2 * length bs \<le> w * h
     then Inr (concat (map (point_coords w h) bs) @ replicate (w * h - 2 * length bs) 0, length bs)
     else Inl Fault)"
proof -
  have "fold_res (\<lambda>y. fold_res (\<lambda>x. mask_pixel w h pixels (x, y)) [0..<w]) [0..<h] s =
    fold_res (mask_pixel w h pixels) (concat (map (\<lambda>y. map (\<lambda>x. (x, y)) [0..<w]) [0..<h])) s" for s
    unfolding fold_res_concat fold_res_map ..
  then show ?thesis using mask_pixels_eq [of 0 "replicate (w * h) 0" w h pixels]
    by (simp add: read_destination_mask_def black_points_def Let_def)
qed

text \<open>
  C30. Reading the destination mask: the array has one integer per pixel, and every black pixel takes two. When at most half
  of the pixels are black it holds the points, scaled to a thousand, in the order of the rows; otherwise the array is overrun.
\<close>

theorem read_destination_mask_result:
  "read_destination_mask True w h pixels 0 =
    (let bs = black_points w h pixels in
     if 2 * length bs \<le> w * h
     then Inr (concat (map (point_coords w h) bs) @ replicate (w * h - 2 * length bs) 0, length bs)
     else Inl Fault)"
  by (rule read_mask_points)

text \<open>Every coordinate is at most a thousand.\<close>

lemma point_coords_range:
  assumes "p \<in> set (black_points w h pixels)" "c \<in> set (point_coords w h p)"
  shows "0 \<le> c \<and> c \<le> 1000"
proof -
  have p: "fst p < w" "snd p < h" using assms(1) by (auto simp: black_points_def)
  have "x * (1000 div n) \<le> 1000" if "x < n" for x n :: nat
  proof -
    have "x * (1000 div n) \<le> n * (1000 div n)" using that by (intro mult_le_mono1) simp
    also have "\<dots> \<le> 1000" by simp
    finally show ?thesis .
  qed
  from this [OF p(1)] this [OF p(2)] show ?thesis using assms(2) unfolding point_coords_def by (auto simp del: of_nat_mult)
qed

lemma mask_coords:
  assumes "2 * length (black_points w h pixels) \<le> w * h" "w * h < 2 ^ 31"
  shows "\<exists>coords k. read_destination_mask lock_ok w h pixels 0 = Inr (coords, k) \<and> 2 * k \<le> length coords \<and> k < 2 ^ 32 \<and>
    list_all (\<lambda>c. 0 \<le> c \<and> c \<le> 1000) coords"
proof (cases lock_ok)
  case True
  let ?bs = "black_points w h pixels"
  let ?cs = "concat (map (point_coords w h) ?bs) @ replicate (w * h - 2 * length ?bs) 0"
  have "length (concat (map (point_coords w h) bs)) = 2 * length bs" for bs by (induction bs) (simp_all add: point_coords_def)
  then have "2 * length ?bs \<le> length ?cs" by simp
  moreover have "list_all (\<lambda>c. 0 \<le> c \<and> c \<le> 1000) ?cs" using point_coords_range by (auto simp: list_all_iff)
  moreover have "length ?bs < 2 ^ 32" using assms by simp
  moreover have "read_destination_mask lock_ok w h pixels 0 = Inr (?cs, length ?bs)"
    using read_mask_points [of w h pixels] True assms(1) by (simp add: Let_def)
  ultimately show ?thesis by blast
qed (simp add: read_destination_mask_def Let_def list_all_iff)

section \<open>The whole program\<close>

text \<open>From reading the mask to the end, whatever keys are pressed until one that quits, the pictures are those of the
  reference.\<close>

lemma andi_main_runs:
  assumes "allocator calloc" "40 \<le> xres" "60 \<le> yres" "xres \<le> 2 ^ 14" "yres \<le> 2 ^ 14" "2 * length (black_points w h pixels) \<le> w * h" "w * h < 2 ^ 31"
    and "map (map (event_action lower)) events = rs @ keys # rest"
    and "KQuit \<in> set keys" "KQuit \<notin> set (concat rs)" "0 \<notin> set (pop_shown 200 (rs @ [keys]))"
  shows "\<exists>coords k outs s pics. read_destination_mask lock_ok w h pixels 0 = Inr (coords, k) \<and>
    andi_main calloc True lock_ok xres yres w h pixels lower events = Inr (42, outs, s) \<and>
    flock_pictures xres yres coords k (rs @ [keys]) (replicate 200 (new_penguin xres yres), rand_start) = Inr pics \<and>
    list_all2 (drawn_as xres yres) outs pics \<and> map snd outs = pop_shown 200 (rs @ [keys]) \<and> pheap s = (\<lambda>_. None)"
proof -
  obtain coords k where m: "read_destination_mask lock_ok w h pixels 0 = Inr (coords, k)" "2 * k \<le> length coords" "k < 2 ^ 32"
    "list_all (\<lambda>c. 0 \<le> c \<and> c \<le> 1000) coords" using mask_coords [OF assms(6,7)] by blast
  let ?xs = "replicate 200 (new_penguin xres yres)"
  have "flock xres yres no_penguins []" using holds_no_penguins by (simp add: flock_def)
  from allocator.spawn_flock [OF assms(1) this, of 200] assms(2,3) obtain s where
    s: "spawn_penguins calloc (new_penguin xres yres) 200 no_penguins = Inr s" "flock xres yres s ?xs" by auto
  let ?e = "\<lparr>ae_calloc = calloc, ae_xres = xres, ae_yres = yres, ae_anim = sheet, ae_coords = coords, ae_nr_coords = k\<rparr>"
  let ?g = "\<lparr>an_list = s, an_rand = rand_start, an_clipping = False, an_quit = False\<rparr>"
  have "env_ok calloc ?e" using assms(2-5) m(2-4) by (simp add: env_ok_def)
  from allocator.loop_flock [OF assms(1) this assms(9,10), of ?g ?xs rest] s(2) assms(11) obtain outs g pics ys where
    l: "andi_loop ?e (rs @ keys # rest) ?g = Inr (outs, g)"
      "flock_pictures xres yres coords k (rs @ [keys]) (?xs, rand_start) = Inr pics"
      "list_all2 (drawn_as xres yres) outs pics" "map snd outs = pop_shown 200 (rs @ [keys])" "flock xres yres (an_list g) ys"
    by auto
  have ys: "holds (an_list g) ys" using l(5) by (simp add: flock_def)
  with destroy_all_penguins_frees [OF ys, of "list_fuel (an_list g)"] flock_fuel [OF ys] obtain t where
    "destroy_all_penguins (list_fuel (an_list g)) (an_list g) = Inr t" "pheap t = (\<lambda>_. None)" by auto
  then have "andi_main calloc True lock_ok xres yres w h pixels lower events = Inr (42, outs, t)"
    using m(1) s(1) l(1) assms(8) by (simp add: andi_main_def animation_sheet)
  then show ?thesis using m(1) l(2-4) \<open>pheap t = (\<lambda>_. None)\<close> by blast
qed

section \<open>Reaching a formation\<close>

text \<open>One axis of a move: the position and the distance left.\<close>

definition axis_move :: "int \<Rightarrow> int \<Rightarrow> int \<times> int \<Rightarrow> int \<times> int" where
  "axis_move step limit xt =
     (let t = settle step (snd xt) in (clip limit (fst xt - sgn t * step), t - sgn t * step))"

lemma clip_inside [simp]: "0 \<le> v \<Longrightarrow> v \<le> limit \<Longrightarrow> clip limit v = v"
  by (simp add: clip_def)

lemma whole_steps:
  fixes t step :: int
  assumes "0 < step" "int k \<le> \<bar>t\<bar> div step"
  shows "step * int k \<le> \<bar>t\<bar>"
proof -
  have "step * int k \<le> step * (\<bar>t\<bar> div step)" using assms by (intro mult_left_mono) simp_all
  moreover have "step * (\<bar>t\<bar> div step) + \<bar>t\<bar> mod step = \<bar>t\<bar>" by (rule mult_div_mod_eq)
  ultimately show ?thesis using pos_mod_sign [OF assms(1), of "\<bar>t\<bar>"] by linarith
qed

lemma still_far:
  fixes t Q step :: int
  assumes "step + Q \<le> \<bar>t\<bar>" "0 \<le> Q" "0 < step"
  shows "settle step (t - sgn t * Q) = t - sgn t * Q" "t - sgn t * Q \<noteq> 0" "sgn (t - sgn t * Q) = sgn t"
  using assms by (auto simp: settle_def sgn_if abs_if split: if_splits)

lemma still_inside:
  fixes t x Q step limit :: int
  assumes "step + Q \<le> \<bar>t\<bar>" "0 \<le> Q" "0 < step" "0 \<le> x" "x \<le> limit" "0 \<le> x - t" "x - t \<le> limit"
  shows "0 \<le> x - sgn t * (step + Q)" "x - sgn t * (step + Q) \<le> limit"
  using assms by (auto simp: sgn_if abs_if split: if_splits)

lemma axis_walks:
  assumes "0 < step" "0 \<le> x" "x \<le> limit" "0 \<le> x - t" "x - t \<le> limit"
  shows "int k \<le> \<bar>t\<bar> div step \<Longrightarrow> (axis_move step limit ^^ k) (x, t) = (x - sgn t * step * int k, t - sgn t * step * int k)"
proof (induction k)
  case (Suc k)
  have b: "step * int (Suc k) \<le> \<bar>t\<bar>" using whole_steps [OF assms(1) Suc.prems] .
  let ?t = "t - sgn t * step * int k"
  have IH: "(axis_move step limit ^^ k) (x, t) = (x - sgn t * step * int k, ?t)" using Suc by simp
  have nn: "0 \<le> step * int k" using assms(1) by simp
  have b': "step + step * int k \<le> \<bar>t\<bar>" using b by (simp add: distrib_left)
  note far = still_far [OF b' nn assms(1)] and inside = still_inside [OF b' nn assms]
  have e: "sgn t * step * int k = sgn t * (step * int k)" by (simp only: mult.assoc)
  have "(axis_move step limit ^^ Suc k) (x, t) = axis_move step limit (x - sgn t * (step * int k), t - sgn t * (step * int k))"
    using IH by (simp only: funpow.simps comp_apply e)
  also have "\<dots> = (clip limit (x - sgn t * (step * int k) - sgn t * step), t - sgn t * (step * int k) - sgn t * step)"
    unfolding axis_move_def Let_def fst_conv snd_conv far(1,3) ..
  also have "x - sgn t * (step * int k) - sgn t * step = x - sgn t * (step + step * int k)" by (simp add: distrib_left)
  finally show ?case using inside by (simp add: distrib_left mult.assoc)
qed simp

lemma axis_stays: "0 < step \<Longrightarrow> 0 \<le> x \<Longrightarrow> x \<le> limit \<Longrightarrow> \<bar>t\<bar> < step \<Longrightarrow> (axis_move step limit ^^ Suc k) (x, t) = (x, 0)"
  by (induction k) (simp_all add: axis_move_def settle_def)

lemma axis_remainder:
  fixes t x Q m step limit :: int
  assumes "\<bar>t\<bar> = Q + m" "0 \<le> m" "m < step" "0 \<le> Q" "0 \<le> x" "x \<le> limit" "0 \<le> x - t" "x - t \<le> limit"
  shows "\<bar>t - sgn t * Q\<bar> < step" "0 \<le> x - sgn t * Q" "x - sgn t * Q \<le> limit" "\<bar>x - sgn t * Q - (x - t)\<bar> < step"
  using assms by (auto simp: sgn_if abs_if split: if_splits)

text \<open>After enough moves an axis is less than a step from its place, and stays there.\<close>

lemma axis_arrives:
  assumes "0 < step" "0 \<le> x" "x \<le> limit" "0 \<le> x - t" "x - t \<le> limit" "\<bar>t\<bar> div step \<le> int k"
  shows "\<bar>fst ((axis_move step limit ^^ k) (x, t)) - (x - t)\<bar> < step"
proof -
  let ?q = "nat (\<bar>t\<bar> div step)"
  have q: "int ?q = \<bar>t\<bar> div step" using assms(1) by (simp add: pos_imp_zdiv_nonneg_iff)
  let ?x = "x - sgn t * step * int ?q" and ?t = "t - sgn t * step * int ?q"
  have at: "(axis_move step limit ^^ ?q) (x, t) = (?x, ?t)" using axis_walks [OF assms(1-5), of ?q] q by simp
  have m: "\<bar>t\<bar> = step * int ?q + \<bar>t\<bar> mod step" "0 \<le> \<bar>t\<bar> mod step" "\<bar>t\<bar> mod step < step"
    using assms(1) unfolding q by (simp_all add: mult_div_mod_eq)
  have nn: "0 \<le> step * int ?q" using assms(1) by (intro mult_nonneg_nonneg) simp_all
  have r: "\<bar>?t\<bar> < step" "0 \<le> ?x" "?x \<le> limit" "\<bar>?x - (x - t)\<bar> < step"
    using axis_remainder [OF m nn assms(2-5)] by (simp_all only: mult.assoc)
  obtain d where d: "k = d + ?q" using assms(6) q by (metis add.commute le_Suc_ex of_nat_le_iff)
  show ?thesis
  proof (cases d)
    case 0
    then show ?thesis using d at r(4) by simp
  next
    case (Suc e)
    have "(axis_move step limit ^^ k) (x, t) = (axis_move step limit ^^ Suc e) (?x, ?t)"
      unfolding d Suc funpow_add comp_def at ..
    then show ?thesis using axis_stays [OF assms(1) r(2,3,1), of e] r(4) by (simp del: funpow.simps)
  qed
qed

lemma walk_axis:
  assumes "0 < step" "x_togo p = settle step t"
  shows "px (walk_x step p) = px p - sgn (x_togo p) * step" "x_togo (walk_x step p) = x_togo p - sgn (x_togo p) * step"
  using assms by (auto simp: walk_x_def settle_def sgn_if split: if_splits)

lemma walk_axis_y:
  assumes "0 < step" "y_togo p = settle step t"
  shows "py (walk_y step p) = py p - sgn (y_togo p) * step" "y_togo (walk_y step p) = y_togo p - sgn (y_togo p) * step"
  using assms by (auto simp: walk_y_def settle_def sgn_if split: if_splits)

lemma walk_other [simp]:
  "py (walk_x s p) = py p" "y_togo (walk_x s p) = y_togo p" "px (walk_y s p) = px p" "x_togo (walk_y s p) = x_togo p"
  by (simp_all add: walk_x_def walk_y_def Let_def)

lemma move_axes:
  assumes "frames_ok sheet p" "0 < step" "settle step (x_togo p) \<noteq> 0 \<or> settle step (y_togo p) \<noteq> 0"
  shows "\<exists>q. move_penguin sheet xres yres step p r = Inr (q, r) \<and> frames_ok sheet q \<and>
    (px q, x_togo q) = axis_move step (xres - 40) (px p, x_togo p) \<and> (py q, y_togo q) = axis_move step (yres - 60) (py p, y_togo p)"
proof -
  let ?p = "p\<lparr>x_togo := settle step (x_togo p), y_togo := settle step (y_togo p)\<rparr>"
  let ?w = "walk_y step (walk_x step ?p)"
  let ?c = "?w\<lparr>px := clip (xres - 40) (px ?w), py := clip (yres - 60) (py ?w)\<rparr>"
  have "arrive ?p r = (?p, r)" using assms(3) by (auto simp: arrive_def)
  moreover have "frames_ok sheet ?c" using assms(1) by (simp add: frames_ok_def)
  from next_frame_ok [OF this] obtain d n where
    "next_frame sheet ?c = Inr (?c\<lparr>frame_at := d, delay := n\<rparr>)" "frames_ok sheet (?c\<lparr>frame_at := d, delay := n\<rparr>)" by blast
  moreover have "px ?w = px p - sgn (settle step (x_togo p)) * step" "x_togo ?w = settle step (x_togo p) - sgn (settle step (x_togo p)) * step"
    using walk_axis [OF assms(2), of ?p "x_togo p"] by simp_all
  moreover have "py ?w = py p - sgn (settle step (y_togo p)) * step" "y_togo ?w = settle step (y_togo p) - sgn (settle step (y_togo p)) * step"
    using walk_axis_y [OF assms(2), of "walk_x step ?p" "y_togo p"] by simp_all
  ultimately show ?thesis by (simp add: move_penguin_def axis_move_def Let_def)
qed

definition moves ::
  "int \<Rightarrow> int \<Rightarrow> int \<Rightarrow> nat \<Rightarrow> penguin \<times> rand \<Rightarrow> (penguin \<times> rand) res" where
  "moves xres yres step n = fold_res (\<lambda>_ (p, r). move_penguin sheet xres yres step p r) [0..<n]"

lemma moves_axes:
  assumes "frames_ok sheet p" "0 < step" "on_screen xres yres (px p) (py p)"
    and "on_screen xres yres (px p - x_togo p) (py p - y_togo p)"
  shows "int n \<le> max (\<bar>x_togo p\<bar> div step) (\<bar>y_togo p\<bar> div step) \<Longrightarrow> \<exists>q. moves xres yres step n (p, r) = Inr (q, r) \<and>
    frames_ok sheet q \<and> (px q, x_togo q) = (axis_move step (xres - 40) ^^ n) (px p, x_togo p) \<and>
    (py q, y_togo q) = (axis_move step (yres - 60) ^^ n) (py p, y_togo p)"
proof (induction n)
  case 0
  then show ?case using assms(1) by (simp add: moves_def)
next
  case (Suc n)
  then obtain q where q: "moves xres yres step n (p, r) = Inr (q, r)" "frames_ok sheet q"
    "(px q, x_togo q) = (axis_move step (xres - 40) ^^ n) (px p, x_togo p)"
    "(py q, y_togo q) = (axis_move step (yres - 60) ^^ n) (py p, y_togo p)" by auto
  have far: "settle step (t - sgn t * step * int n) \<noteq> 0" if "int (Suc n) \<le> \<bar>t\<bar> div step" for t
  proof -
    have "step * int (Suc n) \<le> \<bar>t\<bar>" using whole_steps [OF assms(2) that] .
    then have "step + step * int n \<le> \<bar>t\<bar>" by (simp add: distrib_left)
    moreover have "0 \<le> step * int n" using assms(2) by simp
    ultimately show ?thesis using still_far [of step "step * int n" t] assms(2) by (simp only: mult.assoc not_False_eq_True)
  qed
  have "settle step (x_togo q) \<noteq> 0 \<or> settle step (y_togo q) \<noteq> 0"
  proof (cases "int (Suc n) \<le> \<bar>x_togo p\<bar> div step")
    case True
    then show ?thesis using far [OF True] q(3) axis_walks [OF assms(2), of "px p" "xres - 40" "x_togo p" n] assms(3,4)
      by (simp add: on_screen_def)
  next
    case False
    then have y: "int (Suc n) \<le> \<bar>y_togo p\<bar> div step" using Suc.prems by linarith
    then show ?thesis using far [OF y] q(4) axis_walks [OF assms(2), of "py p" "yres - 60" "y_togo p" n] assms(3,4)
      by (simp add: on_screen_def)
  qed
  from move_axes [OF q(2) assms(2) this, of xres yres r] obtain u where
    "move_penguin sheet xres yres step q r = Inr (u, r)" "frames_ok sheet u"
    "(px u, x_togo u) = axis_move step (xres - 40) (px q, x_togo q)" "(py u, y_togo u) = axis_move step (yres - 60) (py q, y_togo q)"
    by blast
  then show ?case using q by (simp add: moves_def fold_res_append)
qed

text \<open>A penguin less than a step from its place, which may be any on the screen.\<close>

lemma penguin_reaches_place:
  assumes "frames_ok sheet p" "0 < step" "on_screen xres yres (px p) (py p)"
    and "on_screen xres yres (px p - x_togo p) (py p - y_togo p)"
  shows "\<exists>q. moves xres yres step (nat (max (\<bar>x_togo p\<bar> div step) (\<bar>y_togo p\<bar> div step))) (p, r) = Inr (q, r) \<and>
    \<bar>px q - (px p - x_togo p)\<bar> < step \<and> \<bar>py q - (py p - y_togo p)\<bar> < step"
proof -
  let ?n = "nat (max (\<bar>x_togo p\<bar> div step) (\<bar>y_togo p\<bar> div step))"
  have n: "int ?n = max (\<bar>x_togo p\<bar> div step) (\<bar>y_togo p\<bar> div step)"
    using assms(2) by (simp add: pos_imp_zdiv_nonneg_iff max_def)
  obtain q where q: "moves xres yres step ?n (p, r) = Inr (q, r)"
    "(px q, x_togo q) = (axis_move step (xres - 40) ^^ ?n) (px p, x_togo p)"
    "(py q, y_togo q) = (axis_move step (yres - 60) ^^ ?n) (py p, y_togo p)"
    using moves_axes [OF assms, of ?n r] n by auto
  have "\<bar>fst (px q, x_togo q) - (px p - x_togo p)\<bar> < step"
    unfolding q(2) using assms(2-4) n by (intro axis_arrives) (simp_all add: on_screen_def)
  moreover have "\<bar>fst (py q, y_togo q) - (py p - y_togo p)\<bar> < step"
    unfolding q(3) using assms(2-4) n by (intro axis_arrives) (simp_all add: on_screen_def)
  ultimately show ?thesis using q(1) by auto
qed

text \<open>
  C29. A penguin sent to a point of a formation gets there: when the point, scaled from thousandths to the screen, is at
  least two pixels inside the area in which penguins stay, then after as many moves as the longer of its two ways has
  steps the penguin is less than a step and two pixels from it, on both axes.
\<close>

theorem formation_reached:
  assumes "frames_ok sheet p" "0 < step" "on_screen xres yres (px p) (py p)" "xres \<le> 2 ^ 14" "yres \<le> 2 ^ 14"
    and "myrand r = (a, r')" "entry = unat (a mod of_nat k) * 2" "entry + 1 < length coords"
    and "list_all (\<lambda>c. 0 \<le> c \<and> c \<le> 1000) coords"
    and "2000 \<le> coords ! entry * xres" "coords ! entry * xres \<le> 1000 * (xres - 42)"
    and "2000 \<le> coords ! (entry + 1) * yres" "coords ! (entry + 1) * yres \<le> 1000 * (yres - 62)"
  shows "\<exists>p' n q. aim_penguin xres yres coords k p r = Inr (p', r') \<and> moves xres yres step n (p', r') = Inr (q, r') \<and>
    int n = max (\<bar>x_togo p'\<bar> div step) (\<bar>y_togo p'\<bar> div step) \<and>
    \<bar>of_int (px q) - of_int (coords ! entry * xres) / 1000\<bar> < (of_int step + 2 :: rat) \<and>
    \<bar>of_int (py q) - of_int (coords ! (entry + 1) * yres) / 1000\<bar> < (of_int step + 2 :: rat)"
proof -
  have coord: "0 \<le> coords ! i" "coords ! i \<le> 1000" if "i < length coords" for i
    using assms(9) that by (simp_all add: list_all_length)
  have pos: "0 \<le> px p" "px p \<le> xres" "0 \<le> py p" "py p \<le> yres" using assms(3) by (simp_all add: on_screen_def)
  have i: "entry < length coords" using assms(8) by simp
  obtain x where x: "aim (px p) (coords ! entry) xres = Inr x" "\<bar>of_int (px p - x) - of_int (coords ! entry * xres) / 1000\<bar> < (2 :: rat)"
    using aim_ok [OF pos(1,2) coord [OF i] assms(4)] by blast
  obtain y where y: "aim (py p) (coords ! (entry + 1)) yres = Inr y"
    "\<bar>of_int (py p - y) - of_int (coords ! (entry + 1) * yres) / 1000\<bar> < (2 :: rat)"
    using aim_ok [OF pos(3,4) coord [OF assms(8)] assms(5)] by blast
  let ?p = "p\<lparr>x_togo := x, y_togo := y, moving := False\<rparr>"
  have aimed: "aim_penguin xres yres coords k p r = Inr (?p, r')"
    unfolding aim_penguin_def assms(6) Let_def prod.case assms(7) [symmetric] if_P [OF assms(8)] x(1) y(1) by simp
  have inside: "0 \<le> v \<and> v \<le> res - m"
    if "\<bar>of_int v - of_int c / 1000\<bar> < (2 :: rat)" "2000 \<le> c" "c \<le> 1000 * (res - (m + 2))" for v c res m :: int
  proof -
    have "(of_int c :: rat) \<le> of_int (1000 * (res - (m + 2)))" "(2000 :: rat) \<le> of_int c"
      using that(2,3) by (simp_all only: of_int_le_iff of_int_numeral_le_iff)
    then have "(of_int 0 :: rat) < of_int v" "(of_int v :: rat) < of_int (res - m)" using that(1) by (simp_all add: abs_less_iff)
    then show ?thesis by (simp_all only: of_int_less_iff) linarith
  qed
  have place: "on_screen xres yres (px ?p - x_togo ?p) (py ?p - y_togo ?p)"
    using inside [OF x(2) assms(10), of xres 40] inside [OF y(2) assms(12), of yres 60] assms(11,13) by (simp add: on_screen_def)
  let ?n = "nat (max (\<bar>x_togo ?p\<bar> div step) (\<bar>y_togo ?p\<bar> div step))"
  have n: "int ?n = max (\<bar>x_togo ?p\<bar> div step) (\<bar>y_togo ?p\<bar> div step)"
    using assms(2) by (simp add: pos_imp_zdiv_nonneg_iff max_def)
  have "frames_ok sheet ?p" "on_screen xres yres (px ?p) (py ?p)" using assms(1,3) by (simp_all add: frames_ok_def)
  from penguin_reaches_place [OF this(1) assms(2) this(2) place, of r'] obtain q where
    q: "moves xres yres step ?n (?p, r') = Inr (q, r')" "\<bar>px q - (px p - x)\<bar> < step" "\<bar>py q - (py p - y)\<bar> < step" by auto
  have near: "\<bar>of_int u - d\<bar> < of_int step + 2" if "\<bar>of_int v - d\<bar> < (2 :: rat)" "\<bar>u - v\<bar> < step" for u v d
  proof -
    have "\<bar>of_int u - of_int v :: rat\<bar> < of_int step" using that(2) by (simp only: of_int_diff [symmetric] of_int_abs [symmetric] of_int_less_iff)
    then show ?thesis using that(1) by linarith
  qed
  show ?thesis using aimed q(1) n near [OF x(2) q(2)] near [OF y(2) q(3)] by blast
qed

theorem formation_reached_witness:
  "\<exists>p' n q. aim_penguin 640 400 [500, 250] 1 (new_penguin 640 400) rand_start = Inr (p', snd (myrand rand_start)) \<and>
    moves 640 400 3 n (p', snd (myrand rand_start)) = Inr (q, snd (myrand rand_start)) \<and>
    \<bar>of_int (px q) - 320\<bar> < (5 :: rat) \<and> \<bar>of_int (py q) - 100\<bar> < (5 :: rat)"
proof -
  let ?p = "new_penguin 640 400"
  have "frames_ok sheet ?p" by (simp add: frames_ok_def new_penguin_def sheet_def)
  from formation_reached [OF this, of 3 640 400 rand_start "fst (myrand rand_start)" "snd (myrand rand_start)" 0 1 "[500, 250]"]
  show ?thesis by (simp add: on_screen_def new_penguin_def signed_divide_int_def) blast
qed

end
