(* ===== verification/Directfb.thy ===== *)
theory Directfb
  imports Resources
begin

text \<open>
  What the programs of \<open>patches/code/fbview2\<close> ask of DirectFB: the start and end of \<open>df_andi.c\<close>
  (\<open>init_resources\<close>, \<open>deinit_resources\<close>) and the viewer \<open>fbview.c\<close>. The library is a record of its answers: a
  function gives its result, 0 for \<open>DFB_OK\<close>, and what it writes through its pointers. Interfaces are
  resources whose creation and release is recorded. A static pointer to an interface that was never created
  is \<open>NULL\<close>, and a call through it is \<open>Fault\<close>. \<open>SetCooperativeLevel\<close>, whose error is only reported, is left out.
\<close>

section \<open>The library\<close>

datatype buffers = SingleBuffer | DoubleBuffer | TripleBuffer

datatype dfb_object = Super | KeyBuffer | Layer | Primary | Font | Provider | TuxImage | Background | DestinationMask

record dfb_lib =
  DirectFBErrorFatal :: "nat \<Rightarrow> nat"
  DirectFBInit :: "string list \<Rightarrow> nat \<times> string list"
  DirectFBCreate :: nat
  CreateInputEventBuffer :: nat
  GetDisplayLayer :: nat
  TestConfiguration :: bool
  CreatePrimary :: "buffers \<Rightarrow> nat"
  GetSize :: "nat \<times> int \<times> int"
  CreateFont :: nat
  GetHeight :: "nat \<times> int"
  SetFont :: nat
  CreateImageProvider :: "string option \<Rightarrow> nat"
  GetSurfaceDescription :: "string option \<Rightarrow> nat \<times> int \<times> int"
  CreateSurface :: "int \<times> int \<Rightarrow> nat"
  RenderTo :: "string option \<Rightarrow> int \<times> int \<Rightarrow> nat"

text \<open>The macro \<open>DFBCHECK\<close>: \<open>DirectFBErrorFatal\<close> ends the program with a code of the library.\<close>

definition DFBCHECK :: "dfb_lib \<Rightarrow> nat \<Rightarrow> 'a res \<Rightarrow> 'a res" where
  "DFBCHECK lib err k = (if err \<noteq> 0 then Inl (Exit (DirectFBErrorFatal lib err)) else k)"

text \<open>An image is loaded into a new surface in the same steps everywhere: \<open>resize\<close> gives the size of the
  surface from that of the image. The trace grows by the provider and the surface.\<close>

definition load_surface ::
  "dfb_lib \<Rightarrow> string option \<Rightarrow> (int \<times> int \<Rightarrow> int \<times> int) \<Rightarrow> dfb_object \<Rightarrow> dfb_object rev list \<Rightarrow>
   ((int \<times> int) \<times> dfb_object rev list) res" where
  "load_surface lib f resize obj tr =
     DFBCHECK lib (CreateImageProvider lib f) (
     case GetSurfaceDescription lib f of (err, dsc) \<Rightarrow>
     DFBCHECK lib err (
     let dsc = resize dsc in
     DFBCHECK lib (CreateSurface lib dsc) (
     DFBCHECK lib (RenderTo lib f dsc) (
       Inr (dsc, tr @ [Acq Provider, Acq obj, Rel Provider])))))"

section \<open>df\_andi\<close>

record andi_start =
  as_trace :: "dfb_object rev list"
  as_alpha :: bool
  as_triple :: bool
  as_xres :: int
  as_yres :: int
  as_fontheight :: int
  as_tux :: "int \<times> int"
  as_background :: "int \<times> int"
  as_mask :: "int \<times> int"

text \<open>The primary surface: with triple buffering when the layer supports it, and again without when that
  fails. The result tells whether triple buffering is used, and whether there is a surface: the error of
  the attempt without triple buffering is not looked at.\<close>

definition create_primary :: "dfb_lib \<Rightarrow> (bool \<times> bool) res" where
  "create_primary lib =
     (let triple = TestConfiguration lib;
          err = CreatePrimary lib (if triple then TripleBuffer else DoubleBuffer) in
      if triple \<and> err \<noteq> 0 then DFBCHECK lib (CreatePrimary lib DoubleBuffer) (Inr (False, True))
      else Inr (triple, err = 0))"

definition init_resources :: "dfb_lib \<Rightarrow> string \<Rightarrow> string list \<Rightarrow> andi_start res" where
  "init_resources lib datadir argv =
     (case DirectFBInit lib argv of (err, argv) \<Rightarrow>
      DFBCHECK lib err (
      let alpha = (length argv > 1 \<and> argv ! 1 = ''-a'') in
      DFBCHECK lib (DirectFBCreate lib) (
      DFBCHECK lib (CreateInputEventBuffer lib) (
      DFBCHECK lib (GetDisplayLayer lib) (
      res_bind (create_primary lib) (\<lambda>(triple, primary).
      if \<not> primary then Inl Fault else
      case GetSize lib of (err, xres, yres) \<Rightarrow>
      DFBCHECK lib err (
      DFBCHECK lib (CreateFont lib) (
      case GetHeight lib of (err, fontheight) \<Rightarrow>
      DFBCHECK lib err (
      DFBCHECK lib (SetFont lib) (
      res_bind (load_surface lib (Some (datadir @ (if alpha then ''/tux_alpha.png'' else ''/tux.png''))) (\<lambda>dsc. dsc) TuxImage
        [Acq Super, Acq KeyBuffer, Acq Layer, Rel Layer, Acq Primary, Acq Font]) (\<lambda>(tux, tr).
      res_bind (load_surface lib (Some (datadir @ ''/wood_andi.jpg'')) (\<lambda>_. (xres, yres)) Background tr) (\<lambda>(background, tr).
      res_bind (load_surface lib (Some (datadir @ ''/destination_mask.png'')) (\<lambda>dsc. dsc) DestinationMask tr) (\<lambda>(mask, tr).
        Inr \<lparr>as_trace = tr, as_alpha = alpha, as_triple = triple, as_xres = xres, as_yres = yres, as_fontheight = fontheight,
          as_tux = tux, as_background = background, as_mask = mask\<rparr>)))))))))))))"

definition deinit_resources :: "dfb_object rev list" where
  "deinit_resources = map Rel [TuxImage, Background, DestinationMask, Primary, KeyBuffer, Font, Super]"

section \<open>The viewer\<close>

text \<open>The return value, the interfaces and the size the image is drawn with on the screen. After
  \<open>DirectFBInit\<close> \<open>argv[1]\<close> may be the \<open>NULL\<close> that ends the arguments.\<close>

definition fbview2_main :: "dfb_lib \<Rightarrow> string list \<Rightarrow> (int \<times> dfb_object rev list \<times> (int \<times> int) option) res" where
  "fbview2_main lib argv =
     (if length argv = 1 then Inr (1, [], None)
      else case DirectFBInit lib argv of (err, argv) \<Rightarrow>
      DFBCHECK lib err (
      DFBCHECK lib (DirectFBCreate lib) (
      if CreatePrimary lib SingleBuffer \<noteq> 0 then Inl Fault else
      case GetSize lib of (err, xres, yres) \<Rightarrow>
      DFBCHECK lib err (
      res_bind (load_surface lib (if 1 < length argv then Some (argv ! 1) else None) (\<lambda>_. (xres, yres)) Background
        [Acq Super, Acq Primary]) (\<lambda>(background, tr).
        Inr (0, tr, Some background))))))"

section \<open>Correctness\<close>

text \<open>A library in which every call that is checked succeeds.\<close>

definition image_works :: "dfb_lib \<Rightarrow> string option \<Rightarrow> (int \<times> int \<Rightarrow> int \<times> int) \<Rightarrow> bool" where
  "image_works lib f resize \<longleftrightarrow> CreateImageProvider lib f = 0 \<and> fst (GetSurfaceDescription lib f) = 0 \<and>
     CreateSurface lib (resize (snd (GetSurfaceDescription lib f))) = 0 \<and> RenderTo lib f (resize (snd (GetSurfaceDescription lib f))) = 0"

lemma load_surface_works:
  "image_works lib f resize \<Longrightarrow> load_surface lib f resize obj tr
    = Inr (resize (snd (GetSurfaceDescription lib f)), tr @ [Acq Provider, Acq obj, Rel Provider])"
  by (cases "GetSurfaceDescription lib f") (simp add: load_surface_def image_works_def DFBCHECK_def Let_def)

lemma load_surface_no_fault: "load_surface lib f resize obj tr \<noteq> Inl Fault"
  by (simp add: load_surface_def DFBCHECK_def Let_def split: prod.split)

text \<open>What comes before the primary surface.\<close>

definition front_works :: "dfb_lib \<Rightarrow> string list \<Rightarrow> bool" where
  "front_works lib argv \<longleftrightarrow> fst (DirectFBInit lib argv) = 0 \<and> DirectFBCreate lib = 0 \<and>
     CreateInputEventBuffer lib = 0 \<and> GetDisplayLayer lib = 0"

text \<open>
  The start of \<open>df_andi\<close> has one way to crash: when the layer has no triple buffering and the primary
  surface cannot be created, the error is overlooked and the missing surface is used. Every other error
  ends the program with a message.
\<close>

theorem init_resources_faults:
  "init_resources lib datadir argv = Inl Fault \<longleftrightarrow>
    front_works lib argv \<and> \<not> TestConfiguration lib \<and> CreatePrimary lib DoubleBuffer \<noteq> 0"
  by (auto simp: init_resources_def create_primary_def front_works_def DFBCHECK_def halt_simps load_surface_no_fault Let_def
      split: prod.splits if_splits)

text \<open>All calls of the start succeed, on a screen of \<open>xres\<close> by \<open>yres\<close>; of the two kinds of primary surface
  only the one with two buffers has to exist.\<close>

definition start_works :: "dfb_lib \<Rightarrow> string \<Rightarrow> string list \<Rightarrow> int \<Rightarrow> int \<Rightarrow> bool" where
  "start_works lib datadir argv xres yres \<longleftrightarrow> front_works lib argv \<and> CreatePrimary lib DoubleBuffer = 0 \<and>
     GetSize lib = (0, xres, yres) \<and> CreateFont lib = 0 \<and> fst (GetHeight lib) = 0 \<and> SetFont lib = 0 \<and>
     image_works lib (Some (datadir @ ''/tux_alpha.png'')) (\<lambda>dsc. dsc) \<and> image_works lib (Some (datadir @ ''/tux.png'')) (\<lambda>dsc. dsc) \<and>
     image_works lib (Some (datadir @ ''/wood_andi.jpg'')) (\<lambda>_. (xres, yres)) \<and>
     image_works lib (Some (datadir @ ''/destination_mask.png'')) (\<lambda>dsc. dsc)"

lemma create_primary_works: "CreatePrimary lib DoubleBuffer = 0 \<Longrightarrow> \<exists>triple. create_primary lib = Inr (triple, True)"
  by (auto simp: create_primary_def DFBCHECK_def Let_def)

definition start_trace :: "dfb_object rev list" where
  "start_trace = [Acq Super, Acq KeyBuffer, Acq Layer, Rel Layer, Acq Primary, Acq Font, Acq Provider, Acq TuxImage, Rel Provider,
     Acq Provider, Acq Background, Rel Provider, Acq Provider, Acq DestinationMask, Rel Provider]"

lemma init_resources_works:
  assumes "start_works lib datadir argv xres yres"
  shows "\<exists>st. init_resources lib datadir argv = Inr st \<and> as_trace st = start_trace \<and> as_xres st = xres \<and> as_yres st = yres \<and>
    as_background st = (xres, yres) \<and> as_mask st = snd (GetSurfaceDescription lib (Some (datadir @ ''/destination_mask.png'')))"
proof -
  obtain argv' where i: "DirectFBInit lib argv = (0, argv')"
    using assms by (cases "DirectFBInit lib argv") (simp add: start_works_def front_works_def)
  obtain fh where h: "GetHeight lib = (0, fh)" using assms by (cases "GetHeight lib") (simp add: start_works_def)
  obtain triple where p: "create_primary lib = Inr (triple, True)" using assms create_primary_works [of lib] by (auto simp: start_works_def)
  show ?thesis using assms
    by (simp add: init_resources_def start_works_def front_works_def i h p load_surface_works DFBCHECK_def start_trace_def Let_def)
qed

text \<open>What the start acquires, the end releases.\<close>

lemma start_trace_balanced: "run_res (start_trace @ deinit_resources) {} = Some {}"
  by (simp add: start_trace_def deinit_resources_def insert_Diff_if)

text \<open>
  The viewer fills the screen: with a library in which every call succeeds and an image name among the arguments,
  it returns 0 after drawing the image in the size of the screen. It leaves the super interface and both surfaces
  to the end of the process. (Without any argument it returns 1 and touches nothing.)
\<close>

theorem fbview2_shows:
  assumes "length argv \<noteq> 1" and "DirectFBInit lib argv = (0, argv')" and "1 < length argv'" and "DirectFBCreate lib = 0"
    and "CreatePrimary lib SingleBuffer = 0" and "GetSize lib = (0, xres, yres)"
    and "image_works lib (Some (argv' ! 1)) (\<lambda>_. (xres, yres))"
  shows "\<exists>tr. fbview2_main lib argv = Inr (0, tr, Some (xres, yres)) \<and> run_res tr {} = Some {Super, Primary, Background}"
  using assms by (simp add: fbview2_main_def DFBCHECK_def load_surface_works insert_Diff_if insert_commute)

text \<open>A screen of 640 by 400 whose triple buffering is announced and fails, and images of two by one pixels.\<close>

definition small_dfb :: dfb_lib where
  "small_dfb = \<lparr>DirectFBErrorFatal = (\<lambda>e. e), DirectFBInit = (\<lambda>argv. (0, argv)), DirectFBCreate = 0, CreateInputEventBuffer = 0,
     GetDisplayLayer = 0, TestConfiguration = True, CreatePrimary = (\<lambda>b. if b = TripleBuffer then 11 else 0), GetSize = (0, 640, 400),
     CreateFont = 0, GetHeight = (0, 24), SetFont = 0, CreateImageProvider = (\<lambda>f. if f = None then 5 else 0),
     GetSurfaceDescription = (\<lambda>_. (0, 2, 1)), CreateSurface = (\<lambda>_. 0), RenderTo = (\<lambda>_ _. 0)\<rparr>"

theorem fbview2_shows_witness:
  "\<exists>tr. fbview2_main small_dfb [''fbview'', ''a.png''] = Inr (0, tr, Some (640, 400)) \<and> run_res tr {} = Some {Super, Primary, Background}"
  by (rule fbview2_shows [where argv' = "[''fbview'', ''a.png'']"]) (simp_all add: small_dfb_def image_works_def)

end
