(* ===== verification/Andi_Program.thy ===== *)
theory Andi_Program
  imports Penguins_Correct Directfb
begin

text \<open>
  The whole of \<open>patches/code/fbview2/df_andi.c\<close>: \<open>main\<close> with \<open>init_resources\<close> before and \<open>deinit_resources\<close> after
  the penguins. The size of the screen and of the mask are what DirectFB reports at the start.
\<close>

definition andi_program ::
  "dfb_lib \<Rightarrow> string \<Rightarrow> string list \<Rightarrow> (heap \<Rightarrow> nat option) \<Rightarrow> bool \<Rightarrow> bool \<Rightarrow> (nat \<Rightarrow> nat \<Rightarrow> 32 word) \<Rightarrow>
   (key_symbol \<Rightarrow> key_symbol) \<Rightarrow> key_event list list \<Rightarrow>
   (int \<times> (blit list list \<times> int) list \<times> penguin_list \<times> dfb_object rev list) res" where
  "andi_program lib datadir argv calloc malloc_ok lock_ok pixels lower events =
     res_bind (init_resources lib datadir argv) (\<lambda>st.
     res_bind (andi_main calloc malloc_ok lock_ok (as_xres st) (as_yres st) (nat (fst (as_mask st))) (nat (snd (as_mask st)))
         pixels lower events)
       (\<lambda>(ret, outs, s). Inr (ret, outs, s, as_trace st @ deinit_resources)))"

text \<open>
  C13. The whole of \<open>df_andi\<close> refines a program on a plain list of penguins (\<open>flock_pictures\<close>). When DirectFB answers every
  call that is checked, with any allocator that has memory, and whatever keys are pressed until one that quits, as
  long as a penguin is left in every round, it runs to its end and returns 42. In every round it draws exactly the
  picture of the reference: one sprite for each penguin, in the order of the list, where and as the moves so far have
  left it, each on the screen and from the sheet, in batches of at most 256; it shows their number, which is what the
  keys add and take away. All penguins are freed, and every DirectFB interface is created and released exactly once, the
  providers and the layer included, with or without triple buffering. (The mask must fit its array, and the screen
  has at most \<open>2 ^ 14\<close> pixels in each direction.)
\<close>

theorem andi_program_correct:
  assumes "start_works lib datadir argv xres yres" and "allocator calloc"
    and "40 \<le> xres" "60 \<le> yres" "xres \<le> 2 ^ 14" "yres \<le> 2 ^ 14"
    and "snd (GetSurfaceDescription lib (Some (datadir @ ''/destination_mask.png''))) = (int w, int h)"
    and "2 * length (black_points w h pixels) \<le> w * h" "w * h < 2 ^ 31"
    and "map (map (event_action lower)) events = rs @ keys # rest"
    and "KQuit \<in> set keys" "KQuit \<notin> set (concat rs)" "0 \<notin> set (pop_shown 200 (rs @ [keys]))"
  shows "\<exists>coords k outs s tr pics. read_destination_mask lock_ok w h pixels 0 = Inr (coords, k) \<and>
    andi_program lib datadir argv calloc True lock_ok pixels lower events = Inr (42, outs, s, tr) \<and>
    flock_pictures xres yres coords k (rs @ [keys]) (replicate 200 (new_penguin xres yres), rand_start) = Inr pics \<and>
    list_all2 (drawn_as xres yres) outs pics \<and> map snd outs = pop_shown 200 (rs @ [keys]) \<and> pheap s = (\<lambda>_. None) \<and>
    run_res tr {} = Some {}"
proof -
  obtain st where st: "init_resources lib datadir argv = Inr st" "as_trace st = start_trace" "as_xres st = xres"
    "as_yres st = yres" "as_mask st = (int w, int h)"
    using init_resources_works [OF assms(1)] assms(7) by auto
  obtain coords k outs s pics where m: "read_destination_mask lock_ok w h pixels 0 = Inr (coords, k)"
    "andi_main calloc True lock_ok xres yres w h pixels lower events = Inr (42, outs, s)"
    "flock_pictures xres yres coords k (rs @ [keys]) (replicate 200 (new_penguin xres yres), rand_start) = Inr pics"
    "list_all2 (drawn_as xres yres) outs pics" "map snd outs = pop_shown 200 (rs @ [keys])" "pheap s = (\<lambda>_. None)"
    using andi_main_runs [OF assms(2-6,8-13)] by blast
  have "andi_program lib datadir argv calloc True lock_ok pixels lower events = Inr (42, outs, s, start_trace @ deinit_resources)"
    using st m(2) by (simp add: andi_program_def)
  then show ?thesis using m(1,3-6) start_trace_balanced by blast
qed

text \<open>Keys as DirectFB reports them.\<close>

definition press :: "key_symbol \<Rightarrow> key_event" where
  "press k = \<lparr>evt_keypress = True, key_symbol = k\<rparr>"

definition sample_events :: "key_event list list" where
  "sample_events =
     [[press DIKS_CURSOR_UP, press DIKS_SPACE], [press DIKS_SMALL_D, press DIKS_SMALL_D, press DIKS_SMALL_R], [press DIKS_ESCAPE]]"

theorem andi_program_correct_witness:
  "\<exists>outs s tr pics. andi_program small_dfb ''d'' [''df_andi''] first_free True True (\<lambda>x y. of_nat x) (\<lambda>k. k) sample_events
      = Inr (42, outs, s, tr) \<and> list_all2 (drawn_as 640 400) outs pics \<and> map snd outs = [200, 210, 190] \<and>
    pheap s = (\<lambda>_. None) \<and> run_res tr {} = Some {}"
proof -
  have works: "start_works small_dfb ''d'' [''df_andi''] 640 400"
    by (simp add: start_works_def front_works_def image_works_def small_dfb_def)
  have mask: "snd (GetSurfaceDescription small_dfb (Some (''d'' @ ''/destination_mask.png''))) = (int 2, int 1)"
    by (simp add: small_dfb_def)
  have points: "2 * length (black_points 2 1 (\<lambda>x y. of_nat x)) \<le> 2 * 1" by (simp add: black_points_def black_def upt_rec)
  have keys: "map (map (event_action (\<lambda>k. k))) sample_events
      = [[KSpawn, KFormation], [KDestroy, KDestroy, KRevive]] @ [KQuit] # []"
    by (simp add: sample_events_def event_action_def press_def)
  from andi_program_correct [OF works first_free.allocator_axioms _ _ _ _ mask points _ keys, of True]
  show ?thesis by auto
qed

end
