(* ===== verification/Pascal.thy ===== *)
theory Pascal
  imports Prelude
begin

text \<open>
  Pascal's triangle, \<open>patches/code/pascal.c\<close>, and the greeting of \<open>patches/code/hello.c\<close>. The number \<open>scanf\<close> reads is an argument, \<open>None\<close> when it
  reads none and \<open>n\<close> is used without a value. A \<open>long\<close> has 32 bits on the machine the program runs on.
\<close>

definition hello_main :: "string \<times> int" where
  "hello_main = (''Hello world'' @ [CHR 0x0A], 0)"

definition factorial :: "int \<Rightarrow> int res" where
  "factorial n = fold_res (\<lambda>c r. c_int (r * c)) [1..n] 1"

definition pascal_entry :: "int \<Rightarrow> int \<Rightarrow> string res" where
  "pascal_entry i c =
     res_bind (factorial i) (\<lambda>a. res_bind (factorial c) (\<lambda>b. res_bind (factorial (i - c)) (\<lambda>d.
     res_bind (c_int (b * d)) (\<lambda>p. res_bind (c_div a p) (\<lambda>q. Inr (fmt_i q @ '' ''))))))"

definition pascal_row :: "int \<Rightarrow> int \<Rightarrow> string res" where
  "pascal_row n i =
     res_bind (concat_res (pascal_entry i) [0..i]) (\<lambda>s. Inr (concat (map (\<lambda>_. '' '') [0..n - i - 2]) @ s @ [CHR 0x0A]))"

definition pascal_main :: "int option \<Rightarrow> string res" where
  "pascal_main scanned =
     res_bind (opt_res scanned) (\<lambda>n. res_bind (concat_res (pascal_row n) [0..n - 1]) (\<lambda>s.
       Inr (''Enter the number of rows you wish to see in pascal triangle'' @ [CHR 0x0A] @ s)))"

lemma concat_res_map_Inr:
  "(\<And>x. x \<in> set xs \<Longrightarrow> f (h x) = Inr (g x)) \<Longrightarrow> concat_res f (map h xs) = Inr (concat (map g xs))"
  by (induction xs) auto

lemma upto_int: "[0..int n] = map int [0..<Suc n]" "[0..int n - 1] = map int [0..<n]"
proof -
  show *: "[0..int n] = map int [0..<Suc n]" for n
    by (induction n) (simp_all add: upto_rec2 add.commute)
  show "[0..int n - 1] = map int [0..<n]" by (cases n) (simp_all add: * del: upt_Suc)
qed

text \<open>12! is the last factorial that fits.\<close>

lemma c_int_fact: "0 \<le> v \<Longrightarrow> v \<le> fact 12 \<Longrightarrow> c_int v = Inr v"
  by (simp add: c_int_def fact_numeral)

lemma factorial_fact: "k \<le> 12 \<Longrightarrow> factorial (int k) = Inr (fact k)"
proof (induction k)
  case (Suc k)
  have "fact (Suc k) \<le> (fact 12 :: int)" using Suc.prems by (rule fact_mono)
  then have "c_int (fact (Suc k)) = Inr (fact (Suc k))" by (intro c_int_fact) (simp_all only: fact_ge_zero)
  then have "c_int (fact k * int (Suc k)) = Inr (fact (Suc k))" by (simp only: fact_Suc of_nat_Suc mult.commute)
  then show ?case using Suc by (simp add: factorial_def upto_rec2 fold_res_append add.commute)
qed (simp add: factorial_def)

lemma factorial_13: "factorial 13 = Inl Fault"
proof -
  have "[1..13 :: int] = [1..int 12] @ [13]" by (simp add: upto_rec2 [of 1 13])
  then have "factorial 13 = res_bind (factorial (int 12)) (fold_res (\<lambda>c r. c_int (r * c)) [13])"
    unfolding factorial_def by (simp only: fold_res_append)
  also have "\<dots> = Inl Fault" unfolding factorial_fact [OF order_refl] by (simp add: fact_numeral c_int_def)
  finally show ?thesis .
qed

lemma pascal_entry_binomial:
  assumes "i \<le> 12" and "c \<le> i"
  shows "pascal_entry (int i) (int c) = Inr (fmt_i (int (i choose c)) @ '' '')"
proof -
  define p where "p = (fact c * fact (i - c) :: int)"
  have f: "factorial (int i) = Inr (fact i)" "factorial (int c) = Inr (fact c)" "factorial (int i - int c) = Inr (fact (i - c))"
    using assms factorial_fact [of "i - c"] by (simp_all add: factorial_fact of_nat_diff)
  have p: "0 < p" "p \<le> fact i" "fact i \<le> (fact 12 :: int)"
    using fact_fact_dvd_fact [of c "i - c", where ?'a = int] assms unfolding p_def
    by (simp_all only: zero_less_mult_iff fact_gt_zero simp_thms fact_mono, simp add: zdvd_imp_le)
  have "p * int (i choose c) = fact i"
    using binomial_fact_lemma [OF assms(2)] unfolding p_def by (metis of_nat_fact of_nat_mult)
  then have "int (i choose c) = fact i div p" using p(1) by (metis nonzero_mult_div_cancel_left less_irrefl)
  moreover have "fact i div p \<le> fact i" using zdiv_mono2 [of "fact i" 1 p] p(1) by simp
  ultimately have q: "fact i sdiv p = fact i div p" "int (i choose c) = fact i div p" "0 \<le> fact i div p" "fact i div p \<le> fact i"
    using p(1) by (simp_all add: signed_divide_int_def sgn_1_pos pos_imp_zdiv_nonneg_iff)
  have "c_int p = Inr p" "c_int (fact i div p) = Inr (fact i div p)" using p q(3,4) by (intro c_int_fact; linarith)+
  then show ?thesis using p(1) q(1,2) by (simp add: pascal_entry_def f c_div_def p_def [symmetric])
qed

definition pascal_line :: "nat \<Rightarrow> nat \<Rightarrow> string" where
  "pascal_line n i = replicate (n - i - 1) CHR '' '' @ concat (map (\<lambda>c. fmt_i (int (i choose c)) @ '' '') [0..<Suc i]) @ [CHR 0x0A]"

lemma pascal_row_line:
  assumes "i \<le> 12" and "i < n"
  shows "pascal_row (int n) (int i) = Inr (pascal_line n i)"
proof -
  have "concat_res (pascal_entry (int i)) (map int [0..<Suc i]) = Inr (concat (map (\<lambda>c. fmt_i (int (i choose c)) @ '' '') [0..<Suc i]))"
    using pascal_entry_binomial [OF assms(1)] by (intro concat_res_map_Inr) (simp add: less_Suc_eq_le del: upt_Suc)
  moreover have "[0..int n - int i - 2] = map int [0..<n - i - 1]"
    using upto_int(2) [of "n - i - 1"] assms(2) by (simp add: of_nat_diff algebra_simps)
  then have "concat (map (\<lambda>_. '' '') [0..int n - int i - 2]) = replicate (n - i - 1) CHR '' ''"
    by (simp add: comp_def map_replicate_const concat_map_singleton)
  ultimately show ?thesis by (simp add: pascal_row_def upto_int(1) pascal_line_def del: upt_Suc)
qed

lemma pascal_row_13: "pascal_row n 13 = Inl Fault"
  by (simp add: pascal_row_def pascal_entry_def factorial_13 upto_rec1 [of 0 13])

lemma concat_res_fault:
  "(\<And>x. x \<in> set xs \<Longrightarrow> f x = Inr (g x)) \<Longrightarrow> f y = Inl h \<Longrightarrow> concat_res f (xs @ y # ys) = Inl h"
  by (induction xs) simp_all

text \<open>
  C40. Pascal's triangle: for up to 13 rows the program prints the binomial coefficients, each row
  indented by one column less than the one above it; for more rows \<open>factorial(13)\<close> overflows, although
  the entries of the next rows are small.
\<close>

theorem pascal_triangle:
  "pascal_main (Some n) =
    (if n \<le> 13 then Inr (''Enter the number of rows you wish to see in pascal triangle'' @ [CHR 0x0A] @
       concat (map (pascal_line (nat n)) [0..<nat n])) else Inl Fault)"
proof (cases "n \<le> 13")
  case True
  have rows: "[0..n - 1] = map int [0..<nat n]" using upto_int(2) [of "nat n"] by (cases "0 \<le> n") simp_all
  have "concat_res (pascal_row n) (map int [0..<nat n]) = Inr (concat (map (pascal_line (nat n)) [0..<nat n]))"
    using pascal_row_line [of _ "nat n"] True by (intro concat_res_map_Inr) (cases "0 \<le> n"; simp)
  then show ?thesis using True by (simp add: pascal_main_def rows)
next
  case False
  have "[0..n - 1] = map int [0..<13] @ 13 # [14..n - 1]"
    using False upto_int(2) [of 13] upto_split2 [of 0 13 "n - 1"] upto_rec2 [of 0 13] by simp
  moreover have "pascal_row n i = Inr (pascal_line (nat n) (nat i))" if "i \<in> set (map int [0..<13])" for i
    using that False pascal_row_line [of "nat i" "nat n"] by auto
  ultimately have "concat_res (pascal_row n) [0..n - 1] = Inl Fault"
    using concat_res_fault [of "map int [0..<13]" "pascal_row n" _ 13 Fault "[14..n - 1]"] pascal_row_13 by simp
  then show ?thesis using False by (simp add: pascal_main_def)
qed

end
