(* ===== verification/Fbdemo.thy ===== *)
theory Fbdemo
  imports Prelude
begin

text \<open>
  The plasma demo \<open>patches/code/fbdemo.c\<close>. \<open>Init\<close> opens and maps the frame buffer; the answers of the kernel
  are a record. The mapping is a list of 32-bit words, each of which holds two pixels of the screen of 640 by
  400, and \<open>fbp\<close> is a place in it. Arithmetic on \<open>color\<close> is that of \<open>unsigned int\<close>, and the final shift by 16
  is taken as the compiler does it, on 32 bits. \<open>main\<close> never returns: the model draws a given number of frames.
\<close>

unbundle bit_operations_syntax

section \<open>The code\<close>

datatype mapping_result = MapNull | MapFailed | Mapped "32 word list"

record fbdemo_env =
  fd_open :: int
  fd_fscreeninfo :: int
  fd_vscreeninfo :: int
  fd_mmap :: mapping_result

text \<open>\<open>MAP_FAILED\<close> is not \<open>NULL\<close>: it is returned as an address at which nothing may be accessed.\<close>

definition Init :: "fbdemo_env \<Rightarrow> 32 word list res" where
  "Init e =
     (if fd_open e = 0 then Inl (Exit 1)
      else if fd_fscreeninfo e \<noteq> 0 then Inl (Exit 1)
      else if fd_vscreeninfo e \<noteq> 0 then Inl (Exit 1)
      else case fd_mmap e of
        MapNull \<Rightarrow> Inl (Exit 1)
      | MapFailed \<Rightarrow> Inr []
      | Mapped fbmem \<Rightarrow> Inr fbmem)"

definition plasma_r :: "32 word \<Rightarrow> 32 word \<Rightarrow> 32 word \<Rightarrow> 32 word" where
  "plasma_r color i j = drop_bit 3 (((i + color) XOR (j + color)) + drop_bit 2 color) AND 0x1F"

definition plasma_g :: "32 word \<Rightarrow> 32 word \<Rightarrow> 32 word \<Rightarrow> 32 word" where
  "plasma_g color i j = drop_bit 2 ((i - color) AND (j + color)) AND 0x3F"

definition plasma_b :: "32 word \<Rightarrow> 32 word \<Rightarrow> 32 word \<Rightarrow> 32 word" where
  "plasma_b color i j = drop_bit 3 (((i - color) XOR NOT (j - color)) + drop_bit 2 color) AND 0x1F"

definition plasma :: "32 word \<Rightarrow> 32 word \<Rightarrow> 32 word \<Rightarrow> 32 word" where
  "plasma color i j =
     (let r = plasma_r color i j; g = plasma_g color i j; b = plasma_b color i j in
      r OR push_bit 5 g OR push_bit 11 b OR push_bit 16 (r OR push_bit 5 g OR push_bit 11 b))"

text \<open>One frame: the state of the loops is the mapping and the place of \<open>fbp\<close>.\<close>

definition fbdemo_step :: "32 word \<Rightarrow> nat \<Rightarrow> nat \<Rightarrow> 32 word list \<times> nat \<Rightarrow> (32 word list \<times> nat) res" where
  "fbdemo_step color j i = (\<lambda>(fbmem, fbp).
     res_bind (poke fbmem fbp (plasma color (of_nat i) (of_nat j))) (\<lambda>fbmem. Inr (fbmem, fbp + 1)))"

definition fbdemo_frame :: "32 word \<Rightarrow> 32 word list \<Rightarrow> 32 word list res" where
  "fbdemo_frame color fbmem =
     res_bind (fold_res (\<lambda>j. fold_res (fbdemo_step color j) (map (\<lambda>k. 2 * k) [0..<320])) [0..<400] (fbmem, 0))
       (\<lambda>(fbmem, fbp). Inr fbmem)"

fun fbdemo_loop :: "nat \<Rightarrow> 32 word \<Rightarrow> 32 word list \<Rightarrow> (32 word \<times> 32 word list) res" where
  "fbdemo_loop 0 color fbmem = Inr (color, fbmem)"
| "fbdemo_loop (Suc n) color fbmem = res_bind (fbdemo_frame color fbmem) (fbdemo_loop n (color + 1))"

definition fbdemo_main :: "fbdemo_env \<Rightarrow> nat \<Rightarrow> (32 word \<times> 32 word list) res" where
  "fbdemo_main e n = res_bind (Init e) (fbdemo_loop n 0)"

section \<open>Frames\<close>

text \<open>The places of a frame, row by row, as \<open>(j, i)\<close>.\<close>

definition places :: "(nat \<times> nat) list" where
  "places = concat (map (\<lambda>j. map (\<lambda>k. (j, 2 * k)) [0..<320]) [0..<400])"

lemma length_places: "length places = 128000"
  unfolding places_def by (simp only: length_concat map_map comp_def length_map length_upt sum_list_triv) simp

definition picture :: "32 word \<Rightarrow> 32 word list" where
  "picture color = map (\<lambda>(j, i). plasma color (of_nat i) (of_nat j)) places"

lemma length_picture: "length (picture color) = 128000"
  by (simp add: picture_def length_places)

lemma fbdemo_steps:
  "length ps \<le> length m \<Longrightarrow> fold_res (\<lambda>(j, i). fbdemo_step color j i) ps (m, 0)
    = Inr (over m 0 (map (\<lambda>(j, i). plasma color (of_nat i) (of_nat j)) ps), length ps)"
proof (induction ps rule: rev_induct)
  case (snoc p ps)
  then show ?case using poke_over [of 0 "map (\<lambda>(j, i). plasma color (of_nat i) (of_nat j)) ps" m]
    by (cases p) (simp add: fold_res_append fbdemo_step_def)
qed simp

lemma frame_places:
  "fold_res (\<lambda>j. fold_res (fbdemo_step color j) (map (\<lambda>k. 2 * k) [0..<320])) [0..<400] s
    = fold_res (\<lambda>(j, i). fbdemo_step color j i) places s"
  unfolding places_def fold_res_concat fold_res_map prod.case ..

lemma fbdemo_frame_picture:
  assumes "length m = 128000"
  shows "fbdemo_frame color m = Inr (picture color)"
proof -
  have "over m 0 (picture color) = picture color" using assms by (simp add: over_def length_picture)
  then show ?thesis unfolding fbdemo_frame_def frame_places
    using fbdemo_steps [of places m color] assms by (simp add: length_places picture_def)
qed

lemma fbdemo_loop_picture:
  assumes "length m = 128000"
  shows "fbdemo_loop (Suc n) color m = Inr (color + of_nat (Suc n), picture (color + of_nat n))"
  using assms
proof (induction n arbitrary: color m)
  case (Suc n)
  then show ?case
    using fbdemo_frame_picture [OF Suc.prems, of color] Suc.IH [of "picture color" "color + 1"] length_picture
    by (simp add: algebra_simps)
qed (simp add: fbdemo_frame_picture)

section \<open>The period\<close>

text \<open>Numbers that agree in their low bits.\<close>

definition same_low :: "nat \<Rightarrow> 32 word \<Rightarrow> 32 word \<Rightarrow> bool" where
  "same_low n a b \<longleftrightarrow> take_bit n a = take_bit n b"

lemma same_low_refl [simp]: "same_low n a a"
  by (simp add: same_low_def)

lemma take_bit_cong_arith:
  fixes a b c d :: int
  assumes "take_bit n a = take_bit n c" and "take_bit n b = take_bit n d"
  shows "take_bit n (a + b) = take_bit n (c + d)" "take_bit n (a - b) = take_bit n (c - d)"
  using assms take_bit_add [of n a b] take_bit_add [of n c d] take_bit_diff [of n a b] take_bit_diff [of n c d] by simp_all

lemma same_low_uint: "n \<le> 32 \<Longrightarrow> same_low n a b \<longleftrightarrow> take_bit n (uint a) = take_bit n (uint b)"
  unfolding same_low_def by transfer (simp add: min_absorb2)

lemma same_low_arith:
  assumes "n \<le> 32" and "same_low n a a'" and "same_low n b b'"
  shows "same_low n (a + b) (a' + b')" "same_low n (a - b) (a' - b')"
proof -
  have w: "take_bit n (uint (x + y)) = take_bit n (uint x + uint y)" "take_bit n (uint (x - y)) = take_bit n (uint x - uint y)"
    for x y :: "32 word"
    using assms(1) by (simp_all add: uint_word_arith_bintrs min_absorb1)
  show "same_low n (a + b) (a' + b')" "same_low n (a - b) (a' - b')"
    using assms(2,3) take_bit_cong_arith [of n "uint a" "uint a'" "uint b" "uint b'"]
    unfolding same_low_uint [OF assms(1)] w by simp_all
qed

lemma same_low_bits:
  assumes "same_low n a a'" and "same_low n b b'"
  shows "same_low n (a XOR b) (a' XOR b')" "same_low n (a AND b) (a' AND b')"
  using assms unfolding same_low_def by simp_all

lemma same_low_not: "same_low n b b' \<Longrightarrow> same_low n (NOT b) (NOT b')"
  using take_bit_not_take_bit [of n b] take_bit_not_take_bit [of n b'] unfolding same_low_def by simp

lemma same_low_mono: "same_low m a b \<Longrightarrow> n \<le> m \<Longrightarrow> same_low n a b"
  unfolding same_low_def by (metis min.absorb1 take_bit_take_bit)

lemma same_low_drop: "same_low (n + k) a b \<Longrightarrow> same_low n (drop_bit k a) (drop_bit k b)"
  by (simp add: same_low_def take_bit_drop_bit)

lemma same_field: "same_low (n + k) a b \<Longrightarrow> drop_bit k a AND mask n = drop_bit k b AND mask n"
  by (simp add: same_low_def take_bit_eq_mask [symmetric] take_bit_drop_bit)

lemma plasma_low:
  assumes "same_low 10 c d"
  shows "plasma c i j = plasma d i j"
proof -
  have m: "0x1F = (mask 5 :: 32 word)" "0x3F = (mask 6 :: 32 word)" by (simp_all add: mask_eq_exp_minus_1)
  have c: "same_low 8 c d" and q: "same_low 8 (drop_bit 2 c) (drop_bit 2 d)"
    using same_low_mono [OF assms, of 8] same_low_drop [of 8 2 c d] assms by simp_all
  note c = same_low_arith [OF _ same_low_refl c] and q = same_low_arith(1) [OF _ _ q]
  have "plasma_r c i j = plasma_r d i j" unfolding plasma_r_def m
    by (rule same_field, simp only: numeral_plus_numeral add_num_simps, intro q same_low_bits c) simp_all
  moreover have "plasma_g c i j = plasma_g d i j" unfolding plasma_g_def m
    by (rule same_field, simp only: numeral_plus_numeral add_num_simps, intro same_low_bits c) simp_all
  moreover have "plasma_b c i j = plasma_b d i j" unfolding plasma_b_def m
    by (rule same_field, simp only: numeral_plus_numeral add_num_simps, intro q same_low_bits same_low_not c) simp_all
  ultimately show ?thesis by (simp add: plasma_def)
qed

lemma picture_low: "same_low 10 c d \<Longrightarrow> picture c = picture d"
  by (simp add: picture_def plasma_low)

text \<open>
  C26. On a mapping of 640 * 400 * 2 bytes the demo never leaves the mapping, whatever the number of frames;
  frame \<open>n\<close> fills all of it with the picture of \<open>color = n\<close>, and the pictures repeat every 1024 frames.
\<close>

theorem fbdemo_frames:
  assumes "fd_open e \<noteq> 0" and "fd_fscreeninfo e = 0" and "fd_vscreeninfo e = 0"
    and "fd_mmap e = Mapped m" and "length m = 640 * 400 * 2 div 4"
  shows "fbdemo_main e (Suc n) = Inr (of_nat (Suc n), picture (of_nat n)) \<and>
    length (picture (of_nat n)) = length m \<and> picture (of_nat (n + 1024)) = picture (of_nat n)"
proof -
  have "same_low 10 (of_nat (n + 1024)) (of_nat n)"
    using same_low_arith(1) [of 10 "of_nat n" "of_nat n" 1024 0] by (simp add: same_low_def)
  then show ?thesis
    using assms fbdemo_loop_picture [of m n 0] by (simp add: fbdemo_main_def Init_def length_picture picture_low del: fbdemo_loop.simps)
qed

theorem fbdemo_frames_witness:
  "\<exists>m. fbdemo_main \<lparr>fd_open = 3, fd_fscreeninfo = 0, fd_vscreeninfo = 0, fd_mmap = Mapped (replicate 128000 0)\<rparr> 1 = Inr (1, m) \<and>
     m = picture 1024"
proof -
  have "fbdemo_main \<lparr>fd_open = 3, fd_fscreeninfo = 0, fd_vscreeninfo = 0, fd_mmap = Mapped (replicate 128000 0)\<rparr> (Suc 0)
      = Inr (of_nat (Suc 0), picture (of_nat 0)) \<and> length (picture (of_nat 0)) = length (replicate 128000 (0 :: 32 word)) \<and>
      picture (of_nat (0 + 1024)) = picture (of_nat 0)"
    by (rule fbdemo_frames) (simp only: fbdemo_env.simps length_replicate; simp)+
  then show ?thesis by simp
qed

text \<open>A failed mapping passes the test for \<open>NULL\<close>, and the first store faults.\<close>

lemma fbdemo_map_failed:
  assumes "fd_open e \<noteq> 0" and "fd_fscreeninfo e = 0" and "fd_vscreeninfo e = 0" and "fd_mmap e = MapFailed"
  shows "fbdemo_main e (Suc n) = Inl Fault"
proof -
  have "fbdemo_frame 0 [] = Inl Fault"
    unfolding fbdemo_frame_def by (simp add: upt_conv_Cons fbdemo_step_def poke_def del: upt_rec_numeral)
  then show ?thesis using assms by (simp add: fbdemo_main_def Init_def)
qed

end
