(* ===== verification/Spec2Isabelle.thy ===== *)
theory Spec2Isabelle
  imports Fs_Main Fs_Strings Snd_Module Snd_Proc Kbd Virt_Snd Fbview_Scale Fb_Device Png Gpm Yuv_Planes Getconf_Correct Mke2img_Correct
    Starfield_Main Andi_Program Pascal Fbdemo
begin

text \<open>
  \<^bold>\<open>What is verified.\<close> The repository builds a Linux system for a simulated OpenRISC machine that
  boots in a web browser. Its own C code is in four groups, which share no memory and meet only through
  files, the kernel and the frame buffer device:

  \<^item> \<open>tools/fs2xml.c\<close> reads tar archives, merges their entries into one table of inodes, and writes
    the tree of files to disk, with an XML and a JSON description the browser loads;
  \<^item> \<open>tools/mke2img.c\<close> copies a directory tree of the host into an ext2 image;
  \<^item> \<open>patches/linux\<close> holds the drivers of the simulated devices: \<open>dummy_sound.c\<close> (a sound card whose
    clock is the system timer), \<open>fsi.c\<close> (a sound card with a DMA engine), \<open>opencores-kbd.c\<close>;
  \<^item> \<open>patches/code\<close> holds programs that run inside: the image viewers \<open>fbview\<close> and \<open>fbview2/fbview\<close>, \<open>getconf\<close>, and the
    demos \<open>starfield\<close>, \<open>fbview2/df_andi\<close>, \<open>fbdemo\<close>, \<open>pascal\<close> and \<open>hello\<close>.

  \<^bold>\<open>Conventions\<close> (theory \<open>Prelude\<close>). A C function is a function of HOL with its state passed and
  returned. \<open>halt + 'a\<close> is the result of one that may stop early: \<open>Fault\<close> is an access outside an object
  or the use of a dead handle, \<open>Exit\<close> a call of \<open>exit\<close> with its code, and \<open>Diverges\<close> says that a loop had
  not ended when its fuel was used up. Integers have the width of the source wherever they can overflow
  (\<open>32 word\<close>, \<open>16 word\<close>, \<open>8 word\<close>); a C string is a list of characters and the bytes of a file or pixmap
  are a list. What a program asks of the kernel is an argument (the answers) and a list in the result (the
  calls, in order); messages that are only printed are left out. Locks are not modelled: each driver
  function runs as one atomic step, as the spin locks make it do.

  \<^bold>\<open>fs2xml.\<close> \<open>Tar_Header\<close> has the packed \<open>struct posix_header\<close>, its \<open>sscanf\<close> readers and
  \<open>decompress\<close>; \<open>Inode_Table\<close> has \<open>struct inode\<close>, \<open>Split\<close>, \<open>SearchInode\<close> and \<open>MergeFile\<close>, the array
  \<open>inodes[0..ninodes-1]\<close> being a list; \<open>Tar_Archive\<close> has the loop of \<open>Untar\<close>; \<open>Fs_Paths\<close> the two path
  functions with their 1024-byte buffers; \<open>Fs_Render\<close> the XML and JSON output; \<open>Fs_Walk\<close> the creation of
  the files and \<open>main\<close>. \<open>Inode_Store\<close> states what the table promises as the locale \<open>path_store\<close> (what a
  lookup returns after an insertion, and that \<open>wf_inodes\<close> is kept), interpreted on the table as
  \<open>inodes\<close>; \<open>Inode_Merge\<close> shows on top of it that \<open>MergeFile\<close> is an insertion of a path, that it appends one inode
  with the header's attributes or leaves the table as it is, and that it keeps the table well-formed. \<open>Tar_Format\<close> is a ustar writer, the reference for \<open>Tar_Correct\<close>: unpacking a
  written archive is merging its entries one by one. \<open>Fs_Paths\<close> has the locale \<open>parent_table\<close>,
  interpreted as \<open>ptable\<close>: chains of parents end at the root, so the path loops end.
  \<open>Fs_Render_Correct\<close> refines both outputs to the tree the table describes, in which every inode
  occurs once; \<open>Fs_Walk_Correct\<close> describes all operations on the host's files; \<open>Fs_Main\<close> composes them; \<open>Fs_Strings\<close> has the
  two functions that shift a string in its buffer.
  Fuel: the path loops get \<open>length tbl + 2\<close> rounds and the tree walks \<open>length tbl + 1\<close> levels, and it is
  proved that on well-formed tables this is enough; \<open>Untar\<close> gets one unit per block of the archive,
  which is proved enough when no block with the magic of a header has a negative size, and a negative size is
  proved to run for ever with any fuel.

  \<^bold>\<open>mke2img.\<close> \<open>Mke2img\<close> has \<open>trawl_dir\<close> and \<open>main\<close>; the ext2 library is a record of functions on an
  abstract image, the host's directory a finite tree of what \<open>readdir\<close>, \<open>stat\<close> and \<open>read\<close> report, and the
  inode has the widths of \<open>struct ext2_inode\<close>. \<open>Mke2img_Correct\<close> shows for a library that behaves as documented,
  on an image with enough free inodes and blocks, that the image mirrors the tree, with the retry after
  \<open>ext2fs_expand_dir\<close>, and what happens after a failed write; a library in memory meets all its hypotheses.

  \<^bold>\<open>Drivers.\<close> \<open>Snd_Timer\<close> has the system timer on 32-bit words, \<open>Snd_Pcm\<close> the PCM operations,
  \<open>Snd_Mixer\<close> the controls, \<open>Snd_Proc\<close> the proc file, \<open>Snd_Card\<close> the six card models with probe and power
  management, \<open>Snd_Module\<close> the module's entry and exit, \<open>Virt_Snd\<close> and \<open>Kbd\<close> the other two drivers.
  \<open>Snd_Clock\<close> proves that the timer is an exact clock over any sequence of updates within its bounds;
  \<open>Snd_Stream\<close> states the contract of \<open>struct dummy_timer_ops\<close> as the locale \<open>timer_ops\<close>, interpreted
  on the system timer as \<open>systimer\<close>, and proves the positions of a stream from it. \<open>Snd_Mixer\<close> has the
  locale \<open>stereo_control\<close>, interpreted on the volume and the capture switch. The input layer the keyboard reports to
  is a parameter of \<open>Kbd\<close>, of which it is only assumed that it honours the key bits the driver announced.
  \<open>Resources\<close> replays acquisitions and releases; its locale \<open>resource_driver\<close>, whose last parameter is what a start
  leaves behind for ever, is interpreted on all three drivers, on the frame buffer (\<open>Fb_Device\<close>) and on the mouse, and
  the property below rests on the five interpretations.

  \<^bold>\<open>fbview.\<close> \<open>Fb_Pixel\<close> has the pixel formats and the locale \<open>pixel_codec\<close>, interpreted on the one- and
  two-byte modes (the three- and four-byte modes break its law: they read other bytes than they write);
  \<open>Fb_Grid\<close> fills a pixmap row by row on top of it; \<open>Fb_Pixmap\<close> has the rotation, \<open>Fb_Screen\<close> palettes,
  the device and rendering, \<open>Fb_Device\<close> what the device holds; \<open>Bmp\<close> the BMP codec with \<open>Bmp_Correct\<close> (saving and loading give the image
  back) and \<open>Bmp_Safe\<close> (any file); \<open>Jpeg\<close> the JPEG reader over a library that is a parameter; \<open>Bitmap\<close> the
  interactive viewer, whose loop runs over the keys pressed and whose globals \<open>position_x\<close> and \<open>position_y\<close> are
  passed in and out, with what a position left by a larger image does; \<open>Fbview\<close> the command line and \<open>main\<close>, with the
  composition of command line, decoder and screen. \<open>C_Float\<close> is the floating point of C: numbers are
  rationals, infinities and NaN, and every operation rounds to nearest even in the 24 (\<open>float\<close>) or 53
  (\<open>double\<close>) bits of IEEE 754; the locale \<open>float_rounding\<close> (rounding is monotone, keeps the numbers of the
  format and gives one of them) is interpreted on both formats, and \<open>scaling\<close> extends it by what bilinear
  scaling needs. \<open>C_Atof\<close> reads numbers; \<open>Fb_Scale\<close> has \<open>fb_pixmap_scale\<close>, and \<open>Fb_Scale_Correct\<close> that no scale
  leaves the images, that each channel stays between its neighbours and that whole factors keep the old
  pixels; \<open>Fbview_Scale\<close> that \<open>--autoscale\<close> fits the screen and which scale of the help is refused. The parts that are
  in the directory but not compiled in are modelled too: \<open>Png\<close> the PNG reader, with a library that is a
  parameter, what it releases on every path and that grey images are read past their rows; \<open>Gpm\<close> the mouse,
  whose connection is one more \<open>resource_driver\<close> and whose position is proved to be in the unit square in spite of
  rounding; \<open>Yuv\<close> the YUV conversion with tables computed in \<open>float\<close>, proved never to wrap around, and
  \<open>Yuv_Planes\<close> the planes it leaves and that odd heights read outside.

  \<^bold>\<open>getconf.\<close> \<open>Getconf\<close> has the table, the five handlers and \<open>main\<close>; the values of the system's macros
  and the answers of \<open>sysconf\<close>, \<open>confstr\<close> and \<open>pathconf\<close> are parameters. \<open>Getconf_Correct\<close> shows what a
  query answers on every branch, and that the list of all variables agrees with the single queries.

  \<^bold>\<open>starfield.\<close> \<open>Fader\<close> has the sweep that darkens the screen in place, with what a pixel becomes and that everything
  fades to black; \<open>Starfield\<close> the stars and the palette, \<open>Starfield_Correct\<close> that frames of live stars stay inside the
  field, and that the first frame after \<open>init_starfield\<close> divides by zero; \<open>update_star\<close> replaces a star by calling
  itself, and has two units of fuel or more, which is proved enough on screens of at least 262 by 262.
  \<open>Starfield_Threads\<close> has the main loop, the four workers and their semaphores as a step relation, with an invariant
  by rule induction, freedom from deadlock and shutdown after the signal; \<open>Starfield_Main\<close> the start and the parts of
  the screen the workers sweep.

  \<^bold>\<open>df_andi.\<close> \<open>Penguins\<close> has the program: the linked list of penguins on an explicit heap, their movement and
  animation, formations, drawing in batches, keys and the main loop. \<open>Penguin_List\<close> reads the list off the heap and
  shows that it is a queue: the locale \<open>fifo\<close> is what the program relies on, \<open>allocator\<close> what \<open>calloc\<close> promises, and a
  \<open>sublocale\<close> proves the first from the second for the code's list. \<open>Penguins_Correct\<close> has a reference program on a plain
  list of penguins (\<open>flock_pictures\<close>) that the main loop refines picture by picture, that drawing nobody is undefined, and
  how a penguin reaches its place in a formation, aimed at in \<open>float\<close>, and what reading the mask does. Loops over the list have one unit of fuel per
  penguin and one for the end, which the invariant makes enough. \<open>Directfb\<close> has the start and the end of the program and the
  viewer \<open>fbview2/fbview.c\<close>, over a record of DirectFB's answers; \<open>Andi_Program\<close> is the whole program, from the events of
  the key buffer to the pictures, with every interface released once.

  \<^bold>\<open>Small programs.\<close> \<open>Pascal\<close> has \<open>pascal.c\<close> and \<open>hello.c\<close>: the triangle of binomial coefficients, and where 32 bits end.
  \<open>Fbdemo\<close> has \<open>fbdemo.c\<close>: its endless loop draws a number of frames that is an argument, and any number stays
  inside the mapping; the pictures repeat every 1024 frames.

  \<^bold>\<open>Not modelled.\<close> The bodies of bzip2, libjpeg, libpng, libgpm, libext2fs, DirectFB, ALSA and the kernel, which
  are parameters; the obfuscated programs \<open>sloane\<close> and \<open>eastman\<close>, whose output depends on \<open>sin\<close>, \<open>cos\<close> and \<open>sqrt\<close> of the C
  library; the tables that only name a driver's functions to the kernel; build scripts and patches of other packages.
\<close>

section \<open>Properties that span components\<close>








end
